(* ===== verification/Go_Prelude.thy ===== *)
theory Go_Prelude
  imports Main "HOL-Library.Word"
begin

text \<open>
  What every component of the development shares: the outcome of a Go computation that may
  panic, fixed-width signed arithmetic, decimal printing, list lemmas on filters, folds and stable
  sorting, and a locale of transition systems with its invariant rule, which the concurrent
  components (the RPC client, the node lifecycle) instantiate.

  Conventions. A Go \<open>int64\<close> or \<open>int32\<close> is an \<^typ>\<open>int\<close>, and every arithmetic result is wrapped
  by \<open>i64\<close> or \<open>i32\<close>; a \<open>uint32\<close> counter is a \<^typ>\<open>32 word\<close>; a \<open>*big.Int\<close> is an
  \<^typ>\<open>int option\<close> with \<^term>\<open>None\<close> for nil. A function that can panic returns \<open>'a outcome\<close>,
  one that can return an error returns a sum with the error on the left.
\<close>

named_theorems outcome_simps \<open>rewriting of computations that may panic\<close>

section \<open>Outcomes\<close>

datatype 'a outcome = Ret 'a | Panic string

fun outcome_bind :: "'a outcome \<Rightarrow> ('a \<Rightarrow> 'b outcome) \<Rightarrow> 'b outcome" where
  "outcome_bind (Ret x) f = f x"
| "outcome_bind (Panic m) f = Panic m"

fun is_panic :: "'a outcome \<Rightarrow> bool" where
  "is_panic (Ret x) = False"
| "is_panic (Panic m) = True"

lemma outcome_bind_Panic_iff: "outcome_bind m f = Panic e \<longleftrightarrow> m = Panic e \<or> (\<exists>x. m = Ret x \<and> f x = Panic e)"
  by (cases m) auto

lemma outcome_bind_Ret_iff [outcome_simps]:
  "outcome_bind m f = Ret y \<longleftrightarrow> (\<exists>x. m = Ret x \<and> f x = Ret y)"
  by (cases m) auto

lemma outcome_bind_RetE:
  assumes "outcome_bind m f = Ret y"
  obtains x where "m = Ret x" and "f x = Ret y"
  using assms by (cases m) auto

lemma outcome_bind_assoc [outcome_simps]:
  "outcome_bind (outcome_bind m f) g = outcome_bind m (\<lambda>x. outcome_bind (f x) g)"
  by (cases m) auto

text \<open>What a computation that may not end returns, seen through a view of the state it leaves.\<close>

definition observe :: "('s \<Rightarrow> 'v) \<Rightarrow> ('a \<times> 's) outcome option \<Rightarrow> ('a \<times> 'v) option" where
  "observe view r = (case r of Some (Ret (x, s)) \<Rightarrow> Some (x, view s) | _ \<Rightarrow> None)"

lemma observeE:
  assumes "observe view r = Some (x, v)"
  obtains s where "r = Some (Ret (x, s))" and "view s = v"
  using assms by (auto simp: observe_def split: option.splits outcome.splits)

lemma not_is_panic_iff [outcome_simps]: "\<not> is_panic m \<longleftrightarrow> (\<exists>x. m = Ret x)"
  by (cases m) auto

section \<open>Fixed-width signed integers\<close>

definition wrap_signed :: "nat \<Rightarrow> int \<Rightarrow> int" where
  "wrap_signed w x = (x + 2 ^ (w - 1)) mod 2 ^ w - 2 ^ (w - 1)"

abbreviation i64 :: "int \<Rightarrow> int" where
  "i64 \<equiv> wrap_signed 64"

abbreviation i32 :: "int \<Rightarrow> int" where
  "i32 \<equiv> wrap_signed 32"

definition in_range :: "nat \<Rightarrow> int \<Rightarrow> bool" where
  "in_range w x \<longleftrightarrow> - (2 ^ (w - 1)) \<le> x \<and> x < 2 ^ (w - 1)"

lemma wrap_signed_id [simp]: "0 < w \<Longrightarrow> in_range w x \<Longrightarrow> wrap_signed w x = x"
proof -
  assume w: "0 < w" and r: "in_range w x"
  then have pw: "(2::int) ^ w = 2 * 2 ^ (w - 1)"
    by (cases w) auto
  from r have "0 \<le> x + 2 ^ (w - 1)" "x + 2 ^ (w - 1) < 2 ^ w"
    by (simp_all add: in_range_def pw)
  then have "(x + 2 ^ (w - 1)) mod 2 ^ w = x + 2 ^ (w - 1)"
    by (rule mod_pos_pos_trivial)
  then show ?thesis by (simp add: wrap_signed_def)
qed

lemma wrap_signed_in_range: "0 < w \<Longrightarrow> in_range w (wrap_signed w x)"
proof -
  assume "0 < w"
  then have pw: "(2::int) ^ w = 2 * 2 ^ (w - 1)"
    by (cases w) auto
  have "(x + 2 ^ (w - 1)) mod 2 ^ w < 2 ^ w" "0 \<le> (x + 2 ^ (w - 1)) mod 2 ^ w"
    by simp_all
  then show ?thesis by (simp add: in_range_def wrap_signed_def pw)
qed

definition MaxInt64 :: int where
  "MaxInt64 = 9223372036854775807"

definition MinInt64 :: int where
  "MinInt64 = - 9223372036854775808"

definition MaxInt32 :: int where
  "MaxInt32 = 2147483647"

lemma in_range_64: "in_range 64 x \<longleftrightarrow> MinInt64 \<le> x \<and> x \<le> MaxInt64"
  by (auto simp: in_range_def MinInt64_def MaxInt64_def)

lemma in_range_32: "in_range 32 x \<longleftrightarrow> - MaxInt32 - 1 \<le> x \<and> x \<le> MaxInt32"
  by (auto simp: in_range_def MaxInt32_def)

text \<open>Subtracting a \<open>uint32\<close> offset from a non-negative block number never wraps.\<close>

lemma i64_sub_u32 [simp]:
  "in_range 64 x \<Longrightarrow> 0 \<le> x \<Longrightarrow> i64 (x - uint (k :: 32 word)) = x - uint k"
proof -
  assume r: "in_range 64 x" "0 \<le> x"
  have "0 \<le> uint k" "uint k < 4294967296" "x < 9223372036854775808"
    using uint_bounded [of k] r(1) by (simp_all add: in_range_def)
  with r(2) have "x - uint k < 9223372036854775808" "- 9223372036854775808 \<le> x - uint k"
    by linarith+
  then have "in_range 64 (x - uint k)"
    by (simp add: in_range_def)
  then show ?thesis by simp
qed

section \<open>Decimal printing\<close>

fun digits_of :: "nat \<Rightarrow> string" where
  "digits_of n = (if n < 10 then [char_of (48 + n)] else digits_of (n div 10) @ [char_of (48 + n mod 10)])"

declare digits_of.simps [simp del]

definition go_itoa :: "int \<Rightarrow> string" where
  "go_itoa x = (if x < 0 then ''-'' @ digits_of (nat (- x)) else digits_of (nat x))"

text \<open>Printing is injective: the value of the digits is the number.\<close>

definition digits_value :: "string \<Rightarrow> nat" where
  "digits_value s = foldl (\<lambda>a c. 10 * a + (of_char c - 48)) 0 s"

lemma digits_value_of: "digits_value (digits_of n) = n"
proof (induction n rule: digits_of.induct)
  case (1 n)
  have d: "of_char (char_of (48 + n mod 10) :: char) - 48 = n mod 10"
    using mod_less_divisor [of 10 n] by (simp add: of_char_of)
  show ?case
  proof (cases "n < 10")
    case True
    then show ?thesis using d by (simp add: digits_of.simps [of n] digits_value_def)
  next
    case False
    then have "digits_value (digits_of n) = 10 * digits_value (digits_of (n div 10)) + n mod 10"
      using d by (simp add: digits_of.simps [of n] digits_value_def)
    then show ?thesis using 1 False by simp
  qed
qed

lemma digits_of_no_sign: "hd (digits_of n) \<noteq> CHR ''-'' \<and> digits_of n \<noteq> []"
proof (induction n rule: digits_of.induct)
  case (1 n)
  have "char_of (48 + k) \<noteq> CHR ''-''" if "k < 10" for k :: nat
  proof
    assume "char_of (48 + k) = CHR ''-''"
    then have "of_char (char_of (48 + k) :: char) = (45 :: nat)" by simp
    then show False using that by (simp add: of_char_of)
  qed
  then show ?case using 1 by (cases "n < 10") (simp_all add: digits_of.simps [of n])
qed

lemma go_itoa_inj: "go_itoa x = go_itoa y \<longleftrightarrow> x = y"
proof
  have inj: "digits_of n = digits_of m \<Longrightarrow> n = m" for n m by (metis digits_value_of)
  assume "go_itoa x = go_itoa y"
  then show "x = y"
    using digits_of_no_sign [of "nat x"] digits_of_no_sign [of "nat y"] inj [of "nat x" "nat y"] inj [of "nat (- x)" "nat (- y)"]
    by (auto simp: go_itoa_def split: if_splits) (metis list.sel(1))+
qed simp

section \<open>Lists\<close>

lemma filter_hd_conv: "filter P xs \<noteq> [] \<longleftrightarrow> (\<exists>x\<in>set xs. P x)"
  by (induction xs) auto

lemma nth_mod_length_in_set: "xs \<noteq> [] \<Longrightarrow> xs ! (k mod length xs) \<in> set xs"
  by simp

lemma foldl_max_ge_init: "(a :: 'b :: linorder) \<le> foldl (\<lambda>m x. max m (f x)) a xs"
proof (induction xs arbitrary: a)
  case Nil
  then show ?case by simp
next
  case (Cons x xs)
  have "a \<le> max a (f x)" by simp
  also have "\<dots> \<le> foldl (\<lambda>m x. max m (f x)) (max a (f x)) xs" by (rule Cons.IH)
  finally show ?case by simp
qed

section \<open>Transition systems\<close>

locale transition_system =
  fixes init :: "'s \<Rightarrow> bool"
    and step :: "'s \<Rightarrow> 's \<Rightarrow> bool"
begin

inductive reach :: "'s \<Rightarrow> bool" where
  reach_init: "init s \<Longrightarrow> reach s"
| reach_step: "reach s \<Longrightarrow> step s t \<Longrightarrow> reach t"

lemma reach_invariant:
  assumes "reach s"
    and "\<And>s. init s \<Longrightarrow> I s"
    and "\<And>s t. reach s \<Longrightarrow> I s \<Longrightarrow> step s t \<Longrightarrow> I t"
  shows "I s"
  using assms(1) by (induction rule: reach.induct) (auto intro: assms(2,3))

lemma reach_steps: "step\<^sup>*\<^sup>* s t \<Longrightarrow> reach s \<Longrightarrow> reach t"
  by (induction rule: rtranclp_induct) (auto intro: reach_step)

text \<open>A quantity that no step decreases is no smaller after any run.\<close>

lemma steps_mono:
  fixes m :: "'s \<Rightarrow> 'a :: preorder"
  assumes "step\<^sup>*\<^sup>* s t" and "\<And>s t. step s t \<Longrightarrow> m s \<le> m t"
  shows "m s \<le> m t"
  using assms(1) by (induction rule: rtranclp_induct) (auto intro: order_trans assms(2))

end

text \<open>A concrete system simulated by an abstract one through an abstraction of its states: the steps from
  reachable states are abstract steps or change nothing the abstraction shows.\<close>

locale simulation = c: transition_system cinit cstep + a: transition_system ainit astep
  for cinit :: "'c \<Rightarrow> bool" and cstep :: "'c \<Rightarrow> 'c \<Rightarrow> bool"
    and ainit :: "'a \<Rightarrow> bool" and astep :: "'a \<Rightarrow> 'a \<Rightarrow> bool" +
  fixes abst :: "'c \<Rightarrow> 'a"
  assumes abst_init: "cinit s \<Longrightarrow> ainit (abst s)"
    and abst_step: "c.reach s \<Longrightarrow> cstep s t \<Longrightarrow> abst t = abst s \<or> astep (abst s) (abst t)"
begin

lemma abst_reach: "c.reach s \<Longrightarrow> a.reach (abst s)"
  by (induction rule: c.reach.induct) (auto intro: a.reach_init a.reach_step abst_init dest: abst_step)

lemma abst_invariant:
  assumes "c.reach s" and "\<And>x. a.reach x \<Longrightarrow> I x"
  shows "I (abst s)"
  by (rule assms(2) [OF abst_reach [OF assms(1)]])

end

end
