(* ===== verification/Chain_Info.thy ===== *)
theory Chain_Info
  imports Go_Prelude
begin

unbundle bit_operations_syntax

text \<open>
  The shared data of package \<open>multinode\<close>: \<open>ChainInfo\<close> and \<open>MaxTotalDifficulty\<close>
  (\<open>types.go\<close>), the return codes of a transaction broadcast and the synchronisation status bit
  mask (\<open>models.go\<close>), and the part of the \<open>Head\<close> interface the health checks read.
  \<open>MaxTotalDifficulty\<close> is shown to be a semilattice with nil as neutral element, so that the
  pool-wide maxima of \<open>multi_node.go\<close> do not depend on the order of the nodes.
\<close>

section \<open>Chain information\<close>

record chain_info =
  BlockNumber :: int
  FinalizedBlockNumber :: int
  TotalDifficulty :: "int option"

record head =
  head_BlockNumber :: int
  head_TotalDifficulty :: "int option"
  head_IsValid :: bool

text \<open>The zero value \<open>ChainInfo{}\<close>, and the one the pool aggregation starts from.\<close>

definition chain_info_zero :: chain_info where
  "chain_info_zero = \<lparr>BlockNumber = 0, FinalizedBlockNumber = 0, TotalDifficulty = None\<rparr>"

definition MaxTotalDifficulty :: "int option \<Rightarrow> int option \<Rightarrow> int option" where
  "MaxTotalDifficulty a b =
     (case a of
        None \<Rightarrow> (case b of None \<Rightarrow> None | Some y \<Rightarrow> Some y)
      | Some x \<Rightarrow>
          (case b of
             None \<Rightarrow> Some x
           | Some y \<Rightarrow> if y \<le> x then Some x else Some y))"

text \<open>Nil is below every difficulty; the order is the one \<open>MaxTotalDifficulty\<close> is the join of.\<close>

definition td_le :: "int option \<Rightarrow> int option \<Rightarrow> bool" where
  "td_le a b \<longleftrightarrow> MaxTotalDifficulty a b = b"

text \<open>One node's information folded into the pool's (the body of the loops of
  \<open>LatestChainInfo\<close> and \<open>HighestUserObservations\<close>).\<close>

definition chain_info_max :: "chain_info \<Rightarrow> chain_info \<Rightarrow> chain_info" where
  "chain_info_max ch i =
     \<lparr>BlockNumber = max (BlockNumber ch) (BlockNumber i),
      FinalizedBlockNumber = max (FinalizedBlockNumber ch) (FinalizedBlockNumber i),
      TotalDifficulty = MaxTotalDifficulty (TotalDifficulty ch) (TotalDifficulty i)\<rparr>"

definition ci_le :: "chain_info \<Rightarrow> chain_info \<Rightarrow> bool" where
  "ci_le a b \<longleftrightarrow>
     BlockNumber a \<le> BlockNumber b \<and> FinalizedBlockNumber a \<le> FinalizedBlockNumber b \<and>
     td_le (TotalDifficulty a) (TotalDifficulty b)"

section \<open>Return codes of a broadcast\<close>

text \<open>
  \<open>SendTxReturnCode\<close> is a Go \<open>int\<close>; \<open>CodeNum\<close> stands for the values with no name, among them the
  zero value that a receive from a closed channel yields.
\<close>

datatype SendTxReturnCode =
    Successful | Fatal | Retryable | Underpriced | Unknown | Unsupported
  | TransactionAlreadyKnown | InsufficientFunds | ExceedsMaxFee | FeeOutOfValidRange
  | TerminallyStuck | CodeNum int

definition sendTxSevereErrors :: "SendTxReturnCode list" where
  "sendTxSevereErrors = [Fatal, Underpriced, Unsupported, ExceedsMaxFee, FeeOutOfValidRange, Unknown]"

definition sendTxSuccessfulCodes :: "SendTxReturnCode list" where
  "sendTxSuccessfulCodes = [Successful, TransactionAlreadyKnown]"

fun SendTxReturnCode_String :: "SendTxReturnCode \<Rightarrow> string" where
  "SendTxReturnCode_String Successful = ''Successful''"
| "SendTxReturnCode_String Fatal = ''Fatal''"
| "SendTxReturnCode_String Retryable = ''Retryable''"
| "SendTxReturnCode_String Underpriced = ''Underpriced''"
| "SendTxReturnCode_String Unknown = ''Unknown''"
| "SendTxReturnCode_String Unsupported = ''Unsupported''"
| "SendTxReturnCode_String TransactionAlreadyKnown = ''TransactionAlreadyKnown''"
| "SendTxReturnCode_String InsufficientFunds = ''InsufficientFunds''"
| "SendTxReturnCode_String ExceedsMaxFee = ''ExceedsMaxFee''"
| "SendTxReturnCode_String FeeOutOfValidRange = ''FeeOutOfValidRange''"
| "SendTxReturnCode_String TerminallyStuck = ''TerminallyStuck''"
| "SendTxReturnCode_String (CodeNum n) = ''SendTxReturnCode('' @ go_itoa n @ '')''"

definition SendTxReturnCode_MarshalText :: "SendTxReturnCode \<Rightarrow> string + string" where
  "SendTxReturnCode_MarshalText c = Inr (SendTxReturnCode_String c)"

section \<open>Tiers of nodes\<close>

type_synonym NodeTier = int

definition Primary :: NodeTier where
  "Primary = 0"

definition Secondary :: NodeTier where
  "Secondary = 1"

definition NodeTier_String :: "NodeTier \<Rightarrow> string" where
  "NodeTier_String n =
     (if n = Primary then ''primary'' else if n = Secondary then ''secondary'' else ''NodeTier('' @ go_itoa n @ '')'')"

section \<open>Synchronisation status\<close>

text \<open>
  The constants of the bit mask: the first is the plain 0, then \<open>1 << iota\<close> with \<open>iota\<close> already 1,
  so the flags are 2, 4 and 8.
\<close>

type_synonym syncStatus = int

definition syncStatusSynced :: syncStatus where
  "syncStatusSynced = 0"

definition syncStatusNotInSyncWithPool :: syncStatus where
  "syncStatusNotInSyncWithPool = 2"

definition syncStatusNoNewHead :: syncStatus where
  "syncStatusNoNewHead = 4"

definition syncStatusNoNewFinalizedHead :: syncStatus where
  "syncStatusNoNewFinalizedHead = 8"

definition syncStatusLen :: syncStatus where
  "syncStatusLen = 16"

lemmas sync_flags =
  syncStatusSynced_def syncStatusNotInSyncWithPool_def syncStatusNoNewHead_def
  syncStatusNoNewFinalizedHead_def syncStatusLen_def

definition sync_set :: "syncStatus \<Rightarrow> syncStatus \<Rightarrow> syncStatus" where
  "sync_set s f = s OR f"

definition sync_clear :: "syncStatus \<Rightarrow> syncStatus \<Rightarrow> syncStatus" where
  "sync_clear s f = s AND NOT f"

definition sync_has :: "syncStatus \<Rightarrow> syncStatus \<Rightarrow> bool" where
  "sync_has s f \<longleftrightarrow> f AND s \<noteq> 0"

definition syncStatus_string :: "syncStatus \<Rightarrow> string" where
  "syncStatus_string s =
     (if s = syncStatusNotInSyncWithPool then ''NotInSyncWithRPCPool''
      else if s = syncStatusNoNewHead then ''NoNewHead''
      else if s = syncStatusNoNewFinalizedHead then ''NoNewFinalizedHead''
      else ''syncStatus('' @ go_itoa s @ '')'')"

text \<open>The loop of \<open>String\<close>: \<open>i\<close> doubles until it reaches \<open>syncStatusLen\<close>.\<close>

function sync_string_loop :: "syncStatus \<Rightarrow> syncStatus \<Rightarrow> string \<Rightarrow> string" where
  "sync_string_loop s i buf =
     (if 0 < i \<and> i < syncStatusLen then
        (if sync_has s i then sync_string_loop s (2 * i) (buf @ syncStatus_string i @ '','')
         else sync_string_loop s (2 * i) buf)
      else buf)"
  by pat_completeness auto
termination
  by (relation "measure (\<lambda>(s, i, buf). nat (syncStatusLen - i))") (auto simp: syncStatusLen_def)

declare sync_string_loop.simps [simp del]

definition syncStatus_String :: "syncStatus \<Rightarrow> string outcome" where
  "syncStatus_String s =
     (if s = syncStatusSynced then Ret ''Synced''
      else
        let buf = sync_string_loop s syncStatusNotInSyncWithPool ''''
        in if buf = [] then Panic ''bytes.Buffer: truncation out of range''
           else Ret (butlast buf))"

section \<open>Lemmas\<close>

lemma MaxTotalDifficulty_simps [simp]:
  "MaxTotalDifficulty None b = b"
  "MaxTotalDifficulty a None = a"
  "MaxTotalDifficulty (Some x) (Some y) = Some (max x y)"
  by (auto simp: MaxTotalDifficulty_def max_def split: option.splits)

interpretation td: semilattice_neutr MaxTotalDifficulty None
proof
  fix a b c :: "int option"
  show "MaxTotalDifficulty (MaxTotalDifficulty a b) c = MaxTotalDifficulty a (MaxTotalDifficulty b c)"
    by (cases a; cases b; cases c) (simp_all add: max.assoc)
  show "MaxTotalDifficulty a b = MaxTotalDifficulty b a"
    by (cases a; cases b) (simp_all add: max.commute)
  show "MaxTotalDifficulty a a = a"
    by (cases a) simp_all
  show "MaxTotalDifficulty a None = a"
    by simp
qed

lemma td_le_refl [simp]: "td_le a a"
  by (simp add: td_le_def)

lemma td_le_trans: "td_le a b \<Longrightarrow> td_le b c \<Longrightarrow> td_le a c"
  by (metis td_le_def td.assoc)

lemma td_le_max1 [simp]: "td_le a (MaxTotalDifficulty a b)"
  by (metis td_le_def td.assoc td.idem)

lemma td_le_max2 [simp]: "td_le b (MaxTotalDifficulty a b)"
  by (metis td_le_max1 td.commute)

interpretation ci: semilattice chain_info_max
proof
  fix a b c :: chain_info
  show "chain_info_max (chain_info_max a b) c = chain_info_max a (chain_info_max b c)"
    by (simp add: chain_info_max_def max.assoc td.assoc)
  show "chain_info_max a b = chain_info_max b a"
    by (simp add: chain_info_max_def max.commute td.commute)
  show "chain_info_max a a = a"
    by (simp add: chain_info_max_def)
qed

lemma ci_le_refl [simp]: "ci_le a a"
  by (simp add: ci_le_def)

lemma ci_le_trans: "ci_le a b \<Longrightarrow> ci_le b c \<Longrightarrow> ci_le a c"
  by (auto simp: ci_le_def intro: td_le_trans)

lemma ci_le_max1 [simp]: "ci_le a (chain_info_max a b)"
  by (simp add: ci_le_def chain_info_max_def)

lemma ci_le_max2 [simp]: "ci_le b (chain_info_max a b)"
  by (simp add: ci_le_def chain_info_max_def)

lemma foldl_ci_init: "ci_le a (foldl (\<lambda>c x. chain_info_max c (f x)) a xs)"
proof (induction xs arbitrary: a)
  case (Cons x xs)
  show ?case
    using ci_le_trans [OF ci_le_max1 Cons.IH [of "chain_info_max a (f x)"]] by simp
qed simp

lemma foldl_ci_upper: "x \<in> set xs \<Longrightarrow> ci_le (f x) (foldl (\<lambda>c x. chain_info_max c (f x)) a xs)"
proof (induction xs arbitrary: a)
  case (Cons y xs)
  show ?case
  proof (cases "x = y")
    case True
    then show ?thesis
      using ci_le_trans [OF ci_le_max2 foldl_ci_init [of "chain_info_max a (f y)" f xs]] by simp
  next
    case False
    with Cons show ?thesis by simp
  qed
qed simp

text \<open>Every component of the fold is the start value's or that of some element.\<close>

lemma foldl_ci_attained:
  "BlockNumber (foldl (\<lambda>c x. chain_info_max c (f x)) a xs) \<in>
     insert (BlockNumber a) ((\<lambda>x. BlockNumber (f x)) ` set xs)"
  "FinalizedBlockNumber (foldl (\<lambda>c x. chain_info_max c (f x)) a xs) \<in>
     insert (FinalizedBlockNumber a) ((\<lambda>x. FinalizedBlockNumber (f x)) ` set xs)"
proof (induction xs arbitrary: a)
  case (Cons x xs)
  {
    case 1
    show ?case using Cons.IH(1) [of "chain_info_max a (f x)"]
      by (auto simp: chain_info_max_def max_def split: if_splits)
  next
    case 2
    show ?case using Cons.IH(2) [of "chain_info_max a (f x)"]
      by (auto simp: chain_info_max_def max_def split: if_splits)
  }
qed simp_all

section \<open>Printing loses nothing\<close>

text \<open>Reply codes and tiers are printed differently, also the values that have no name.\<close>

lemma SendTxReturnCode_String_inj: "SendTxReturnCode_String c = SendTxReturnCode_String d \<longleftrightarrow> c = d"
proof -
  have "go_itoa n = go_itoa m \<longleftrightarrow> n = m" for n m by (rule go_itoa_inj)
  then show ?thesis by (cases c; cases d) auto
qed

lemma MarshalText_inj: "SendTxReturnCode_MarshalText c = SendTxReturnCode_MarshalText d \<longleftrightarrow> c = d"
  by (simp add: SendTxReturnCode_MarshalText_def SendTxReturnCode_String_inj)

lemma NodeTier_String_inj: "NodeTier_String n = NodeTier_String m \<longleftrightarrow> n = m"
  by (auto simp: NodeTier_String_def go_itoa_inj)

end
