(* ===== verification/Rpc_Client_Base.thy ===== *)
theory Rpc_Client_Base
  imports Chain_Info
begin

text \<open>
  \<open>multinode/rpc_client_base.go\<close>: the chain-agnostic part of an RPC client. Its state is the set of
  registered subscriptions, the life-cycle channel (replaced by \<open>CancelLifeCycle\<close>), and the two
  intercepted \<open>ChainInfo\<close> values. Pollers, managed subscriptions and channels are objects with
  identity and are numbered (a managed subscription is its own number with the number of the
  subscription it wraps); a channel is closed when its number is in \<open>closedChs\<close>, a poller is stopped when its
  number is in \<open>unsubscribed\<close> (\<open>Poller.Unsubscribe\<close> closes the service and ignores a second close,
  \<open>poller.go\<close>). What other goroutines do between two critical sections of a method is a parameter
  \<open>during\<close> of the method; the chain-specific \<open>latestBlock\<close> functions are parameters too.

  \<open>rpc_step\<close> is the interleaving of all methods at the granularity of the mutexes: requests in flight
  remember the channel they captured, and \<open>Close\<close> is its three separate critical sections.
\<close>

section \<open>State\<close>

type_synonym managed_sub = "nat \<times> nat"

record rpc_client =
  subs :: "managed_sub list"
  unsubscribed :: "nat set"
  next_sub :: nat
  next_managed :: nat
  lifeCycleCh :: nat
  closedChs :: "nat set"
  next_ch :: nat
  highestUserObservations :: chain_info
  latestChainInfo :: chain_info
  rpcMetrics :: "(string \<times> string option) list option"

definition NewRPCClientBase :: "bool \<Rightarrow> rpc_client" where
  "NewRPCClientBase with_metrics =
     \<lparr>subs = [], unsubscribed = {}, next_sub = 0, next_managed = 0, lifeCycleCh = 0, closedChs = {}, next_ch = 1,
      highestUserObservations = chain_info_zero, latestChainInfo = chain_info_zero,
      rpcMetrics = (if with_metrics then Some [] else None)\<rparr>"

section \<open>Subscriptions\<close>

definition lenSubs :: "rpc_client \<Rightarrow> nat" where
  "lenSubs m = length (subs m)"

definition poller_Unsubscribe :: "nat \<Rightarrow> rpc_client \<Rightarrow> rpc_client" where
  "poller_Unsubscribe s m = m\<lparr>unsubscribed := insert s (unsubscribed m)\<rparr>"

definition removeSub :: "managed_sub \<Rightarrow> rpc_client \<Rightarrow> rpc_client" where
  "removeSub s m = m\<lparr>subs := removeAll s (subs m)\<rparr>"

text \<open>\<open>ManagedSubscription.Unsubscribe\<close> on a non-nil receiver, with \<open>removeSub\<close> as its callback.\<close>

definition ManagedSubscription_Unsubscribe :: "managed_sub \<Rightarrow> rpc_client \<Rightarrow> rpc_client" where
  "ManagedSubscription_Unsubscribe s m = removeSub s (poller_Unsubscribe (snd s) m)"

definition RegisterSub :: "nat \<Rightarrow> nat \<Rightarrow> rpc_client \<Rightarrow> rpc_client \<times> (string + managed_sub)" where
  "RegisterSub sub ch m =
     (if ch \<in> closedChs m then
        (poller_Unsubscribe sub m,
         Inl ''failed to register subscription - all in-flight requests were canceled'')
      else
        let managedSub = (next_managed m, sub)
        in (m\<lparr>subs := subs m @ [managedSub], next_managed := Suc (next_managed m)\<rparr>, Inr managedSub))"

definition UnsubscribeAllExcept :: "managed_sub list \<Rightarrow> rpc_client \<Rightarrow> rpc_client" where
  "UnsubscribeAllExcept keep m =
     (let unsubs = filter (\<lambda>s. s \<notin> set keep) (subs m)
      in fold ManagedSubscription_Unsubscribe unsubs m)"

text \<open>
  The two subscribe methods. \<open>startErr\<close> is the error of \<open>poller.Start\<close>, if any. On a failed
  registration the first calls \<open>Unsubscribe\<close> on the nil \<open>*ManagedSubscription\<close> that
  \<open>RegisterSub\<close> returned with the error, which dereferences nil; the second stops the poller.
\<close>

definition new_poller :: "rpc_client \<Rightarrow> rpc_client \<times> nat" where
  "new_poller m = (m\<lparr>next_sub := Suc (next_sub m)\<rparr>, next_sub m)"

definition SubscribeToHeads ::
  "int \<Rightarrow> string option \<Rightarrow> (rpc_client \<Rightarrow> rpc_client) \<Rightarrow> rpc_client \<Rightarrow>
   (rpc_client \<times> (string + managed_sub)) outcome" where
  "SubscribeToHeads pollInterval startErr during m =
     (let ch = lifeCycleCh m in
      if pollInterval = 0 then Ret (m, Inl ''PollInterval is 0'')
      else
        let (m1, poller) = new_poller m in
        (case startErr of
           Some e \<Rightarrow> Ret (m1, Inl e)
         | None \<Rightarrow>
             (case RegisterSub poller ch (during m1) of
                (m2, Inl e) \<Rightarrow> Panic ''invalid memory address or nil pointer dereference''
              | (m2, Inr sub) \<Rightarrow> Ret (m2, Inr sub))))"

definition SubscribeToFinalizedHeads ::
  "int \<Rightarrow> string option \<Rightarrow> (rpc_client \<Rightarrow> rpc_client) \<Rightarrow> rpc_client \<Rightarrow>
   (rpc_client \<times> (string + managed_sub)) outcome" where
  "SubscribeToFinalizedHeads finalizedBlockPollInterval startErr during m =
     (let ch = lifeCycleCh m in
      if finalizedBlockPollInterval = 0 then Ret (m, Inl ''FinalizedBlockPollInterval is 0'')
      else
        let (m1, poller) = new_poller m in
        (case startErr of
           Some e \<Rightarrow> Ret (m1, Inl e)
         | None \<Rightarrow>
             (case RegisterSub poller ch (during m1) of
                (m2, Inl e) \<Rightarrow> Ret (poller_Unsubscribe poller m2, Inl e)
              | (m2, Inr sub) \<Rightarrow> Ret (m2, Inr sub))))"

section \<open>Intercepted heads\<close>

definition recordRPCRequest :: "string \<Rightarrow> string option \<Rightarrow> rpc_client \<Rightarrow> rpc_client" where
  "recordRPCRequest callName err m =
     (case rpcMetrics m of None \<Rightarrow> m | Some rs \<Rightarrow> m\<lparr>rpcMetrics := Some (rs @ [(callName, err)])\<rparr>)"

text \<open>The flag argument is \<open>CtxIsHealthCheckRequest\<close> of the request's context (\<open>ctx.go\<close>).\<close>

definition OnNewHead :: "bool \<Rightarrow> nat \<Rightarrow> head \<Rightarrow> rpc_client \<Rightarrow> rpc_client" where
  "OnNewHead healthCheck requestCh h m =
     (if \<not> head_IsValid h then m
      else
        let bn = head_BlockNumber h; td = head_TotalDifficulty h;
            m1 = (if healthCheck then m
                  else m\<lparr>highestUserObservations := (highestUserObservations m)
                           \<lparr>BlockNumber := max (BlockNumber (highestUserObservations m)) bn,
                            TotalDifficulty :=
                              MaxTotalDifficulty (TotalDifficulty (highestUserObservations m)) td\<rparr>\<rparr>)
        in if requestCh \<in> closedChs m1 then m1
           else m1\<lparr>latestChainInfo := (latestChainInfo m1)
                     \<lparr>BlockNumber := bn, TotalDifficulty := td\<rparr>\<rparr>)"

definition OnNewFinalizedHead :: "bool \<Rightarrow> nat \<Rightarrow> head \<Rightarrow> rpc_client \<Rightarrow> rpc_client" where
  "OnNewFinalizedHead healthCheck requestCh h m =
     (if \<not> head_IsValid h then m
      else
        let m1 = (if healthCheck then m
                  else m\<lparr>highestUserObservations := (highestUserObservations m)
                           \<lparr>FinalizedBlockNumber :=
                              max (FinalizedBlockNumber (highestUserObservations m)) (head_BlockNumber h)\<rparr>\<rparr>)
        in if requestCh \<in> closedChs m1 then m1
           else m1\<lparr>latestChainInfo := (latestChainInfo m1)
                     \<lparr>FinalizedBlockNumber := head_BlockNumber h\<rparr>\<rparr>)"

definition rpcCallNameLatestBlock :: string where
  "rpcCallNameLatestBlock = ''latest_block''"

definition rpcCallNameLatestFinalizedBlock :: string where
  "rpcCallNameLatestFinalizedBlock = ''latest_finalized_block''"

definition errInvalidHead :: string where
  "errInvalidHead = ''invalid head''"

text \<open>
  \<open>call\<close> is the chain-specific \<open>m.latestBlock\<close>: it returns a head or an error, and the client as
  the other goroutines left it when the call returned. The life-cycle channel is captured before.
\<close>

definition LatestBlock ::
  "bool \<Rightarrow> (rpc_client \<Rightarrow> rpc_client \<times> (string + head)) \<Rightarrow> rpc_client \<Rightarrow>
   rpc_client \<times> (string + head)" where
  "LatestBlock healthCheck call m =
     (let ch = lifeCycleCh m in
      case call m of
        (m1, Inl e) \<Rightarrow> (recordRPCRequest rpcCallNameLatestBlock (Some e) m1, Inl e)
      | (m1, Inr h) \<Rightarrow>
          if \<not> head_IsValid h then
            (recordRPCRequest rpcCallNameLatestBlock (Some errInvalidHead) m1, Inl errInvalidHead)
          else
            (OnNewHead healthCheck ch h (recordRPCRequest rpcCallNameLatestBlock None m1), Inr h))"

definition LatestFinalizedBlock ::
  "bool \<Rightarrow> (rpc_client \<Rightarrow> rpc_client \<times> (string + head)) \<Rightarrow> rpc_client \<Rightarrow>
   rpc_client \<times> (string + head)" where
  "LatestFinalizedBlock healthCheck call m =
     (let ch = lifeCycleCh m in
      case call m of
        (m1, Inl e) \<Rightarrow> (recordRPCRequest rpcCallNameLatestFinalizedBlock (Some e) m1, Inl e)
      | (m1, Inr h) \<Rightarrow>
          if \<not> head_IsValid h then
            (recordRPCRequest rpcCallNameLatestFinalizedBlock (Some errInvalidHead) m1, Inl errInvalidHead)
          else
            (OnNewFinalizedHead healthCheck ch h
               (recordRPCRequest rpcCallNameLatestFinalizedBlock None m1), Inr h))"

section \<open>Life cycle\<close>

definition CancelLifeCycle :: "rpc_client \<Rightarrow> rpc_client" where
  "CancelLifeCycle m =
     m\<lparr>closedChs := insert (lifeCycleCh m) (closedChs m),
       lifeCycleCh := next_ch m, next_ch := Suc (next_ch m)\<rparr>"

definition resetLatestChainInfo :: "rpc_client \<Rightarrow> rpc_client" where
  "resetLatestChainInfo m = m\<lparr>latestChainInfo := chain_info_zero\<rparr>"

definition RPCClientBase_Close :: "rpc_client \<Rightarrow> rpc_client" where
  "RPCClientBase_Close m = resetLatestChainInfo (UnsubscribeAllExcept [] (CancelLifeCycle m))"

definition GetInterceptedChainInfo :: "rpc_client \<Rightarrow> chain_info \<times> chain_info" where
  "GetInterceptedChainInfo m = (latestChainInfo m, highestUserObservations m)"

section \<open>Interleaving\<close>

text \<open>
  A request in flight is the channel it captured, its health-check flag and whether it asks for the
  finalized head. \<open>resets\<close> counts the \<open>Close\<close> calls that have cancelled the life cycle and not yet
  reset the chain info. \<open>num_gen\<close> and \<open>fin_gen\<close> record the life cycle whose request last wrote the
  latest and the finalized part of \<open>latestChainInfo\<close> since it was last reset.
\<close>

datatype request = Request (req_ch: nat) (req_hc: bool) (req_fin: bool)

record rpc_sys =
  client :: rpc_client
  inflight :: "request list"
  resets :: nat
  num_gen :: "nat option"
  fin_gen :: "nat option"

definition complete :: "request \<Rightarrow> head \<Rightarrow> rpc_sys \<Rightarrow> rpc_sys" where
  "complete r h s =
     (let c = client s; wrote = head_IsValid h \<and> req_ch r \<notin> closedChs c
      in if req_fin r then
           s\<lparr>client := OnNewFinalizedHead (req_hc r) (req_ch r) h c, inflight := remove1 r (inflight s),
             fin_gen := (if wrote then Some (req_ch r) else fin_gen s)\<rparr>
         else
           s\<lparr>client := OnNewHead (req_hc r) (req_ch r) h c, inflight := remove1 r (inflight s),
             num_gen := (if wrote then Some (req_ch r) else num_gen s)\<rparr>)"

inductive rpc_step :: "rpc_sys \<Rightarrow> rpc_sys \<Rightarrow> bool" where
  begin_request:
    "rpc_step s (s\<lparr>inflight := Request (lifeCycleCh (client s)) hc fin # inflight s\<rparr>)"
| fail_request:
    "r \<in> set (inflight s) \<Longrightarrow> rpc_step s (s\<lparr>inflight := remove1 r (inflight s)\<rparr>)"
| complete_request:
    "r \<in> set (inflight s) \<Longrightarrow> rpc_step s (complete r h s)"
| start_poller:
    "rpc_step s (s\<lparr>client := fst (new_poller (client s))\<rparr>)"
| register:
    "rpc_step s (s\<lparr>client := fst (RegisterSub sub ch (client s))\<rparr>)"
| unsubscribe:
    "rpc_step s (s\<lparr>client := ManagedSubscription_Unsubscribe sub (client s)\<rparr>)"
| unsubscribe_all:
    "rpc_step s (s\<lparr>client := UnsubscribeAllExcept keep (client s)\<rparr>)"
| cancel:
    "rpc_step s (s\<lparr>client := CancelLifeCycle (client s), resets := Suc (resets s)\<rparr>)"
| reset:
    "resets s = Suc n \<Longrightarrow>
     rpc_step s (s\<lparr>client := resetLatestChainInfo (client s), resets := n,
                   num_gen := None, fin_gen := None\<rparr>)"

definition rpc_init :: "rpc_sys \<Rightarrow> bool" where
  "rpc_init s \<longleftrightarrow>
     (\<exists>b. s = \<lparr>client = NewRPCClientBase b, inflight = [], resets = 0, num_gen = None, fin_gen = None\<rparr>)"

section \<open>Subscriptions: lemmas\<close>

lemma unsubscribe_eq:
  "ManagedSubscription_Unsubscribe s m =
     m\<lparr>subs := filter (\<lambda>x. x \<noteq> s) (subs m), unsubscribed := insert (snd s) (unsubscribed m)\<rparr>"
  by (simp add: ManagedSubscription_Unsubscribe_def removeSub_def poller_Unsubscribe_def
      removeAll_filter_not_eq eq_commute)

lemma fold_unsubscribe:
  "fold ManagedSubscription_Unsubscribe us m =
     m\<lparr>subs := filter (\<lambda>s. s \<notin> set us) (subs m), unsubscribed := unsubscribed m \<union> snd ` set us\<rparr>"
  by (induction us arbitrary: m) (simp_all add: unsubscribe_eq conj_commute)

lemma UnsubscribeAllExcept_eq:
  "UnsubscribeAllExcept keep m =
     m\<lparr>subs := filter (\<lambda>s. s \<in> set keep) (subs m),
       unsubscribed := unsubscribed m \<union> snd ` (set (subs m) - set keep)\<rparr>"
proof -
  have "filter (\<lambda>s. s \<in> set (subs m) \<longrightarrow> s \<in> set keep) (subs m) = filter (\<lambda>s. s \<in> set keep) (subs m)"
    by (rule filter_cong) auto
  moreover have "{x \<in> set (subs m). x \<notin> set keep} = set (subs m) - set keep"
    by auto
  ultimately show ?thesis
    by (simp add: UnsubscribeAllExcept_def fold_unsubscribe)
qed

section \<open>Invariants of the interleaving\<close>

text \<open>
  The current channel is open, every channel that is not current is closed, requests hold channels
  that exist; and while no \<open>Close\<close> is between its cancel and its reset, the parts of
  \<open>latestChainInfo\<close> are zero or were written by a request of the current life cycle.
\<close>

definition gen_ok :: "rpc_sys \<Rightarrow> nat option \<Rightarrow> bool" where
  "gen_ok s g \<longleftrightarrow> g = None \<or> resets s \<noteq> 0 \<or> g = Some (lifeCycleCh (client s))"

definition rpc_inv :: "rpc_sys \<Rightarrow> bool" where
  "rpc_inv s \<longleftrightarrow>
     (let c = client s in
      lifeCycleCh c < next_ch c \<and> closedChs c = {..<next_ch c} - {lifeCycleCh c} \<and>
      (\<forall>r\<in>set (inflight s). req_ch r < next_ch c) \<and>
      gen_ok s (num_gen s) \<and> gen_ok s (fin_gen s) \<and>
      (num_gen s = None \<longrightarrow> BlockNumber (latestChainInfo c) = 0 \<and> TotalDifficulty (latestChainInfo c) = None) \<and>
      (fin_gen s = None \<longrightarrow> FinalizedBlockNumber (latestChainInfo c) = 0))"

lemma rpc_inv_init: "rpc_init s \<Longrightarrow> rpc_inv s"
  by (auto simp: rpc_init_def rpc_inv_def NewRPCClientBase_def gen_ok_def chain_info_zero_def Let_def)

lemma rpc_inv_frame:
  assumes "rpc_inv s"
    and "lifeCycleCh m = lifeCycleCh (client s)" "next_ch m = next_ch (client s)"
      "closedChs m = closedChs (client s)" "latestChainInfo m = latestChainInfo (client s)"
    and "\<And>r. r \<in> set rs \<Longrightarrow> req_ch r < next_ch (client s)"
  shows "rpc_inv (s\<lparr>client := m, inflight := rs\<rparr>)"
  using assms by (simp add: rpc_inv_def gen_ok_def Let_def)

lemma rpc_inv_inflight: "rpc_inv s \<Longrightarrow> r \<in> set (inflight s) \<Longrightarrow> req_ch r < next_ch (client s)"
  by (simp add: rpc_inv_def Let_def)

lemma rpc_inv_client:
  assumes "rpc_inv s"
    and "lifeCycleCh m = lifeCycleCh (client s)" "next_ch m = next_ch (client s)"
      "closedChs m = closedChs (client s)" "latestChainInfo m = latestChainInfo (client s)"
  shows "rpc_inv (s\<lparr>client := m\<rparr>)"
  using assms by (simp add: rpc_inv_def gen_ok_def Let_def)

lemma rpc_inv_open:
  "rpc_inv s \<Longrightarrow> r \<in> set (inflight s) \<Longrightarrow> req_ch r \<notin> closedChs (client s) \<Longrightarrow>
   req_ch r = lifeCycleCh (client s)"
  by (auto simp: rpc_inv_def Let_def)

text \<open>What a completed request changes: nothing of the life cycle, and \<open>latestChainInfo\<close> only when
  the head is valid and the captured channel is still open.\<close>

lemma OnNewHead_frame [simp]:
  "lifeCycleCh (OnNewHead hc ch h m) = lifeCycleCh m"
  "next_ch (OnNewHead hc ch h m) = next_ch m"
  "closedChs (OnNewHead hc ch h m) = closedChs m"
  "subs (OnNewHead hc ch h m) = subs m"
  "unsubscribed (OnNewHead hc ch h m) = unsubscribed m"
  "lifeCycleCh (OnNewFinalizedHead hc ch h m) = lifeCycleCh m"
  "next_ch (OnNewFinalizedHead hc ch h m) = next_ch m"
  "closedChs (OnNewFinalizedHead hc ch h m) = closedChs m"
  "subs (OnNewFinalizedHead hc ch h m) = subs m"
  "unsubscribed (OnNewFinalizedHead hc ch h m) = unsubscribed m"
  by (simp_all add: OnNewHead_def OnNewFinalizedHead_def Let_def)

lemma OnNewHead_latest:
  "latestChainInfo (OnNewHead hc ch h m) =
     (if head_IsValid h \<and> ch \<notin> closedChs m
      then (latestChainInfo m)\<lparr>BlockNumber := head_BlockNumber h, TotalDifficulty := head_TotalDifficulty h\<rparr>
      else latestChainInfo m)"
  "latestChainInfo (OnNewFinalizedHead hc ch h m) =
     (if head_IsValid h \<and> ch \<notin> closedChs m
      then (latestChainInfo m)\<lparr>FinalizedBlockNumber := head_BlockNumber h\<rparr>
      else latestChainInfo m)"
  by (simp_all add: OnNewHead_def OnNewFinalizedHead_def Let_def)

lemma complete_inv:
  assumes inv: "rpc_inv s" and r: "r \<in> set (inflight s)"
  shows "rpc_inv (complete r h s)"
proof (cases "head_IsValid h \<and> req_ch r \<notin> closedChs (client s)")
  case True
  then have "req_ch r = lifeCycleCh (client s)"
    using rpc_inv_open [OF inv r] by simp
  moreover have "\<forall>x\<in>set (remove1 r (inflight s)). req_ch x < next_ch (client s)"
    using inv by (auto simp: rpc_inv_def Let_def dest: set_remove1_subset [THEN subsetD])
  ultimately show ?thesis
    using inv True by (simp add: rpc_inv_def complete_def gen_ok_def Let_def OnNewHead_latest)
next
  case False
  have "rpc_inv (s\<lparr>client := OnNewFinalizedHead (req_hc r) (req_ch r) h (client s),
                   inflight := remove1 r (inflight s)\<rparr>)"
    "rpc_inv (s\<lparr>client := OnNewHead (req_hc r) (req_ch r) h (client s),
                inflight := remove1 r (inflight s)\<rparr>)"
    using False
    by (auto simp: OnNewHead_latest dest: set_remove1_subset [THEN subsetD]
        intro!: rpc_inv_frame [OF inv] rpc_inv_inflight [OF inv])
  then show ?thesis using False by (auto simp: complete_def Let_def)
qed

lemma cancel_inv:
  "rpc_inv s \<Longrightarrow> rpc_inv (s\<lparr>client := CancelLifeCycle (client s), resets := Suc (resets s)\<rparr>)"
  by (auto simp: rpc_inv_def CancelLifeCycle_def gen_ok_def Let_def less_Suc_eq split: option.splits)

lemma reset_inv:
  "rpc_inv s \<Longrightarrow>
   rpc_inv (s\<lparr>client := resetLatestChainInfo (client s), resets := n, num_gen := None, fin_gen := None\<rparr>)"
  by (simp add: rpc_inv_def resetLatestChainInfo_def gen_ok_def Let_def chain_info_zero_def)

lemma request_inv:
  assumes inv: "rpc_inv s"
  shows "rpc_inv (s\<lparr>inflight := Request (lifeCycleCh (client s)) hc fin # inflight s\<rparr>)"
    and "rpc_inv (s\<lparr>inflight := remove1 r (inflight s)\<rparr>)"
  using inv by (auto simp: rpc_inv_def gen_ok_def Let_def dest: set_remove1_subset [THEN subsetD])

lemma RegisterSub_frame [simp]:
  "lifeCycleCh (fst (RegisterSub sub ch m)) = lifeCycleCh m"
  "next_ch (fst (RegisterSub sub ch m)) = next_ch m"
  "closedChs (fst (RegisterSub sub ch m)) = closedChs m"
  "latestChainInfo (fst (RegisterSub sub ch m)) = latestChainInfo m"
  "highestUserObservations (fst (RegisterSub sub ch m)) = highestUserObservations m"
  by (simp_all add: RegisterSub_def poller_Unsubscribe_def Let_def)

lemma rpc_step_inv: "rpc_step s t \<Longrightarrow> rpc_inv s \<Longrightarrow> rpc_inv t"
proof (induction rule: rpc_step.induct)
  case (cancel s)
  then show ?case by (rule cancel_inv)
next
  case (reset s n)
  then show ?case by (simp add: reset_inv)
next
  case (complete_request r s h)
  then show ?case by (simp add: complete_inv)
qed (simp_all add: request_inv rpc_inv_client new_poller_def unsubscribe_eq UnsubscribeAllExcept_eq)

interpretation rpc: transition_system rpc_init rpc_step .

lemma reach_rpc_inv: "rpc.reach s \<Longrightarrow> rpc_inv s"
  by (erule rpc.reach_invariant) (auto intro: rpc_inv_init rpc_step_inv)

lemma OnNewHead_user_mono:
  "ci_le (highestUserObservations m) (highestUserObservations (OnNewHead hc ch h m))"
  "ci_le (highestUserObservations m) (highestUserObservations (OnNewFinalizedHead hc ch h m))"
  by (simp_all add: OnNewHead_def OnNewFinalizedHead_def ci_le_def Let_def)

lemma rpc_step_user_mono:
  "rpc_step s t \<Longrightarrow>
   ci_le (highestUserObservations (client s)) (highestUserObservations (client t))"
  by (induction rule: rpc_step.induct)
    (simp_all add: complete_def OnNewHead_user_mono Let_def
      new_poller_def unsubscribe_eq UnsubscribeAllExcept_eq CancelLifeCycle_def resetLatestChainInfo_def)

lemma rpc_steps_user_mono:
  "rpc_step\<^sup>*\<^sup>* s t \<Longrightarrow>
   ci_le (highestUserObservations (client s)) (highestUserObservations (client t))"
  by (induction rule: rtranclp_induct) (auto intro: ci_le_trans rpc_step_user_mono)

lemma recordRPCRequest_frame [simp]:
  "lifeCycleCh (recordRPCRequest n e m) = lifeCycleCh m"
  "closedChs (recordRPCRequest n e m) = closedChs m"
  "latestChainInfo (recordRPCRequest n e m) = latestChainInfo m"
  "highestUserObservations (recordRPCRequest n e m) = highestUserObservations m"
  by (simp_all add: recordRPCRequest_def split: option.splits)

section \<open>Properties\<close>

text \<open>C14. In every interleaving of requests, subscriptions and closes, a request that captured a life cycle which is no longer
  the current one never changes \<open>latestChainInfo\<close>. So while no \<open>CancelLifeCycle\<close> is waiting for its reset, that is,
  while no \<open>Close\<close> is between its cancel and its reset and the life cycle was not cancelled on its own, each part of
  \<open>latestChainInfo\<close> is still the zero value or was written by a request that captured the life cycle that is current
  now. In between, what was observed before shows still.\<close>

theorem latestChainInfo_of_current_lifecycle:
  assumes "rpc.reach s"
  shows "(\<forall>r h. r \<in> set (inflight s) \<and> req_ch r \<noteq> lifeCycleCh (client s) \<longrightarrow>
            latestChainInfo (client (complete r h s)) = latestChainInfo (client s)) \<and>
         (resets s = 0 \<longrightarrow>
           (num_gen s = Some (lifeCycleCh (client s)) \<or>
             BlockNumber (latestChainInfo (client s)) = 0 \<and> TotalDifficulty (latestChainInfo (client s)) = None) \<and>
           (fin_gen s = Some (lifeCycleCh (client s)) \<or>
             FinalizedBlockNumber (latestChainInfo (client s)) = 0)) \<and>
         lifeCycleCh (client s) \<notin> closedChs (client s)"
proof (intro conjI allI impI)
  have inv: "rpc_inv s" by (rule reach_rpc_inv [OF assms])
  fix r h
  show "latestChainInfo (client (complete r h s)) = latestChainInfo (client s)"
    if "r \<in> set (inflight s) \<and> req_ch r \<noteq> lifeCycleCh (client s)"
    using rpc_inv_open [OF inv, of r] that by (auto simp: complete_def Let_def OnNewHead_latest)
qed (use reach_rpc_inv [OF assms] in \<open>auto simp: rpc_inv_def gen_ok_def Let_def\<close>)

theorem latestChainInfo_of_current_lifecycle_witness:
  "let s = \<lparr>client = NewRPCClientBase False, inflight = [], resets = 0, num_gen = None, fin_gen = None\<rparr>;
       s1 = s\<lparr>inflight := [Request 0 False False]\<rparr>;
       s2 = complete (Request 0 False False) \<lparr>head_BlockNumber = 7, head_TotalDifficulty = None, head_IsValid = True\<rparr> s1
   in num_gen s2 = Some 0 \<and> BlockNumber (latestChainInfo (client s2)) = 7 \<and>
      lifeCycleCh (client s2) \<notin> closedChs (client s2)"
proof -
  define s where "s = \<lparr>client = NewRPCClientBase False, inflight = [], resets = 0, num_gen = None, fin_gen = None\<rparr>"
  define s1 where "s1 = s\<lparr>inflight := [Request 0 False False]\<rparr>"
  define h where "h = \<lparr>head_BlockNumber = 7, head_TotalDifficulty = None, head_IsValid = True\<rparr>"
  have "rpc.reach s"
    by (rule rpc.reach_init) (auto simp: rpc_init_def s_def)
  then have "rpc.reach s1"
    using rpc_step.begin_request [of s False False] rpc.reach_step
    by (simp add: s1_def s_def NewRPCClientBase_def)
  then have "rpc.reach (complete (Request 0 False False) h s1)"
    using rpc_step.complete_request [of "Request 0 False False" s1 h] rpc.reach_step
    by (simp add: s1_def)
  from latestChainInfo_of_current_lifecycle [OF this] show ?thesis
    by (simp add: Let_def complete_def s1_def s_def h_def OnNewHead_def NewRPCClientBase_def chain_info_zero_def)
qed

text \<open>The highest user observations never decrease, whatever happens between two
  moments of a run: requests of any life cycle, failed or stale, unsubscriptions and \<open>Close\<close>.\<close>

theorem highestUserObservations_monotone:
  assumes "rpc_step\<^sup>*\<^sup>* s t"
  shows "ci_le (snd (GetInterceptedChainInfo (client s))) (snd (GetInterceptedChainInfo (client t)))"
  using rpc_steps_user_mono [OF assms] by (simp add: GetInterceptedChainInfo_def)

theorem highestUserObservations_monotone_witness:
  "let s = \<lparr>client = (NewRPCClientBase True)\<lparr>highestUserObservations := \<lparr>BlockNumber = 9, FinalizedBlockNumber = 4, TotalDifficulty = Some 3\<rparr>\<rparr>,
           inflight = [], resets = 0, num_gen = None, fin_gen = None\<rparr>;
       t = s\<lparr>client := CancelLifeCycle (client s), resets := 1\<rparr>
   in ci_le (snd (GetInterceptedChainInfo (client s))) (snd (GetInterceptedChainInfo (client t)))"
  unfolding Let_def One_nat_def
  by (rule highestUserObservations_monotone, rule r_into_rtranclp)
    (use rpc_step.cancel [of "\<lparr>client = (NewRPCClientBase True)\<lparr>highestUserObservations := \<lparr>BlockNumber = 9, FinalizedBlockNumber = 4, TotalDifficulty = Some 3\<rparr>\<rparr>, inflight = [], resets = 0, num_gen = None, fin_gen = None\<rparr>"] in simp)

text \<open>A head that \<open>LatestBlock\<close> returns to a caller other than a health check is covered
  by the highest user observations afterwards, even when the life cycle was cancelled during the
  call; a health check leaves them as the call found them. In both cases \<open>latestChainInfo\<close> takes the
  head exactly when the captured life cycle is still open.\<close>

theorem LatestBlock_observed:
  assumes "LatestBlock hc call m = (m', Inr h)"
  shows "head_IsValid h \<and> call m = (fst (call m), Inr h) \<and>
         (if hc then highestUserObservations m' = highestUserObservations (fst (call m))
          else ci_le \<lparr>BlockNumber = head_BlockNumber h, FinalizedBlockNumber = FinalizedBlockNumber (highestUserObservations m'),
                     TotalDifficulty = head_TotalDifficulty h\<rparr> (highestUserObservations m')) \<and>
         latestChainInfo m' =
           (if lifeCycleCh m \<in> closedChs (fst (call m)) then latestChainInfo (fst (call m))
            else (latestChainInfo (fst (call m)))\<lparr>BlockNumber := head_BlockNumber h,
                    TotalDifficulty := head_TotalDifficulty h\<rparr>)"
proof -
  obtain m1 res where c: "call m = (m1, res)" by (cases "call m")
  with assms obtain "res = Inr h" and v: "head_IsValid h"
    and m': "m' = OnNewHead hc (lifeCycleCh m) h (recordRPCRequest rpcCallNameLatestBlock None m1)"
    by (auto simp: LatestBlock_def split: sum.splits if_splits)
  moreover have "latestChainInfo m' =
      (if lifeCycleCh m \<in> closedChs m1 then latestChainInfo m1
       else (latestChainInfo m1)\<lparr>BlockNumber := head_BlockNumber h, TotalDifficulty := head_TotalDifficulty h\<rparr>)"
    using v by (simp add: m' OnNewHead_latest)
  ultimately show ?thesis
    by (simp add: c OnNewHead_def Let_def ci_le_def)
qed

theorem LatestBlock_observed_witness:
  "let m = NewRPCClientBase False; h = \<lparr>head_BlockNumber = 5, head_TotalDifficulty = Some 2, head_IsValid = True\<rparr>;
       m' = fst (LatestBlock False (\<lambda>c. (CancelLifeCycle c, Inr h)) m)
   in 5 \<le> BlockNumber (highestUserObservations m') \<and>
      td_le (Some 2) (TotalDifficulty (highestUserObservations m')) \<and> latestChainInfo m' = chain_info_zero"
proof -
  define h where "h = \<lparr>head_BlockNumber = 5, head_TotalDifficulty = Some 2, head_IsValid = True\<rparr>"
  define m where "m = NewRPCClientBase False"
  define r where "r = LatestBlock False (\<lambda>c. (CancelLifeCycle c, Inr h)) m"
  have "snd r = Inr h"
    by (simp add: r_def LatestBlock_def h_def)
  then have "LatestBlock False (\<lambda>c. (CancelLifeCycle c, Inr h)) m = (fst r, Inr h)"
    by (metis r_def prod.collapse)
  from LatestBlock_observed [OF this] show ?thesis
    by (simp add: Let_def flip: h_def m_def r_def)
      (simp add: h_def m_def NewRPCClientBase_def CancelLifeCycle_def ci_le_def)
qed

text \<open>Subscribing with a poll interval and a poller that starts: both methods register
  the subscription when the life cycle captured at the start is still open; when it was cancelled
  meanwhile, the finalized variant stops the poller and returns the error, and \<open>SubscribeToHeads\<close>
  panics on the nil subscription.\<close>

theorem Subscribe_cases:
  fixes m :: rpc_client and during :: "rpc_client \<Rightarrow> rpc_client"
  assumes "pollInterval \<noteq> 0"
  defines "m1 \<equiv> during (fst (new_poller m))"
  shows "(is_panic (SubscribeToHeads pollInterval None during m) \<longleftrightarrow> lifeCycleCh m \<in> closedChs m1) \<and>
         (lifeCycleCh m \<notin> closedChs m1 \<longrightarrow>
            SubscribeToHeads pollInterval None during m = SubscribeToFinalizedHeads pollInterval None during m) \<and>
         (\<exists>m2 res. SubscribeToFinalizedHeads pollInterval None during m = Ret (m2, res) \<and>
            (case res of
               Inl e \<Rightarrow> lifeCycleCh m \<in> closedChs m1 \<and> subs m2 = subs m1 \<and> next_sub m \<in> unsubscribed m2
             | Inr sub \<Rightarrow> lifeCycleCh m \<notin> closedChs m1 \<and> snd sub = next_sub m \<and> subs m2 = subs m1 @ [sub] \<and>
                 unsubscribed m2 = unsubscribed m1))"
  using assms(1)
  by (simp add: m1_def SubscribeToHeads_def SubscribeToFinalizedHeads_def new_poller_def
      RegisterSub_def poller_Unsubscribe_def Let_def)

theorem Subscribe_cases_witness:
  "is_panic (SubscribeToHeads 5 None CancelLifeCycle (NewRPCClientBase False)) \<and>
   \<not> is_panic (SubscribeToHeads 5 None (\<lambda>m. m) (NewRPCClientBase False))"
proof -
  have "lifeCycleCh (NewRPCClientBase False) \<in>
      closedChs (CancelLifeCycle (fst (new_poller (NewRPCClientBase False))))"
    "lifeCycleCh (NewRPCClientBase False) \<notin> closedChs (fst (new_poller (NewRPCClientBase False)))"
    by (simp_all add: new_poller_def CancelLifeCycle_def NewRPCClientBase_def)
  then show ?thesis
    using Subscribe_cases [where pollInterval = 5 and m = "NewRPCClientBase False" and during = CancelLifeCycle, THEN conjunct1]
      Subscribe_cases [where pollInterval = 5 and m = "NewRPCClientBase False" and during = "\<lambda>m. m", THEN conjunct1]
    by simp
qed

text \<open>\<open>Close\<close> stops every registered subscription and no other, empties the
  registry, closes the current life-cycle channel, resets \<open>latestChainInfo\<close> and keeps the highest
  user observations; \<open>UnsubscribeAllExcept\<close> keeps exactly the registered subscriptions it is given.\<close>

theorem Close_UnsubscribeAllExcept_effect:
  "lenSubs (RPCClientBase_Close m) = 0 \<and>
   unsubscribed (RPCClientBase_Close m) = unsubscribed m \<union> snd ` set (subs m) \<and>
   lifeCycleCh m \<in> closedChs (RPCClientBase_Close m) \<and>
   GetInterceptedChainInfo (RPCClientBase_Close m) = (chain_info_zero, highestUserObservations m) \<and>
   set (subs (UnsubscribeAllExcept keep m)) = set (subs m) \<inter> set keep \<and>
   unsubscribed (UnsubscribeAllExcept keep m) = unsubscribed m \<union> snd ` (set (subs m) - set keep)"
  by (auto simp: RPCClientBase_Close_def resetLatestChainInfo_def UnsubscribeAllExcept_eq
      CancelLifeCycle_def GetInterceptedChainInfo_def lenSubs_def)

end
