(* ===== verification/Node_Fsm.thy ===== *)
theory Node_Fsm
  imports Rpc_Client_Base
begin

text \<open>
  \<open>multinode/node_fsm.go\<close> and \<open>multinode/node.go\<close>: a node of the pool, its states, the guarded
  transitions and the connection checks. A transition function is the critical section of the method
  of the same name: it counts the metric, returns unchanged on a closed node, panics when the
  transition is not allowed, and otherwise closes the RPC client where the code does, sets the state
  and runs its continuation. \<open>go n.xLoop()\<close> sets \<open>spawned\<close>. The RPC client is the one of
  \<open>Rpc_Client_Base\<close>, which chain-specific clients embed; what the remote endpoint answers is an
  argument, and so is what the pool reports about the other nodes.
\<close>

section \<open>States\<close>

datatype nodeState =
    nodeStateUndialed | nodeStateDialed | nodeStateInvalidChainID | nodeStateAlive
  | nodeStateUnreachable | nodeStateOutOfSync | nodeStateUnusable | nodeStateClosed
  | nodeStateSyncing | nodeStateFinalizedBlockOutOfSync | nodeStateFinalizedStateNotAvailable
  | nodeStateLen

definition allNodeStates :: "nodeState list" where
  "allNodeStates =
     [nodeStateUndialed, nodeStateDialed, nodeStateInvalidChainID, nodeStateAlive,
      nodeStateUnreachable, nodeStateOutOfSync, nodeStateUnusable, nodeStateClosed,
      nodeStateSyncing, nodeStateFinalizedBlockOutOfSync, nodeStateFinalizedStateNotAvailable]"

definition isInitializing :: "nodeState \<Rightarrow> bool" where
  "isInitializing s \<longleftrightarrow> s = nodeStateUndialed \<or> s = nodeStateDialed"

fun nodeState_num :: "nodeState \<Rightarrow> int" where
  "nodeState_num nodeStateUndialed = 0"
| "nodeState_num nodeStateDialed = 1"
| "nodeState_num nodeStateInvalidChainID = 2"
| "nodeState_num nodeStateAlive = 3"
| "nodeState_num nodeStateUnreachable = 4"
| "nodeState_num nodeStateOutOfSync = 5"
| "nodeState_num nodeStateUnusable = 6"
| "nodeState_num nodeStateClosed = 7"
| "nodeState_num nodeStateSyncing = 8"
| "nodeState_num nodeStateFinalizedBlockOutOfSync = 9"
| "nodeState_num nodeStateFinalizedStateNotAvailable = 10"
| "nodeState_num nodeStateLen = 11"

fun nodeState_String :: "nodeState \<Rightarrow> string" where
  "nodeState_String nodeStateUndialed = ''Undialed''"
| "nodeState_String nodeStateDialed = ''Dialed''"
| "nodeState_String nodeStateInvalidChainID = ''InvalidChainID''"
| "nodeState_String nodeStateAlive = ''Alive''"
| "nodeState_String nodeStateUnreachable = ''Unreachable''"
| "nodeState_String nodeStateUnusable = ''Unusable''"
| "nodeState_String nodeStateOutOfSync = ''OutOfSync''"
| "nodeState_String nodeStateClosed = ''Closed''"
| "nodeState_String nodeStateSyncing = ''Syncing''"
| "nodeState_String nodeStateFinalizedBlockOutOfSync = ''FinalizedBlockOutOfSync''"
| "nodeState_String nodeStateFinalizedStateNotAvailable = ''FinalizedStateNotAvailable''"
| "nodeState_String nodeStateLen = ''nodeState('' @ go_itoa 11 @ '')''"

definition nodeState_GoString :: "nodeState \<Rightarrow> string" where
  "nodeState_GoString s = ''nodeState'' @ nodeState_String s @ ''('' @ go_itoa (nodeState_num s) @ '')''"

definition transitionFail :: "nodeState \<Rightarrow> nodeState \<Rightarrow> string" where
  "transitionFail from to =
     ''cannot transition from '' @ nodeState_GoString from @ '' to '' @ nodeState_GoString to"

section \<open>The node\<close>

record go_url =
  url_Scheme :: string
  url_Host :: string

text \<open>
  \<open>NodeConfig\<close>, \<open>ChainConfig\<close> and the two optional interfaces: the finalized-state threshold is
  \<^term>\<open>None\<close> when the configuration does not implement \<open>FinalizedStateCheckConfig\<close>, and
  \<open>cfg_hasFinalizedStateChecker\<close> says whether the RPC client implements the checker. Durations are
  in nanoseconds.
\<close>

record node_cfg =
  cfg_PollFailureThreshold :: "32 word"
  cfg_PollSuccessThreshold :: "32 word"
  cfg_PollInterval :: int
  cfg_SelectionMode :: string
  cfg_SyncThreshold :: "32 word"
  cfg_NodeIsSyncingEnabled :: bool
  cfg_FinalizedBlockPollInterval :: int
  cfg_EnforceRepeatableRead :: bool
  cfg_NewHeadsPollInterval :: int
  cfg_VerifyChainID :: bool
  cfg_FinalizedStateCheckFailureThreshold :: "32 word option"
  cfg_NodeNoNewHeadsThreshold :: int
  cfg_NoNewFinalizedHeadsThreshold :: int
  cfg_FinalityDepth :: "32 word"
  cfg_FinalityTagEnabled :: bool
  cfg_FinalizedBlockOffset :: "32 word"
  cfg_hasFinalizedStateChecker :: bool

text \<open>\<open>PoolChainInfoProvider\<close> as a node sees it at one moment.\<close>

record pool_info =
  pool_LatestChainInfo :: "string \<Rightarrow> int \<times> chain_info"
  pool_HighestUserObservations :: chain_info

datatype node_loop =
    AliveLoop | OutOfSyncLoop syncStatus | UnreachableLoop | InvalidChainIDLoop | SyncingLoop
  | FinalizedStateNotAvailableLoop

datatype effect =
    Metric string
  | SetHighestSeenBlock int
  | SetHighestFinalizedBlock int
  | ResetHeadsTimer int
  | ResetFinalizedHeadsTimer int

record node =
  node_name :: string
  node_id :: int
  node_chainID :: string
  node_cfg :: node_cfg
  node_order :: int
  node_ws :: "go_url option"
  node_http :: "go_url option"
  rpc :: rpc_client
  isLoadBalancedRPC :: bool
  state :: nodeState
  poolInfoProvider :: "pool_info option"
  stopped :: bool
  healthCheckSubs :: "managed_sub list"
  spawned :: "node_loop option"
  effects :: "effect list"

definition NewNode ::
  "node_cfg \<Rightarrow> go_url option \<Rightarrow> go_url option \<Rightarrow> string \<Rightarrow> int \<Rightarrow> string \<Rightarrow> int \<Rightarrow> rpc_client \<Rightarrow> bool \<Rightarrow> node" where
  "NewNode c wsuri httpuri name i chainID nodeOrder r lb =
     \<lparr>node_name = name, node_id = i, node_chainID = chainID, node_cfg = c, node_order = nodeOrder,
      node_ws = wsuri, node_http = httpuri, rpc = r, isLoadBalancedRPC = lb,
      state = nodeStateUndialed, poolInfoProvider = None, stopped = False, healthCheckSubs = [],
      spawned = None, effects = []\<rparr>"

definition emit :: "effect list \<Rightarrow> node \<Rightarrow> node" where
  "emit es n = n\<lparr>effects := effects n @ es\<rparr>"

definition rpc_Close :: "node \<Rightarrow> node" where
  "rpc_Close n = n\<lparr>rpc := RPCClientBase_Close (rpc n)\<rparr>"

definition go_loop :: "node_loop \<Rightarrow> node \<Rightarrow> node outcome" where
  "go_loop l n = Ret (n\<lparr>spawned := Some l\<rparr>)"

definition shortenURL :: "go_url \<Rightarrow> string" where
  "shortenURL u = (if url_Scheme u = '''' \<or> url_Host u = '''' then ''''
                   else url_Scheme u @ ''://'' @ url_Host u)"

definition node_String :: "node \<Rightarrow> string" where
  "node_String n =
     ''(primary)'' @ node_name n @
     (case node_ws n of None \<Rightarrow> '''' | Some u \<Rightarrow> '':'' @ shortenURL u) @
     (case node_http n of None \<Rightarrow> '''' | Some u \<Rightarrow> '':'' @ shortenURL u)"

definition UnsubscribeAllExceptAliveLoop :: "node \<Rightarrow> node" where
  "UnsubscribeAllExceptAliveLoop n = n\<lparr>rpc := UnsubscribeAllExcept (healthCheckSubs n) (rpc n)\<rparr>"

definition SetPoolChainInfoProvider :: "pool_info \<Rightarrow> node \<Rightarrow> node" where
  "SetPoolChainInfoProvider p n = n\<lparr>poolInfoProvider := Some p\<rparr>"

text \<open>The critical section of \<open>close\<close>; the client is closed after the goroutines have returned.\<close>

definition node_close :: "node \<Rightarrow> node" where
  "node_close n = n\<lparr>stopped := True, state := nodeStateClosed\<rparr>"

section \<open>Reading the state\<close>

definition getCachedState :: "node \<Rightarrow> nodeState" where
  "getCachedState n = state n"

definition setState :: "nodeState \<Rightarrow> node \<Rightarrow> node" where
  "setState s n = n\<lparr>state := s\<rparr>"

definition isFinalizedBlockOutOfSync :: "node \<Rightarrow> bool" where
  "isFinalizedBlockOutOfSync n =
     (case poolInfoProvider n of
        None \<Rightarrow> False
      | Some p \<Rightarrow>
          let highestObservedByCaller = pool_HighestUserObservations p;
              latest = fst (GetInterceptedChainInfo (rpc n));
              offset = uint (cfg_FinalizedBlockOffset (node_cfg n))
          in if cfg_FinalityTagEnabled (node_cfg n)
             then FinalizedBlockNumber latest < i64 (FinalizedBlockNumber highestObservedByCaller - offset)
             else BlockNumber latest < i64 (BlockNumber highestObservedByCaller - offset))"

definition recalculateState :: "node \<Rightarrow> nodeState" where
  "recalculateState n =
     (if state n \<noteq> nodeStateAlive then state n
      else if cfg_EnforceRepeatableRead (node_cfg n) \<and> isFinalizedBlockOutOfSync n
      then nodeStateFinalizedBlockOutOfSync
      else nodeStateAlive)"

definition State :: "node \<Rightarrow> nodeState" where
  "State n = recalculateState n"

definition StateAndLatest :: "node \<Rightarrow> nodeState \<times> chain_info" where
  "StateAndLatest n = (recalculateState n, fst (GetInterceptedChainInfo (rpc n)))"

definition node_HighestUserObservations :: "node \<Rightarrow> chain_info" where
  "node_HighestUserObservations n = snd (GetInterceptedChainInfo (rpc n))"

section \<open>Transitions\<close>

text \<open>The body all transition methods share: metrics, the allowed source states, whether the client
  is closed, the target, and the continuation that starts the loop of the new state.\<close>

definition transition ::
  "string list \<Rightarrow> nodeState list \<Rightarrow> bool \<Rightarrow> nodeState \<Rightarrow> (node \<Rightarrow> node outcome) \<Rightarrow> node \<Rightarrow> node outcome" where
  "transition ms from closes to fn n =
     (let n1 = emit (map Metric ms) n in
      if state n1 = nodeStateClosed then Ret n1
      else if state n1 \<in> set from
      then fn (setState to (if closes then rpc_Close n1 else n1))
      else Panic (transitionFail (state n1) to))"

definition transitionToAlive :: "(node \<Rightarrow> node outcome) \<Rightarrow> node \<Rightarrow> node outcome" where
  "transitionToAlive =
     transition [''TransitionsToAlive'']
       [nodeStateDialed, nodeStateInvalidChainID, nodeStateSyncing, nodeStateFinalizedStateNotAvailable]
       False nodeStateAlive"

definition declareAlive :: "node \<Rightarrow> node outcome" where
  "declareAlive = transitionToAlive (go_loop AliveLoop)"

definition transitionToInSync :: "(node \<Rightarrow> node outcome) \<Rightarrow> node \<Rightarrow> node outcome" where
  "transitionToInSync =
     transition [''TransitionsToAlive'', ''TransitionsToInSync'']
       [nodeStateOutOfSync, nodeStateSyncing] False nodeStateAlive"

definition declareInSync :: "node \<Rightarrow> node outcome" where
  "declareInSync = transitionToInSync (go_loop AliveLoop)"

definition transitionToOutOfSync :: "(node \<Rightarrow> node outcome) \<Rightarrow> node \<Rightarrow> node outcome" where
  "transitionToOutOfSync =
     transition [''TransitionsToOutOfSync''] [nodeStateAlive, nodeStateOutOfSync] True nodeStateOutOfSync"

definition declareOutOfSync :: "syncStatus \<Rightarrow> node \<Rightarrow> node outcome" where
  "declareOutOfSync syncIssues = transitionToOutOfSync (go_loop (OutOfSyncLoop syncIssues))"

definition transitionToUnreachable :: "(node \<Rightarrow> node outcome) \<Rightarrow> node \<Rightarrow> node outcome" where
  "transitionToUnreachable =
     transition [''TransitionsToUnreachable'']
       [nodeStateUndialed, nodeStateDialed, nodeStateAlive, nodeStateOutOfSync, nodeStateInvalidChainID,
        nodeStateSyncing, nodeStateFinalizedStateNotAvailable] True nodeStateUnreachable"

definition declareUnreachable :: "node \<Rightarrow> node outcome" where
  "declareUnreachable = transitionToUnreachable (go_loop UnreachableLoop)"

definition transitionToInvalidChainID :: "(node \<Rightarrow> node outcome) \<Rightarrow> node \<Rightarrow> node outcome" where
  "transitionToInvalidChainID =
     transition [''TransitionsToInvalidChainID'']
       [nodeStateDialed, nodeStateOutOfSync, nodeStateSyncing, nodeStateFinalizedStateNotAvailable]
       True nodeStateInvalidChainID"

definition declareInvalidChainID :: "node \<Rightarrow> node outcome" where
  "declareInvalidChainID = transitionToInvalidChainID (go_loop InvalidChainIDLoop)"

definition transitionToSyncing :: "(node \<Rightarrow> node outcome) \<Rightarrow> node \<Rightarrow> node outcome" where
  "transitionToSyncing fn =
     transition [''TransitionsToSyncing'']
       [nodeStateDialed, nodeStateOutOfSync, nodeStateInvalidChainID, nodeStateFinalizedStateNotAvailable]
       True nodeStateSyncing
       (\<lambda>n. if cfg_NodeIsSyncingEnabled (node_cfg n) then fn n
            else Panic ''unexpected transition to nodeStateSyncing, while it's disabled'')"

definition declareSyncing :: "node \<Rightarrow> node outcome" where
  "declareSyncing = transitionToSyncing (go_loop SyncingLoop)"

definition transitionToFinalizedStateNotAvailable ::
  "(node \<Rightarrow> node outcome) \<Rightarrow> node \<Rightarrow> node outcome" where
  "transitionToFinalizedStateNotAvailable =
     transition [''TransitionsToFinalizedStateNotAvailable''] [nodeStateAlive] True
       nodeStateFinalizedStateNotAvailable"

definition declareFinalizedStateNotAvailable :: "node \<Rightarrow> node outcome" where
  "declareFinalizedStateNotAvailable =
     transitionToFinalizedStateNotAvailable (go_loop FinalizedStateNotAvailableLoop)"

definition declareState :: "nodeState \<Rightarrow> node \<Rightarrow> node outcome" where
  "declareState s n =
     (if getCachedState n = nodeStateClosed then Ret n
      else
        (case s of
           nodeStateInvalidChainID \<Rightarrow> declareInvalidChainID n
         | nodeStateUnreachable \<Rightarrow> declareUnreachable n
         | nodeStateSyncing \<Rightarrow> declareSyncing n
         | nodeStateAlive \<Rightarrow> declareAlive n
         | nodeStateFinalizedStateNotAvailable \<Rightarrow> declareFinalizedStateNotAvailable n
         | _ \<Rightarrow> Panic (nodeState_GoString s @ '' state declaration is not implemented'')))"

section \<open>Dialling and verification\<close>

text \<open>What the remote endpoint answers to \<open>Dial\<close>, \<open>ChainID\<close> and \<open>IsSyncing\<close>.\<close>

record rpc_replies =
  reply_Dial :: "string option"
  reply_ChainID :: "string + string"
  reply_IsSyncing :: "string + bool"

definition verifyChainID :: "rpc_replies \<Rightarrow> node \<Rightarrow> (nodeState \<times> node) outcome" where
  "verifyChainID r n =
     (let n1 = emit [Metric ''Verifies''] n; st = getCachedState n1 in
      if st = nodeStateClosed then Ret (nodeStateLen, n1)
      else if st \<in> {nodeStateDialed, nodeStateOutOfSync, nodeStateInvalidChainID, nodeStateSyncing,
                     nodeStateFinalizedStateNotAvailable}
      then
        (case reply_ChainID r of
           Inl err \<Rightarrow> Ret (nodeStateUnreachable, emit [Metric ''VerifiesFailed''] n1)
         | Inr chainID \<Rightarrow>
             if chainID \<noteq> node_chainID n
             then Ret (nodeStateInvalidChainID, emit [Metric ''VerifiesFailed''] n1)
             else Ret (nodeStateAlive, emit [Metric ''VerifiesSuccess''] n1))
      else Panic (''cannot verify node in state '' @ nodeState_String st))"

definition verifySyncing :: "rpc_replies \<Rightarrow> node \<Rightarrow> nodeState \<times> node" where
  "verifySyncing r n =
     (if cfg_NodeIsSyncingEnabled (node_cfg n) then
        (case reply_IsSyncing r of
           Inl err \<Rightarrow> (nodeStateUnreachable, n)
         | Inr isSyncing \<Rightarrow> if isSyncing then (nodeStateSyncing, n) else (nodeStateAlive, n))
      else (nodeStateAlive, n))"

definition verifyConn :: "rpc_replies \<Rightarrow> node \<Rightarrow> (nodeState \<times> node) outcome" where
  "verifyConn r n =
     (if cfg_VerifyChainID (node_cfg n) then
        outcome_bind (verifyChainID r n)
          (\<lambda>(s, n1). if s \<noteq> nodeStateAlive then Ret (s, n1) else Ret (verifySyncing r n1))
      else Ret (verifySyncing r n))"

definition createVerifiedConn :: "rpc_replies \<Rightarrow> node \<Rightarrow> (nodeState \<times> node) outcome" where
  "createVerifiedConn r n =
     (case reply_Dial r of
        Some err \<Rightarrow> Ret (nodeStateUnreachable, n)
      | None \<Rightarrow> verifyConn r n)"

text \<open>\<open>start\<close> in its sections: the state check, the dial that leads to \<open>declareUnreachable\<close> or to
  \<open>setState(nodeStateDialed)\<close>, and the verification.\<close>

definition start_check :: "node \<Rightarrow> node outcome" where
  "start_check n =
     (if State n \<noteq> nodeStateUndialed
      then Panic (''cannot dial node with state '' @ nodeState_String (state n)) else Ret n)"

definition verify_and_declare :: "rpc_replies \<Rightarrow> node \<Rightarrow> node outcome" where
  "verify_and_declare r n = outcome_bind (verifyConn r n) (\<lambda>(s, n1). declareState s n1)"

definition node_start :: "rpc_replies \<Rightarrow> node \<Rightarrow> node outcome" where
  "node_start r n =
     outcome_bind (start_check n)
       (\<lambda>n1. case reply_Dial r of
               Some err \<Rightarrow> declareUnreachable n1
             | None \<Rightarrow> verify_and_declare r (setState nodeStateDialed n1))"

end
