(* ===== verification/Node_Lifecycle.thy ===== *)
theory Node_Lifecycle
  imports Node_Fsm
begin

text \<open>
  \<open>multinode/node_lifecycle.go\<close>: the loops that monitor a node, one per state. A loop is its sanity
  check, its set-up (redial, subscriptions) and the handler of one event of its \<open>select\<close>; the handler
  returns either the loop's local variables for the next iteration or the node as the loop left it
  (with a flag saying whether the deferred \<open>unsubscribeHealthChecks\<close> is still to run). \<open>loop_run\<close> runs
  a handler on a list of events. Events carry the answers of the remote endpoint and of the pool.
  \<open>lib\<close> holds the two functions of \<open>chainlink-common\<close> the loops call.
  \<open>node_step\<close> interleaves the sections of the lifecycle goroutine with \<open>Close\<close> and the rest of the
  program.
\<close>

section \<open>Loops\<close>

datatype 'l step = Continue 'l node | Return bool node

fun loop_run :: "('e \<Rightarrow> 'l \<Rightarrow> node \<Rightarrow> 'l step outcome) \<Rightarrow> 'e list \<Rightarrow> 'l \<Rightarrow> node \<Rightarrow> 'l step outcome" where
  "loop_run h [] l n = Ret (Continue l n)"
| "loop_run h (e # es) l n =
     outcome_bind (h e l n)
       (\<lambda>r. case r of Continue l' n' \<Rightarrow> loop_run h es l' n' | Return d n' \<Rightarrow> Ret (Return d n'))"

definition leave :: "node outcome \<Rightarrow> 'l step outcome" where
  "leave m = outcome_bind m (\<lambda>n. Ret (Return True n))"

definition leave_early :: "node outcome \<Rightarrow> 'l step outcome" where
  "leave_early m = outcome_bind m (\<lambda>n. Ret (Return False n))"

fun loop_state :: "node_loop \<Rightarrow> nodeState" where
  "loop_state AliveLoop = nodeStateAlive"
| "loop_state (OutOfSyncLoop i) = nodeStateOutOfSync"
| "loop_state UnreachableLoop = nodeStateUnreachable"
| "loop_state InvalidChainIDLoop = nodeStateInvalidChainID"
| "loop_state SyncingLoop = nodeStateSyncing"
| "loop_state FinalizedStateNotAvailableLoop = nodeStateFinalizedStateNotAvailable"

fun loop_complaint :: "node_loop \<Rightarrow> string" where
  "loop_complaint AliveLoop = ''aliveLoop can only run for node in Alive state, got: ''"
| "loop_complaint (OutOfSyncLoop i) = ''outOfSyncLoop can only run for node in OutOfSync state, got: ''"
| "loop_complaint UnreachableLoop = ''unreachableLoop can only run for node in Unreachable state, got: ''"
| "loop_complaint InvalidChainIDLoop = ''invalidChainIDLoop can only run for node in InvalidChainID state, got: ''"
| "loop_complaint SyncingLoop = ''syncingLoop can only run for node in NodeStateSyncing state, got: ''"
| "loop_complaint FinalizedStateNotAvailableLoop =
     ''finalizedStateNotAvailableLoop can only run for node in FinalizedStateNotAvailable state, got: ''"

text \<open>The sanity check that opens every loop: run, return, or panic.\<close>

definition sanity_check :: "node_loop \<Rightarrow> node \<Rightarrow> bool outcome" where
  "sanity_check l n =
     (let s = getCachedState n in
      if s = loop_state l then Ret True
      else if s = nodeStateClosed then Ret False
      else Panic (loop_complaint l @ nodeState_String s))"

section \<open>Shared pieces\<close>

record lib =
  jitter :: "int \<Rightarrow> int"
  bigmath_Sub :: "int option \<Rightarrow> int \<Rightarrow> int outcome"

definition QueryTimeout :: int where
  "QueryTimeout = 10000000000"

definition zombieNodeCheckInterval :: "lib \<Rightarrow> int \<Rightarrow> int" where
  "zombieNodeCheckInterval L noNewHeadsThreshold =
     (let interval = (if noNewHeadsThreshold \<le> 0 \<or> noNewHeadsThreshold > QueryTimeout
                      then QueryTimeout else noNewHeadsThreshold)
      in jitter L interval)"

text \<open>The pool's answer at the moment of a call, when there is a provider at all.\<close>

definition with_pool :: "pool_info \<Rightarrow> node \<Rightarrow> node" where
  "with_pool p n = (case poolInfoProvider n of None \<Rightarrow> n | Some q \<Rightarrow> n\<lparr>poolInfoProvider := Some p\<rparr>)"

text \<open>\<open>l, _ := LatestChainInfo(n.name); l < k && !n.isLoadBalancedRPC\<close>, when there is a provider.\<close>

definition cannot_disable :: "int \<Rightarrow> node \<Rightarrow> bool" where
  "cannot_disable k n =
     (case poolInfoProvider n of
        None \<Rightarrow> False
      | Some p \<Rightarrow> fst (pool_LatestChainInfo p (node_name n)) < k \<and> \<not> isLoadBalancedRPC n)"

record headSubscription =
  hs_sub :: managed_sub
  hs_liveness :: bool

record sub_env =
  se_startErr :: "string option"
  se_during :: "rpc_client \<Rightarrow> rpc_client"

definition registerNewSubscription ::
  "int \<Rightarrow> (rpc_client \<Rightarrow> (rpc_client \<times> (string + managed_sub)) outcome) \<Rightarrow> node \<Rightarrow>
   (node \<times> (string + headSubscription)) outcome" where
  "registerNewSubscription noNewDataThreshold newSub n =
     outcome_bind (newSub (rpc n))
       (\<lambda>(r, res). case res of
          Inl err \<Rightarrow> Ret (n\<lparr>rpc := r\<rparr>, Inl err)
        | Inr sub \<Rightarrow>
            Ret (n\<lparr>rpc := r, healthCheckSubs := healthCheckSubs n @ [sub]\<rparr>,
                 Inr \<lparr>hs_sub = sub, hs_liveness = (0 < noNewDataThreshold)\<rparr>))"

definition subscribe_heads :: "sub_env \<Rightarrow> node \<Rightarrow> (node \<times> (string + headSubscription)) outcome" where
  "subscribe_heads e n =
     registerNewSubscription (cfg_NodeNoNewHeadsThreshold (node_cfg n))
       (SubscribeToHeads (cfg_NewHeadsPollInterval (node_cfg n)) (se_startErr e) (se_during e)) n"

definition subscribe_finalized :: "sub_env \<Rightarrow> node \<Rightarrow> (node \<times> (string + headSubscription)) outcome" where
  "subscribe_finalized e n =
     registerNewSubscription (cfg_NoNewFinalizedHeadsThreshold (node_cfg n))
       (SubscribeToFinalizedHeads (cfg_FinalizedBlockPollInterval (node_cfg n)) (se_startErr e) (se_during e)) n"

text \<open>The two subscriptions of the alive and the out-of-sync loop: \<open>Inl\<close> when one failed (with the
  flag whether the deferred clean-up was registered), \<open>Inr\<close> with whether each has a liveness timer.\<close>

definition subscribe_both ::
  "sub_env \<Rightarrow> sub_env \<Rightarrow> node \<Rightarrow> (node \<times> (bool + bool \<times> bool)) outcome" where
  "subscribe_both e1 e2 n =
     outcome_bind (subscribe_heads e1 n)
       (\<lambda>(n1, res). case res of
          Inl err \<Rightarrow> Ret (n1, Inl False)
        | Inr h \<Rightarrow>
            if cfg_FinalityTagEnabled (node_cfg n) then
              outcome_bind (subscribe_finalized e2 n1)
                (\<lambda>(n2, res2). case res2 of
                   Inl err \<Rightarrow> Ret (n2, Inl True)
                 | Inr fh \<Rightarrow> Ret (n2, Inr (hs_liveness h, hs_liveness fh)))
            else Ret (n1, Inr (hs_liveness h, False)))"

definition unsubscribeHealthChecks :: "node \<Rightarrow> node" where
  "unsubscribeHealthChecks n =
     n\<lparr>rpc := fold ManagedSubscription_Unsubscribe (healthCheckSubs n) (rpc n), healthCheckSubs := []\<rparr>"

definition onNewFinalizedHead :: "chain_info \<Rightarrow> head \<Rightarrow> node \<Rightarrow> bool \<times> chain_info \<times> node" where
  "onNewFinalizedHead ci h n =
     (if \<not> head_IsValid h then (False, ci, n)
      else if head_BlockNumber h \<le> FinalizedBlockNumber ci then (False, ci, n)
      else (True, ci\<lparr>FinalizedBlockNumber := head_BlockNumber h\<rparr>,
            emit [SetHighestFinalizedBlock (head_BlockNumber h)] n))"

definition onNewHead :: "chain_info \<Rightarrow> head \<Rightarrow> node \<Rightarrow> bool \<times> chain_info \<times> node" where
  "onNewHead ci h n =
     (if \<not> head_IsValid h then (False, ci, n)
      else
        let n1 = emit [Metric ''SeenBlocks''] n; bn = head_BlockNumber h in
        if bn \<le> BlockNumber ci then (False, ci, n1)
        else
          let n2 = emit [SetHighestSeenBlock bn] n1; ci1 = ci\<lparr>BlockNumber := bn\<rparr> in
          if \<not> cfg_FinalityTagEnabled (node_cfg n) then
            let latestFinalizedBN = max (i64 (bn - uint (cfg_FinalityDepth (node_cfg n)))) 0 in
            if latestFinalizedBN > FinalizedBlockNumber ci1
            then (True, ci1\<lparr>FinalizedBlockNumber := latestFinalizedBN\<rparr>,
                  emit [SetHighestFinalizedBlock latestFinalizedBN] n2)
            else (True, ci1, n2)
          else (True, ci1, n2))"

definition NodeSelectionModeHighestHead :: string where
  "NodeSelectionModeHighestHead = ''HighestHead''"

definition NodeSelectionModeRoundRobin :: string where
  "NodeSelectionModeRoundRobin = ''RoundRobin''"

definition NodeSelectionModeTotalDifficulty :: string where
  "NodeSelectionModeTotalDifficulty = ''TotalDifficulty''"

definition NodeSelectionModePriorityLevel :: string where
  "NodeSelectionModePriorityLevel = ''PriorityLevel''"

definition isOutOfSyncWithPool :: "lib \<Rightarrow> node \<Rightarrow> (bool \<times> int) outcome" where
  "isOutOfSyncWithPool L n =
     (case poolInfoProvider n of
        None \<Rightarrow> Ret (False, 0)
      | Some p \<Rightarrow>
          let threshold = cfg_SyncThreshold (node_cfg n) in
          if threshold = 0 then Ret (False, 0)
          else
            let (ln, ci) = pool_LatestChainInfo p (node_name n);
                localCi = fst (GetInterceptedChainInfo (rpc n));
                mode = cfg_SelectionMode (node_cfg n)
            in if mode \<in> {NodeSelectionModeHighestHead, NodeSelectionModeRoundRobin, NodeSelectionModePriorityLevel}
               then Ret (BlockNumber localCi < i64 (BlockNumber ci - uint threshold), ln)
               else if mode = NodeSelectionModeTotalDifficulty
               then outcome_bind (bigmath_Sub L (TotalDifficulty ci) (uint threshold))
                      (\<lambda>d. case TotalDifficulty localCi of
                         None \<Rightarrow> Panic ''invalid memory address or nil pointer dereference''
                       | Some td \<Rightarrow> Ret (td < d, ln))
               else Panic (''unrecognized NodeSelectionMode: '' @ mode))"

section \<open>The alive loop\<close>

record alive_local =
  pollFailures :: "32 word"
  finalizedStateFailures :: "32 word"
  localHighestChainInfo :: chain_info

datatype fs_reply = FsAvailable | FsUnavailable | FsError string

record poll_env =
  pe_ClientVersion :: "string + string"
  pe_FinalizedState :: fs_reply
  pe_pool1 :: pool_info
  pe_pool2 :: pool_info
  pe_pool3 :: pool_info

datatype alive_event =
    AvDone
  | AvPoll poll_env
  | AvHead "head option"
  | AvHeadsErr
  | AvNoNewHeads pool_info
  | AvFinalizedHead "head option"
  | AvNoNewFinalizedHeads pool_info
  | AvFinalizedErr

text \<open>\<open>if c < math.MaxUint32 { metric; c++ }\<close>\<close>

definition incr_capped :: "string \<Rightarrow> 32 word \<Rightarrow> node \<Rightarrow> 32 word \<times> node" where
  "incr_capped m c n = (if c < - 1 then (c + 1, emit [Metric m] n) else (c, n))"

definition fs_threshold :: "node_cfg \<Rightarrow> 32 word" where
  "fs_threshold c =
     (case cfg_FinalizedStateCheckFailureThreshold c of
        Some t \<Rightarrow> if cfg_hasFinalizedStateChecker c \<and> 0 < cfg_PollInterval c then t else 0
      | None \<Rightarrow> 0)"

definition poll_ping :: "poll_env \<Rightarrow> alive_local \<Rightarrow> node \<Rightarrow> alive_local \<times> node" where
  "poll_ping e l n =
     (let n1 = emit [Metric ''Polls''] n in
      case pe_ClientVersion e of
        Inl pingErr \<Rightarrow>
          let (c, n2) = incr_capped ''PollsFailed'' (pollFailures l) n1
          in (l\<lparr>pollFailures := c\<rparr>, n2)
      | Inr version \<Rightarrow>
          (l\<lparr>pollFailures := (if 0 < pollFailures l then pollFailures l - 1 else 0)\<rparr>,
           emit [Metric (''NodeClientVersion '' @ version), Metric ''PollsSuccess''] n1))"

definition poll_finalized :: "poll_env \<Rightarrow> alive_local \<Rightarrow> node \<Rightarrow> alive_local step outcome" where
  "poll_finalized e l n =
     (if 0 < fs_threshold (node_cfg n) then
        (case pe_FinalizedState e of
           FsAvailable \<Rightarrow> Ret (Continue (l\<lparr>finalizedStateFailures := 0\<rparr>) n)
         | FsUnavailable \<Rightarrow>
             let (c, n1) = incr_capped ''FinalizedStateFailed'' (finalizedStateFailures l) n;
                 l1 = l\<lparr>finalizedStateFailures := c\<rparr>; n2 = with_pool (pe_pool3 e) n1
             in if fs_threshold (node_cfg n) \<le> c then
                  if cannot_disable 2 n2 then Ret (Continue l1 n2)
                  else leave (declareFinalizedStateNotAvailable n2)
                else Ret (Continue l1 n1)
         | FsError err \<Rightarrow>
             let (c, n1) = incr_capped ''PollsFailed'' (pollFailures l) n
             in Ret (Continue (l\<lparr>pollFailures := c\<rparr>) n1))
      else Ret (Continue l n))"

definition poll_sync :: "lib \<Rightarrow> poll_env \<Rightarrow> alive_local \<Rightarrow> node \<Rightarrow> alive_local step outcome" where
  "poll_sync L e l n =
     (let n1 = with_pool (pe_pool2 e) n in
      outcome_bind (isOutOfSyncWithPool L n1)
        (\<lambda>(outOfSync, liveNodes).
           if outOfSync then
             if liveNodes < 1 \<and> \<not> isLoadBalancedRPC n1 then Ret (Continue l n1)
             else leave (declareOutOfSync syncStatusNotInSyncWithPool n1)
           else poll_finalized e l n1))"

definition alive_poll :: "lib \<Rightarrow> poll_env \<Rightarrow> alive_local \<Rightarrow> node \<Rightarrow> alive_local step outcome" where
  "alive_poll L e l n =
     (let (l1, n1) = poll_ping e l n; threshold = cfg_PollFailureThreshold (node_cfg n) in
      if 0 < threshold \<and> threshold \<le> pollFailures l1 then
        let n2 = with_pool (pe_pool1 e) n1 in
        if cannot_disable 1 n2 then Ret (Continue l1 n2) else leave (declareUnreachable n2)
      else poll_sync L e l1 n1)"

definition alive_no_new_heads ::
  "lib \<Rightarrow> pool_info \<Rightarrow> (int \<Rightarrow> effect) \<Rightarrow> int \<Rightarrow> syncStatus \<Rightarrow> alive_local \<Rightarrow> node \<Rightarrow> alive_local step outcome" where
  "alive_no_new_heads L p resetTimer threshold issue l n =
     (let n1 = with_pool p n in
      if cannot_disable 1 n1
      then Ret (Continue l (emit [resetTimer (zombieNodeCheckInterval L threshold)] n1))
      else leave (declareOutOfSync issue n1))"

fun alive_handle :: "lib \<Rightarrow> alive_event \<Rightarrow> alive_local \<Rightarrow> node \<Rightarrow> alive_local step outcome" where
  "alive_handle L AvDone l n = Ret (Return True n)"
| "alive_handle L (AvPoll e) l n = alive_poll L e l n"
| "alive_handle L (AvHead None) l n = leave (declareUnreachable n)"
| "alive_handle L (AvHead (Some bh)) l n =
     (let (receivedNewHead, ci, n1) = onNewHead (localHighestChainInfo l) bh n;
          threshold = cfg_NodeNoNewHeadsThreshold (node_cfg n)
      in Ret (Continue (l\<lparr>localHighestChainInfo := ci\<rparr>)
           (if receivedNewHead \<and> 0 < threshold then emit [ResetHeadsTimer threshold] n1 else n1)))"
| "alive_handle L AvHeadsErr l n = leave (declareUnreachable n)"
| "alive_handle L (AvNoNewHeads p) l n =
     alive_no_new_heads L p ResetHeadsTimer (cfg_NodeNoNewHeadsThreshold (node_cfg n)) syncStatusNoNewHead l n"
| "alive_handle L (AvFinalizedHead None) l n = leave (declareUnreachable n)"
| "alive_handle L (AvFinalizedHead (Some h)) l n =
     (let (receivedNewHead, ci, n1) = onNewFinalizedHead (localHighestChainInfo l) h n;
          threshold = cfg_NoNewFinalizedHeadsThreshold (node_cfg n)
      in Ret (Continue (l\<lparr>localHighestChainInfo := ci\<rparr>)
           (if receivedNewHead \<and> 0 < threshold then emit [ResetFinalizedHeadsTimer threshold] n1 else n1)))"
| "alive_handle L (AvNoNewFinalizedHeads p) l n =
     alive_no_new_heads L p ResetFinalizedHeadsTimer (cfg_NoNewFinalizedHeadsThreshold (node_cfg n))
       syncStatusNoNewFinalizedHead l n"
| "alive_handle L AvFinalizedErr l n = leave (declareUnreachable n)"

definition alive_setup :: "sub_env \<Rightarrow> sub_env \<Rightarrow> node \<Rightarrow> alive_local step outcome" where
  "alive_setup e1 e2 n =
     outcome_bind (subscribe_both e1 e2 n)
       (\<lambda>(n1, res). case res of
          Inl defer \<Rightarrow> outcome_bind (declareUnreachable n1) (\<lambda>n2. Ret (Return defer n2))
        | Inr _ \<Rightarrow>
            Ret (Continue \<lparr>pollFailures = 0, finalizedStateFailures = 0,
                           localHighestChainInfo = fst (GetInterceptedChainInfo (rpc n1))\<rparr> n1))"

text \<open>The select only offers the channels that exist: the poll ticker when polling is on, the liveness
  tickers when their threshold is positive, the finalized subscription with the finality tag.\<close>

fun alive_enabled :: "node_cfg \<Rightarrow> alive_event \<Rightarrow> bool" where
  "alive_enabled c (AvPoll e) \<longleftrightarrow> 0 < cfg_PollInterval c"
| "alive_enabled c (AvNoNewHeads p) \<longleftrightarrow> 0 < cfg_NodeNoNewHeadsThreshold c"
| "alive_enabled c (AvFinalizedHead h) \<longleftrightarrow> cfg_FinalityTagEnabled c"
| "alive_enabled c (AvNoNewFinalizedHeads p) \<longleftrightarrow>
     cfg_FinalityTagEnabled c \<and> 0 < cfg_NoNewFinalizedHeadsThreshold c"
| "alive_enabled c AvFinalizedErr \<longleftrightarrow> cfg_FinalityTagEnabled c"
| "alive_enabled c _ \<longleftrightarrow> True"

text \<open>The deferred calls of a loop that returned.\<close>

fun finish :: "'l step \<Rightarrow> 'l step" where
  "finish (Continue l n) = Continue l n"
| "finish (Return defer n) = Return False (if defer then unsubscribeHealthChecks n else n)"

definition after_setup ::
  "('e \<Rightarrow> 'l \<Rightarrow> node \<Rightarrow> 'l step outcome) \<Rightarrow> 'e list \<Rightarrow> 'l step \<Rightarrow> 'l step outcome" where
  "after_setup h es r =
     outcome_bind (case r of Continue l n \<Rightarrow> loop_run h es l n | Return d n \<Rightarrow> Ret (Return d n))
       (\<lambda>r'. Ret (finish r'))"

definition aliveLoop ::
  "lib \<Rightarrow> sub_env \<Rightarrow> sub_env \<Rightarrow> alive_event list \<Rightarrow> node \<Rightarrow> alive_local step outcome" where
  "aliveLoop L e1 e2 es n =
     outcome_bind (sanity_check AliveLoop n)
       (\<lambda>ok. if \<not> ok then Ret (Return False n)
             else outcome_bind (alive_setup e1 e2 n) (after_setup (alive_handle L) es))"

section \<open>The out-of-sync loop\<close>

record oos_local =
  syncIssues :: syncStatus
  oos_highest :: chain_info

datatype oos_event =
    OsDone
  | OsHead "head option" pool_info
  | OsZombieCheck pool_info
  | OsHeadsErr
  | OsNoNewHeads
  | OsFinalizedHead "head option"
  | OsFinalizedErr
  | OsNoNewFinalizedHeads

text \<open>The top of the loop: back in sync once no issue is left.\<close>

definition oos_top :: "oos_local \<Rightarrow> node \<Rightarrow> oos_local step outcome" where
  "oos_top l n =
     (if syncIssues l = syncStatusSynced then leave (declareInSync n) else Ret (Continue l n))"

definition oos_new_head :: "lib \<Rightarrow> pool_info \<Rightarrow> head \<Rightarrow> oos_local \<Rightarrow> node \<Rightarrow> oos_local step outcome" where
  "oos_new_head L p h l n =
     (let (receivedNewHead, ci, n1) = onNewHead (oos_highest l) h n; l1 = l\<lparr>oos_highest := ci\<rparr> in
      if \<not> receivedNewHead then Ret (Continue l1 n1)
      else
        let s1 = sync_clear (syncIssues l) syncStatusNoNewHead; n2 = with_pool p n1;
            threshold = cfg_NodeNoNewHeadsThreshold (node_cfg n)
        in outcome_bind (isOutOfSyncWithPool L n2)
             (\<lambda>(outOfSync, _).
                Ret (Continue
                  (l1\<lparr>syncIssues := (if \<not> outOfSync then sync_clear s1 syncStatusNotInSyncWithPool
                                     else sync_set s1 syncStatusNotInSyncWithPool)\<rparr>)
                  (if 0 < threshold then emit [ResetHeadsTimer threshold] n2 else n2))))"

definition oos_finalized_head :: "head \<Rightarrow> oos_local \<Rightarrow> node \<Rightarrow> oos_local step outcome" where
  "oos_finalized_head h l n =
     (if \<not> head_IsValid h then Ret (Continue l n)
      else
        let (receivedNewHead, ci, n1) = onNewFinalizedHead (oos_highest l) h n;
            l1 = l\<lparr>oos_highest := ci\<rparr>; threshold = cfg_NoNewFinalizedHeadsThreshold (node_cfg n)
        in if \<not> receivedNewHead then Ret (Continue l1 n1)
           else Ret (Continue (l1\<lparr>syncIssues := sync_clear (syncIssues l) syncStatusNoNewFinalizedHead\<rparr>)
                  (if 0 < threshold then emit [ResetFinalizedHeadsTimer threshold] n1 else n1)))"

definition oos_zombie :: "pool_info \<Rightarrow> oos_local \<Rightarrow> node \<Rightarrow> oos_local step outcome" where
  "oos_zombie p l n =
     (let n1 = with_pool p n in
      case poolInfoProvider n1 of
        None \<Rightarrow> Ret (Continue l n1)
      | Some q \<Rightarrow>
          if fst (pool_LatestChainInfo q (node_name n1)) < 1 then
            if isLoadBalancedRPC n1 then leave (declareOutOfSync (syncIssues l) n1)
            else leave (declareInSync n1)
          else Ret (Continue l n1))"

fun oos_select :: "lib \<Rightarrow> oos_event \<Rightarrow> oos_local \<Rightarrow> node \<Rightarrow> oos_local step outcome" where
  "oos_select L OsDone l n = Ret (Return True n)"
| "oos_select L (OsHead None p) l n = leave (declareUnreachable n)"
| "oos_select L (OsHead (Some h) p) l n = oos_new_head L p h l n"
| "oos_select L (OsZombieCheck p) l n = oos_zombie p l n"
| "oos_select L OsHeadsErr l n = leave (declareUnreachable n)"
| "oos_select L OsNoNewHeads l n =
     Ret (Continue (l\<lparr>syncIssues := sync_set (syncIssues l) syncStatusNoNewHead\<rparr>) n)"
| "oos_select L (OsFinalizedHead None) l n = leave (declareUnreachable n)"
| "oos_select L (OsFinalizedHead (Some h)) l n = oos_finalized_head h l n"
| "oos_select L OsFinalizedErr l n = leave (declareUnreachable n)"
| "oos_select L OsNoNewFinalizedHeads l n =
     Ret (Continue (l\<lparr>syncIssues := sync_set (syncIssues l) syncStatusNoNewFinalizedHead\<rparr>) n)"

definition oos_handle :: "lib \<Rightarrow> oos_event \<Rightarrow> oos_local \<Rightarrow> node \<Rightarrow> oos_local step outcome" where
  "oos_handle L e l n =
     outcome_bind (oos_select L e l n)
       (\<lambda>r. case r of Continue l' n' \<Rightarrow> oos_top l' n' | Return d n' \<Rightarrow> Ret (Return d n'))"

fun oos_enabled :: "node_cfg \<Rightarrow> oos_event \<Rightarrow> bool" where
  "oos_enabled c OsNoNewHeads \<longleftrightarrow> 0 < cfg_NodeNoNewHeadsThreshold c"
| "oos_enabled c (OsFinalizedHead h) \<longleftrightarrow> cfg_FinalityTagEnabled c"
| "oos_enabled c OsFinalizedErr \<longleftrightarrow> cfg_FinalityTagEnabled c"
| "oos_enabled c OsNoNewFinalizedHeads \<longleftrightarrow>
     cfg_FinalityTagEnabled c \<and> 0 < cfg_NoNewFinalizedHeadsThreshold c"
| "oos_enabled c _ \<longleftrightarrow> True"

text \<open>After the redial has succeeded: the subscriptions and the first pass of the loop's top.\<close>

definition oos_subscribe :: "sub_env \<Rightarrow> sub_env \<Rightarrow> syncStatus \<Rightarrow> node \<Rightarrow> oos_local step outcome" where
  "oos_subscribe e1 e2 issues n =
     outcome_bind (subscribe_both e1 e2 n)
       (\<lambda>(n1, res). case res of
          Inl defer \<Rightarrow> outcome_bind (declareUnreachable n1) (\<lambda>n2. Ret (Return defer n2))
        | Inr _ \<Rightarrow>
            oos_top \<lparr>syncIssues = issues, oos_highest = snd (GetInterceptedChainInfo (rpc n1))\<rparr> n1)"

definition outOfSyncLoop ::
  "lib \<Rightarrow> rpc_replies \<Rightarrow> sub_env \<Rightarrow> sub_env \<Rightarrow> oos_event list \<Rightarrow> syncStatus \<Rightarrow> node \<Rightarrow> oos_local step outcome" where
  "outOfSyncLoop L r e1 e2 es issues n =
     outcome_bind (sanity_check (OutOfSyncLoop issues) n)
       (\<lambda>ok. if \<not> ok then Ret (Return False n)
             else outcome_bind (createVerifiedConn r n)
               (\<lambda>(s, n1). if s \<noteq> nodeStateAlive then leave_early (declareState s n1)
                          else outcome_bind (oos_subscribe e1 e2 issues n1) (after_setup (oos_handle L) es)))"

section \<open>The other loops\<close>

text \<open>One probe of \<open>probeUntilStable\<close>: the context is cancelled while waiting, or the poll is made.\<close>

datatype probe_reply = ProbeCancelled | ProbePoll "string + string"

fun probe_loop :: "probe_reply list \<Rightarrow> nat \<Rightarrow> node \<Rightarrow> (bool \<times> node) option" where
  "probe_loop rs 0 n = Some (True, n)"
| "probe_loop [] (Suc k) n = None"
| "probe_loop (ProbeCancelled # rs) (Suc k) n = Some (False, n)"
| "probe_loop (ProbePoll (Inl err) # rs) (Suc k) n =
     Some (False, emit [Metric ''Polls'', Metric ''PollsFailed''] n)"
| "probe_loop (ProbePoll (Inr version) # rs) (Suc k) n =
     probe_loop rs k
       (emit [Metric ''Polls'', Metric ''PollsSuccess'', Metric (''NodeClientVersion '' @ version)] n)"

definition probeUntilStable :: "probe_reply list \<Rightarrow> node \<Rightarrow> (bool \<times> node) option" where
  "probeUntilStable rs n =
     (let threshold = cfg_PollSuccessThreshold (node_cfg n) in
      if threshold = 0 \<or> cfg_PollInterval (node_cfg n) \<le> 0 then Some (True, n)
      else probe_loop rs (unat threshold) n)"

datatype 'r recheck = RcDone | Recheck 'r

text \<open>\<open>unreachableLoop\<close> after a successful dial and \<open>setState(nodeStateDialed)\<close>; \<open>None\<close> when the probes
  given do not suffice to decide.\<close>

definition unreachable_back :: "node \<Rightarrow> unit step outcome" where
  "unreachable_back n = Ret (Continue () (setState nodeStateUnreachable (rpc_Close n)))"

definition unreachable_decide :: "nodeState \<Rightarrow> probe_reply list \<Rightarrow> node \<Rightarrow> unit step outcome option" where
  "unreachable_decide s probes n =
     (if s = nodeStateUnreachable then Some (unreachable_back n)
      else if s = nodeStateAlive then
        (case probeUntilStable probes n of
           None \<Rightarrow> None
         | Some (ok, n1) \<Rightarrow>
             Some (if ok then leave_early (declareState s n1) else unreachable_back n1))
      else Some (leave_early (declareState s n)))"

definition unreachable_handle ::
  "(rpc_replies \<times> probe_reply list) recheck \<Rightarrow> node \<Rightarrow> unit step outcome option" where
  "unreachable_handle e n =
     (case e of
        RcDone \<Rightarrow> Some (Ret (Return False n))
      | Recheck (r, probes) \<Rightarrow>
          (case reply_Dial r of
             Some err \<Rightarrow> Some (Ret (Continue () n))
           | None \<Rightarrow>
               (case verifyConn r (setState nodeStateDialed n) of
                  Panic m \<Rightarrow> Some (Panic m)
                | Ret (s, n1) \<Rightarrow> unreachable_decide s probes n1)))"

text \<open>The redial that opens the invalid-chain, syncing and finalized-state loops: \<open>Continue\<close> when the
  node stays in the state \<open>stay\<close> it is in.\<close>

definition redial :: "nodeState \<Rightarrow> rpc_replies \<Rightarrow> node \<Rightarrow> unit step outcome" where
  "redial stay r n =
     outcome_bind (createVerifiedConn r n)
       (\<lambda>(s, n1). if s \<noteq> stay then leave_early (declareState s n1) else Ret (Continue () n1))"

fun invalidChainID_handle :: "rpc_replies recheck \<Rightarrow> unit \<Rightarrow> node \<Rightarrow> unit step outcome" where
  "invalidChainID_handle RcDone u n = Ret (Return False n)"
| "invalidChainID_handle (Recheck r) u n =
     outcome_bind (verifyConn r n)
       (\<lambda>(s, n1). if s = nodeStateInvalidChainID then Ret (Continue () n1)
                  else leave_early (declareState s n1))"

fun syncing_handle :: "(string + bool) recheck \<Rightarrow> unit \<Rightarrow> node \<Rightarrow> unit step outcome" where
  "syncing_handle RcDone u n = Ret (Return False n)"
| "syncing_handle (Recheck (Inl err)) u n = leave_early (declareUnreachable n)"
| "syncing_handle (Recheck (Inr isSyncing)) u n =
     (if isSyncing then Ret (Continue () n) else leave_early (declareAlive n))"

fun fsna_handle :: "fs_reply recheck \<Rightarrow> unit \<Rightarrow> node \<Rightarrow> unit step outcome" where
  "fsna_handle RcDone u n = Ret (Return False n)"
| "fsna_handle (Recheck FsAvailable) u n = leave_early (declareAlive n)"
| "fsna_handle (Recheck FsUnavailable) u n = Ret (Continue () n)"
| "fsna_handle (Recheck (FsError err)) u n = leave_early (declareUnreachable n)"

definition invalidChainIDLoop :: "rpc_replies \<Rightarrow> rpc_replies recheck list \<Rightarrow> node \<Rightarrow> unit step outcome" where
  "invalidChainIDLoop r es n =
     outcome_bind (sanity_check InvalidChainIDLoop n)
       (\<lambda>ok. if \<not> ok then Ret (Return False n)
             else outcome_bind (redial nodeStateInvalidChainID r n) (after_setup invalidChainID_handle es))"

definition syncingLoop :: "rpc_replies \<Rightarrow> (string + bool) recheck list \<Rightarrow> node \<Rightarrow> unit step outcome" where
  "syncingLoop r es n =
     outcome_bind (sanity_check SyncingLoop n)
       (\<lambda>ok. if \<not> ok then Ret (Return False n)
             else outcome_bind (redial nodeStateSyncing r n) (after_setup syncing_handle es))"

text \<open>Without a checker the loop declares the node alive as soon as the redial has succeeded.\<close>

definition fsna_enter :: "unit step \<Rightarrow> unit step outcome" where
  "fsna_enter r =
     (case r of
        Return d n \<Rightarrow> Ret (Return d n)
      | Continue u n \<Rightarrow>
          if \<not> cfg_hasFinalizedStateChecker (node_cfg n) then leave_early (declareAlive n)
          else Ret (Continue u n))"

definition finalizedStateNotAvailableLoop ::
  "rpc_replies \<Rightarrow> fs_reply recheck list \<Rightarrow> node \<Rightarrow> unit step outcome" where
  "finalizedStateNotAvailableLoop r es n =
     outcome_bind (sanity_check FinalizedStateNotAvailableLoop n)
       (\<lambda>ok. if \<not> ok then Ret (Return False n)
             else outcome_bind (redial nodeStateAlive r n)
               (\<lambda>s. outcome_bind (fsna_enter s) (after_setup fsna_handle es)))"

fun unreachable_run ::
  "(rpc_replies \<times> probe_reply list) recheck list \<Rightarrow> node \<Rightarrow> unit step outcome option" where
  "unreachable_run [] n = Some (Ret (Continue () n))"
| "unreachable_run (e # es) n =
     (case unreachable_handle e n of
        Some (Ret (Continue u n')) \<Rightarrow> unreachable_run es n'
      | r \<Rightarrow> r)"

definition unreachableLoop ::
  "(rpc_replies \<times> probe_reply list) recheck list \<Rightarrow> node \<Rightarrow> unit step outcome option" where
  "unreachableLoop es n =
     (case sanity_check UnreachableLoop n of
        Panic m \<Rightarrow> Some (Panic m)
      | Ret ok \<Rightarrow> if \<not> ok then Some (Ret (Return False n)) else unreachable_run es n)"

end
