(* ===== verification/Node_System.thy ===== *)
theory Node_System
  imports Node_Lifecycle
begin

text \<open>
  The lifecycle goroutine of a node (\<open>start\<close> and the loops of \<open>node_lifecycle.go\<close>, each handing over
  to the next) interleaved with \<open>Close\<close>, with the deferred clean-ups of loops that have returned, and
  with everything the rest of the program may do to the RPC client and the pool information. The
  goroutine's position is a \<open>pc\<close>; a step is one section between two accesses to \<open>n.state\<close>. The answers
  of the remote endpoint and the events are arbitrary.
\<close>

section \<open>The system\<close>

datatype pc =
    PStart | PStartDial | PDialed bool | PVerify bool | PDecide bool nodeState | PGiveUp
  | PDeclareState nodeState
  | PEnter node_loop | PSetup node_loop | POosSubscribe syncStatus | PFinalizedEnter
  | PAlive alive_local | POutOfSync oos_local | PUnreachable | PInvalidChainID | PSyncing | PFinalized
  | PDone | PCrash string

record lc_sys =
  nd :: node
  pc :: pc
  cleanups :: nat

definition crash :: "string \<Rightarrow> lc_sys \<Rightarrow> lc_sys" where
  "crash m s = s\<lparr>pc := PCrash m\<rparr>"

text \<open>After a declare method the goroutine ends, and the goroutine it started, if any, takes over.\<close>

definition after :: "node outcome \<Rightarrow> lc_sys \<Rightarrow> lc_sys" where
  "after m s =
     (case m of
        Panic e \<Rightarrow> crash e s
      | Ret n \<Rightarrow>
          (case spawned n of
             None \<Rightarrow> s\<lparr>nd := n, pc := PDone\<rparr>
           | Some l \<Rightarrow> s\<lparr>nd := n\<lparr>spawned := None\<rparr>, pc := PEnter l\<rparr>))"

definition after_step :: "('l \<Rightarrow> pc) \<Rightarrow> 'l step outcome \<Rightarrow> lc_sys \<Rightarrow> lc_sys" where
  "after_step k m s =
     (case m of
        Panic e \<Rightarrow> crash e s
      | Ret (Continue l n) \<Rightarrow> s\<lparr>nd := n, pc := k l\<rparr>
      | Ret (Return d n) \<Rightarrow> after (Ret n) (s\<lparr>cleanups := cleanups s + (if d then 1 else 0)\<rparr>))"

definition after_verify :: "(nodeState \<Rightarrow> pc) \<Rightarrow> (nodeState \<times> node) outcome \<Rightarrow> lc_sys \<Rightarrow> lc_sys" where
  "after_verify k m s =
     (case m of Panic e \<Rightarrow> crash e s | Ret (v, n) \<Rightarrow> s\<lparr>nd := n, pc := k v\<rparr>)"

text \<open>What a loop does with the result of the redial that opens it.\<close>

fun redial_next :: "node_loop \<Rightarrow> nodeState \<Rightarrow> pc" where
  "redial_next (OutOfSyncLoop i) v = (if v \<noteq> nodeStateAlive then PDeclareState v else POosSubscribe i)"
| "redial_next InvalidChainIDLoop v = (if v \<noteq> nodeStateInvalidChainID then PDeclareState v else PInvalidChainID)"
| "redial_next SyncingLoop v = (if v \<noteq> nodeStateSyncing then PDeclareState v else PSyncing)"
| "redial_next FinalizedStateNotAvailableLoop v =
     (if v \<noteq> nodeStateAlive then PDeclareState v else PFinalizedEnter)"
| "redial_next l v = PDone"

definition has_redial :: "node_loop \<Rightarrow> bool" where
  "has_redial l \<longleftrightarrow> l \<noteq> AliveLoop \<and> l \<noteq> UnreachableLoop"

definition decide_next :: "bool \<Rightarrow> nodeState \<Rightarrow> bool \<Rightarrow> pc" where
  "decide_next from_unreachable v probed =
     (if \<not> from_unreachable then PDeclareState v
      else if v = nodeStateUnreachable then PGiveUp
      else if v = nodeStateAlive \<and> \<not> probed then PGiveUp
      else PDeclareState v)"

inductive node_step :: "lib \<Rightarrow> lc_sys \<Rightarrow> lc_sys \<Rightarrow> bool" for L where
  start_panics:
    "pc s = PStart \<Longrightarrow> start_check (nd s) = Panic m \<Longrightarrow> node_step L s (crash m s)"
| start_passes:
    "pc s = PStart \<Longrightarrow> start_check (nd s) = Ret n \<Longrightarrow> node_step L s (s\<lparr>pc := PStartDial\<rparr>)"
| start_dial_fails:
    "pc s = PStartDial \<Longrightarrow> node_step L s (after (declareUnreachable (nd s)) s)"
| start_dial_ok:
    "pc s = PStartDial \<Longrightarrow> node_step L s (s\<lparr>pc := PDialed False\<rparr>)"
| set_dialed:
    "pc s = PDialed u \<Longrightarrow> node_step L s (s\<lparr>nd := setState nodeStateDialed (nd s), pc := PVerify u\<rparr>)"
| verify:
    "pc s = PVerify u \<Longrightarrow> node_step L s (after_verify (PDecide u) (verifyConn r (nd s)) s)"
| decide:
    "pc s = PDecide u v \<Longrightarrow> probeUntilStable probes (nd s) = Some (probed, n) \<Longrightarrow>
     node_step L s (s\<lparr>pc := decide_next u v probed\<rparr>)"
| give_up:
    "pc s = PGiveUp \<Longrightarrow>
     node_step L s (s\<lparr>nd := setState nodeStateUnreachable (rpc_Close (nd s)), pc := PUnreachable\<rparr>)"
| declare_state:
    "pc s = PDeclareState v \<Longrightarrow> node_step L s (after (declareState v (nd s)) s)"
| enter_panics:
    "pc s = PEnter l \<Longrightarrow> sanity_check l (nd s) = Panic m \<Longrightarrow> node_step L s (crash m s)"
| enter:
    "pc s = PEnter l \<Longrightarrow> sanity_check l (nd s) = Ret b \<Longrightarrow>
     node_step L s (s\<lparr>pc := (if b then PSetup l else PDone)\<rparr>)"
| alive_subscribe:
    "pc s = PSetup AliveLoop \<Longrightarrow> node_step L s (after_step PAlive (alive_setup e1 e2 (nd s)) s)"
| unreachable_begin:
    "pc s = PSetup UnreachableLoop \<Longrightarrow> node_step L s (s\<lparr>pc := PUnreachable\<rparr>)"
| redials:
    "pc s = PSetup l \<Longrightarrow> has_redial l \<Longrightarrow>
     node_step L s (after_verify (redial_next l) (createVerifiedConn r (nd s)) s)"
| oos_subscribes:
    "pc s = POosSubscribe i \<Longrightarrow> node_step L s (after_step POutOfSync (oos_subscribe e1 e2 i (nd s)) s)"
| finalized_enter:
    "pc s = PFinalizedEnter \<Longrightarrow>
     node_step L s (after_step (\<lambda>_. PFinalized) (fsna_enter (Continue () (nd s))) s)"
| alive:
    "pc s = PAlive l \<Longrightarrow> alive_enabled (node_cfg (nd s)) e \<Longrightarrow> (e = AvDone \<longrightarrow> stopped (nd s)) \<Longrightarrow>
     node_step L s (after_step PAlive (alive_handle L e l (nd s)) s)"
| out_of_sync:
    "pc s = POutOfSync l \<Longrightarrow> oos_enabled (node_cfg (nd s)) oe \<Longrightarrow> (oe = OsDone \<longrightarrow> stopped (nd s)) \<Longrightarrow>
     node_step L s (after_step POutOfSync (oos_handle L oe l (nd s)) s)"
| unreachable_done:
    "pc s = PUnreachable \<Longrightarrow> stopped (nd s) \<Longrightarrow> node_step L s (s\<lparr>pc := PDone\<rparr>)"
| unreachable_redial:
    "pc s = PUnreachable \<Longrightarrow> node_step L s (s\<lparr>pc := (if dialled then PDialed True else PUnreachable)\<rparr>)"
| invalid_chain_id_done:
    "pc s = PInvalidChainID \<Longrightarrow> stopped (nd s) \<Longrightarrow> node_step L s (s\<lparr>pc := PDone\<rparr>)"
| invalid_chain_id_recheck:
    "pc s = PInvalidChainID \<Longrightarrow>
     node_step L s (after_verify (redial_next InvalidChainIDLoop) (verifyConn r (nd s)) s)"
| syncing:
    "pc s = PSyncing \<Longrightarrow> (se = RcDone \<longrightarrow> stopped (nd s)) \<Longrightarrow>
     node_step L s (after_step (\<lambda>_. PSyncing) (syncing_handle se () (nd s)) s)"
| finalized:
    "pc s = PFinalized \<Longrightarrow> (fe = RcDone \<longrightarrow> stopped (nd s)) \<Longrightarrow>
     node_step L s (after_step (\<lambda>_. PFinalized) (fsna_handle fe () (nd s)) s)"
| close:
    "\<not> stopped (nd s) \<Longrightarrow> node_step L s (s\<lparr>nd := node_close (nd s)\<rparr>)"
| close_client:
    "stopped (nd s) \<Longrightarrow> pc s = PDone \<Longrightarrow> cleanups s = 0 \<Longrightarrow> node_step L s (s\<lparr>nd := rpc_Close (nd s)\<rparr>)"
| clean_up:
    "cleanups s = Suc k \<Longrightarrow>
     node_step L s (s\<lparr>nd := unsubscribeHealthChecks (nd s), cleanups := k\<rparr>)"
| environment:
    "node_step L s (s\<lparr>nd := (nd s)\<lparr>rpc := c, poolInfoProvider := p\<rparr>\<rparr>)"

text \<open>\<open>Start\<close> on a fresh node.\<close>

definition lc_init :: "lc_sys \<Rightarrow> bool" where
  "lc_init s \<longleftrightarrow>
     pc s = PStart \<and> cleanups s = 0 \<and>
     state (nd s) = nodeStateUndialed \<and> \<not> stopped (nd s) \<and> spawned (nd s) = None"

interpretation lc: transition_system lc_init "node_step L" for L .

section \<open>The abstract state machine\<close>

text \<open>What the states of a node promise, without loops, clients and answers: the graph of the transitions. The
  edges out of \<open>Closed\<close> are those of the unconditional \<open>setState\<close> calls of \<open>start\<close> and \<open>unreachableLoop\<close>.\<close>

fun fsm_next :: "nodeState \<Rightarrow> nodeState list" where
  "fsm_next nodeStateUndialed = [nodeStateDialed, nodeStateUnreachable, nodeStateClosed]"
| "fsm_next nodeStateDialed =
     [nodeStateAlive, nodeStateInvalidChainID, nodeStateSyncing, nodeStateUnreachable, nodeStateClosed]"
| "fsm_next nodeStateAlive =
     [nodeStateOutOfSync, nodeStateUnreachable, nodeStateFinalizedStateNotAvailable, nodeStateClosed]"
| "fsm_next nodeStateOutOfSync =
     [nodeStateAlive, nodeStateOutOfSync, nodeStateInvalidChainID, nodeStateSyncing, nodeStateUnreachable,
      nodeStateClosed]"
| "fsm_next nodeStateUnreachable = [nodeStateDialed, nodeStateClosed]"
| "fsm_next nodeStateInvalidChainID = [nodeStateAlive, nodeStateSyncing, nodeStateUnreachable, nodeStateClosed]"
| "fsm_next nodeStateSyncing = [nodeStateAlive, nodeStateInvalidChainID, nodeStateUnreachable, nodeStateClosed]"
| "fsm_next nodeStateFinalizedStateNotAvailable =
     [nodeStateAlive, nodeStateInvalidChainID, nodeStateSyncing, nodeStateUnreachable, nodeStateClosed]"
| "fsm_next nodeStateClosed = [nodeStateDialed, nodeStateUnreachable]"
| "fsm_next _ = []"

definition fsm_step :: "nodeState \<Rightarrow> nodeState \<Rightarrow> bool" where
  "fsm_step s t \<longleftrightarrow> t \<in> set (fsm_next s)"

text \<open>The states it visits: those with an owner, not \<open>Unusable\<close>, not \<open>FinalizedBlockOutOfSync\<close>, which is only ever
  computed, and not the sentinel.\<close>

definition fsm_states :: "nodeState set" where
  "fsm_states =
     {nodeStateUndialed, nodeStateDialed, nodeStateAlive, nodeStateOutOfSync, nodeStateUnreachable,
      nodeStateInvalidChainID, nodeStateSyncing, nodeStateFinalizedStateNotAvailable, nodeStateClosed}"

lemma fsm_states_simps [simp]:
  "nodeStateUndialed \<in> fsm_states" "nodeStateDialed \<in> fsm_states" "nodeStateAlive \<in> fsm_states"
  "nodeStateOutOfSync \<in> fsm_states" "nodeStateUnreachable \<in> fsm_states" "nodeStateInvalidChainID \<in> fsm_states"
  "nodeStateSyncing \<in> fsm_states" "nodeStateFinalizedStateNotAvailable \<in> fsm_states" "nodeStateClosed \<in> fsm_states"
  "loop_state l \<in> fsm_states"
  by (simp_all add: fsm_states_def) (cases l; simp)

interpretation fsm: transition_system "\<lambda>s. s = nodeStateUndialed" fsm_step .

section \<open>What the pieces keep\<close>

definition same :: "node \<Rightarrow> node \<Rightarrow> bool" where
  "same n n' \<longleftrightarrow>
     state n' = state n \<and> stopped n' = stopped n \<and> spawned n' = spawned n \<and> node_cfg n' = node_cfg n"

text \<open>A declare method that did not panic: the node was closed and stays so, or it is in the state of
  the loop that was started, along an edge of the abstract state machine.\<close>

definition declared :: "node \<Rightarrow> node \<Rightarrow> bool" where
  "declared n n' \<longleftrightarrow>
     stopped n' = stopped n \<and> node_cfg n' = node_cfg n \<and>
     (state n = nodeStateClosed \<and> state n' = nodeStateClosed \<and> spawned n' = spawned n \<or>
      state n \<noteq> nodeStateClosed \<and> fsm_step (state n) (state n') \<and>
        (\<exists>l. state n' = loop_state l \<and> spawned n' = Some l))"

definition nil_deref :: string where
  "nil_deref = ''invalid memory address or nil pointer dereference''"

text \<open>The panics of \<open>isOutOfSyncWithPool\<close>, which compares only when there is a threshold: of a selection mode it does
  not know, and of the subtraction or comparison of difficulties that are missing.\<close>

definition sync_panic :: "lib \<Rightarrow> node_cfg \<Rightarrow> string \<Rightarrow> bool" where
  "sync_panic L c m \<longleftrightarrow>
     cfg_SyncThreshold c \<noteq> 0 \<and>
     (if cfg_SelectionMode c = NodeSelectionModeTotalDifficulty
      then m = nil_deref \<or> (\<exists>d t. bigmath_Sub L d t = Panic m)
      else cfg_SelectionMode c \<notin> {NodeSelectionModeHighestHead, NodeSelectionModeRoundRobin, NodeSelectionModePriorityLevel} \<and>
        m = ''unrecognized NodeSelectionMode: '' @ cfg_SelectionMode c)"

definition step_ok :: "lib \<Rightarrow> node \<Rightarrow> 'l step outcome \<Rightarrow> bool" where
  "step_ok L n m \<longleftrightarrow>
     (case m of
        Panic e \<Rightarrow> e = nil_deref \<or> sync_panic L (node_cfg n) e
      | Ret (Continue l n') \<Rightarrow> same n n'
      | Ret (Return d n') \<Rightarrow> declared n n' \<or> same n n' \<and> stopped n)"

lemma same_refl [simp]: "same n n"
  by (simp add: same_def)

lemma same_trans: "same a b \<Longrightarrow> same b c \<Longrightarrow> same a c"
  by (simp add: same_def)

lemma same_emit [simp]: "same n (emit es m) \<longleftrightarrow> same n m"
  by (simp add: same_def emit_def)

lemma same_with_pool [simp]: "same n (with_pool p m) \<longleftrightarrow> same n m"
  by (simp add: same_def with_pool_def split: option.splits)

lemma same_client [simp]:
  "same n (m\<lparr>rpc := c\<rparr>) \<longleftrightarrow> same n m"
  "same n (m\<lparr>rpc := c, healthCheckSubs := hs\<rparr>) \<longleftrightarrow> same n m"
  "same n (m\<lparr>rpc := c, poolInfoProvider := p\<rparr>) \<longleftrightarrow> same n m"
  by (simp_all add: same_def)

lemma same_rpc_Close [simp]: "same n (rpc_Close m) \<longleftrightarrow> same n m"
  by (simp add: rpc_Close_def)

lemma same_unsubscribe [simp]: "same n (unsubscribeHealthChecks m) \<longleftrightarrow> same n m"
  by (simp add: unsubscribeHealthChecks_def)

lemma sameD: "same n n' \<Longrightarrow> state n' = state n" "same n n' \<Longrightarrow> stopped n' = stopped n"
  "same n n' \<Longrightarrow> spawned n' = spawned n" "same n n' \<Longrightarrow> node_cfg n' = node_cfg n"
  by (simp_all add: same_def)

lemma declared_same: "same a b \<Longrightarrow> declared b c \<Longrightarrow> declared a c"
  by (simp add: same_def declared_def)

text \<open>The generic transition: allowed from the closed state and from its sources.\<close>

lemma transition_cases:
  assumes "state n = nodeStateClosed \<or> state n \<in> set from" and "to = loop_state l"
    and "state n \<in> set from \<Longrightarrow> fsm_step (state n) to"
  shows "\<exists>n'. transition ms from c to (go_loop l) n = Ret n' \<and> declared n n'"
  using assms
  by (auto simp: transition_def go_loop_def declared_def setState_def emit_def rpc_Close_def Let_def)

lemmas declare_defs =
  declareAlive_def declareInSync_def declareOutOfSync_def declareUnreachable_def
  declareInvalidChainID_def declareSyncing_def declareFinalizedStateNotAvailable_def
  transitionToAlive_def transitionToInSync_def transitionToOutOfSync_def transitionToUnreachable_def
  transitionToInvalidChainID_def transitionToSyncing_def transitionToFinalizedStateNotAvailable_def

lemma declareAlive_ok:
  "state n \<in> {nodeStateClosed, nodeStateDialed, nodeStateInvalidChainID, nodeStateSyncing,
     nodeStateFinalizedStateNotAvailable} \<Longrightarrow> \<exists>n'. declareAlive n = Ret n' \<and> declared n n'"
  unfolding declare_defs by (rule transition_cases) (auto simp: fsm_step_def)

lemma declareInSync_ok:
  "state n \<in> {nodeStateClosed, nodeStateOutOfSync, nodeStateSyncing} \<Longrightarrow>
   \<exists>n'. declareInSync n = Ret n' \<and> declared n n'"
  unfolding declare_defs by (rule transition_cases) (auto simp: fsm_step_def)

lemma declareOutOfSync_ok:
  "state n \<in> {nodeStateClosed, nodeStateAlive, nodeStateOutOfSync} \<Longrightarrow>
   \<exists>n'. declareOutOfSync i n = Ret n' \<and> declared n n'"
  unfolding declare_defs by (rule transition_cases) (auto simp: fsm_step_def)

lemma declareUnreachable_ok:
  "state n \<in> {nodeStateClosed, nodeStateUndialed, nodeStateDialed, nodeStateAlive, nodeStateOutOfSync,
     nodeStateInvalidChainID, nodeStateSyncing, nodeStateFinalizedStateNotAvailable} \<Longrightarrow>
   \<exists>n'. declareUnreachable n = Ret n' \<and> declared n n'"
  unfolding declare_defs by (rule transition_cases) (auto simp: fsm_step_def)

lemma declareInvalidChainID_ok:
  "state n \<in> {nodeStateClosed, nodeStateDialed, nodeStateOutOfSync, nodeStateSyncing,
     nodeStateFinalizedStateNotAvailable} \<Longrightarrow> \<exists>n'. declareInvalidChainID n = Ret n' \<and> declared n n'"
  unfolding declare_defs by (rule transition_cases) (auto simp: fsm_step_def)

lemma declareSyncing_ok:
  "state n \<in> {nodeStateClosed, nodeStateDialed, nodeStateOutOfSync, nodeStateInvalidChainID,
     nodeStateFinalizedStateNotAvailable} \<Longrightarrow> cfg_NodeIsSyncingEnabled (node_cfg n) \<Longrightarrow>
   \<exists>n'. declareSyncing n = Ret n' \<and> declared n n'"
  by (auto simp: declare_defs transition_def go_loop_def declared_def setState_def emit_def rpc_Close_def
      Let_def fsm_step_def intro!: exI [of _ SyncingLoop])

lemma declareFinalizedStateNotAvailable_ok:
  "state n \<in> {nodeStateClosed, nodeStateAlive} \<Longrightarrow>
   \<exists>n'. declareFinalizedStateNotAvailable n = Ret n' \<and> declared n n'"
  unfolding declare_defs by (rule transition_cases) (auto simp: fsm_step_def)

lemma step_ok_simps [simp]:
  "step_ok L n (Panic e) \<longleftrightarrow> e = nil_deref \<or> sync_panic L (node_cfg n) e"
  "step_ok L n (Ret (Continue l n')) \<longleftrightarrow> same n n'"
  "step_ok L n (Ret (Return d n')) \<longleftrightarrow> declared n n' \<or> same n n' \<and> stopped n"
  by (simp_all add: step_ok_def)

lemma step_ok_same: "same a b \<Longrightarrow> step_ok L b m \<Longrightarrow> step_ok L a m"
  by (auto simp: step_ok_def same_def declared_def split: outcome.splits step.splits)

lemma leave_ok:
  "\<exists>n'. m = Ret n' \<and> declared n n' \<Longrightarrow> step_ok L n (leave m)"
  "\<exists>n'. m = Ret n' \<and> declared n n' \<Longrightarrow> step_ok L n (leave_early m)"
  "\<exists>n'. m = Ret n' \<and> declared n n' \<Longrightarrow> step_ok L n (outcome_bind m (\<lambda>n2. Ret (Return d n2)))"
  by (auto simp: leave_def leave_early_def)

lemma onNewHead_same: "onNewHead ci h n = (b, ci', n') \<Longrightarrow> same n n'"
  by (auto simp: onNewHead_def Let_def split: if_splits)

lemma onNewFinalizedHead_same: "onNewFinalizedHead ci h n = (b, ci', n') \<Longrightarrow> same n n'"
  by (auto simp: onNewFinalizedHead_def split: if_splits)

lemma Subscribe_panic:
  "SubscribeToHeads i e d m = Panic x \<Longrightarrow> x = nil_deref"
  "SubscribeToFinalizedHeads i e d m \<noteq> Panic x"
  by (auto simp: SubscribeToHeads_def SubscribeToFinalizedHeads_def nil_deref_def new_poller_def Let_def
      split: if_splits option.splits prod.splits sum.splits)

lemma registerNewSubscription_same:
  "registerNewSubscription t f n = Ret (n', res) \<Longrightarrow> same n n'"
  by (cases "f (rpc n)") (auto simp: registerNewSubscription_def split: prod.splits sum.split_asm)

lemma registerNewSubscription_panic:
  "registerNewSubscription t f n = Panic x \<Longrightarrow> f (rpc n) = Panic x"
  by (cases "f (rpc n)") (auto simp: registerNewSubscription_def split: sum.splits)

lemma subscribe_heads_same:
  "subscribe_heads e n = Ret (n', res) \<Longrightarrow> same n n'"
  "subscribe_finalized e n = Ret (n', res) \<Longrightarrow> same n n'"
  unfolding subscribe_heads_def subscribe_finalized_def by (erule registerNewSubscription_same)+

lemma subscribe_heads_panic:
  "subscribe_heads e n = Panic x \<Longrightarrow> x = nil_deref"
  "subscribe_finalized e n \<noteq> Panic x"
  unfolding subscribe_heads_def subscribe_finalized_def
  using registerNewSubscription_panic Subscribe_panic by metis+

lemma subscribe_both_same:
  assumes "subscribe_both e1 e2 n = Ret (n', res)"
  shows "same n n'"
proof -
  obtain n1 r1 where h: "subscribe_heads e1 n = Ret (n1, r1)"
    using assms by (cases "subscribe_heads e1 n") (auto simp: subscribe_both_def)
  have s1: "same n n1" by (rule subscribe_heads_same(1) [OF h])
  obtain n2 r2 where f: "subscribe_finalized e2 n1 = Ret (n2, r2)"
    using subscribe_heads_panic(2) by (metis outcome.exhaust surj_pair)
  then have "same n1 n2" by (rule subscribe_heads_same(2))
  with s1 show ?thesis
    using assms h f
    by (auto simp: subscribe_both_def split: sum.split_asm if_splits intro: same_trans)
qed

lemma subscribe_both_panic:
  assumes "subscribe_both e1 e2 n = Panic x"
  shows "x = nil_deref"
proof (cases "subscribe_heads e1 n")
  case (Ret p)
  obtain n1 r1 where p: "p = (n1, r1)" by (cases p)
  obtain n2 r2 where f: "subscribe_finalized e2 n1 = Ret (n2, r2)"
    using subscribe_heads_panic(2) by (metis outcome.exhaust surj_pair)
  then show ?thesis
    using assms Ret p by (auto simp: subscribe_both_def split: sum.split_asm if_splits)
next
  case (Panic y)
  with assms show ?thesis by (simp add: subscribe_both_def subscribe_heads_panic(1))
qed

lemma alive_setup_ok:
  assumes "state n \<in> {nodeStateClosed, nodeStateAlive}"
  shows "step_ok L n (alive_setup e1 e2 n)"
proof (cases "subscribe_both e1 e2 n")
  case (Ret p)
  obtain n1 res where p: "p = (n1, res)" by (cases p)
  have s: "same n n1" using subscribe_both_same Ret p by blast
  have "step_ok L n (outcome_bind (declareUnreachable n1) (\<lambda>n2. Ret (Return d n2)))" for d
    by (rule step_ok_same [OF s leave_ok(3)], rule declareUnreachable_ok) (use assms s in \<open>auto simp: same_def\<close>)
  then show ?thesis using Ret p s by (auto simp: alive_setup_def split: sum.splits)
next
  case (Panic x)
  then show ?thesis by (simp add: alive_setup_def subscribe_both_panic)
qed

lemma oos_top_ok:
  "state n \<in> {nodeStateClosed, nodeStateOutOfSync} \<Longrightarrow> step_ok L n (oos_top l n)"
  by (auto simp: oos_top_def intro!: leave_ok declareInSync_ok)

lemma oos_subscribe_ok:
  assumes "state n \<in> {nodeStateClosed, nodeStateOutOfSync}"
  shows "step_ok L n (oos_subscribe e1 e2 i n)"
proof (cases "subscribe_both e1 e2 n")
  case (Ret p)
  obtain n1 res where p: "p = (n1, res)" by (cases p)
  have s: "same n n1" using subscribe_both_same Ret p by blast
  have "step_ok L n (outcome_bind (declareUnreachable n1) (\<lambda>n2. Ret (Return d n2)))" for d
    by (rule step_ok_same [OF s leave_ok(3)], rule declareUnreachable_ok) (use assms s in \<open>auto simp: same_def\<close>)
  moreover have "step_ok L n (oos_top l n1)" for l
    by (rule step_ok_same [OF s oos_top_ok]) (use assms s in \<open>auto simp: same_def\<close>)
  ultimately show ?thesis using Ret p by (auto simp: oos_subscribe_def split: sum.splits)
next
  case (Panic x)
  then show ?thesis by (simp add: oos_subscribe_def subscribe_both_panic)
qed

lemma isOutOfSyncWithPool_panic: "isOutOfSyncWithPool L n = Panic e \<Longrightarrow> sync_panic L (node_cfg n) e"
  by (auto simp: isOutOfSyncWithPool_def sync_panic_def nil_deref_def Let_def outcome_bind_Panic_iff
      split: option.splits prod.splits if_splits)

lemma incr_capped_same: "incr_capped m c n = (c', n') \<Longrightarrow> same n n'"
  by (auto simp: incr_capped_def split: if_splits)

lemma poll_ping_same: "poll_ping e l n = (l', n') \<Longrightarrow> same n n'"
  by (auto simp: poll_ping_def incr_capped_def Let_def split: sum.splits if_splits)

lemma poll_finalized_ok:
  assumes "state n \<in> {nodeStateClosed, nodeStateAlive}"
  shows "step_ok L n (poll_finalized e l n)"
proof -
  have "step_ok L n (leave (declareFinalizedStateNotAvailable n2) :: alive_local step outcome)" if "same n n2" for n2
    by (rule step_ok_same [OF that leave_ok(1)], rule declareFinalizedStateNotAvailable_ok)
      (use assms that in \<open>auto simp: same_def\<close>)
  then show ?thesis
    by (auto simp: poll_finalized_def Let_def split: fs_reply.splits prod.splits dest: incr_capped_same)
qed

lemma poll_sync_ok:
  assumes "state n \<in> {nodeStateClosed, nodeStateAlive}"
  shows "step_ok L n (poll_sync L e l n)"
proof -
  let ?n = "with_pool (pe_pool2 e) n"
  have s: "same n ?n" by simp
  then have st: "state ?n \<in> {nodeStateClosed, nodeStateAlive}" using assms sameD by metis
  have "step_ok L n (leave (declareOutOfSync i ?n) :: alive_local step outcome)" for i
    by (rule step_ok_same [OF s leave_ok(1)], rule declareOutOfSync_ok) (use st in auto)
  moreover have "step_ok L n (poll_finalized e l ?n)"
    by (rule step_ok_same [OF s poll_finalized_ok [OF st]])
  moreover have "sync_panic L (node_cfg n) m" if "isOutOfSyncWithPool L ?n = Panic m" for m
    using isOutOfSyncWithPool_panic [OF that] sameD(4) [OF s] by simp
  ultimately show ?thesis
    by (cases "isOutOfSyncWithPool L ?n") (auto simp: poll_sync_def Let_def split: prod.splits)
qed

lemma alive_poll_ok:
  assumes "state n \<in> {nodeStateClosed, nodeStateAlive}"
  shows "step_ok L n (alive_poll L e l n)"
proof -
  obtain l1 n1 where p: "poll_ping e l n = (l1, n1)" by (cases "poll_ping e l n")
  have s: "same n n1" by (rule poll_ping_same [OF p])
  then have s2: "same n (with_pool (pe_pool1 e) n1)" by simp
  have "step_ok L n (leave (declareUnreachable (with_pool (pe_pool1 e) n1)) :: alive_local step outcome)"
    by (rule step_ok_same [OF s2 leave_ok(1)], rule declareUnreachable_ok)
      (use assms sameD(1) [OF s2] in auto)
  moreover have "step_ok L n (poll_sync L e l1 n1)"
    by (rule step_ok_same [OF s poll_sync_ok]) (use assms sameD [OF s] in auto)
  ultimately show ?thesis using s by (simp add: alive_poll_def p Let_def)
qed

lemma alive_no_new_heads_ok:
  assumes "state n \<in> {nodeStateClosed, nodeStateAlive}"
  shows "step_ok L n (alive_no_new_heads L p rt t i l n)"
proof -
  have s: "same n (with_pool p n)" by simp
  have "step_ok L n (leave (declareOutOfSync i (with_pool p n)) :: alive_local step outcome)"
    by (rule step_ok_same [OF s leave_ok(1)], rule declareOutOfSync_ok) (use assms sameD(1) [OF s] in auto)
  then show ?thesis by (simp add: alive_no_new_heads_def Let_def)
qed

lemma alive_handle_ok:
  assumes "state n \<in> {nodeStateClosed, nodeStateAlive}"
    and "e = AvDone \<longrightarrow> stopped n"
  shows "step_ok L n (alive_handle L e l n)"
  using assms
proof (induction L e l n rule: alive_handle.induct)
  case (4 L bh l n)
  then show ?case by (auto simp: Let_def split: prod.splits dest: onNewHead_same)
next
  case (8 L h l n)
  then show ?case by (auto simp: Let_def split: prod.splits dest: onNewFinalizedHead_same)
qed (auto intro!: alive_poll_ok alive_no_new_heads_ok leave_ok declareUnreachable_ok)

lemma oos_new_head_ok: "step_ok L n (oos_new_head L p h l n)"
proof -
  obtain b ci n1 where o: "onNewHead (oos_highest l) h n = (b, ci, n1)"
    by (cases "onNewHead (oos_highest l) h n")
  have s: "same n n1" "same n (with_pool p n1)" using onNewHead_same [OF o] by simp_all
  have "sync_panic L (node_cfg n) m" if "isOutOfSyncWithPool L (with_pool p n1) = Panic m" for m
    using isOutOfSyncWithPool_panic [OF that] sameD(4) [OF s(2)] by simp
  with s show ?thesis
    by (cases "isOutOfSyncWithPool L (with_pool p n1)") (auto simp: oos_new_head_def o Let_def split: prod.splits)
qed

lemma oos_zombie_ok:
  assumes "state n \<in> {nodeStateClosed, nodeStateOutOfSync}"
  shows "step_ok L n (oos_zombie p l n)"
proof -
  have s: "same n (with_pool p n)" by simp
  have st: "state (with_pool p n) = state n" using sameD(1) [OF s] .
  have "step_ok L n (leave (declareOutOfSync i (with_pool p n)) :: oos_local step outcome)" for i
    by (rule step_ok_same [OF s leave_ok(1)], rule declareOutOfSync_ok) (use assms st in auto)
  moreover have "step_ok L n (leave (declareInSync (with_pool p n)) :: oos_local step outcome)"
    by (rule step_ok_same [OF s leave_ok(1)], rule declareInSync_ok) (use assms st in auto)
  ultimately show ?thesis by (simp add: oos_zombie_def Let_def split: option.splits)
qed

lemma oos_finalized_head_ok: "\<exists>l' n'. oos_finalized_head h l n = Ret (Continue l' n') \<and> same n n'"
  by (auto simp: oos_finalized_head_def Let_def split: prod.splits dest: onNewFinalizedHead_same)

lemma oos_select_ok:
  assumes "state n \<in> {nodeStateClosed, nodeStateOutOfSync}"
    and "e = OsDone \<longrightarrow> stopped n"
  shows "step_ok L n (oos_select L e l n)"
  using assms
proof (induction L e l n rule: oos_select.induct)
  case (3 L h p l n)
  then show ?case using oos_new_head_ok by simp
next
  case (8 L h l n)
  then show ?case using oos_finalized_head_ok [of h l n] by auto
qed (auto intro!: leave_ok declareUnreachable_ok oos_zombie_ok)

lemma oos_handle_ok:
  assumes "state n \<in> {nodeStateClosed, nodeStateOutOfSync}"
    and "e = OsDone \<longrightarrow> stopped n"
  shows "step_ok L n (oos_handle L e l n)"
proof -
  have ok: "step_ok L n (oos_select L e l n)" by (rule oos_select_ok [OF assms])
  have "step_ok L n (oos_top l' n')" if s: "same n n'" for l' n'
    by (rule step_ok_same [OF s oos_top_ok]) (use assms(1) sameD(1) [OF s] in auto)
  with ok show ?thesis
    by (cases "oos_select L e l n") (auto simp: oos_handle_def split: step.splits)
qed

lemma syncing_handle_ok:
  "state n \<in> {nodeStateClosed, nodeStateSyncing} \<Longrightarrow> (e = RcDone \<longrightarrow> stopped n) \<Longrightarrow>
   step_ok L n (syncing_handle e u n)"
  by (induction e u n rule: syncing_handle.induct)
    (auto intro!: leave_ok declareUnreachable_ok declareAlive_ok)

lemma fsna_handle_ok:
  "state n \<in> {nodeStateClosed, nodeStateFinalizedStateNotAvailable} \<Longrightarrow> (e = RcDone \<longrightarrow> stopped n) \<Longrightarrow>
   step_ok L n (fsna_handle e u n)"
  by (induction e u n rule: fsna_handle.induct)
    (auto intro!: leave_ok declareUnreachable_ok declareAlive_ok)

lemma fsna_enter_ok:
  "state n \<in> {nodeStateClosed, nodeStateFinalizedStateNotAvailable} \<Longrightarrow> step_ok L n (fsna_enter (Continue () n))"
  by (auto simp: fsna_enter_def intro!: leave_ok declareAlive_ok)

section \<open>The invariant\<close>

definition verdicts :: "nodeState set" where
  "verdicts = {nodeStateUnreachable, nodeStateInvalidChainID, nodeStateSyncing, nodeStateAlive}"

definition verdict_ok :: "nodeState \<Rightarrow> node \<Rightarrow> bool" where
  "verdict_ok v n \<longleftrightarrow>
     (v \<in> verdicts \<or> v = nodeStateLen \<and> state n = nodeStateClosed) \<and>
     (v = nodeStateSyncing \<longrightarrow> cfg_NodeIsSyncingEnabled (node_cfg n))"

definition verifiable :: "nodeState set" where
  "verifiable = {nodeStateClosed, nodeStateDialed, nodeStateOutOfSync, nodeStateInvalidChainID,
     nodeStateSyncing, nodeStateFinalizedStateNotAvailable}"

lemma verifySyncing_ok: "verifySyncing r n = (v, n') \<Longrightarrow> n' = n \<and> verdict_ok v n"
  by (auto simp: verifySyncing_def verdict_ok_def verdicts_def split: if_splits sum.splits)

lemma verifyChainID_ok:
  assumes "state n \<in> verifiable"
  shows "\<exists>v n'. verifyChainID r n = Ret (v, n') \<and> same n n' \<and> verdict_ok v n \<and> v \<noteq> nodeStateSyncing"
  using assms
  by (auto simp: verifyChainID_def verifiable_def verdict_ok_def verdicts_def Let_def getCachedState_def
      emit_def same_def split: sum.splits)

lemma verifyConn_ok:
  assumes "state n \<in> verifiable"
  shows "\<exists>v n'. verifyConn r n = Ret (v, n') \<and> same n n' \<and> verdict_ok v n'"
proof -
  obtain v n1 where c: "verifyChainID r n = Ret (v, n1)" and s: "same n n1" and v: "verdict_ok v n"
    using verifyChainID_ok [OF assms] by blast
  obtain v2 n2 where "verifySyncing r n1 = (v2, n2)" by (cases "verifySyncing r n1")
  moreover obtain v3 n3 where "verifySyncing r n = (v3, n3)" by (cases "verifySyncing r n")
  moreover have "verdict_ok v n1" using v s by (simp add: verdict_ok_def same_def)
  ultimately show ?thesis
    using c s verifySyncing_ok [of r n1 v2 n2] verifySyncing_ok [of r n v3 n3]
    by (auto simp: verifyConn_def)
qed

lemma createVerifiedConn_ok:
  assumes "state n \<in> verifiable"
  shows "\<exists>v n'. createVerifiedConn r n = Ret (v, n') \<and> same n n' \<and> verdict_ok v n'"
proof (cases "reply_Dial r")
  case None
  then show ?thesis using verifyConn_ok [OF assms, of r] by (simp add: createVerifiedConn_def)
next
  case (Some e)
  then show ?thesis by (simp add: createVerifiedConn_def verdict_ok_def verdicts_def)
qed

text \<open>The states a position of the goroutine allows, besides \<open>Closed\<close>.\<close>

fun decl_sources :: "nodeState \<Rightarrow> nodeState set" where
  "decl_sources nodeStateUnreachable =
     {nodeStateDialed, nodeStateOutOfSync, nodeStateInvalidChainID, nodeStateSyncing,
      nodeStateFinalizedStateNotAvailable}"
| "decl_sources nodeStateAlive =
     {nodeStateDialed, nodeStateInvalidChainID, nodeStateSyncing, nodeStateFinalizedStateNotAvailable}"
| "decl_sources nodeStateInvalidChainID =
     {nodeStateDialed, nodeStateOutOfSync, nodeStateSyncing, nodeStateFinalizedStateNotAvailable}"
| "decl_sources nodeStateSyncing =
     {nodeStateDialed, nodeStateOutOfSync, nodeStateInvalidChainID, nodeStateFinalizedStateNotAvailable}"
| "decl_sources _ = {}"

fun pc_states :: "pc \<Rightarrow> nodeState set" where
  "pc_states PStart = {nodeStateUndialed}"
| "pc_states PStartDial = {nodeStateUndialed}"
| "pc_states (PDialed u) = {if u then nodeStateUnreachable else nodeStateUndialed}"
| "pc_states (PVerify u) = {nodeStateDialed}"
| "pc_states (PDecide u v) = {nodeStateDialed}"
| "pc_states PGiveUp = {nodeStateDialed}"
| "pc_states (PDeclareState v) = decl_sources v"
| "pc_states (PEnter l) = {loop_state l}"
| "pc_states (PSetup l) = {loop_state l}"
| "pc_states (POosSubscribe i) = {nodeStateOutOfSync}"
| "pc_states PFinalizedEnter = {nodeStateFinalizedStateNotAvailable}"
| "pc_states (PAlive l) = {nodeStateAlive}"
| "pc_states (POutOfSync l) = {nodeStateOutOfSync}"
| "pc_states PUnreachable = {nodeStateUnreachable}"
| "pc_states PInvalidChainID = {nodeStateInvalidChainID}"
| "pc_states PSyncing = {nodeStateSyncing}"
| "pc_states PFinalized = {nodeStateFinalizedStateNotAvailable}"
| "pc_states PDone = UNIV"
| "pc_states (PCrash m) = UNIV"

definition start_race :: string where
  "start_race = ''cannot dial node with state Closed''"

fun pc_ok :: "lib \<Rightarrow> pc \<Rightarrow> node \<Rightarrow> bool" where
  "pc_ok L (PDecide u v) n \<longleftrightarrow> verdict_ok v n"
| "pc_ok L (PDeclareState v) n \<longleftrightarrow> (v = nodeStateSyncing \<longrightarrow> cfg_NodeIsSyncingEnabled (node_cfg n))"
| "pc_ok L PDone n \<longleftrightarrow> stopped n"
| "pc_ok L (PCrash m) n \<longleftrightarrow> m = nil_deref \<or> m = start_race \<and> stopped n \<or> sync_panic L (node_cfg n) m"
| "pc_ok L _ n \<longleftrightarrow> True"

definition node_inv :: "lib \<Rightarrow> pc \<Rightarrow> node \<Rightarrow> bool" where
  "node_inv L p n \<longleftrightarrow>
     spawned n = None \<and> (state n = nodeStateClosed \<longrightarrow> stopped n) \<and>
     state n \<in> fsm_states \<and> (state n = nodeStateClosed \<or> state n \<in> pc_states p) \<and> pc_ok L p n"

lemma node_inv_same: "node_inv L p n \<Longrightarrow> same n n' \<Longrightarrow> node_inv L p n'"
  by (cases p) (auto simp: node_inv_def same_def verdict_ok_def)

lemma loop_state_not_Closed [simp]: "loop_state l \<noteq> nodeStateClosed" "nodeStateClosed \<noteq> loop_state l"
  by (cases l; simp)+

text \<open>A step that keeps the invariant and is one of the abstract state machine.\<close>

definition sound :: "lib \<Rightarrow> lc_sys \<Rightarrow> lc_sys \<Rightarrow> bool" where
  "sound L s t \<longleftrightarrow> node_inv L (pc t) (nd t) \<and> (state (nd t) = state (nd s) \<or> fsm_step (state (nd s)) (state (nd t)))"

lemma soundI: "node_inv L (pc t) (nd t) \<Longrightarrow> state (nd t) = state (nd s) \<Longrightarrow> sound L s t"
  by (simp add: sound_def)

lemma same_sound: "node_inv L (pc s) (nd s) \<Longrightarrow> same (nd s) n \<Longrightarrow> sound L s (s\<lparr>nd := n\<rparr>)"
  by (rule soundI) (auto intro: node_inv_same simp: same_def)

lemma declared_inv:
  assumes "node_inv L (pc s) (nd s)" and "m = Ret n" and "declared (nd s) n"
  shows "sound L s (after m s)"
  using assms by (auto simp: sound_def node_inv_def declared_def after_def split: option.splits)

lemma after_step_inv:
  assumes inv: "node_inv L (pc s) (nd s)" and ok: "step_ok L (nd s) m"
    and k: "\<And>l n. node_inv L (pc s) n \<Longrightarrow> node_inv L (k l) n"
  shows "sound L s (after_step k m s)"
proof (cases m)
  case (Ret r)
  show ?thesis
  proof (cases r)
    case (Continue l n)
    then show ?thesis using Ret ok k node_inv_same [OF inv] by (simp add: after_step_def sound_def same_def)
  next
    case (Return d n)
    let ?s = "s\<lparr>cleanups := cleanups s + (if d then 1 else 0)\<rparr>"
    have "declared (nd s) n \<or> same (nd s) n \<and> stopped (nd s)"
      using ok Ret Return by simp
    then have "sound L s (after (Ret n) ?s)"
    proof
      assume "declared (nd s) n"
      then show ?thesis using declared_inv [of L ?s "Ret n" n] inv by (simp add: sound_def)
    next
      assume "same (nd s) n \<and> stopped (nd s)"
      then show ?thesis using inv by (auto simp: sound_def node_inv_def same_def after_def)
    qed
    then show ?thesis using Ret Return by (simp add: after_step_def)
  qed
next
  case (Panic e)
  then show ?thesis using inv ok by (auto simp: sound_def after_step_def crash_def node_inv_def)
qed

lemma after_verify_inv:
  assumes inv: "node_inv L (pc s) (nd s)"
    and ok: "\<exists>v n'. m = Ret (v, n') \<and> same (nd s) n' \<and> verdict_ok v n'"
    and k: "\<And>v n. node_inv L (pc s) n \<Longrightarrow> verdict_ok v n \<Longrightarrow> node_inv L (k v) n"
  shows "sound L s (after_verify k m s)"
  using ok k node_inv_same [OF inv] by (auto simp: after_verify_def sound_def same_def)

lemma redial_next_inv:
  "node_inv L (PSetup l) n \<Longrightarrow> has_redial l \<Longrightarrow> verdict_ok v n \<Longrightarrow> node_inv L (redial_next l v) n"
  by (cases l) (auto simp: node_inv_def has_redial_def verdict_ok_def verdicts_def)

lemma declareState_ok:
  assumes "state n = nodeStateClosed \<or> state n \<in> decl_sources v"
    and "v = nodeStateSyncing \<longrightarrow> cfg_NodeIsSyncingEnabled (node_cfg n)"
  shows "\<exists>n'. declareState v n = Ret n' \<and> declared n n'"
proof (cases "state n = nodeStateClosed")
  case True
  then show ?thesis by (simp add: declareState_def getCachedState_def declared_def)
next
  case False
  with assms show ?thesis
    by (cases v) (auto simp: declareState_def getCachedState_def
        intro!: declareUnreachable_ok declareAlive_ok declareInvalidChainID_ok declareSyncing_ok)
qed

lemma start_check_cases:
  "state n = nodeStateUndialed \<Longrightarrow> start_check n = Ret n"
  "state n = nodeStateClosed \<Longrightarrow> start_check n = Panic start_race"
  by (simp_all add: start_check_def State_def recalculateState_def start_race_def)

lemma sanity_check_cases:
  "state n = nodeStateClosed \<Longrightarrow> sanity_check l n = Ret False"
  "state n = loop_state l \<Longrightarrow> sanity_check l n = Ret True"
  by (auto simp: sanity_check_def getCachedState_def Let_def)

lemma node_close_inv: "node_inv L p n \<Longrightarrow> node_inv L p (node_close n)"
  by (cases p) (auto simp: node_inv_def node_close_def verdict_ok_def)

text \<open>One lemma per kind of step; the rules of \<open>node_step\<close> are instances.\<close>

lemma declare_step_inv:
  assumes "node_inv L (pc s) (nd s)" and "\<exists>n'. m = Ret n' \<and> declared (nd s) n'"
  shows "sound L s (after m s)"
  using assms declared_inv by blast

lemma inv_state: "node_inv L p n \<Longrightarrow> state n = nodeStateClosed \<or> state n \<in> pc_states p"
  by (simp add: node_inv_def)

lemma inv_fsm: "node_inv L p n \<Longrightarrow> state n \<in> fsm_states"
  by (simp add: node_inv_def)

lemma decide_next_inv: "node_inv L (PDecide u v) n \<Longrightarrow> node_inv L (decide_next u v b) n"
  by (auto simp: node_inv_def decide_next_def verdict_ok_def verdicts_def)

lemma start_step_inv:
  "node_inv L PStart n \<Longrightarrow> start_check n = Panic m \<Longrightarrow> node_inv L (PCrash m) n"
  "node_inv L PStart n \<Longrightarrow> node_inv L PStartDial n"
  using start_check_cases [of n] by (auto simp: node_inv_def)

lemma enter_step_inv:
  "node_inv L (PEnter l) n \<Longrightarrow> sanity_check l n = Panic m \<Longrightarrow> node_inv L (PCrash m) n"
  "node_inv L (PEnter l) n \<Longrightarrow> sanity_check l n = Ret b \<Longrightarrow> node_inv L (if b then PSetup l else PDone) n"
  using sanity_check_cases [of n l] by (auto simp: node_inv_def)

lemma node_step_sound:
  "node_step L s t \<Longrightarrow> node_inv L (pc s) (nd s) \<Longrightarrow> sound L s t"
proof (induction rule: node_step.induct)
  case (start_panics s m)
  then show ?case by (simp add: sound_def crash_def start_step_inv)
next
  case (start_passes s n)
  then show ?case by (simp add: sound_def start_step_inv)
next
  case (start_dial_fails s)
  then show ?case
    by (intro declare_step_inv declareUnreachable_ok) (auto dest: inv_state)
next
  case (start_dial_ok s)
  then show ?case by (simp add: sound_def node_inv_def)
next
  case (set_dialed s u)
  then show ?case by (auto simp: sound_def node_inv_def setState_def fsm_step_def split: if_splits)
next
  case (verify s u r)
  have "state (nd s) \<in> verifiable"
    using verify inv_state by (fastforce simp: verifiable_def)
  then show ?case
    by (intro after_verify_inv verifyConn_ok) (use verify in \<open>auto simp: node_inv_def\<close>)
next
  case (decide s u v probes probed n)
  then show ?case by (simp add: sound_def decide_next_inv)
next
  case (give_up s)
  then show ?case by (auto simp: sound_def node_inv_def setState_def rpc_Close_def fsm_step_def)
next
  case (declare_state s v)
  then show ?case
    by (intro declare_step_inv declareState_ok) (auto simp: node_inv_def)
next
  case (enter_panics s l m)
  then show ?case by (simp add: sound_def crash_def enter_step_inv)
next
  case (enter s l b)
  then show ?case using enter_step_inv(2) [of L l "nd s" b] by (simp add: sound_def)
next
  case (alive_subscribe s e1 e2)
  then show ?case
    by (intro after_step_inv alive_setup_ok) (auto simp: node_inv_def)
next
  case (unreachable_begin s)
  then show ?case by (simp add: sound_def node_inv_def)
next
  case (redials s l r)
  have "state (nd s) \<in> verifiable"
    using redials by (cases l) (auto simp: node_inv_def verifiable_def has_redial_def)
  then show ?case
    by (intro after_verify_inv createVerifiedConn_ok) (use redials redial_next_inv in auto)
next
  case (oos_subscribes s i e1 e2)
  then show ?case
    by (intro after_step_inv oos_subscribe_ok) (auto simp: node_inv_def)
next
  case (finalized_enter s)
  then show ?case
    by (intro after_step_inv fsna_enter_ok) (auto simp: node_inv_def)
next
  case (alive s l e)
  then show ?case
    by (intro after_step_inv alive_handle_ok) (auto simp: node_inv_def)
next
  case (out_of_sync s l oe)
  then show ?case
    by (intro after_step_inv oos_handle_ok) (auto simp: node_inv_def)
next
  case (invalid_chain_id_recheck s r)
  have "state (nd s) \<in> verifiable"
    using invalid_chain_id_recheck by (auto simp: node_inv_def verifiable_def)
  then show ?case
    by (intro after_verify_inv verifyConn_ok)
      (use invalid_chain_id_recheck in \<open>auto simp: node_inv_def verdict_ok_def verdicts_def\<close>)
next
  case (syncing s se)
  then show ?case
    by (intro after_step_inv syncing_handle_ok) (auto simp: node_inv_def)
next
  case (finalized s fe)
  then show ?case
    by (intro after_step_inv fsna_handle_ok) (auto simp: node_inv_def)
next
  case (close s)
  have "fsm_step (state (nd s)) nodeStateClosed \<or> state (nd s) = nodeStateClosed" if "state (nd s) \<in> fsm_states"
    using that by (auto simp: fsm_states_def fsm_step_def)
  then show ?case using close inv_fsm [OF close(2)] node_close_inv [of L "pc s" "nd s"] by (auto simp: sound_def node_close_def)
next
  case (clean_up s k)
  then show ?case using same_sound [of L s "unsubscribeHealthChecks (nd s)"] by (simp add: sound_def)
next
  case (close_client s)
  then show ?case using same_sound [of L s "rpc_Close (nd s)"] by simp
next
  case (environment s p c)
  then show ?case using same_sound [of L s "(nd s)\<lparr>rpc := c, poolInfoProvider := p\<rparr>"] by simp
qed (simp_all add: sound_def node_inv_def)

lemma init_node_inv: "lc_init s \<Longrightarrow> node_inv L (pc s) (nd s)"
  by (simp add: lc_init_def node_inv_def)

lemma reach_node_inv: "lc.reach L s \<Longrightarrow> node_inv L (pc s) (nd s)"
  by (erule lc.reach_invariant) (auto dest: node_step_sound init_node_inv simp: sound_def)

interpretation node_fsm: simulation lc_init "node_step L" "\<lambda>s. s = nodeStateUndialed" fsm_step "\<lambda>s. state (nd s)" for L
proof
  fix s assume "lc_init s"
  then show "state (nd s) = nodeStateUndialed" by (simp add: lc_init_def)
next
  fix s t assume "lc.reach L s" and "node_step L s t"
  then show "state (nd t) = state (nd s) \<or> fsm_step (state (nd s)) (state (nd t))"
    using node_step_sound reach_node_inv by (auto simp: sound_def)
qed

text \<open>What the graph alone shows: a node that has left \<open>Undialed\<close> does not return to it, and a node gets to
  \<open>FinalizedStateNotAvailable\<close> only from \<open>Alive\<close>.\<close>

lemma fsm_graph:
  "fsm_step s t \<Longrightarrow> t \<noteq> nodeStateUndialed"
  "fsm_step s nodeStateFinalizedStateNotAvailable \<Longrightarrow> s = nodeStateAlive"
  "fsm_step s t \<Longrightarrow> t \<in> fsm_states"
  by (cases s; auto simp: fsm_step_def)+

section \<open>Properties\<close>

text \<open>A configuration and a node for the witnesses: no verification, no probing, no syncing check.\<close>

definition demo_cfg :: node_cfg where
  "demo_cfg =
     \<lparr>cfg_PollFailureThreshold = 2, cfg_PollSuccessThreshold = 0, cfg_PollInterval = 10,
      cfg_SelectionMode = NodeSelectionModeRoundRobin, cfg_SyncThreshold = 5,
      cfg_NodeIsSyncingEnabled = False, cfg_FinalizedBlockPollInterval = 10,
      cfg_EnforceRepeatableRead = True, cfg_NewHeadsPollInterval = 10, cfg_VerifyChainID = False,
      cfg_FinalizedStateCheckFailureThreshold = None, cfg_NodeNoNewHeadsThreshold = 100,
      cfg_NoNewFinalizedHeadsThreshold = 100, cfg_FinalityDepth = 3, cfg_FinalityTagEnabled = False,
      cfg_FinalizedBlockOffset = 1, cfg_hasFinalizedStateChecker = False\<rparr>"

definition demo_node :: node where
  "demo_node = NewNode demo_cfg None None ''n1'' 1 ''5'' 1 (NewRPCClientBase False) False"

definition demo_sys :: lc_sys where
  "demo_sys = \<lparr>nd = demo_node, pc = PStart, cleanups = 0\<rparr>"

lemma demo_reach: "lc.reach L demo_sys"
  by (rule lc.reach_init)
    (simp add: lc_init_def demo_sys_def demo_node_def NewNode_def demo_cfg_def)

text \<open>C2. In every interleaving of the lifecycle goroutine with \<open>Close\<close>, with late clean-ups
  and with arbitrary answers of the endpoint and the pool, and for every configuration, no guarded transition, sanity
  check or state declaration ever panics. The only panics are that of \<open>start\<close> on a node closed before its goroutine
  ran, the nil dereference of \<open>SubscribeToHeads\<close> when the client's life cycle is cancelled while it subscribes, and,
  where a sync threshold is configured, those of the comparison with the pool: of a selection mode that it does not know, as
  \<open>RandomRPC\<close>, or of missing difficulties in mode \<open>TotalDifficulty\<close>.\<close>

theorem lifecycle_panics:
  assumes "lc.reach L s" and "pc s = PCrash m"
  shows "m = nil_deref \<or> m = start_race \<and> stopped (nd s) \<or> sync_panic L (node_cfg (nd s)) m"
  using reach_node_inv [OF assms(1)] assms(2) by (simp add: node_inv_def)

lemma demo_start_crash:
  "lc.reach L (crash start_race (demo_sys\<lparr>nd := node_close demo_node\<rparr>))"
proof -
  let ?t = "demo_sys\<lparr>nd := node_close demo_node\<rparr>"
  have "node_step L demo_sys ?t"
    using node_step.close [of demo_sys L] by (simp add: demo_sys_def demo_node_def NewNode_def)
  then have r: "lc.reach L ?t" by (rule lc.reach_step [OF demo_reach])
  have "node_step L ?t (crash start_race ?t)"
    by (rule node_step.start_panics)
      (simp_all add: demo_sys_def node_close_def start_check_cases)
  then show ?thesis by (rule lc.reach_step [OF r])
qed

theorem lifecycle_panics_witness:
  "\<forall>L. stopped (nd (crash start_race (demo_sys\<lparr>nd := node_close demo_node\<rparr>))) \<and>
     \<not> sync_panic L (node_cfg (nd (crash start_race (demo_sys\<lparr>nd := node_close demo_node\<rparr>)))) start_race"
proof
  fix L
  have "start_race \<noteq> nil_deref" by (simp add: start_race_def nil_deref_def)
  moreover have "\<not> sync_panic L (node_cfg (nd (crash start_race (demo_sys\<lparr>nd := node_close demo_node\<rparr>)))) start_race"
    by (simp add: sync_panic_def crash_def node_close_def demo_node_def NewNode_def demo_cfg_def
        NodeSelectionModeTotalDifficulty_def NodeSelectionModeRoundRobin_def)
  ultimately show "stopped (nd (crash start_race (demo_sys\<lparr>nd := node_close demo_node\<rparr>))) \<and>
     \<not> sync_panic L (node_cfg (nd (crash start_race (demo_sys\<lparr>nd := node_close demo_node\<rparr>)))) start_race"
    using lifecycle_panics [OF demo_start_crash, of start_race L] by (auto simp: crash_def)
qed

text \<open>The positions at which each loop runs: its entry, its set-up, its events, and the declaration of the state it found
  by itself.\<close>

fun loop_positions :: "nodeState \<Rightarrow> pc set" where
  "loop_positions nodeStateUndialed = {PStart, PStartDial, PDialed False}"
| "loop_positions nodeStateDialed = range PVerify \<union> (\<Union>u. range (PDecide u)) \<union> {PGiveUp} \<union> range PDeclareState"
| "loop_positions nodeStateAlive = {PEnter AliveLoop, PSetup AliveLoop} \<union> range PAlive"
| "loop_positions nodeStateOutOfSync =
     (\<Union>i. {PEnter (OutOfSyncLoop i), PSetup (OutOfSyncLoop i), POosSubscribe i}) \<union> range POutOfSync \<union>
     PDeclareState ` {nodeStateUnreachable, nodeStateInvalidChainID, nodeStateSyncing}"
| "loop_positions nodeStateUnreachable = {PEnter UnreachableLoop, PSetup UnreachableLoop, PUnreachable, PDialed True}"
| "loop_positions nodeStateInvalidChainID =
     {PEnter InvalidChainIDLoop, PSetup InvalidChainIDLoop, PInvalidChainID} \<union>
     PDeclareState ` {nodeStateUnreachable, nodeStateAlive, nodeStateSyncing}"
| "loop_positions nodeStateSyncing =
     {PEnter SyncingLoop, PSetup SyncingLoop, PSyncing} \<union>
     PDeclareState ` {nodeStateUnreachable, nodeStateAlive, nodeStateInvalidChainID}"
| "loop_positions nodeStateFinalizedStateNotAvailable =
     {PEnter FinalizedStateNotAvailableLoop, PSetup FinalizedStateNotAvailableLoop, PFinalizedEnter, PFinalized} \<union>
     PDeclareState ` {nodeStateUnreachable, nodeStateAlive, nodeStateInvalidChainID, nodeStateSyncing}"
| "loop_positions _ = {}"

text \<open>C4. Until \<open>Close\<close> is called the lifecycle goroutine ends only in a panic, and the cached state always
  names what it is running: in each of the six states of loops the loop of that state, from its entry to the declaration of the
  state it found, in \<open>Undialed\<close> the start and in \<open>Dialed\<close> the verification of the connection.\<close>

theorem state_names_loop:
  assumes "lc.reach L s" and "\<not> stopped (nd s)" and "\<And>m. pc s \<noteq> PCrash m"
  shows "pc s \<noteq> PDone \<and> pc s \<in> loop_positions (state (nd s))"
proof -
  have inv: "node_inv L (pc s) (nd s)" by (rule reach_node_inv [OF assms(1)])
  then have st: "state (nd s) \<in> pc_states (pc s)" "pc s \<noteq> PDone"
    using assms(2) by (auto simp: node_inv_def)
  have loop: "PEnter l \<in> loop_positions (loop_state l)" "PSetup l \<in> loop_positions (loop_state l)" for l
    by (cases l; auto)+
  have decl: "PDeclareState v \<in> loop_positions st" if "st \<in> decl_sources v" for v st
    using that by (cases v) auto
  show ?thesis
    using st assms(3) by (cases "pc s") (auto simp: loop dest: decl split: if_splits)
qed

text \<open>A run up to the alive loop.\<close>

definition demo_lc_alive :: lc_sys where
  "demo_lc_alive =
     (let s = demo_sys\<lparr>nd := setState nodeStateDialed demo_node, pc := PDeclareState nodeStateAlive\<rparr>
      in after (declareState nodeStateAlive (nd s)) s)"

lemma reach_demo_lc_alive: "lc.reach L demo_lc_alive"
proof -
  define s1 where "s1 = demo_sys\<lparr>nd := setState nodeStateDialed demo_node, pc := PVerify False\<rparr>"
  define s2 where "s2 = s1\<lparr>pc := PDecide False nodeStateAlive\<rparr>"
  define s3 where "s3 = s2\<lparr>pc := PDeclareState nodeStateAlive\<rparr>"
  have "node_step L demo_sys (demo_sys\<lparr>pc := PStartDial\<rparr>)"
    by (rule node_step.start_passes [where n = demo_node])
      (simp_all add: demo_sys_def start_check_cases demo_node_def NewNode_def)
  then have r: "lc.reach L (demo_sys\<lparr>pc := PStartDial\<rparr>)" by (rule lc.reach_step [OF demo_reach])
  have "node_step L (demo_sys\<lparr>pc := PStartDial\<rparr>) (demo_sys\<lparr>pc := PDialed False\<rparr>)"
    using node_step.start_dial_ok [of "demo_sys\<lparr>pc := PStartDial\<rparr>" L] by simp
  note r = lc.reach_step [OF r this]
  have "node_step L (demo_sys\<lparr>pc := PDialed False\<rparr>) s1"
    using node_step.set_dialed [of "demo_sys\<lparr>pc := PDialed False\<rparr>" False L] by (simp add: s1_def demo_sys_def)
  note r = lc.reach_step [OF r this]
  have "node_step L s1 s2"
    using node_step.verify [of s1 False L undefined]
    by (simp add: s1_def s2_def after_verify_def verifyConn_def verifySyncing_def setState_def demo_sys_def demo_node_def
        NewNode_def demo_cfg_def)
  note r = lc.reach_step [OF r this]
  have "node_step L s2 s3"
    using node_step.decide [of s2 False nodeStateAlive "[]" True "nd s2" L]
    by (simp add: s1_def s2_def s3_def probeUntilStable_def setState_def decide_next_def demo_node_def NewNode_def demo_cfg_def
        Let_def)
  note r = lc.reach_step [OF r this]
  have "node_step L s3 demo_lc_alive"
    using node_step.declare_state [of s3 nodeStateAlive L]
    by (simp add: demo_lc_alive_def s3_def s2_def s1_def Let_def)
  then show ?thesis by (rule lc.reach_step [OF r])
qed

theorem state_names_loop_witness:
  "state (nd demo_lc_alive) = nodeStateAlive \<and> pc demo_lc_alive \<in> {PEnter AliveLoop, PSetup AliveLoop} \<union> range PAlive"
proof -
  have "state (nd demo_lc_alive) = nodeStateAlive" "\<not> stopped (nd demo_lc_alive)" "\<And>m. pc demo_lc_alive \<noteq> PCrash m"
    by (simp_all add: demo_lc_alive_def after_def declareState_def getCachedState_def declare_defs transition_def Let_def emit_def
        go_loop_def setState_def demo_sys_def demo_node_def NewNode_def)
  then show ?thesis using state_names_loop [OF reach_demo_lc_alive] by simp
qed

text \<open>C5. The lifecycle refines the state machine: for every configuration and in every interleaving, each step of the system leaves the cached
  state as it is or takes an edge of the graph, and every state a node is ever in is reached by a path of the graph from
  \<open>Undialed\<close>. So \<open>Undialed\<close> is never returned to and \<open>FinalizedStateNotAvailable\<close> only entered from \<open>Alive\<close>.\<close>

theorem lifecycle_refines_state_machine:
  assumes "lc.reach L s" and "node_step L s t"
  shows "fsm.reach (state (nd s)) \<and> (state (nd t) = state (nd s) \<or> fsm_step (state (nd s)) (state (nd t))) \<and>
    (state (nd t) = nodeStateUndialed \<longrightarrow> state (nd s) = nodeStateUndialed) \<and>
    (state (nd t) = nodeStateFinalizedStateNotAvailable \<longrightarrow>
       state (nd s) = nodeStateAlive \<or> state (nd s) = nodeStateFinalizedStateNotAvailable)"
  using node_fsm.abst_reach [OF assms(1)] node_fsm.abst_step [OF assms] fsm_graph(1,2) by metis

theorem lifecycle_refines_state_machine_witness:
  "\<forall>L. node_step L demo_sys (demo_sys\<lparr>nd := node_close demo_node\<rparr>) \<and> fsm_step nodeStateUndialed nodeStateClosed"
proof
  fix L
  have "node_step L demo_sys (demo_sys\<lparr>nd := node_close demo_node\<rparr>)"
    using node_step.close [of demo_sys L] by (simp add: demo_sys_def demo_node_def NewNode_def)
  from this lifecycle_refines_state_machine [OF demo_reach this]
  show "node_step L demo_sys (demo_sys\<lparr>nd := node_close demo_node\<rparr>) \<and> fsm_step nodeStateUndialed nodeStateClosed"
    by (simp add: demo_sys_def node_close_def demo_node_def NewNode_def)
qed

text \<open>\<open>Closed\<close> is not final: a \<open>Close\<close> that arrives while \<open>start\<close> is dialling is overwritten
  by \<open>setState(nodeStateDialed)\<close>, and the node can end, with its goroutine gone, in state \<open>Alive\<close>.\<close>

theorem closed_state_overwritten:
  "\<exists>s t. lc.reach L s \<and> state (nd s) = nodeStateClosed \<and> (node_step L)\<^sup>*\<^sup>* s t \<and>
     stopped (nd t) \<and> pc t = PDone \<and> state (nd t) = nodeStateAlive"
proof -
  define s1 where "s1 = demo_sys\<lparr>pc := PDialed False, nd := node_close demo_node\<rparr>"
  define e where "e = \<lparr>se_startErr = None, se_during = (\<lambda>m. m)\<rparr>"
  define s2 where "s2 = s1\<lparr>nd := setState nodeStateDialed (nd s1), pc := PVerify False\<rparr>"
  define s3 where "s3 = s2\<lparr>pc := PDecide False nodeStateAlive\<rparr>"
  define s4 where "s4 = s3\<lparr>pc := PDeclareState nodeStateAlive\<rparr>"
  define s5 where "s5 = after (declareState nodeStateAlive (nd s4)) s4"
  define s6 where "s6 = s5\<lparr>pc := PSetup AliveLoop\<rparr>"
  define s7 where "s7 = after_step PAlive (alive_setup e e (nd s6)) s6"
  obtain l where l: "pc s7 = PAlive l" "state (nd s7) = nodeStateAlive" "stopped (nd s7)"
    "spawned (nd s7) = None"
    by (simp add: s7_def s6_def s5_def s4_def s3_def s2_def s1_def e_def demo_sys_def demo_node_def NewNode_def
        NewRPCClientBase_def node_close_def setState_def after_def declareState_def getCachedState_def
        declare_defs transition_def Let_def emit_def go_loop_def after_step_def alive_setup_def
        subscribe_both_def subscribe_heads_def registerNewSubscription_def SubscribeToHeads_def demo_cfg_def
        new_poller_def RegisterSub_def)
  have 1: "node_step L demo_sys (demo_sys\<lparr>pc := PStartDial\<rparr>)"
    by (rule node_step.start_passes [where n = demo_node])
      (simp_all add: demo_sys_def start_check_cases demo_node_def NewNode_def)
  have 2: "node_step L (demo_sys\<lparr>pc := PStartDial\<rparr>) (demo_sys\<lparr>pc := PDialed False\<rparr>)"
    using node_step.start_dial_ok [of "demo_sys\<lparr>pc := PStartDial\<rparr>" L] by simp
  have 3: "node_step L (demo_sys\<lparr>pc := PDialed False\<rparr>) s1"
    using node_step.close [of "demo_sys\<lparr>pc := PDialed False\<rparr>" L]
    by (simp add: s1_def demo_sys_def demo_node_def NewNode_def)
  have r: "lc.reach L s1"
    by (rule lc.reach_step [OF _ 3], rule lc.reach_step [OF _ 2], rule lc.reach_step [OF demo_reach 1])
  have "node_step L s1 s2"
    using node_step.set_dialed [of s1 False L] by (simp add: s1_def s2_def)
  moreover have "node_step L s2 s3"
    using node_step.verify [of s2 False L undefined]
    by (simp add: s1_def s2_def s3_def after_verify_def verifyConn_def verifySyncing_def node_close_def
        setState_def demo_sys_def demo_node_def NewNode_def demo_cfg_def)
  moreover have "node_step L s3 s4"
    using node_step.decide [of s3 False nodeStateAlive "[]" True "nd s3" L]
    by (simp add: s1_def s2_def s3_def s4_def probeUntilStable_def node_close_def setState_def decide_next_def
        demo_node_def NewNode_def demo_cfg_def Let_def)
  moreover have "node_step L s4 s5"
    using node_step.declare_state [of s4 nodeStateAlive L] by (simp add: s5_def) (simp add: s4_def)
  moreover have "node_step L s5 s6"
    using node_step.enter [of s5 AliveLoop True L]
    by (simp add: s6_def) (simp add: s5_def s4_def s3_def s2_def s1_def node_close_def setState_def after_def
        declareState_def getCachedState_def declare_defs transition_def Let_def emit_def go_loop_def
        sanity_check_def)
  moreover have "node_step L s6 s7"
    using node_step.alive_subscribe [of s6 L e e] by (simp add: s7_def) (simp add: s6_def)
  moreover have "node_step L s7 (after_step PAlive (alive_handle L AvDone l (nd s7)) s7)"
    by (rule node_step.alive) (use l in auto)
  ultimately have "(node_step L)\<^sup>*\<^sup>* s1 (after_step PAlive (alive_handle L AvDone l (nd s7)) s7)"
    by (meson converse_rtranclp_into_rtranclp rtranclp.rtrancl_refl)
  moreover have "state (nd s1) = nodeStateClosed" by (simp add: s1_def node_close_def)
  ultimately show ?thesis
    using r l by (intro exI [of _ s1] exI [of _ "after_step PAlive (alive_handle L AvDone l (nd s7)) s7"])
      (simp add: after_step_def after_def)
qed

end
