(* ===== verification/Node_Health.thy ===== *)
theory Node_Health
  imports Node_System
begin

text \<open>
  What the health checks of \<open>node_lifecycle.go\<close> guarantee: the last live node never disables itself, the
  poll counter measures sustained failure, a node only returns to the pool from out-of-sync when every
  issue has been cleared or when no live node is left, the recovery probe, and the bound on the
  synchronisation flags.
\<close>

section \<open>Definitions used in the statements\<close>

text \<open>The pool snapshots an event of the alive loop carries.\<close>

fun event_pools :: "alive_event \<Rightarrow> pool_info list" where
  "event_pools (AvPoll e) = [pe_pool1 e, pe_pool2 e, pe_pool3 e]"
| "event_pools (AvNoNewHeads p) = [p]"
| "event_pools (AvNoNewFinalizedHeads p) = [p]"
| "event_pools _ = []"

text \<open>The events that judge the node by its own progress, as opposed to a broken subscription.\<close>

fun judging :: "alive_event \<Rightarrow> bool" where
  "judging (AvPoll e) \<longleftrightarrow> True"
| "judging (AvNoNewHeads p) \<longleftrightarrow> True"
| "judging (AvNoNewFinalizedHeads p) \<longleftrightarrow> True"
| "judging _ \<longleftrightarrow> False"




text \<open>What the loop records counts as a failure, as a success or as neither.\<close>

definition score :: "effect \<Rightarrow> int" where
  "score x = (if x = Metric ''PollsFailed'' then 1 else if x = Metric ''PollsSuccess'' then - 1 else 0)"



definition sync_mask :: "syncStatus set" where
  "sync_mask = {0, 2, 4, 6, 8, 10, 12, 14}"

section \<open>Lemmas\<close>

lemma with_pool_fields [simp]:
  "node_name (with_pool p n) = node_name n" "isLoadBalancedRPC (with_pool p n) = isLoadBalancedRPC n"
  "node_cfg (with_pool p n) = node_cfg n" "poolInfoProvider n \<noteq> None \<Longrightarrow> poolInfoProvider (with_pool p n) = Some p"
  "poolInfoProvider (with_pool p n) = None \<longleftrightarrow> poolInfoProvider n = None"
  by (auto simp: with_pool_def split: option.splits)

lemma emit_fields [simp]:
  "node_name (emit es n) = node_name n" "isLoadBalancedRPC (emit es n) = isLoadBalancedRPC n"
  "node_cfg (emit es n) = node_cfg n" "poolInfoProvider (emit es n) = poolInfoProvider n"
  "state (emit es n) = state n"
  by (simp_all add: emit_def)

text \<open>The fields the decision to disable a node reads.\<close>

definition same_id :: "node \<Rightarrow> node \<Rightarrow> bool" where
  "same_id n n' \<longleftrightarrow>
     node_name n' = node_name n \<and> isLoadBalancedRPC n' = isLoadBalancedRPC n \<and> node_cfg n' = node_cfg n \<and>
     (poolInfoProvider n' = None \<longleftrightarrow> poolInfoProvider n = None)"

lemma same_id_pieces:
  "same_id n (with_pool p n)" "same_id n (emit es n)"
  "incr_capped m c n = (c', n') \<Longrightarrow> same_id n n'"
  by (auto simp: same_id_def incr_capped_def split: if_splits)

lemma same_id_trans: "same_id a b \<Longrightarrow> same_id b c \<Longrightarrow> same_id a c"
  by (simp add: same_id_def)

lemma poll_ping_same_id: "poll_ping e l n = (l', n') \<Longrightarrow> same_id n n'"
  by (auto simp: poll_ping_def Let_def incr_capped_def same_id_def split: sum.splits if_splits)

definition lonely :: "node \<Rightarrow> pool_info list \<Rightarrow> bool" where
  "lonely n ps \<longleftrightarrow>
     poolInfoProvider n \<noteq> None \<and> \<not> isLoadBalancedRPC n \<and>
     (\<forall>p\<in>set ps. fst (pool_LatestChainInfo p (node_name n)) < 1)"

lemma lonely_same: "same_id n n' \<Longrightarrow> lonely n ps \<Longrightarrow> lonely n' ps"
  by (simp add: lonely_def same_id_def)

lemma lonely_cannot_disable:
  "lonely n ps \<Longrightarrow> p \<in> set ps \<Longrightarrow> 1 \<le> k \<Longrightarrow> cannot_disable k (with_pool p n)"
  by (auto simp: lonely_def cannot_disable_def)

lemma lonely_poll_finalized:
  assumes "lonely n [pe_pool1 e, pe_pool2 e, pe_pool3 e]"
  shows "\<exists>l' n'. poll_finalized e l n = Ret (Continue l' n')"
proof -
  have "cannot_disable 2 (with_pool (pe_pool3 e) n1)" if "same_id n n1" for n1
    by (rule lonely_cannot_disable [OF lonely_same [OF that assms]]) simp_all
  then show ?thesis
    using same_id_pieces(3)
    by (auto simp: poll_finalized_def Let_def split: fs_reply.splits prod.splits)
qed

lemma isOutOfSyncWithPool_live:
  "isOutOfSyncWithPool L n = Ret (True, ln) \<Longrightarrow>
   \<exists>p. poolInfoProvider n = Some p \<and> ln = fst (pool_LatestChainInfo p (node_name n))"
  by (auto simp: isOutOfSyncWithPool_def Let_def outcome_bind_Ret_iff
      split: option.splits prod.splits if_splits)

definition stays :: "lib \<Rightarrow> node \<Rightarrow> alive_local step outcome \<Rightarrow> bool" where
  "stays L n m \<longleftrightarrow> (\<exists>l' n'. m = Ret (Continue l' n')) \<or> (\<exists>e. m = Panic e \<and> sync_panic L (node_cfg n) e)"

lemma lonely_poll_sync:
  assumes "lonely n [pe_pool1 e, pe_pool2 e, pe_pool3 e]"
  shows "stays L n (poll_sync L e l n)"
proof -
  let ?n = "with_pool (pe_pool2 e) n"
  have lo: "lonely ?n [pe_pool1 e, pe_pool2 e, pe_pool3 e]"
    by (rule lonely_same [OF same_id_pieces(1) assms(1)])
  show ?thesis
  proof (cases "isOutOfSyncWithPool L ?n")
    case (Ret r)
    obtain b ln where i: "isOutOfSyncWithPool L ?n = Ret (b, ln)" using Ret by (cases r) simp
    moreover have "ln < 1 \<and> \<not> isLoadBalancedRPC ?n" if b
      using isOutOfSyncWithPool_live [of L ?n ln] i that assms(1) by (auto simp: lonely_def)
    moreover have "\<exists>l' n'. poll_finalized e l ?n = Ret (Continue l' n')"
      by (rule lonely_poll_finalized [OF lo])
    ultimately show ?thesis by (auto simp: stays_def poll_sync_def Let_def)
  next
    case (Panic m)
    then show ?thesis using isOutOfSyncWithPool_panic [OF Panic] by (simp add: stays_def poll_sync_def Let_def)
  qed
qed

lemma lonely_alive_poll:
  assumes "lonely n [pe_pool1 e, pe_pool2 e, pe_pool3 e]"
  shows "stays L n (alive_poll L e l n)"
proof -
  obtain l1 n1 where p: "poll_ping e l n = (l1, n1)" by (cases "poll_ping e l n")
  have s: "same_id n n1" by (rule poll_ping_same_id [OF p])
  have lo: "lonely n1 [pe_pool1 e, pe_pool2 e, pe_pool3 e]" by (rule lonely_same [OF s assms(1)])
  have "cannot_disable 1 (with_pool (pe_pool1 e) n1)"
    by (rule lonely_cannot_disable [OF lo]) simp_all
  moreover have "stays L n (poll_sync L e l1 n1)"
    using lonely_poll_sync [OF lo, of L l1] s by (simp add: stays_def same_id_def)
  ultimately show ?thesis by (simp add: alive_poll_def p Let_def stays_def)
qed





lemma word_minus_one [simp]: "(0 :: 32 word) < - 1" "(1 :: 32 word) < - 1"
  by (simp_all add: word_less_def unsigned_minus_1_eq_mask mask_eq_exp_minus_1)








lemma effects_with_pool [simp]: "effects (with_pool p n) = effects n"
  by (simp add: with_pool_def split: option.splits)

lemma effects_emit [simp]: "effects (emit es n) = effects n @ es"
  by (simp add: emit_def)

lemma score_simps [simp]:
  "score (Metric ''PollsFailed'') = 1" "score (Metric ''PollsSuccess'') = - 1" "score (Metric ''Polls'') = 0"
  "score (Metric ''SeenBlocks'') = 0" "score (Metric ''FinalizedStateFailed'') = 0"
  "score (Metric (CHR ''N'' # v)) = 0" "score (SetHighestSeenBlock b) = 0" "score (SetHighestFinalizedBlock b) = 0"
  "score (ResetHeadsTimer d) = 0" "score (ResetFinalizedHeadsTimer d) = 0"
  by (simp_all add: score_def)













lemma probe_loop_result:
  "probe_loop rs k n = None \<longleftrightarrow> length rs < k \<and> (\<forall>r\<in>set rs. \<exists>v. r = ProbePoll (Inr v))"
  "(\<exists>n'. probe_loop rs k n = Some (True, n')) \<longleftrightarrow> k \<le> length rs \<and> (\<forall>r\<in>set (take k rs). \<exists>v. r = ProbePoll (Inr v))"
  by (induction rs k n rule: probe_loop.induct) auto

lemma sync_set_mask:
  "s \<in> sync_mask \<Longrightarrow> f \<in> {2, 4, 8} \<Longrightarrow> sync_set s f \<in> sync_mask"
  "s \<in> sync_mask \<Longrightarrow> f \<in> {2, 4, 8} \<Longrightarrow> sync_clear s f \<in> sync_mask"
  by (auto simp: sync_mask_def sync_set_def sync_clear_def)

lemma isOutOfSync_cong:
  "poolInfoProvider n' = poolInfoProvider n \<Longrightarrow> node_cfg n' = node_cfg n \<Longrightarrow> node_name n' = node_name n \<Longrightarrow>
   rpc n' = rpc n \<Longrightarrow> isOutOfSyncWithPool L n' = isOutOfSyncWithPool L n"
  unfolding isOutOfSyncWithPool_def by (simp only:)

lemma isOutOfSync_emit [simp]:
  "isOutOfSyncWithPool L (with_pool p (emit es n)) = isOutOfSyncWithPool L (with_pool p n)"
  by (rule isOutOfSync_cong) (simp_all add: with_pool_def emit_def split: option.splits)

lemma with_pool_None [simp]: "poolInfoProvider n = None \<Longrightarrow> with_pool p n = n"
  by (simp add: with_pool_def)

lemma onNewHead_cases:
  assumes "onNewHead ci h n = (b, ci', n')"
  shows "b \<longleftrightarrow> head_IsValid h \<and> BlockNumber ci < head_BlockNumber h"
    and "isOutOfSyncWithPool L (with_pool p n') = isOutOfSyncWithPool L (with_pool p n)"
  using assms by (auto simp: onNewHead_def Let_def split: if_splits)

lemma onNewFinalizedHead_received:
  "onNewFinalizedHead ci h n = (b, ci', n') \<Longrightarrow>
   b \<longleftrightarrow> head_IsValid h \<and> FinalizedBlockNumber ci < head_BlockNumber h"
  by (auto simp: onNewFinalizedHead_def split: if_splits)

lemma sync_clear_zero:
  "s \<in> sync_mask \<Longrightarrow> sync_clear (sync_clear s 4) 2 = 0 \<Longrightarrow> s \<noteq> 0 \<Longrightarrow> s \<in> {2, 4, 6}"
  "s \<in> sync_mask \<Longrightarrow> sync_set (sync_clear s 4) 2 \<noteq> 0"
  "s \<in> sync_mask \<Longrightarrow> sync_clear s 8 = 0 \<Longrightarrow> s \<noteq> 0 \<Longrightarrow> s = 8"
  "s \<in> sync_mask \<Longrightarrow> sync_set s 4 \<noteq> 0 \<and> sync_set s 8 \<noteq> 0"
  by (auto simp: sync_mask_def sync_set_def sync_clear_def)

lemma oos_new_head_result:
  assumes "oos_new_head L p h l n = Ret (Continue l' n')"
  shows "syncIssues l' = syncIssues l \<or>
     head_IsValid h \<and> BlockNumber (oos_highest l) < head_BlockNumber h \<and>
     (\<exists>b k. isOutOfSyncWithPool L (with_pool p n) = Ret (b, k) \<and>
        syncIssues l' = (if b then sync_set (sync_clear (syncIssues l) 4) 2
                         else sync_clear (sync_clear (syncIssues l) 4) 2))"
proof -
  obtain b ci n1 where o: "onNewHead (oos_highest l) h n = (b, ci, n1)"
    by (cases "onNewHead (oos_highest l) h n")
  note received = onNewHead_cases(1) [OF o] and pool = onNewHead_cases(2) [OF o, of L p]
  show ?thesis
  proof (cases "isOutOfSyncWithPool L (with_pool p n)")
    case (Ret r)
    then show ?thesis
      using assms received pool by (cases r) (auto simp: oos_new_head_def o Let_def sync_flags split: if_splits)
  next
    case (Panic m)
    then show ?thesis
      using assms pool by (auto simp: oos_new_head_def o Let_def split: if_splits)
  qed
qed

lemma oos_finalized_head_result:
  "oos_finalized_head h l n = Ret (Continue l' n') \<Longrightarrow>
   syncIssues l' = syncIssues l \<or>
   head_IsValid h \<and> FinalizedBlockNumber (oos_highest l) < head_BlockNumber h \<and>
   syncIssues l' = sync_clear (syncIssues l) 8"
  by (cases "onNewFinalizedHead (oos_highest l) h n")
    (auto simp: oos_finalized_head_def Let_def sync_flags dest: onNewFinalizedHead_received split: if_splits)

text \<open>A selected event that keeps the loop going keeps the flags within the mask; if it empties the
  mask, it is a new head in sync with the pool or a new finalized head.\<close>

lemma oos_select_flags:
  assumes "oos_select L e l n = Ret (Continue l' n')" and "syncIssues l \<in> sync_mask" and "syncIssues l \<noteq> 0"
  shows "syncIssues l' \<in> sync_mask \<and>
    (syncIssues l' = 0 \<longrightarrow>
      (\<exists>h p k. e = OsHead (Some h) p \<and> head_IsValid h \<and> BlockNumber (oos_highest l) < head_BlockNumber h \<and>
         isOutOfSyncWithPool L (with_pool p n) = Ret (False, k) \<and> syncIssues l \<in> {2, 4, 6}) \<or>
      (\<exists>h. e = OsFinalizedHead (Some h) \<and> head_IsValid h \<and>
         FinalizedBlockNumber (oos_highest l) < head_BlockNumber h \<and> syncIssues l = 8))"
  using assms
proof (induction L e l n rule: oos_select.induct)
  case (3 L h p l n)
  then have "oos_new_head L p h l n = Ret (Continue l' n')" by simp
  from oos_new_head_result [OF this] 3(2,3) show ?case
    by (auto simp: sync_set_mask sync_clear_zero split: if_splits dest: sync_clear_zero(1))
next
  case (4 L p l n)
  then show ?case
    by (auto simp: oos_zombie_def Let_def leave_def outcome_bind_Ret_iff split: option.splits if_splits)
next
  case (8 L h l n)
  then have "oos_finalized_head h l n = Ret (Continue l' n')" by simp
  from oos_finalized_head_result [OF this] 8(2,3) show ?case
    by (auto simp: sync_set_mask dest: sync_clear_zero(3))
qed (auto simp: leave_def outcome_bind_Ret_iff sync_flags sync_set_mask sync_clear_zero)

lemma declareUnreachable_state:
  "state n = nodeStateOutOfSync \<Longrightarrow> declareUnreachable n = Ret n' \<Longrightarrow> state n' = nodeStateUnreachable"
  "state n = nodeStateOutOfSync \<Longrightarrow> declareOutOfSync i n = Ret n' \<Longrightarrow> state n' = nodeStateOutOfSync"
  by (auto simp: declare_defs transition_def Let_def emit_def go_loop_def setState_def rpc_Close_def)

lemma with_pool_state [simp]: "state (with_pool p n) = state n"
  by (simp add: with_pool_def split: option.splits)

lemma oos_select_return:
  assumes "oos_select L e l n = Ret (Return d n')" and "state n = nodeStateOutOfSync" and "state n' = nodeStateAlive"
  shows "\<exists>p. e = OsZombieCheck p \<and> fst (pool_LatestChainInfo p (node_name n)) < 1 \<and> \<not> isLoadBalancedRPC n"
  using assms
proof (induction L e l n rule: oos_select.induct)
  case (3 L h p l n)
  then show ?case
    by (auto simp: oos_new_head_def Let_def outcome_bind_Ret_iff split: prod.splits if_splits)
next
  case (4 L p l n)
  then show ?case
    using declareUnreachable_state(2) [of "with_pool p n" "syncIssues l" n']
    by (cases "poolInfoProvider n")
      (auto simp: oos_zombie_def Let_def leave_def outcome_bind_Ret_iff split: if_splits)
next
  case (8 L h l n)
  then show ?case by (auto simp: oos_finalized_head_def Let_def split: prod.splits if_splits)
qed (auto simp: leave_def outcome_bind_Ret_iff dest: declareUnreachable_state(1))

section \<open>Properties\<close>

text \<open>C19. A node that is not load balanced and sees no other live node in the pool never takes
  itself out on its own progress: failed polls, lagging behind, unavailable finalized state and missing
  heads all leave the alive loop running. The handler can only panic, and only in the comparison with the pool: under a sync
  threshold, in a selection mode that it does not know or in mode \<open>TotalDifficulty\<close> when a difficulty is missing.\<close>

theorem last_node_stays:
  assumes "judging e" and "poolInfoProvider n \<noteq> None" and "\<not> isLoadBalancedRPC n"
    and "\<forall>p\<in>set (event_pools e). fst (pool_LatestChainInfo p (node_name n)) < 1"
  shows "(\<exists>l' n'. alive_handle L e l n = Ret (Continue l' n')) \<or>
    (\<exists>m pe. e = AvPoll pe \<and> alive_handle L e l n = Panic m \<and> sync_panic L (node_cfg n) m)"
proof (cases e)
  case (AvPoll pe)
  then show ?thesis using lonely_alive_poll [of n pe L l] assms by (auto simp: lonely_def stays_def)
next
  case (AvNoNewHeads p)
  then show ?thesis
    using lonely_cannot_disable [of n "[p]" p 1] assms by (simp add: alive_no_new_heads_def lonely_def)
next
  case (AvNoNewFinalizedHeads p)
  then show ?thesis
    using lonely_cannot_disable [of n "[p]" p 1] assms by (simp add: alive_no_new_heads_def lonely_def)
qed (use assms in simp_all)

definition demo_pool_info :: pool_info where
  "demo_pool_info = \<lparr>pool_LatestChainInfo = (\<lambda>s. (0, chain_info_zero)), pool_HighestUserObservations = chain_info_zero\<rparr>"

definition demo_poll :: poll_env where
  "demo_poll = \<lparr>pe_ClientVersion = Inl ''timeout'', pe_FinalizedState = FsAvailable, pe_pool1 = demo_pool_info,
     pe_pool2 = demo_pool_info, pe_pool3 = demo_pool_info\<rparr>"

definition demo_local :: alive_local where
  "demo_local = \<lparr>pollFailures = 0, finalizedStateFailures = 0, localHighestChainInfo = chain_info_zero\<rparr>"

definition demo_lib :: lib where
  "demo_lib = \<lparr>jitter = (\<lambda>d. d), bigmath_Sub = (\<lambda>a b. Ret 0)\<rparr>"

definition demo_alone :: node where
  "demo_alone = demo_node\<lparr>state := nodeStateAlive, poolInfoProvider := Some demo_pool_info\<rparr>"

lemmas demo_health_defs = demo_pool_info_def demo_poll_def demo_local_def demo_lib_def demo_alone_def demo_node_def NewNode_def
  demo_cfg_def

theorem last_node_stays_witness:
  "\<exists>l' n'. alive_handle demo_lib (AvPoll demo_poll) (demo_local\<lparr>pollFailures := 7\<rparr>) demo_alone = Ret (Continue l' n')"
proof -
  have "\<not> sync_panic demo_lib (node_cfg demo_alone) m" for m
    by (simp add: sync_panic_def demo_health_defs NodeSelectionModeTotalDifficulty_def NodeSelectionModeRoundRobin_def)
  moreover have "poolInfoProvider demo_alone \<noteq> None" "\<not> isLoadBalancedRPC demo_alone"
    "\<forall>p\<in>set (event_pools (AvPoll demo_poll)). fst (pool_LatestChainInfo p (node_name demo_alone)) < 1"
    by (simp_all add: demo_health_defs)
  ultimately show ?thesis using last_node_stays [of "AvPoll demo_poll" demo_alone demo_lib] by simp
qed



text \<open>An out-of-sync node goes back to \<open>Alive\<close> in three ways only: a new head arrives while
  it is in sync with the pool and its finalized heads are not stale; a new finalized head arrives and
  that was the only issue; or the zombie check finds no live node and the node is not load balanced.\<close>

theorem out_of_sync_returns:
  assumes "oos_handle L e l n = Ret (Return d n')" and "state n = nodeStateOutOfSync"
    and "state n' = nodeStateAlive" and "syncIssues l \<in> sync_mask" and "syncIssues l \<noteq> 0"
  shows "(\<exists>h p k. e = OsHead (Some h) p \<and> head_IsValid h \<and> BlockNumber (oos_highest l) < head_BlockNumber h \<and>
            isOutOfSyncWithPool L (with_pool p n) = Ret (False, k) \<and>
            \<not> sync_has (syncIssues l) syncStatusNoNewFinalizedHead) \<or>
         (\<exists>h. e = OsFinalizedHead (Some h) \<and> head_IsValid h \<and>
            FinalizedBlockNumber (oos_highest l) < head_BlockNumber h \<and>
            syncIssues l = syncStatusNoNewFinalizedHead) \<or>
         (\<exists>p. e = OsZombieCheck p \<and> fst (pool_LatestChainInfo p (node_name n)) < 1 \<and> \<not> isLoadBalancedRPC n)"
proof (cases "oos_select L e l n")
  case (Ret r)
  show ?thesis
  proof (cases r)
    case (Continue l' n1)
    then have "syncIssues l' = 0"
      using assms(1) Ret by (auto simp: oos_handle_def oos_top_def sync_flags split: if_splits)
    then show ?thesis
      using oos_select_flags [OF Ret [unfolded Continue] assms(4,5)]
      by (auto simp: sync_has_def sync_flags)
  next
    case (Return d' n1)
    then have "oos_select L e l n = Ret (Return d n')" using assms(1) Ret by (simp add: oos_handle_def)
    then show ?thesis using oos_select_return assms(2,3) by blast
  qed
next
  case (Panic m)
  then show ?thesis using assms(1) by (simp add: oos_handle_def)
qed

theorem out_of_sync_returns_witness:
  "let L = \<lparr>jitter = (\<lambda>d. d), bigmath_Sub = (\<lambda>a b. Ret 0)\<rparr>;
       p = \<lparr>pool_LatestChainInfo = (\<lambda>s. (0, chain_info_zero)), pool_HighestUserObservations = chain_info_zero\<rparr>;
       l = \<lparr>syncIssues = 4, oos_highest = chain_info_zero\<rparr>;
       n = demo_node\<lparr>state := nodeStateOutOfSync, poolInfoProvider := Some p\<rparr>
   in \<exists>d n'. oos_handle L (OsZombieCheck p) l n = Ret (Return d n') \<and> state n' = nodeStateAlive \<and>
        fst (pool_LatestChainInfo p (node_name n)) < 1"
proof -
  define L where "L = \<lparr>jitter = (\<lambda>d. d), bigmath_Sub = (\<lambda>a b. Ret 0)\<rparr>"
  define p where "p = \<lparr>pool_LatestChainInfo = (\<lambda>s :: string. (0 :: int, chain_info_zero)), pool_HighestUserObservations = chain_info_zero\<rparr>"
  define l where "l = \<lparr>syncIssues = 4, oos_highest = chain_info_zero\<rparr>"
  define n where "n = demo_node\<lparr>state := nodeStateOutOfSync, poolInfoProvider := Some p\<rparr>"
  obtain d n' where r: "oos_handle L (OsZombieCheck p) l n = Ret (Return d n')" and s: "state n' = nodeStateAlive"
    by (simp add: oos_handle_def oos_zombie_def with_pool_def n_def p_def leave_def declare_defs transition_def
        Let_def emit_def go_loop_def setState_def demo_node_def NewNode_def)
  have "state n = nodeStateOutOfSync" "syncIssues l \<in> sync_mask" "syncIssues l \<noteq> 0"
    by (simp_all add: n_def l_def sync_mask_def)
  from out_of_sync_returns [OF r this(1) s this(2,3)] r s show ?thesis
    unfolding L_def p_def l_def n_def Let_def by blast
qed

text \<open>The synchronisation issues an out-of-sync loop carries stay a combination of the three
  known flags, so its log line \<open>syncStatus.String\<close> never panics.\<close>

theorem sync_issues_stay_known:
  assumes "oos_select L e l n = Ret (Continue l' n')" and "syncIssues l \<in> sync_mask" and "syncIssues l \<noteq> 0"
  shows "syncIssues l' \<in> sync_mask \<and> \<not> is_panic (syncStatus_String (syncIssues l'))"
proof -
  have m: "syncIssues l' \<in> sync_mask" using oos_select_flags [OF assms] by blast
  then have "\<not> is_panic (syncStatus_String (syncIssues l'))"
    by (auto simp: sync_mask_def syncStatus_String_def sync_flags sync_string_loop.simps sync_has_def)
  with m show ?thesis ..
qed

theorem sync_issues_stay_known_witness:
  "\<not> is_panic (syncStatus_String (sync_set 2 syncStatusNoNewHead))"
  using sync_issues_stay_known [of "\<lparr>jitter = (\<lambda>d. d), bigmath_Sub = (\<lambda>a b. Ret 0)\<rparr>" OsNoNewHeads
      "\<lparr>syncIssues = 2, oos_highest = chain_info_zero\<rparr>" demo_node]
  by (simp add: sync_mask_def)

text \<open>The recovery probe answers as soon as its answers decide: it succeeds exactly when
  the first \<open>PollSuccessThreshold\<close> polls all succeed, it waits only while every answer so far was a
  success and fewer than the threshold have come, and it never makes more polls than the threshold.\<close>

theorem probe_until_stable_result:
  assumes "0 < cfg_PollInterval (node_cfg n)"
  defines "k \<equiv> unat (cfg_PollSuccessThreshold (node_cfg n))"
  shows "((\<exists>n'. probeUntilStable rs n = Some (True, n')) \<longleftrightarrow>
            k \<le> length rs \<and> list_all (\<lambda>r. \<exists>v. r = ProbePoll (Inr v)) (take k rs)) \<and>
         (probeUntilStable rs n = None \<longleftrightarrow>
            length rs < k \<and> list_all (\<lambda>r. \<exists>v. r = ProbePoll (Inr v)) rs) \<and>
         probeUntilStable (take k rs) n = (if probeUntilStable rs n = None then None else probeUntilStable rs n)"
proof -
  have prefix: "probe_loop (take j xs) j m = probe_loop xs j m" for j xs m
    by (induction xs j m rule: probe_loop.induct) auto
  have z: "cfg_PollSuccessThreshold (node_cfg n) = 0 \<longleftrightarrow> k = 0"
    by (simp add: k_def unat_eq_0)
  show ?thesis
    using assms(1) z probe_loop_result [of rs k n] prefix [of k rs n]
    by (auto simp: probeUntilStable_def Let_def list_all_iff k_def)
qed

theorem probe_until_stable_result_witness:
  "let n = demo_node\<lparr>node_cfg := demo_cfg\<lparr>cfg_PollSuccessThreshold := 2\<rparr>\<rparr>
   in \<exists>n'. probeUntilStable [ProbePoll (Inr ''v1''), ProbePoll (Inr ''v1'')] n = Some (True, n')"
  using probe_until_stable_result [of "demo_node\<lparr>node_cfg := demo_cfg\<lparr>cfg_PollSuccessThreshold := 2\<rparr>\<rparr>"
      "[ProbePoll (Inr ''v1''), ProbePoll (Inr ''v1'')]"]
  by (simp add: Let_def demo_cfg_def)

end
