(* ===== verification/Node_Selectors.thy ===== *)
theory Node_Selectors
  imports Node_System
begin

text \<open>
  \<open>multinode/node_selector*.go\<close>: the five strategies that pick a node of the pool. A node is known by its
  position in the list of primary nodes, which stands for the identity of the Go pointer. Selecting
  may change the strategy's counters, and for \<open>RandomRPC\<close> the nodes themselves (it unsubscribes the ones
  that are not alive). \<open>IntN\<close> is \<open>rand.IntN\<close>.

  The locale \<open>node_selector\<close> is the contract of the \<open>NodeSelector\<close> interface: \<open>Select\<close> returns a live
  node of the pool, and some node whenever one is live. Every strategy interprets it.
\<close>

definition NodeSelectionModeRandomRPC :: string where
  "NodeSelectionModeRandomRPC = ''RandomRPC''"

lemmas selection_modes =
  NodeSelectionModeHighestHead_def NodeSelectionModeRoundRobin_def NodeSelectionModeTotalDifficulty_def
  NodeSelectionModePriorityLevel_def NodeSelectionModeRandomRPC_def

definition node_alive :: "node list \<Rightarrow> nat \<Rightarrow> bool" where
  "node_alive ns i \<longleftrightarrow> State (ns ! i) = nodeStateAlive"

definition liveNodes :: "node list \<Rightarrow> nat list" where
  "liveNodes ns = filter (node_alive ns) [0..<length ns]"

section \<open>Priority\<close>

fun first_priority_loop :: "node list \<Rightarrow> nat list \<Rightarrow> int \<Rightarrow> nat option \<Rightarrow> nat option" where
  "first_priority_loop ns [] hp best = best"
| "first_priority_loop ns (i # is) hp best =
     (if node_order (ns ! i) < hp then first_priority_loop ns is (node_order (ns ! i)) (Some i)
      else first_priority_loop ns is hp best)"

definition firstOrHighestPriority :: "node list \<Rightarrow> nat list \<Rightarrow> nat option" where
  "firstOrHighestPriority ns is = first_priority_loop ns is MaxInt32 None"

definition nrOfPriorityTiers :: "node list \<Rightarrow> int" where
  "nrOfPriorityTiers ns =
     i32 (foldl (\<lambda>highestPriority n.
            if highestPriority < node_order n then node_order n else highestPriority) 0 ns + 1)"

definition removeLowerTiers :: "(nat \<times> int) list \<Rightarrow> (nat \<times> int) list" where
  "removeLowerTiers nodes =
     (let sorted = sort_key (\<lambda>(i, priority). - priority) nodes;
          currentPriority = snd (last sorted)
      in filter (\<lambda>(i, priority). priority = currentPriority) sorted)"

definition getHighestPriorityAliveTier :: "node list \<Rightarrow> (nat \<times> int) list" where
  "getHighestPriorityAliveTier ns =
     (let nodes = map (\<lambda>i. (i, node_order (ns ! i))) (liveNodes ns)
      in if nodes = [] then [] else removeLowerTiers nodes)"

section \<open>Strategies\<close>

fun highest_head_loop :: "node list \<Rightarrow> nat list \<Rightarrow> int \<Rightarrow> nat list \<Rightarrow> nat list" where
  "highest_head_loop ns [] highestHeadNumber highestHeadNodes = highestHeadNodes"
| "highest_head_loop ns (i # is) highestHeadNumber highestHeadNodes =
     (let (s, currentChainInfo) = StateAndLatest (ns ! i); cur = BlockNumber currentChainInfo in
      if s = nodeStateAlive \<and> highestHeadNumber \<le> cur then
        if highestHeadNumber < cur then highest_head_loop ns is cur [i]
        else highest_head_loop ns is highestHeadNumber (highestHeadNodes @ [i])
      else highest_head_loop ns is highestHeadNumber highestHeadNodes)"

definition highestHead_Select :: "node list \<Rightarrow> nat option" where
  "highestHead_Select ns = firstOrHighestPriority ns (highest_head_loop ns [0..<length ns] MinInt64 [])"

fun total_difficulty_loop ::
  "node list \<Rightarrow> nat list \<Rightarrow> int option \<Rightarrow> nat list \<Rightarrow> nat list \<Rightarrow> nat list \<times> nat list" where
  "total_difficulty_loop ns [] highestTD nodes aliveNodes = (nodes, aliveNodes)"
| "total_difficulty_loop ns (i # is) highestTD nodes aliveNodes =
     (let (s, currentChainInfo) = StateAndLatest (ns ! i) in
      if s \<noteq> nodeStateAlive then total_difficulty_loop ns is highestTD nodes aliveNodes
      else
        (case TotalDifficulty currentChainInfo of
           None \<Rightarrow> total_difficulty_loop ns is highestTD nodes (aliveNodes @ [i])
         | Some currentTD \<Rightarrow>
             (case highestTD of
                None \<Rightarrow> total_difficulty_loop ns is (Some currentTD) [i] (aliveNodes @ [i])
              | Some h \<Rightarrow>
                  if h < currentTD then total_difficulty_loop ns is (Some currentTD) [i] (aliveNodes @ [i])
                  else if h = currentTD then total_difficulty_loop ns is highestTD (nodes @ [i]) (aliveNodes @ [i])
                  else total_difficulty_loop ns is highestTD nodes (aliveNodes @ [i]))))"

definition totalDifficulty_Select :: "node list \<Rightarrow> nat option" where
  "totalDifficulty_Select ns =
     (case total_difficulty_loop ns [0..<length ns] None [] [] of
        (nodes, aliveNodes) \<Rightarrow>
          if nodes = [] then firstOrHighestPriority ns aliveNodes else firstOrHighestPriority ns nodes)"

text \<open>\<open>count % uint32(n)\<close>, which divides by zero when \<open>n\<close> is a multiple of \<open>2^32\<close>.\<close>

definition count_mod :: "32 word \<Rightarrow> nat \<Rightarrow> nat outcome" where
  "count_mod count n =
     (if (of_nat n :: 32 word) = 0 then Panic ''integer divide by zero''
      else Ret (unat (count mod of_nat n)))"

definition roundRobin_Select :: "32 word \<Rightarrow> node list \<Rightarrow> (nat option \<times> 32 word) outcome" where
  "roundRobin_Select roundRobinCount ns =
     (let live = liveNodes ns; nNodes = length live in
      if nNodes = 0 then Ret (None, roundRobinCount)
      else outcome_bind (count_mod roundRobinCount nNodes)
             (\<lambda>idx. Ret (Some (live ! idx), roundRobinCount + 1)))"

definition NewPriorityLevelNodeSelector :: "node list \<Rightarrow> 32 word list outcome" where
  "NewPriorityLevelNodeSelector ns =
     (if nrOfPriorityTiers ns < 0 then Panic ''makeslice: len out of range''
      else Ret (replicate (nat (nrOfPriorityTiers ns)) 0))"

definition priorityLevel_Select :: "32 word list \<Rightarrow> node list \<Rightarrow> (nat option \<times> 32 word list) outcome" where
  "priorityLevel_Select roundRobinCount ns =
     (let nodes = getHighestPriorityAliveTier ns in
      if nodes = [] then Ret (None, roundRobinCount)
      else
        let priorityLevel = snd (last nodes) in
        if priorityLevel < 0 \<or> int (length roundRobinCount) \<le> priorityLevel
        then Panic ''index out of range''
        else
          let count = roundRobinCount ! nat priorityLevel in
          outcome_bind (count_mod count (length nodes))
            (\<lambda>idx. Ret (Some (fst (nodes ! idx)), roundRobinCount[nat priorityLevel := count + 1])))"

text \<open>The loop of the random strategy unsubscribes every node that is not alive.\<close>

definition unsubscribe_dead :: "node list \<Rightarrow> node list" where
  "unsubscribe_dead ns =
     map (\<lambda>n. if State n = nodeStateAlive then n else UnsubscribeAllExceptAliveLoop n) ns"

definition randomRPC_Select :: "(nat \<Rightarrow> nat) \<Rightarrow> node list \<Rightarrow> nat option \<times> node list" where
  "randomRPC_Select IntN ns =
     (let live = liveNodes ns; ns1 = unsubscribe_dead ns in
      if live = [] then (None, ns1) else (Some (live ! IntN (length live)), ns1))"

datatype selector =
    HighestHeadSelector | RoundRobinSelector "32 word" | TotalDifficultySelector
  | PriorityLevelSelector "32 word list" | RandomRPCSelector

definition newNodeSelector :: "string \<Rightarrow> node list \<Rightarrow> selector outcome" where
  "newNodeSelector selectionMode ns =
     (if selectionMode = NodeSelectionModeHighestHead then Ret HighestHeadSelector
      else if selectionMode = NodeSelectionModeRoundRobin then Ret (RoundRobinSelector 0)
      else if selectionMode = NodeSelectionModeTotalDifficulty then Ret TotalDifficultySelector
      else if selectionMode = NodeSelectionModePriorityLevel
      then outcome_bind (NewPriorityLevelNodeSelector ns) (\<lambda>c. Ret (PriorityLevelSelector c))
      else if selectionMode = NodeSelectionModeRandomRPC then Ret RandomRPCSelector
      else Panic (''unsupported NodeSelectionMode: '' @ selectionMode))"

fun selector_Name :: "selector \<Rightarrow> string" where
  "selector_Name HighestHeadSelector = NodeSelectionModeHighestHead"
| "selector_Name (RoundRobinSelector c) = NodeSelectionModeRoundRobin"
| "selector_Name TotalDifficultySelector = NodeSelectionModeTotalDifficulty"
| "selector_Name (PriorityLevelSelector cs) = NodeSelectionModePriorityLevel"
| "selector_Name RandomRPCSelector = NodeSelectionModeRandomRPC"

fun Select :: "(nat \<Rightarrow> nat) \<Rightarrow> selector \<Rightarrow> node list \<Rightarrow> (nat option \<times> selector \<times> node list) outcome" where
  "Select IntN HighestHeadSelector ns = Ret (highestHead_Select ns, HighestHeadSelector, ns)"
| "Select IntN (RoundRobinSelector c) ns =
     outcome_bind (roundRobin_Select c ns) (\<lambda>(r, c'). Ret (r, RoundRobinSelector c', ns))"
| "Select IntN TotalDifficultySelector ns = Ret (totalDifficulty_Select ns, TotalDifficultySelector, ns)"
| "Select IntN (PriorityLevelSelector cs) ns =
     outcome_bind (priorityLevel_Select cs ns) (\<lambda>(r, cs'). Ret (r, PriorityLevelSelector cs', ns))"
| "Select IntN RandomRPCSelector ns =
     (case randomRPC_Select IntN ns of (r, ns') \<Rightarrow> Ret (r, RandomRPCSelector, ns'))"

text \<open>The results of consecutive calls on a pool that does not change meanwhile.\<close>

fun roundRobin_picks :: "nat \<Rightarrow> 32 word \<Rightarrow> node list \<Rightarrow> nat option list outcome" where
  "roundRobin_picks 0 c ns = Ret []"
| "roundRobin_picks (Suc k) c ns =
     outcome_bind (roundRobin_Select c ns)
       (\<lambda>(r, c'). outcome_bind (roundRobin_picks k c' ns) (\<lambda>rs. Ret (r # rs)))"

section \<open>The contract\<close>

text \<open>The nodes a strategy is made for: orders that fit, and a number of nodes that fits a counter.\<close>

definition ordered_pool :: "node list \<Rightarrow> bool" where
  "ordered_pool ns \<longleftrightarrow>
     list_all (\<lambda>n. 0 \<le> node_order n \<and> node_order n < MaxInt32) ns \<and> length ns < 4294967296"

text \<open>\<open>ok s ns\<close> is what a strategy's state needs of the pool. \<open>sel\<close> also returns the nodes, which it may
  have unsubscribed: neither their liveness nor their orders change.\<close>

locale node_selector =
  fixes sel :: "'s \<Rightarrow> node list \<Rightarrow> (nat option \<times> 's \<times> node list) outcome"
    and ok :: "'s \<Rightarrow> node list \<Rightarrow> bool"
  assumes sel_returns: "ok s ns \<Longrightarrow> \<exists>r s' ns'. sel s ns = Ret (r, s', ns')"
    and sel_ok: "ok s ns \<Longrightarrow> sel s ns = Ret (r, s', ns') \<Longrightarrow> ok s' ns'"
    and sel_live: "ok s ns \<Longrightarrow> sel s ns = Ret (Some i, s', ns') \<Longrightarrow> i < length ns \<and> node_alive ns i"
    and sel_complete: "ok s ns \<Longrightarrow> sel s ns = Ret (None, s', ns') \<Longrightarrow> i < length ns \<Longrightarrow> \<not> node_alive ns i"
    and sel_nodes: "ok s ns \<Longrightarrow> sel s ns = Ret (r, s', ns') \<Longrightarrow>
          length ns' = length ns \<and> (\<forall>i<length ns. State (ns' ! i) = State (ns ! i))"
begin

lemma sel_iff:
  assumes "ok s ns" and "sel s ns = Ret (r, s', ns')"
  shows "r = None \<longleftrightarrow> (\<forall>i<length ns. \<not> node_alive ns i)"
  using sel_live [OF assms(1)] sel_complete [OF assms(1)] assms(2) by (cases r) auto

end

section \<open>Priority: lemmas\<close>

lemma liveNodes_set: "set (liveNodes ns) = {i. i < length ns \<and> node_alive ns i}"
  by (auto simp: liveNodes_def)

lemma liveNodes_distinct: "distinct (liveNodes ns)"
  by (simp add: liveNodes_def)

lemma liveNodes_length: "length (liveNodes ns) \<le> length ns"
  unfolding liveNodes_def by (metis length_filter_le length_upt minus_nat.diff_0)

lemma liveNodes_empty: "liveNodes ns = [] \<longleftrightarrow> (\<forall>i<length ns. \<not> node_alive ns i)"
  by (auto simp: liveNodes_def filter_empty_conv)

lemma first_priority_none:
  "\<forall>i\<in>set is. hp \<le> node_order (ns ! i) \<Longrightarrow> first_priority_loop ns is hp best = best"
  by (induction "is") auto

lemma first_priority_some:
  "\<exists>i\<in>set is. node_order (ns ! i) < hp \<Longrightarrow>
   \<exists>pre j post. is = pre @ j # post \<and> first_priority_loop ns is hp best = Some j \<and>
     (\<forall>i\<in>set is. node_order (ns ! j) \<le> node_order (ns ! i)) \<and>
     (\<forall>i\<in>set pre. node_order (ns ! j) < node_order (ns ! i)) \<and> node_order (ns ! j) < hp"
proof (induction "is" arbitrary: hp best)
  case (Cons a "is")
  show ?case
  proof (cases "\<exists>i\<in>set is. node_order (ns ! i) < min hp (node_order (ns ! a))")
    case True
    let ?hp = "min hp (node_order (ns ! a))"
    have "first_priority_loop ns (a # is) hp best =
        first_priority_loop ns is ?hp (if node_order (ns ! a) < hp then Some a else best)"
      by (simp add: min_def)
    with Cons.IH [OF True, of "if node_order (ns ! a) < hp then Some a else best"]
    obtain pre j post where "is = pre @ j # post" "first_priority_loop ns (a # is) hp best = Some j"
      "\<forall>i\<in>set is. node_order (ns ! j) \<le> node_order (ns ! i)"
      "\<forall>i\<in>set pre. node_order (ns ! j) < node_order (ns ! i)" "node_order (ns ! j) < ?hp"
      by metis
    then show ?thesis by (intro exI [of _ "a # pre"] exI [of _ j] exI [of _ post]) auto
  next
    case False
    then have a: "node_order (ns ! a) < hp" using Cons.prems by (auto simp: min_def not_less split: if_splits)
    with False have "\<forall>i\<in>set is. node_order (ns ! a) \<le> node_order (ns ! i)" by (auto simp: min_def not_less)
    with a show ?thesis
      by (intro exI [of _ "[]"] exI [of _ a] exI [of _ "is"]) (simp add: first_priority_none)
  qed
qed simp

text \<open>The first of the nodes with the smallest order, provided some order is below \<open>MaxInt32\<close>.\<close>

definition is_first_best :: "node list \<Rightarrow> nat list \<Rightarrow> nat \<Rightarrow> bool" where
  "is_first_best ns is j \<longleftrightarrow>
     (\<exists>pre post. is = pre @ j # post \<and> (\<forall>i\<in>set is. node_order (ns ! j) \<le> node_order (ns ! i)) \<and>
        (\<forall>i\<in>set pre. node_order (ns ! j) < node_order (ns ! i)))"

lemma firstOrHighestPriority_spec:
  assumes "\<forall>i\<in>set is. node_order (ns ! i) < MaxInt32"
  shows "case firstOrHighestPriority ns is of None \<Rightarrow> is = [] | Some j \<Rightarrow> is_first_best ns is j"
proof (cases "is = []")
  case True
  then show ?thesis by (simp add: firstOrHighestPriority_def)
next
  case False
  then have "\<exists>i\<in>set is. node_order (ns ! i) < MaxInt32"
    using assms by (metis last_in_set)
  then obtain pre j post where "is = pre @ j # post" "firstOrHighestPriority ns is = Some j"
    "\<forall>i\<in>set is. node_order (ns ! j) \<le> node_order (ns ! i)"
    "\<forall>i\<in>set pre. node_order (ns ! j) < node_order (ns ! i)"
    using first_priority_some [of "is" ns MaxInt32 None] unfolding firstOrHighestPriority_def by blast
  then show ?thesis unfolding is_first_best_def by auto
qed

lemma sorted_last_max:
  "sorted (map f ys) \<Longrightarrow> y \<in> set ys \<Longrightarrow> (f y :: 'b :: linorder) \<le> f (last ys)"
  by (induction ys) auto

lemma sort_key_last:
  "x \<in> set xs \<Longrightarrow> (f x :: 'b :: linorder) \<le> f (last (sort_key f xs))"
  by (rule sorted_last_max) simp_all

lemma removeLowerTiers_eq:
  assumes "nodes \<noteq> []"
  shows "removeLowerTiers nodes = filter (\<lambda>(i, p). p = Min (snd ` set nodes)) nodes"
proof -
  let ?f = "\<lambda>(i :: nat, priority :: int). - priority"
  let ?s = "sort_key ?f nodes"
  have "snd (last ?s) = Min (snd ` set nodes)"
  proof (rule Min_eqI [symmetric])
    have "last ?s \<in> set nodes" using assms by (metis last_in_set set_sort sort_key_simps(1) length_sort length_0_conv)
    then show "snd (last ?s) \<in> snd ` set nodes" by simp
    show "snd (last ?s) \<le> y" if "y \<in> snd ` set nodes" for y
      using that sort_key_last [of _ nodes ?f] by (auto simp: case_prod_beta)
  qed simp
  moreover have "filter (\<lambda>y. ?f y = k) ?s = filter (\<lambda>y. ?f y = k) nodes" for k
    by (rule sort_key_stable)
  from this [of "- Min (snd ` set nodes)"]
  have "filter (\<lambda>(i, p). p = Min (snd ` set nodes)) ?s = filter (\<lambda>(i, p). p = Min (snd ` set nodes)) nodes"
    by (simp add: case_prod_beta')
  ultimately show ?thesis by (simp add: removeLowerTiers_def Let_def)
qed

text \<open>The highest live tier: the live nodes of the smallest order, in pool order.\<close>

definition min_order :: "node list \<Rightarrow> int" where
  "min_order ns = Min ((\<lambda>i. node_order (ns ! i)) ` set (liveNodes ns))"

definition live_tier :: "node list \<Rightarrow> nat list" where
  "live_tier ns = filter (\<lambda>i. node_order (ns ! i) = min_order ns) (liveNodes ns)"

lemma getHighestPriorityAliveTier_eq:
  "getHighestPriorityAliveTier ns = map (\<lambda>i. (i, node_order (ns ! i))) (live_tier ns)"
proof (cases "liveNodes ns = []")
  case True
  then show ?thesis by (simp add: getHighestPriorityAliveTier_def live_tier_def)
next
  case False
  then show ?thesis
    by (simp add: getHighestPriorityAliveTier_def removeLowerTiers_eq live_tier_def min_order_def
        filter_map comp_def image_image Let_def)
qed

lemma live_tier_nonempty: "live_tier ns = [] \<longleftrightarrow> liveNodes ns = []"
proof
  assume e: "live_tier ns = []"
  show "liveNodes ns = []"
  proof (rule ccontr)
    assume "liveNodes ns \<noteq> []"
    then have "min_order ns \<in> (\<lambda>i. node_order (ns ! i)) ` set (liveNodes ns)"
      unfolding min_order_def by (intro Min_in) auto
    then obtain i where "i \<in> set (liveNodes ns)" "node_order (ns ! i) = min_order ns" by auto
    with e show False by (auto simp: live_tier_def filter_empty_conv)
  qed
qed (simp add: live_tier_def)

lemma live_tier_set: "i \<in> set (live_tier ns) \<Longrightarrow> i < length ns \<and> node_alive ns i \<and> node_order (ns ! i) = min_order ns"
  by (auto simp: live_tier_def liveNodes_set)

lemma live_tier_length: "length (live_tier ns) \<le> length ns"
  using liveNodes_length [of ns] length_filter_le [of _ "liveNodes ns"] unfolding live_tier_def
  by (meson order_trans)

lemma tiers_fold_upper:
  fixes a :: int
  shows "a \<le> foldl (\<lambda>h n. if h < node_order n then node_order n else h) a ns \<and>
    (n \<in> set ns \<longrightarrow> node_order n \<le> foldl (\<lambda>h n. if h < node_order n then node_order n else h) a ns)"
proof (induction ns arbitrary: a)
  case (Cons m ns)
  from Cons.IH [of "if a < node_order m then node_order m else a"] show ?case by auto
qed simp

lemma tiers_fold_bound:
  fixes a :: int
  shows "a < b \<Longrightarrow> list_all (\<lambda>n. node_order n < b) ns \<Longrightarrow>
    foldl (\<lambda>h n. if h < node_order n then node_order n else h) a ns < b"
  by (induction ns arbitrary: a) auto

lemma nrOfPriorityTiers_bounds:
  assumes "ordered_pool ns"
  shows "0 < nrOfPriorityTiers ns" and "n \<in> set ns \<Longrightarrow> node_order n < nrOfPriorityTiers ns"
proof -
  let ?h = "foldl (\<lambda>h n. if h < node_order n then node_order n else h) 0 ns"
  have h: "0 \<le> ?h" "?h < MaxInt32" "\<And>n. n \<in> set ns \<Longrightarrow> node_order n \<le> ?h"
    using tiers_fold_upper [of 0 ns] tiers_fold_bound [of 0 MaxInt32 ns] assms
    by (auto simp: ordered_pool_def MaxInt32_def list_all_iff)
  then have "nrOfPriorityTiers ns = ?h + 1"
    unfolding nrOfPriorityTiers_def by (intro wrap_signed_id) (auto simp: in_range_32 MaxInt32_def)
  with h show "0 < nrOfPriorityTiers ns" "n \<in> set ns \<Longrightarrow> node_order n < nrOfPriorityTiers ns" by auto
qed

section \<open>Strategies: lemmas\<close>

definition block_of :: "node list \<Rightarrow> nat \<Rightarrow> int" where
  "block_of ns i = BlockNumber (fst (GetInterceptedChainInfo (rpc (ns ! i))))"

definition td_of :: "node list \<Rightarrow> nat \<Rightarrow> int option" where
  "td_of ns i = TotalDifficulty (fst (GetInterceptedChainInfo (rpc (ns ! i))))"

lemma StateAndLatest_eq:
  "StateAndLatest (ns ! i) = (State (ns ! i), fst (GetInterceptedChainInfo (rpc (ns ! i))))"
  by (simp add: StateAndLatest_def State_def)

lemma highest_head_loop_eq:
  "highest_head_loop ns is h acc =
     (let live = filter (node_alive ns) is; H = foldl max h (map (block_of ns) live)
      in (if h < H then [] else acc) @ filter (\<lambda>i. block_of ns i = H) live)"
proof (induction "is" arbitrary: h acc)
  case (Cons i "is")
  have ge: "h \<le> foldl max h xs" for h :: int and xs
    by (induction xs arbitrary: h) (auto intro: order_trans [OF max.cobounded1])
  have st: "State (ns ! i) = nodeStateAlive \<longleftrightarrow> node_alive ns i" by (simp add: node_alive_def)
  let ?H = "foldl max (block_of ns i) (map (block_of ns) (filter (node_alive ns) is))"
  have H: "block_of ns i \<le> ?H" by (rule ge)
  consider (dead) "\<not> node_alive ns i" | (lower) "node_alive ns i" "block_of ns i < h"
    | (equal) "node_alive ns i" "block_of ns i = h" | (higher) "node_alive ns i" "h < block_of ns i"
    by linarith
  then show ?case
  proof cases
    case lower
    then have "block_of ns i < foldl max h (map (block_of ns) (filter (node_alive ns) is))"
      using ge [of h] by (meson less_le_trans)
    with lower Cons.IH [of h acc] show ?thesis
      by (simp add: StateAndLatest_eq st block_of_def [symmetric] Let_def max_absorb1)
  next
    case equal
    with Cons.IH [of h "acc @ [i]"] show ?thesis
      using ge [of h "map (block_of ns) (filter (node_alive ns) is)"]
      by (auto simp: StateAndLatest_eq st block_of_def [symmetric] Let_def)
  next
    case higher
    with Cons.IH [of "block_of ns i" "[i]"] H show ?thesis
      by (auto simp: StateAndLatest_eq st block_of_def [symmetric] Let_def max_absorb2)
  qed (simp add: StateAndLatest_eq st Cons.IH Let_def)
qed (simp add: Let_def)

lemma foldl_max_upper: "x \<in> set xs \<Longrightarrow> (x :: int) \<le> foldl max h xs"
proof (induction xs arbitrary: h)
  case (Cons a xs)
  have ge: "h \<le> foldl max h ys" for h :: int and ys
    by (induction ys arbitrary: h) (auto intro: order_trans [OF max.cobounded1])
  show ?case using Cons ge [of "max h a" xs] by auto
qed simp

lemma foldl_max_in: "foldl max (h :: int) xs = h \<or> foldl max h xs \<in> set xs"
  by (induction xs arbitrary: h) (auto simp: max_def)

lemma highest_head_nodes:
  assumes "\<And>i. i < length ns \<Longrightarrow> MinInt64 \<le> block_of ns i"
  shows "highest_head_loop ns [0..<length ns] MinInt64 [] =
     filter (\<lambda>i. \<forall>k\<in>set (liveNodes ns). block_of ns k \<le> block_of ns i) (liveNodes ns)"
proof -
  let ?live = "filter (node_alive ns) [0..<length ns]"
  let ?H = "foldl max MinInt64 (map (block_of ns) ?live)"
  have "block_of ns i = ?H \<longleftrightarrow> (\<forall>k\<in>set ?live. block_of ns k \<le> block_of ns i)" if i: "i \<in> set ?live" for i
  proof
    assume "block_of ns i = ?H"
    then show "\<forall>k\<in>set ?live. block_of ns k \<le> block_of ns i" by (auto intro!: foldl_max_upper)
  next
    assume all: "\<forall>k\<in>set ?live. block_of ns k \<le> block_of ns i"
    have "block_of ns i \<le> ?H" using i by (intro foldl_max_upper) auto
    moreover have "?H \<le> block_of ns i"
      using foldl_max_in [of MinInt64 "map (block_of ns) ?live"] all assms [of i] i by auto
    ultimately show "block_of ns i = ?H" by simp
  qed
  then have "filter (\<lambda>i. block_of ns i = ?H) ?live =
      filter (\<lambda>i. \<forall>k\<in>set ?live. block_of ns k \<le> block_of ns i) ?live"
    by (intro filter_cong) auto
  then show ?thesis by (simp add: highest_head_loop_eq Let_def liveNodes_def)
qed

lemma highest_head_nonempty:
  assumes "liveNodes ns \<noteq> []"
  shows "filter (\<lambda>i. \<forall>k\<in>set (liveNodes ns). block_of ns k \<le> block_of ns i) (liveNodes ns) \<noteq> []"
proof -
  have "Max (block_of ns ` set (liveNodes ns)) \<in> block_of ns ` set (liveNodes ns)"
    using assms by (intro Max_in) auto
  then obtain i where i: "i \<in> set (liveNodes ns)" "block_of ns i = Max (block_of ns ` set (liveNodes ns))"
    by auto
  then have "\<forall>k\<in>set (liveNodes ns). block_of ns k \<le> block_of ns i" by simp
  with i(1) show ?thesis by (auto simp: filter_empty_conv)
qed

text \<open>The total-difficulty loop: the alive list is complete, the candidate list holds live nodes only.\<close>

lemma total_difficulty_loop_alive:
  "snd (total_difficulty_loop ns is h nodes alive) = alive @ filter (node_alive ns) is"
  by (induction ns "is" h nodes alive rule: total_difficulty_loop.induct)
    (auto simp: StateAndLatest_eq node_alive_def split: option.splits prod.splits)

lemma total_difficulty_loop_nodes:
  "x \<in> set (fst (total_difficulty_loop ns is h nodes alive)) \<Longrightarrow>
   x \<in> set nodes \<or> x \<in> set (filter (node_alive ns) is)"
proof (induction "is" arbitrary: h nodes alive)
  case (Cons i "is")
  then show ?case
    by (auto simp: StateAndLatest_eq node_alive_def split: option.splits if_splits dest!: Cons.IH)
qed simp

lemma total_difficulty_loop_best:
  assumes "i \<in> set (fst (total_difficulty_loop ns is h nodes alive))"
    and "\<forall>k\<in>set nodes. td_of ns k = h" and "h = None \<longrightarrow> nodes = []"
  shows "td_of ns i = foldl MaxTotalDifficulty h (map (td_of ns) (filter (node_alive ns) is))"
  using assms
proof (induction ns "is" h nodes alive rule: total_difficulty_loop.induct)
  case (2 ns a "is" h nodes alive)
  have ta: "TotalDifficulty (fst (GetInterceptedChainInfo (rpc (ns ! a)))) = td_of ns a"
    by (simp add: td_of_def)
  show ?case
  proof (cases "State (ns ! a) = nodeStateAlive")
    case False
    then show ?thesis using 2 by (simp add: StateAndLatest_eq node_alive_def)
  next
    case al: True
    show ?thesis
    proof (cases "td_of ns a")
      case None
      then show ?thesis using 2 al by (simp add: StateAndLatest_eq ta node_alive_def)
    next
      case (Some d)
      then show ?thesis
        using 2 al by (cases h) (auto simp: StateAndLatest_eq ta node_alive_def max_def split: if_splits)
    qed
  qed
qed simp

lemma total_difficulty_none:
  "fst (total_difficulty_loop ns is None [] alive) = [] \<Longrightarrow> k \<in> set is \<Longrightarrow> node_alive ns k \<Longrightarrow>
   td_of ns k = None"
proof (induction "is" arbitrary: alive)
  case (Cons i "is")
  have keep: "nodes \<noteq> [] \<Longrightarrow> fst (total_difficulty_loop ns js h nodes alive) \<noteq> []" for js h nodes alive
    by (induction js arbitrary: h nodes alive) (auto simp: StateAndLatest_eq split: option.splits)
  show ?case
    using Cons keep [of "[i]"]
    by (auto simp: StateAndLatest_eq node_alive_def td_of_def split: option.splits if_splits)
qed simp

lemma foldl_td_upper:
  "x \<in> set xs \<Longrightarrow> td_le x (foldl MaxTotalDifficulty a xs)" and
  foldl_td_init: "td_le a (foldl MaxTotalDifficulty a xs)"
proof (induction xs arbitrary: a)
  case (Cons y xs)
  {
    case 1
    then show ?case
      using Cons.IH(1) Cons.IH(2) [of "MaxTotalDifficulty a y"] td_le_trans [OF td_le_max2] by auto
  next
    case 2
    show ?case using Cons.IH(2) [of "MaxTotalDifficulty a y"] td_le_trans [OF td_le_max1] by simp
  }
qed simp_all

lemma firstOrHighestPriority_member: "firstOrHighestPriority ns is = Some j \<Longrightarrow> j \<in> set is"
proof -
  have "first_priority_loop ns is hp best = Some j \<Longrightarrow> j \<in> set is \<or> best = Some j" for hp best
    by (induction "is" arbitrary: hp best) (auto split: if_splits)
  then show "firstOrHighestPriority ns is = Some j \<Longrightarrow> j \<in> set is"
    unfolding firstOrHighestPriority_def by blast
qed

lemma count_mod_ret:
  assumes "0 < n" and "n < 4294967296"
  shows "count_mod c n = Ret (unat c mod n)"
proof -
  have u: "unat (of_nat n :: 32 word) = n" using assms by (simp add: unat_of_nat)
  with assms(1) have "(of_nat n :: 32 word) \<noteq> 0" by (metis unat_0 less_numeral_extra(3))
  with u show ?thesis by (simp add: count_mod_def unat_mod)
qed

lemma roundRobin_Select_eq:
  assumes "length ns < 4294967296"
  shows "roundRobin_Select c ns =
     (if liveNodes ns = [] then Ret (None, c)
      else Ret (Some (liveNodes ns ! (unat c mod length (liveNodes ns))), c + 1))"
  using count_mod_ret [of "length (liveNodes ns)" c] assms liveNodes_length [of ns]
  by (auto simp: roundRobin_Select_def Let_def)

definition counts_ok :: "32 word list \<Rightarrow> node list \<Rightarrow> bool" where
  "counts_ok cs ns \<longleftrightarrow> ordered_pool ns \<and> length cs = nat (nrOfPriorityTiers ns)"

lemma live_tier_order:
  assumes "ordered_pool ns" and "live_tier ns \<noteq> []"
  shows "0 \<le> min_order ns \<and> min_order ns < nrOfPriorityTiers ns"
proof -
  obtain i where i: "i \<in> set (live_tier ns)" using assms(2) by (meson last_in_set)
  then have "ns ! i \<in> set ns" "node_order (ns ! i) = min_order ns" using live_tier_set by auto
  then show ?thesis
    using assms(1) nrOfPriorityTiers_bounds(2) [OF assms(1), of "ns ! i"]
    by (auto simp: ordered_pool_def list_all_iff)
qed

lemma priorityLevel_Select_eq:
  assumes "counts_ok cs ns"
  shows "priorityLevel_Select cs ns =
     (if live_tier ns = [] then Ret (None, cs)
      else let k = nat (min_order ns)
           in Ret (Some (live_tier ns ! (unat (cs ! k) mod length (live_tier ns))), cs[k := cs ! k + 1]))"
proof (cases "live_tier ns = []")
  case True
  then show ?thesis by (simp add: priorityLevel_Select_def getHighestPriorityAliveTier_eq)
next
  case False
  let ?tier = "live_tier ns"
  have last: "node_order (ns ! last ?tier) = min_order ns" using live_tier_set False by simp
  have b: "0 \<le> min_order ns" "min_order ns < int (length cs)"
    using live_tier_order [OF _ False] assms by (auto simp: counts_ok_def)
  have "count_mod (cs ! nat (min_order ns)) (length ?tier) = Ret (unat (cs ! nat (min_order ns)) mod length ?tier)"
    using False live_tier_length [of ns] assms by (intro count_mod_ret) (auto simp: counts_ok_def ordered_pool_def)
  with False b last show ?thesis
    by (simp add: priorityLevel_Select_def getHighestPriorityAliveTier_eq last_map Let_def)
qed

lemma unsubscribe_dead_nth:
  "i < length ns \<Longrightarrow> State (unsubscribe_dead ns ! i) = State (ns ! i)"
  by (simp add: unsubscribe_dead_def UnsubscribeAllExceptAliveLoop_def State_def recalculateState_def
      isFinalizedBlockOutOfSync_def GetInterceptedChainInfo_def UnsubscribeAllExcept_eq split: option.splits)

section \<open>Every strategy keeps the contract\<close>

definition heads_in_range :: "node list \<Rightarrow> bool" where
  "heads_in_range ns \<longleftrightarrow> (\<forall>i<length ns. MinInt64 \<le> block_of ns i)"

lemma first_best_member: "is_first_best ns is j \<Longrightarrow> j \<in> set is"
  by (auto simp: is_first_best_def)

lemma ordered_pool_nth: "ordered_pool ns \<Longrightarrow> i < length ns \<Longrightarrow> node_order (ns ! i) < MaxInt32"
  by (simp add: ordered_pool_def list_all_length)

lemma highestHead_Select_spec:
  assumes "ordered_pool ns" and "heads_in_range ns"
  shows "case highestHead_Select ns of
           None \<Rightarrow> liveNodes ns = []
         | Some j \<Rightarrow> is_first_best ns
             (filter (\<lambda>i. \<forall>k\<in>set (liveNodes ns). block_of ns k \<le> block_of ns i) (liveNodes ns)) j"
proof -
  let ?c = "filter (\<lambda>i. \<forall>k\<in>set (liveNodes ns). block_of ns k \<le> block_of ns i) (liveNodes ns)"
  have "highestHead_Select ns = firstOrHighestPriority ns ?c"
    using assms(2) by (simp add: highestHead_Select_def highest_head_nodes heads_in_range_def)
  moreover have "\<forall>i\<in>set ?c. node_order (ns ! i) < MaxInt32"
    using assms(1) ordered_pool_nth by (auto simp: liveNodes_set)
  moreover have "?c = [] \<Longrightarrow> liveNodes ns = []" using highest_head_nonempty by blast
  ultimately show ?thesis
    using firstOrHighestPriority_spec [of ?c ns] by (auto split: option.splits)
qed

lemma totalDifficulty_Select_spec:
  assumes "ordered_pool ns"
  shows "case totalDifficulty_Select ns of
           None \<Rightarrow> liveNodes ns = []
         | Some j \<Rightarrow> j \<in> set (liveNodes ns)"
proof -
  obtain nodes alive where l: "total_difficulty_loop ns [0..<length ns] None [] [] = (nodes, alive)"
    by (cases "total_difficulty_loop ns [0..<length ns] None [] []")
  have al: "alive = liveNodes ns"
    using total_difficulty_loop_alive [of ns "[0..<length ns]" None "[]" "[]"] l by (simp add: liveNodes_def)
  have sub: "set nodes \<subseteq> set (liveNodes ns)"
    using total_difficulty_loop_nodes [of _ ns "[0..<length ns]" None "[]" "[]"] l
    by (auto simp: liveNodes_def)
  have o: "\<forall>i\<in>set (liveNodes ns). node_order (ns ! i) < MaxInt32"
    using ordered_pool_nth [OF assms] by (auto simp: liveNodes_set)
  then have o': "\<forall>i\<in>set nodes. node_order (ns ! i) < MaxInt32" using sub by auto
  show ?thesis
    using firstOrHighestPriority_spec [OF o] firstOrHighestPriority_spec [OF o'] sub
    by (auto simp: totalDifficulty_Select_def l al dest: first_best_member split: option.splits)
qed

lemma spec_live:
  assumes "case r of None \<Rightarrow> liveNodes ns = [] | Some j \<Rightarrow> j \<in> set (liveNodes ns)"
  shows "r = Some i \<Longrightarrow> i < length ns \<and> node_alive ns i"
    and "r = None \<Longrightarrow> i < length ns \<Longrightarrow> \<not> node_alive ns i"
  using assms by (auto simp: liveNodes_set liveNodes_empty)

interpretation hh: node_selector "\<lambda>u :: unit. \<lambda>ns. Ret (highestHead_Select ns, u, ns)"
  "\<lambda>u ns. ordered_pool ns \<and> heads_in_range ns"
proof
  fix u :: unit and ns r s' ns' i
  assume ok: "ordered_pool ns \<and> heads_in_range ns"
  then have spec: "case highestHead_Select ns of None \<Rightarrow> liveNodes ns = [] | Some j \<Rightarrow> j \<in> set (liveNodes ns)"
    using highestHead_Select_spec [of ns] by (auto dest!: first_best_member split: option.splits)
  show "Ret (highestHead_Select ns, u, ns) = Ret (Some i, s', ns') \<Longrightarrow> i < length ns \<and> node_alive ns i"
    using spec_live(1) [OF spec] by auto
  show "Ret (highestHead_Select ns, u, ns) = Ret (None, s', ns') \<Longrightarrow> i < length ns \<Longrightarrow> \<not> node_alive ns i"
    using spec_live(2) [OF spec] by auto
qed auto

interpretation td_sel: node_selector "\<lambda>u :: unit. \<lambda>ns. Ret (totalDifficulty_Select ns, u, ns)"
  "\<lambda>u ns. ordered_pool ns"
proof
  fix u :: unit and ns r s' ns' i
  assume ok: "ordered_pool ns"
  note spec = totalDifficulty_Select_spec [OF ok]
  show "Ret (totalDifficulty_Select ns, u, ns) = Ret (Some i, s', ns') \<Longrightarrow> i < length ns \<and> node_alive ns i"
    using spec_live(1) [OF spec] by auto
  show "Ret (totalDifficulty_Select ns, u, ns) = Ret (None, s', ns') \<Longrightarrow> i < length ns \<Longrightarrow> \<not> node_alive ns i"
    using spec_live(2) [OF spec] by auto
qed auto

lemma nth_mod_live: "xs \<noteq> [] \<Longrightarrow> set xs \<subseteq> set (liveNodes ns) \<Longrightarrow> xs ! (k mod length xs) \<in> set (liveNodes ns)"
  by (meson nth_mod_length_in_set subsetD)

lemma roundRobin_live:
  assumes "length ns < 4294967296" and "roundRobin_Select c ns = Ret (Some i, c')"
  shows "i < length ns \<and> node_alive ns i"
  using assms nth_mod_live [of "liveNodes ns" ns "unat c"]
  by (auto simp: roundRobin_Select_eq liveNodes_set split: if_splits)

interpretation rr: node_selector "\<lambda>c ns. outcome_bind (roundRobin_Select c ns) (\<lambda>(r, c'). Ret (r, c', ns))"
  "\<lambda>c ns. length ns < 4294967296"
proof
  fix c :: "32 word" and ns ns' :: "node list" and r s' i
  assume ok: "length ns < 4294967296"
  let ?sel = "outcome_bind (roundRobin_Select c ns) (\<lambda>(r, c'). Ret (r, c', ns))"
  show "\<exists>r s' ns'. ?sel = Ret (r, s', ns')" by (simp add: roundRobin_Select_eq ok)
  show "?sel = Ret (Some i, s', ns') \<Longrightarrow> i < length ns \<and> node_alive ns i"
    using roundRobin_live [OF ok, of c] by (auto simp: outcome_bind_Ret_iff)
  show "?sel = Ret (None, s', ns') \<Longrightarrow> i < length ns \<Longrightarrow> \<not> node_alive ns i"
    by (auto simp: roundRobin_Select_eq ok liveNodes_empty split: if_splits)
  show "?sel = Ret (r, s', ns') \<Longrightarrow> length ns' = length ns \<and> (\<forall>i<length ns. State (ns' ! i) = State (ns ! i))"
    "?sel = Ret (r, s', ns') \<Longrightarrow> length ns' < 4294967296"
    using ok by (auto simp: roundRobin_Select_eq split: if_splits)
qed

lemma live_tier_subset: "set (live_tier ns) \<subseteq> set (liveNodes ns)"
  by (auto simp: live_tier_def)

interpretation pl: node_selector "\<lambda>cs ns. outcome_bind (priorityLevel_Select cs ns) (\<lambda>(r, cs'). Ret (r, cs', ns))"
  counts_ok
proof
  fix cs ns r s' ns' i
  assume ok: "counts_ok cs ns"
  note eq = priorityLevel_Select_eq [OF ok]
  let ?sel = "outcome_bind (priorityLevel_Select cs ns) (\<lambda>(r, cs'). Ret (r, cs', ns))"
  show "\<exists>r s' ns'. ?sel = Ret (r, s', ns')" by (simp add: eq Let_def)
  show "?sel = Ret (r, s', ns') \<Longrightarrow> counts_ok s' ns'"
    using ok by (auto simp: eq Let_def counts_ok_def split: if_splits)
  show "?sel = Ret (Some i, s', ns') \<Longrightarrow> i < length ns \<and> node_alive ns i"
    using nth_mod_live [OF _ live_tier_subset, of ns] by (auto simp: eq Let_def liveNodes_set split: if_splits)
  show "?sel = Ret (None, s', ns') \<Longrightarrow> i < length ns \<Longrightarrow> \<not> node_alive ns i"
    by (auto simp: eq Let_def live_tier_nonempty liveNodes_empty split: if_splits)
  show "?sel = Ret (r, s', ns') \<Longrightarrow> length ns' = length ns \<and> (\<forall>i<length ns. State (ns' ! i) = State (ns ! i))"
    by (auto simp: eq Let_def split: if_splits)
qed

definition IntN_ok :: "(nat \<Rightarrow> nat) \<Rightarrow> bool" where
  "IntN_ok IntN \<longleftrightarrow> (\<forall>n>0. IntN n < n)"

interpretation rnd: node_selector
  "\<lambda>IntN ns. case randomRPC_Select IntN ns of (r, ns') \<Rightarrow> Ret (r, IntN, ns')" "\<lambda>IntN ns. IntN_ok IntN"
proof
  fix IntN and ns ns' :: "node list" and r s' i
  assume ok: "IntN_ok IntN"
  let ?sel = "case randomRPC_Select IntN ns of (r, ns') \<Rightarrow> Ret (r, IntN, ns')"
  have pick: "liveNodes ns \<noteq> [] \<Longrightarrow> liveNodes ns ! IntN (length (liveNodes ns)) \<in> set (liveNodes ns)"
    using ok by (simp add: IntN_ok_def)
  show "?sel = Ret (Some i, s', ns') \<Longrightarrow> i < length ns \<and> node_alive ns i"
    using pick by (auto simp: randomRPC_Select_def Let_def liveNodes_set split: if_splits)
  show "?sel = Ret (None, s', ns') \<Longrightarrow> i < length ns \<Longrightarrow> \<not> node_alive ns i"
    by (auto simp: randomRPC_Select_def Let_def liveNodes_empty split: if_splits)
  show "?sel = Ret (r, s', ns') \<Longrightarrow> length ns' = length ns \<and> (\<forall>i<length ns. State (ns' ! i) = State (ns ! i))"
    using unsubscribe_dead_nth [of _ ns]
    by (auto simp: randomRPC_Select_def Let_def unsubscribe_dead_def split: if_splits)
  show "?sel = Ret (r, s', ns') \<Longrightarrow> IntN_ok s'" using ok by (auto split: prod.splits)
qed (auto split: prod.splits)

text \<open>The dispatching \<open>Select\<close> on the interface keeps the contract because each strategy does.\<close>

fun selector_ok :: "(nat \<Rightarrow> nat) \<Rightarrow> selector \<Rightarrow> node list \<Rightarrow> bool" where
  "selector_ok IntN HighestHeadSelector ns \<longleftrightarrow> ordered_pool ns \<and> heads_in_range ns"
| "selector_ok IntN (RoundRobinSelector c) ns \<longleftrightarrow> length ns < 4294967296"
| "selector_ok IntN TotalDifficultySelector ns \<longleftrightarrow> ordered_pool ns"
| "selector_ok IntN (PriorityLevelSelector cs) ns \<longleftrightarrow> counts_ok cs ns"
| "selector_ok IntN RandomRPCSelector ns \<longleftrightarrow> IntN_ok IntN"

lemma Select_cases:
  assumes "selector_ok IntN s ns"
  shows "\<exists>r s' ns'. Select IntN s ns = Ret (r, s', ns') \<and> selector_ok IntN s' ns' \<and>
    (\<forall>i. r = Some i \<longrightarrow> i < length ns \<and> node_alive ns i) \<and>
    (r = None \<longrightarrow> (\<forall>i<length ns. \<not> node_alive ns i)) \<and>
    length ns' = length ns \<and> (\<forall>i<length ns. State (ns' ! i) = State (ns ! i))"
proof (cases s)
  case HighestHeadSelector
  then show ?thesis
    using assms hh.sel_live [of ns] hh.sel_complete [of ns] by auto
next
  case (RoundRobinSelector c)
  then obtain r c' where "roundRobin_Select c ns = Ret (r, c')"
    using assms roundRobin_Select_eq [of ns c] by (auto split: if_splits)
  then show ?thesis
    using RoundRobinSelector assms rr.sel_live [of ns c] rr.sel_complete [of ns c] by auto
next
  case TotalDifficultySelector
  then show ?thesis
    using assms td_sel.sel_live [of ns] td_sel.sel_complete [of ns] by auto
next
  case (PriorityLevelSelector cs)
  then obtain r cs' where e: "priorityLevel_Select cs ns = Ret (r, cs')"
    using assms priorityLevel_Select_eq [of cs ns] by (auto simp: Let_def split: if_splits)
  moreover have "counts_ok cs' ns" using pl.sel_ok [of cs ns] PriorityLevelSelector assms e by simp
  ultimately show ?thesis
    using PriorityLevelSelector assms pl.sel_live [of cs ns] pl.sel_complete [of cs ns] by auto
next
  case RandomRPCSelector
  obtain r ns' where e: "randomRPC_Select IntN ns = (r, ns')" by (cases "randomRPC_Select IntN ns")
  then show ?thesis
    using RandomRPCSelector assms rnd.sel_live [of IntN ns] rnd.sel_complete [of IntN ns]
      rnd.sel_nodes [of IntN ns] by auto
qed

interpretation sel: node_selector "Select IntN" "selector_ok IntN" for IntN
  by unfold_locales (metis Select_cases Pair_inject outcome.inject(1))+

lemma UnsubscribeAllExceptAliveLoop_frame [simp]:
  "node_order (UnsubscribeAllExceptAliveLoop n) = node_order n"
  "GetInterceptedChainInfo (rpc (UnsubscribeAllExceptAliveLoop n)) = GetInterceptedChainInfo (rpc n)"
  "state (UnsubscribeAllExceptAliveLoop n) = state n"
  "node_cfg (UnsubscribeAllExceptAliveLoop n) = node_cfg n"
  "poolInfoProvider (UnsubscribeAllExceptAliveLoop n) = poolInfoProvider n"
  by (simp_all add: UnsubscribeAllExceptAliveLoop_def GetInterceptedChainInfo_def UnsubscribeAllExcept_eq)

lemma UnsubscribeAllExceptAliveLoop_State [simp]: "State (UnsubscribeAllExceptAliveLoop n) = State n"
  unfolding State_def recalculateState_def isFinalizedBlockOutOfSync_def
    UnsubscribeAllExceptAliveLoop_frame ..

lemma Select_orders: "Select IntN s ns = Ret (r, s', ns') \<Longrightarrow> map node_order ns' = map node_order ns"
  by (cases s) (auto simp: outcome_bind_Ret_iff randomRPC_Select_def unsubscribe_dead_def Let_def
      split: prod.splits if_splits)

text \<open>The same nodes at another moment: a strategy that was fit for them still is.\<close>

definition later :: "node list \<Rightarrow> node list \<Rightarrow> bool" where
  "later ns ns' \<longleftrightarrow> map node_order ns' = map node_order ns \<and> heads_in_range ns'"

lemma tiers_of_orders:
  "nrOfPriorityTiers ns = i32 (foldl (\<lambda>h p. if h < p then p else h) 0 (map node_order ns) + 1)"
  by (simp add: nrOfPriorityTiers_def foldl_map)

lemma ordered_of_orders:
  "ordered_pool ns \<longleftrightarrow>
     list_all (\<lambda>p. 0 \<le> p \<and> p < MaxInt32) (map node_order ns) \<and> length (map node_order ns) < 4294967296"
  by (simp add: ordered_pool_def list_all_iff)

lemma selector_ok_later: "selector_ok IntN s ns \<Longrightarrow> later ns ns' \<Longrightarrow> selector_ok IntN s ns'"
  unfolding later_def
  by (cases s) (auto simp: counts_ok_def tiers_of_orders ordered_of_orders dest: map_eq_imp_length_eq)

lemma word32_Suc: "Suc (unat (c :: 32 word)) < 4294967296 \<Longrightarrow> unat (c + 1) = Suc (unat c)"
  by (simp add: unat_word_ariths)

lemma roundRobin_picks_eq:
  assumes "length ns < 4294967296" and "liveNodes ns \<noteq> []" and "unat c + k \<le> 4294967296"
  shows "roundRobin_picks k c ns =
    Ret (map (\<lambda>j. Some (liveNodes ns ! ((unat c + j) mod length (liveNodes ns)))) [0..<k])"
  using assms(3)
proof (induction k arbitrary: c)
  case (Suc k)
  have "roundRobin_picks k (c + 1) ns =
      Ret (map (\<lambda>j. Some (liveNodes ns ! ((unat c + Suc j) mod length (liveNodes ns)))) [0..<k])"
  proof (cases k)
    case (Suc k')
    then have "unat (c + 1) = Suc (unat c)" using Suc.prems by (intro word32_Suc) simp
    with Suc.IH [of "c + 1"] Suc.prems show ?thesis by simp
  qed simp
  moreover have "[0..<Suc k] = 0 # map Suc [0..<k]" by (simp add: map_Suc_upt upt_conv_Cons)
  ultimately show ?case
    using roundRobin_Select_eq [OF assms(1), of c] assms(2) by (simp add: comp_def del: upt_Suc)
qed simp

lemma shift_mod_inj: "inj_on (\<lambda>j. (a + j) mod n) {0..<n :: nat}"
proof (rule inj_onI)
  fix i j assume ij: "i \<in> {0..<n}" "j \<in> {0..<n}" "(a + i) mod n = (a + j) mod n"
  then have "(int a + int i) mod int n = (int a + int j) mod int n"
    by (metis of_nat_add of_nat_mod)
  then have "int n dvd int i - int j" by (simp add: mod_eq_dvd_iff)
  moreover have "\<bar>int i - int j\<bar> < int n" using ij by auto
  ultimately have "int i - int j = 0" using dvd_imp_le_int [of "int i - int j" "int n"] by force
  then show "i = j" by simp
qed

section \<open>Properties\<close>

text \<open>Consecutive calls of \<open>Select\<close>, each on the nodes as they are then.\<close>

fun selects :: "(nat \<Rightarrow> nat) \<Rightarrow> node list list \<Rightarrow> selector \<Rightarrow> (nat option list \<times> selector) outcome" where
  "selects IntN [] s = Ret ([], s)"
| "selects IntN (ns # nss) s =
     outcome_bind (Select IntN s ns)
       (\<lambda>(r, s1, ns1). outcome_bind (selects IntN nss s1) (\<lambda>(rs, s2). Ret (r # rs, s2)))"

definition selected_live :: "nat option \<Rightarrow> node list \<Rightarrow> bool" where
  "selected_live r ns \<longleftrightarrow>
     (case r of
        Some i \<Rightarrow> i < length ns \<and> State (ns ! i) = nodeStateAlive
      | None \<Rightarrow> (\<forall>i<length ns. State (ns ! i) \<noteq> nodeStateAlive))"

lemma selects_ok:
  assumes "selector_ok IntN s ns" and "\<forall>ms\<in>set nss. later ns ms"
  shows "\<exists>rs s'. selects IntN nss s = Ret (rs, s') \<and> list_all2 selected_live rs nss"
  using assms
proof (induction nss arbitrary: s ns)
  case (Cons ms nss)
  have ok: "selector_ok IntN s ms" using selector_ok_later Cons.prems by simp
  obtain r s1 ms1 where e: "Select IntN s ms = Ret (r, s1, ms1)" using sel.sel_returns [OF ok] by blast
  have "selector_ok IntN s1 ms1" by (rule sel.sel_ok [OF ok e])
  moreover have "\<forall>ks\<in>set nss. later ms1 ks" using Cons.prems(2) Select_orders [OF e] by (simp add: later_def)
  ultimately obtain rs s2 where "selects IntN nss s1 = Ret (rs, s2)" "list_all2 selected_live rs nss" using Cons.IH by blast
  moreover have "selected_live r ms"
    using sel.sel_live [OF ok] sel.sel_iff [OF ok e] e by (cases r) (auto simp: selected_live_def node_alive_def)
  ultimately show ?case using e by simp
qed simp

lemma newNodeSelector_ok:
  assumes "ordered_pool ns" and "heads_in_range ns" and "IntN_ok IntN" and "newNodeSelector mode ns = Ret s"
  shows "selector_ok IntN s ns"
  using assms nrOfPriorityTiers_bounds(1) [OF assms(1)]
  by (auto simp: newNodeSelector_def NewPriorityLevelNodeSelector_def counts_ok_def ordered_pool_def split: if_splits)

text \<open>C15. On a pool of fewer than \<open>2^32\<close> nodes with orders between zero and below \<open>MaxInt32\<close> and block numbers of 64 bits,
  \<open>newNodeSelector\<close> makes a strategy for each of the five modes and panics for any other; and however often the strategy is
  called afterwards, on the same nodes in whatever states they are then, \<open>Select\<close> does not panic, the node it returns is in
  state \<open>Alive\<close>, and it returns none only when no node of the pool is.\<close>

theorem Select_contract:
  assumes "ordered_pool ns" and "heads_in_range ns" and "IntN_ok IntN" and "\<forall>ms\<in>set nss. later ns ms"
  shows "(is_panic (newNodeSelector mode ns) \<longleftrightarrow>
      mode \<notin> {NodeSelectionModeHighestHead, NodeSelectionModeRoundRobin, NodeSelectionModeTotalDifficulty,
        NodeSelectionModePriorityLevel, NodeSelectionModeRandomRPC}) \<and>
    (\<forall>s. newNodeSelector mode ns = Ret s \<longrightarrow>
       (\<exists>rs s'. selects IntN nss s = Ret (rs, s') \<and>
          list_all2 (\<lambda>r ms. case r of
              Some i \<Rightarrow> i < length ms \<and> State (ms ! i) = nodeStateAlive
            | None \<Rightarrow> (\<forall>i<length ms. State (ms ! i) \<noteq> nodeStateAlive)) rs nss))"
proof (intro conjI allI impI)
  show "is_panic (newNodeSelector mode ns) \<longleftrightarrow>
      mode \<notin> {NodeSelectionModeHighestHead, NodeSelectionModeRoundRobin, NodeSelectionModeTotalDifficulty,
        NodeSelectionModePriorityLevel, NodeSelectionModeRandomRPC}"
    using nrOfPriorityTiers_bounds(1) [OF assms(1)]
    by (auto simp: newNodeSelector_def NewPriorityLevelNodeSelector_def)
  fix s assume "newNodeSelector mode ns = Ret s"
  from selects_ok [OF newNodeSelector_ok [OF assms(1-3) this] assms(4)]
  show "\<exists>rs s'. selects IntN nss s = Ret (rs, s') \<and>
      list_all2 (\<lambda>r ms. case r of
          Some i \<Rightarrow> i < length ms \<and> State (ms ! i) = nodeStateAlive
        | None \<Rightarrow> (\<forall>i<length ms. State (ms ! i) \<noteq> nodeStateAlive)) rs nss"
    by (simp add: selected_live_def [abs_def])
qed

definition demo_alive :: "int \<Rightarrow> int \<Rightarrow> node" where
  "demo_alive ord bn =
     demo_node\<lparr>state := nodeStateAlive, node_order := ord,
       rpc := (NewRPCClientBase False)\<lparr>latestChainInfo :=
          \<lparr>BlockNumber = bn, FinalizedBlockNumber = 0, TotalDifficulty = None\<rparr>\<rparr>\<rparr>"

definition demo_pool :: "node list" where
  "demo_pool = [demo_alive 2 10, demo_alive 1 10, demo_node]"

lemmas demo_pool_defs = demo_pool_def demo_alive_def demo_node_def NewNode_def

lemma demo_pool_states:
  "State (demo_pool ! 0) = nodeStateAlive" "State (demo_pool ! Suc 0) = nodeStateAlive"
  "State (demo_pool ! Suc (Suc 0)) = nodeStateUndialed" "length demo_pool = Suc (Suc (Suc 0))"
  by (simp_all add: demo_pool_defs State_def recalculateState_def isFinalizedBlockOutOfSync_def)

lemma demo_orders:
  "node_order (demo_pool ! 0) = 2" "node_order (demo_pool ! Suc 0) = 1" "node_order (demo_pool ! Suc (Suc 0)) = 1"
  by (simp_all add: demo_pool_defs)

lemma demo_latest:
  "fst (GetInterceptedChainInfo (rpc (demo_pool ! 0))) = \<lparr>BlockNumber = 10, FinalizedBlockNumber = 0, TotalDifficulty = None\<rparr>"
  "fst (GetInterceptedChainInfo (rpc (demo_pool ! Suc 0))) = \<lparr>BlockNumber = 10, FinalizedBlockNumber = 0, TotalDifficulty = None\<rparr>"
  "fst (GetInterceptedChainInfo (rpc (demo_pool ! Suc (Suc 0)))) = chain_info_zero"
  by (simp_all add: demo_pool_defs GetInterceptedChainInfo_def NewRPCClientBase_def)

lemma demo_live: "liveNodes demo_pool = [0, Suc 0]"
  by (simp add: liveNodes_def demo_pool_states node_alive_def upt_conv_Cons)

lemma demo_pool_ordered: "ordered_pool demo_pool"
  by (simp add: ordered_pool_def demo_pool_defs MaxInt32_def)

lemma demo_heads: "heads_in_range demo_pool"
  by (auto simp: heads_in_range_def block_of_def MinInt64_def less_Suc_eq demo_pool_states demo_latest
      chain_info_zero_def)

theorem Select_contract_witness:
  "\<exists>r1 r2 s'. selects (\<lambda>n. 0) [demo_pool, demo_pool] (PriorityLevelSelector [0, 0, 0]) = Ret ([Some r1, Some r2], s') \<and>
     State (demo_pool ! r1) = nodeStateAlive \<and> State (demo_pool ! r2) = nodeStateAlive"
proof -
  have new: "newNodeSelector NodeSelectionModePriorityLevel demo_pool = Ret (PriorityLevelSelector [0, 0, 0])"
    by (simp add: newNodeSelector_def NewPriorityLevelNodeSelector_def nrOfPriorityTiers_def selection_modes demo_pool_defs
        in_range_32 MaxInt32_def numeral_3_eq_3)
  have "IntN_ok (\<lambda>n. 0)" "\<forall>ms\<in>set [demo_pool, demo_pool]. later demo_pool ms"
    using demo_heads by (simp_all add: IntN_ok_def later_def)
  from Select_contract [OF demo_pool_ordered demo_heads this, of NodeSelectionModePriorityLevel] new
  obtain rs s' where r: "selects (\<lambda>n. 0) [demo_pool, demo_pool] (PriorityLevelSelector [0, 0, 0]) = Ret (rs, s')"
    "list_all2 (\<lambda>r ms. case r of
        Some i \<Rightarrow> i < length ms \<and> State (ms ! i) = nodeStateAlive
      | None \<Rightarrow> (\<forall>i<length ms. State (ms ! i) \<noteq> nodeStateAlive)) rs [demo_pool, demo_pool]"
    by auto
  have "0 < length demo_pool" by (simp add: demo_pool_states)
  with r show ?thesis using demo_pool_states(1) by (auto simp: list_all2_Cons2 split: option.splits)
qed

text \<open>With the highest-head strategy the node selected is live, no live node is ahead of
  it, and among the live nodes with the same block it is the first one of the smallest order.\<close>

theorem highestHead_selects_best:
  assumes "ordered_pool ns" and "heads_in_range ns" and "highestHead_Select ns = Some j"
  shows "State (ns ! j) = nodeStateAlive \<and>
    (\<forall>k<length ns. State (ns ! k) = nodeStateAlive \<longrightarrow>
       block_of ns k < block_of ns j \<or>
       block_of ns k = block_of ns j \<and>
         (node_order (ns ! j) < node_order (ns ! k) \<or> node_order (ns ! j) = node_order (ns ! k) \<and> j \<le> k))"
proof -
  let ?c = "filter (\<lambda>i. \<forall>k\<in>set (liveNodes ns). block_of ns k \<le> block_of ns i) (liveNodes ns)"
  have best: "is_first_best ns ?c j" using highestHead_Select_spec [OF assms(1,2)] assms(3) by simp
  then have j: "j \<in> set ?c" by (rule first_best_member)
  obtain pre post where c: "?c = pre @ j # post" and le: "\<forall>i\<in>set ?c. node_order (ns ! j) \<le> node_order (ns ! i)"
    and pre: "\<forall>i\<in>set pre. node_order (ns ! j) < node_order (ns ! i)"
    using best unfolding is_first_best_def by blast
  have "sorted ?c" by (simp add: liveNodes_def sorted_wrt_filter)
  then have post: "\<forall>i\<in>set post. j \<le> i" unfolding c by (simp add: sorted_append)
  have "block_of ns k < block_of ns j \<or> block_of ns k = block_of ns j \<and>
      (node_order (ns ! j) < node_order (ns ! k) \<or> node_order (ns ! j) = node_order (ns ! k) \<and> j \<le> k)"
    if k: "k \<in> set (liveNodes ns)" for k
  proof (cases "k \<in> set ?c")
    case True
    have "k \<in> set pre \<or> k = j \<or> k \<in> set post" using True unfolding c by auto
    moreover have "block_of ns k \<le> block_of ns j" using j k by simp
    moreover have "block_of ns j \<le> block_of ns k" using True j by simp
    moreover have "node_order (ns ! j) \<le> node_order (ns ! k)" using le True by blast
    ultimately show ?thesis using pre post by (metis order_antisym order_le_less order_refl)
  next
    case False
    then obtain m where "m \<in> set (liveNodes ns)" "block_of ns k < block_of ns m" using k by (auto simp: not_le)
    moreover have "block_of ns m \<le> block_of ns j" using j \<open>m \<in> set (liveNodes ns)\<close> by simp
    ultimately show ?thesis by simp
  qed
  then show ?thesis using j by (auto simp: liveNodes_set node_alive_def)
qed

theorem highestHead_selects_best_witness:
  "highestHead_Select demo_pool = Some 1 \<and> State (demo_pool ! 1) = nodeStateAlive"
proof -
  have r: "heads_in_range demo_pool" by (rule demo_heads)
  have s: "highestHead_Select demo_pool = Some 1"
    unfolding highestHead_Select_def
    by (simp add: highest_head_loop_eq Let_def demo_pool_states node_alive_def upt_conv_Cons
        firstOrHighestPriority_def block_of_def MinInt64_def MaxInt32_def demo_orders demo_latest)
  then show ?thesis using highestHead_selects_best [OF demo_pool_ordered r s] by simp
qed

text \<open>Over as many consecutive calls as there are live nodes, with no change of their
  states and no overflow of the 32-bit counter in between, the round-robin strategy selects every live
  node exactly once.\<close>

theorem roundRobin_fair:
  assumes "length ns < 4294967296" and "unat c + length (liveNodes ns) \<le> 4294967296"
  shows "\<exists>is. roundRobin_picks (length (liveNodes ns)) c ns = Ret (map Some is) \<and> distinct is \<and>
     set is = {i. i < length ns \<and> State (ns ! i) = nodeStateAlive}"
proof (cases "liveNodes ns = []")
  case True
  then have "{i. i < length ns \<and> State (ns ! i) = nodeStateAlive} = {}"
    using liveNodes_set [of ns] by (simp add: node_alive_def)
  with True show ?thesis by (intro exI [of _ "[]"]) simp
next
  case False
  let ?live = "liveNodes ns" and ?n = "length (liveNodes ns)"
  let ?js = "map (\<lambda>j. (unat c + j) mod ?n) [0..<?n]"
  have d: "distinct ?js" using shift_mod_inj [of "unat c" ?n] by (simp add: distinct_map)
  have sub: "set ?js \<subseteq> {0..<?n}" using False by auto
  have "card (set ?js) = ?n" using distinct_card [OF d] by simp
  then have js: "set ?js = {0..<?n}" using sub by (intro card_subset_eq) auto
  have "distinct (map ((!) ?live) ?js)"
    unfolding distinct_map [of _ ?js] js using d by (intro conjI inj_on_nth liveNodes_distinct) auto
  moreover have "set (map ((!) ?live) ?js) = set ?live"
    unfolding list.set_map [of _ ?js] js by (auto simp: set_conv_nth)
  moreover have "roundRobin_picks ?n c ns = Ret (map Some (map ((!) ?live) ?js))"
    using roundRobin_picks_eq [OF assms(1) False assms(2)] by (simp add: comp_def)
  ultimately show ?thesis
    using liveNodes_set [of ns] by (intro exI [of _ "map ((!) ?live) ?js"]) (simp add: node_alive_def)
qed

theorem roundRobin_fair_witness:
  "\<exists>is. roundRobin_picks 2 7 demo_pool = Ret (map Some is) \<and> distinct is"
proof -
  have "unat (7 :: 32 word) + length (liveNodes demo_pool) \<le> 4294967296" "length demo_pool < 4294967296"
    and two: "length (liveNodes demo_pool) = 2"
    by (simp_all add: demo_live demo_pool_states)
  from roundRobin_fair [OF this(2,1)] show ?thesis unfolding two by blast
qed

text \<open>The priority-level strategy selects a live node of the smallest order among the live
  ones (a lower-priority node only when no higher one is live), walking that tier with the tier's own
  counter and leaving the counters of the other tiers alone.\<close>

theorem priorityLevel_selects_top_tier:
  assumes "counts_ok cs ns" and "priorityLevel_Select cs ns = Ret (Some i, cs')"
  shows "State (ns ! i) = nodeStateAlive \<and>
    (\<forall>k<length ns. State (ns ! k) = nodeStateAlive \<longrightarrow> node_order (ns ! i) \<le> node_order (ns ! k)) \<and>
    i = live_tier ns ! (unat (cs ! nat (node_order (ns ! i))) mod length (live_tier ns)) \<and>
    cs' = cs[nat (node_order (ns ! i)) := cs ! nat (node_order (ns ! i)) + 1]"
proof -
  have ne: "live_tier ns \<noteq> []" and i: "i = live_tier ns ! (unat (cs ! nat (min_order ns)) mod length (live_tier ns))"
    and cs': "cs' = cs[nat (min_order ns) := cs ! nat (min_order ns) + 1]"
    using assms(2) priorityLevel_Select_eq [OF assms(1)] by (auto simp: Let_def split: if_splits)
  have m: "i \<in> set (live_tier ns)" unfolding i using ne by simp
  then have o: "node_order (ns ! i) = min_order ns" and a: "node_alive ns i" using live_tier_set by auto
  have "min_order ns \<le> node_order (ns ! k)" if "k < length ns" "node_alive ns k" for k
    unfolding min_order_def using that by (intro Min_le) (auto simp: liveNodes_set)
  then show ?thesis using i cs' o a by (simp add: node_alive_def)
qed

theorem priorityLevel_selects_top_tier_witness:
  "priorityLevel_Select [0, 0, 0] demo_pool = Ret (Some 1, [0, 1, 0]) \<and> State (demo_pool ! 1) = nodeStateAlive"
proof -
  have ok: "counts_ok [0, 0, 0] demo_pool"
    using demo_pool_ordered
    by (simp add: counts_ok_def nrOfPriorityTiers_def demo_pool_defs in_range_32 MaxInt32_def)
  have m: "min_order demo_pool = 1" by (simp add: min_order_def demo_live demo_orders)
  then have t: "live_tier demo_pool = [Suc 0]" by (simp add: live_tier_def demo_live demo_orders)
  have eq: "priorityLevel_Select [0, 0, 0] demo_pool = Ret (Some 1, [0, 1, 0])"
    by (simp add: priorityLevel_Select_eq [OF ok] t m Let_def)
  with priorityLevel_selects_top_tier [OF ok eq] show ?thesis by blast
qed

text \<open>With the total-difficulty strategy the selected node is live, and when some live
  node reports a difficulty, the selected one reports the highest of them.\<close>

theorem totalDifficulty_selects_best:
  assumes "ordered_pool ns" and "totalDifficulty_Select ns = Some j"
  shows "State (ns ! j) = nodeStateAlive \<and>
    (\<forall>k<length ns. State (ns ! k) = nodeStateAlive \<longrightarrow> td_le (td_of ns k) (td_of ns j))"
proof -
  obtain nodes alive where l: "total_difficulty_loop ns [0..<length ns] None [] [] = (nodes, alive)"
    by (cases "total_difficulty_loop ns [0..<length ns] None [] []")
  have live: "j \<in> set (liveNodes ns)" using totalDifficulty_Select_spec [OF assms(1)] assms(2) by simp
  show ?thesis
  proof (cases "nodes = []")
    case True
    then have "td_of ns k = None" if "k \<in> set (liveNodes ns)" for k
      using that total_difficulty_none [of ns "[0..<length ns]" "[]" k] l by (auto simp: liveNodes_set)
    with live show ?thesis by (auto simp: liveNodes_set node_alive_def)
  next
    case False
    let ?T = "foldl MaxTotalDifficulty None (map (td_of ns) (liveNodes ns))"
    have "j \<in> set nodes"
      using False assms l firstOrHighestPriority_member [of ns nodes j]
      by (simp add: totalDifficulty_Select_def)
    then have t: "td_of ns j = ?T"
      using total_difficulty_loop_best [of j ns "[0..<length ns]" None "[]" "[]"] l by (simp add: liveNodes_def)
    have "td_le (td_of ns k) ?T" if "k \<in> set (liveNodes ns)" for k
      using that by (intro foldl_td_upper) simp
    with t live show ?thesis by (auto simp: liveNodes_set node_alive_def)
  qed
qed

theorem totalDifficulty_selects_best_witness:
  "totalDifficulty_Select demo_pool = Some 1 \<and> State (demo_pool ! 1) = nodeStateAlive"
proof -
  have s: "totalDifficulty_Select demo_pool = Some 1"
    unfolding totalDifficulty_Select_def
    by (simp add: demo_pool_states upt_conv_Cons StateAndLatest_eq demo_latest demo_orders
        firstOrHighestPriority_def MaxInt32_def)
  then show ?thesis using totalDifficulty_selects_best [OF demo_pool_ordered s] by simp
qed

text \<open>A pool whose nodes all have the largest 32-bit order is never served by the highest-head
  and total-difficulty strategies, however many of its nodes are alive: the comparison with
  \<open>MaxInt32\<close> is strict.\<close>

theorem max_order_never_selected:
  assumes "\<forall>n\<in>set ns. node_order n = MaxInt32"
  shows "highestHead_Select ns = None \<and> totalDifficulty_Select ns = None"
proof -
  have none: "firstOrHighestPriority ns is = None" if "set is \<subseteq> {0..<length ns}" for "is"
    unfolding firstOrHighestPriority_def using that assms by (intro first_priority_none) (auto simp: subset_iff)
  have "set (highest_head_loop ns [0..<length ns] MinInt64 []) \<subseteq> {0..<length ns}"
    by (auto simp: highest_head_loop_eq Let_def)
  moreover obtain nodes alive where l: "total_difficulty_loop ns [0..<length ns] None [] [] = (nodes, alive)"
    by (cases "total_difficulty_loop ns [0..<length ns] None [] []")
  moreover have "set nodes \<subseteq> {0..<length ns}" "set alive \<subseteq> {0..<length ns}"
    using total_difficulty_loop_nodes [of _ ns "[0..<length ns]" None "[]" "[]"]
      total_difficulty_loop_alive [of ns "[0..<length ns]" None "[]" "[]"] l by auto
  ultimately show ?thesis
    by (simp add: highestHead_Select_def totalDifficulty_Select_def none)
qed

theorem max_order_never_selected_witness:
  "highestHead_Select [demo_alive MaxInt32 10] = None \<and> State (demo_alive MaxInt32 10) = nodeStateAlive"
  using max_order_never_selected [of "[demo_alive MaxInt32 10]"]
  by (simp add: demo_pool_defs State_def recalculateState_def isFinalizedBlockOutOfSync_def)

end
