(* ===== verification/Send_Only_Node.thy ===== *)
theory Send_Only_Node
  imports Node_Fsm
begin

text \<open>
  \<open>multinode/send_only_node.go\<close> and \<open>send_only_node_lifecycle.go\<close>: a node that only broadcasts
  transactions. \<open>start\<close> dials and verifies the chain ID once; on a failed verification \<open>verifyLoop\<close>
  retries until it succeeds. \<open>so_step\<close> interleaves these goroutines with \<open>Close\<close>, which marks the
  service as stopping, waits for them and only then sets the state. \<open>so_started\<close> is what
  \<open>StateMachine.IfStarted\<close> sees.
\<close>

section \<open>State and operations\<close>

record send_only_node =
  so_name :: string
  so_chainID :: string
  so_uri :: go_url
  so_state :: nodeState
  so_started :: bool
  so_stopped :: bool
  so_rpc_closed :: bool
  so_metrics :: "string list"

definition NewSendOnlyNode :: "go_url \<Rightarrow> string \<Rightarrow> string \<Rightarrow> send_only_node" where
  "NewSendOnlyNode httpuri name chainID =
     \<lparr>so_name = name, so_chainID = chainID, so_uri = httpuri, so_state = nodeStateUndialed,
      so_started = False, so_stopped = False, so_rpc_closed = False, so_metrics = []\<rparr>"

definition so_String :: "send_only_node \<Rightarrow> string" where
  "so_String s = ''(secondary)'' @ so_name s @ '':'' @ shortenURL (so_uri s)"

definition so_setState :: "nodeState \<Rightarrow> send_only_node \<Rightarrow> bool \<times> send_only_node" where
  "so_setState st s = (if so_state s = st then (False, s) else (True, s\<lparr>so_state := st\<rparr>))"

definition so_metric :: "string \<Rightarrow> send_only_node \<Rightarrow> send_only_node" where
  "so_metric m s = s\<lparr>so_metrics := so_metrics s @ [m]\<rparr>"

text \<open>\<open>start\<close>: the check, then what follows the dial. The flag says whether \<open>verifyLoop\<close> is started.\<close>

definition so_start_check :: "send_only_node \<Rightarrow> unit outcome" where
  "so_start_check s =
     (if so_state s \<noteq> nodeStateUndialed
      then Panic (''cannot dial node with state '' @ nodeState_String (so_state s)) else Ret ())"

definition so_dialled :: "string + string \<Rightarrow> send_only_node \<Rightarrow> bool \<times> send_only_node" where
  "so_dialled chainReply s =
     (let s1 = snd (so_setState nodeStateDialed s);
          online = (False, snd (so_setState nodeStateAlive (so_metric ''TransitionsToAlive'' s1)))
      in if so_chainID s = ''0'' then online
         else
           (case chainReply of
              Inl err \<Rightarrow>
                (True, snd (so_setState nodeStateUnreachable (so_metric ''TransitionsToUnreachable'' s1)))
            | Inr chainID \<Rightarrow>
                if chainID \<noteq> so_chainID s then
                  (True, snd (so_setState nodeStateInvalidChainID
                     (so_metric ''TransitionsToInvalidChainID'' (so_metric ''TransitionsToUnreachable'' s1))))
                else online))"

definition so_start ::
  "string option \<Rightarrow> string + string \<Rightarrow> send_only_node \<Rightarrow> (bool \<times> send_only_node) outcome" where
  "so_start dialErr chainReply s =
     outcome_bind (so_start_check s)
       (\<lambda>_. case dialErr of
          Some err \<Rightarrow> Ret (False, snd (so_setState nodeStateUnusable (so_metric ''TransitionsToUnusable'' s)))
        | None \<Rightarrow> Ret (so_dialled chainReply s))"

text \<open>\<open>IfStarted(func() { if changed := setState(st); changed { metric } })\<close>\<close>

definition so_if_started :: "nodeState \<Rightarrow> string \<Rightarrow> send_only_node \<Rightarrow> bool \<times> send_only_node" where
  "so_if_started st m s =
     (if so_started s then
        case so_setState st s of (changed, s1) \<Rightarrow> (True, if changed then so_metric m s1 else s1)
      else (False, s))"

text \<open>One round of \<open>verifyLoop\<close>: whether the loop goes on, and the node.\<close>

definition verify_round :: "string + string \<Rightarrow> send_only_node \<Rightarrow> bool \<times> send_only_node" where
  "verify_round reply s =
     (case reply of
        Inl err \<Rightarrow> so_if_started nodeStateUnreachable ''TransitionsToUnreachable'' s
      | Inr chainID \<Rightarrow>
          if chainID \<noteq> so_chainID s
          then so_if_started nodeStateInvalidChainID ''TransitionsToInvalidChainID'' s
          else (False, snd (so_if_started nodeStateAlive ''TransitionsToAlive'' s)))"

fun verifyLoop :: "(string + string) list \<Rightarrow> send_only_node \<Rightarrow> bool \<times> send_only_node" where
  "verifyLoop [] s = (True, s)"
| "verifyLoop (r # rs) s =
     (case verify_round r s of (go_on, s1) \<Rightarrow> if go_on then verifyLoop rs s1 else (False, s1))"

text \<open>\<open>Close\<close> in its two parts: before and after \<open>wg.Wait\<close>.\<close>

definition so_close_begin :: "send_only_node \<Rightarrow> send_only_node" where
  "so_close_begin s = s\<lparr>so_started := False, so_rpc_closed := True, so_stopped := True\<rparr>"

definition so_close_end :: "send_only_node \<Rightarrow> send_only_node" where
  "so_close_end s = snd (so_setState nodeStateClosed s)"

section \<open>Interleaving\<close>

datatype so_pc = SoStart | SoDial | SoVerify | SoDone | SoCrash string

record so_sys =
  so_node :: send_only_node
  so_pc :: so_pc

inductive so_step :: "so_sys \<Rightarrow> so_sys \<Rightarrow> bool" where
  so_check_panics:
    "so_pc s = SoStart \<Longrightarrow> so_start_check (so_node s) = Panic m \<Longrightarrow> so_step s (s\<lparr>so_pc := SoCrash m\<rparr>)"
| so_check_passes:
    "so_pc s = SoStart \<Longrightarrow> so_start_check (so_node s) = Ret u \<Longrightarrow> so_step s (s\<lparr>so_pc := SoDial\<rparr>)"
| so_dial_fails:
    "so_pc s = SoDial \<Longrightarrow>
     so_step s (s\<lparr>so_node := snd (so_setState nodeStateUnusable (so_metric ''TransitionsToUnusable'' (so_node s))),
                  so_pc := SoDone\<rparr>)"
| so_dial_ok:
    "so_pc s = SoDial \<Longrightarrow> so_dialled r (so_node s) = (loop, n) \<Longrightarrow>
     so_step s (s\<lparr>so_node := n, so_pc := (if loop then SoVerify else SoDone)\<rparr>)"
| so_verify:
    "so_pc s = SoVerify \<Longrightarrow> verify_round r (so_node s) = (go_on, n) \<Longrightarrow>
     so_step s (s\<lparr>so_node := n, so_pc := (if go_on then SoVerify else SoDone)\<rparr>)"
| so_verify_done:
    "so_pc s = SoVerify \<Longrightarrow> so_stopped (so_node s) \<Longrightarrow> so_step s (s\<lparr>so_pc := SoDone\<rparr>)"
| so_close:
    "so_started (so_node s) \<Longrightarrow> so_step s (s\<lparr>so_node := so_close_begin (so_node s)\<rparr>)"
| so_closed:
    "so_stopped (so_node s) \<Longrightarrow> so_pc s = SoDone \<Longrightarrow> so_step s (s\<lparr>so_node := so_close_end (so_node s)\<rparr>)"

definition so_init :: "so_sys \<Rightarrow> bool" where
  "so_init s \<longleftrightarrow>
     so_pc s = SoStart \<and> so_state (so_node s) = nodeStateUndialed \<and> so_started (so_node s) \<and>
     \<not> so_stopped (so_node s)"

interpretation so: transition_system so_init so_step .

section \<open>Lemmas\<close>

fun so_pc_ok :: "so_pc \<Rightarrow> send_only_node \<Rightarrow> bool" where
  "so_pc_ok SoStart n \<longleftrightarrow> so_state n = nodeStateUndialed"
| "so_pc_ok SoDial n \<longleftrightarrow> so_state n = nodeStateUndialed"
| "so_pc_ok SoVerify n \<longleftrightarrow> so_state n \<noteq> nodeStateClosed"
| "so_pc_ok SoDone n \<longleftrightarrow> so_state n \<noteq> nodeStateClosed \<or> so_stopped n"
| "so_pc_ok (SoCrash m) n \<longleftrightarrow> False"

definition so_inv :: "so_sys \<Rightarrow> bool" where
  "so_inv s \<longleftrightarrow> so_pc_ok (so_pc s) (so_node s) \<and> (so_started (so_node s) \<longrightarrow> \<not> so_stopped (so_node s))"

lemma so_dialled_state:
  "so_dialled r s = (loop, n) \<Longrightarrow>
   so_state n \<in> {nodeStateAlive, nodeStateUnreachable, nodeStateInvalidChainID} \<and>
   so_started n = so_started s \<and> so_stopped n = so_stopped s"
  by (auto simp: so_dialled_def Let_def so_setState_def so_metric_def split: if_splits sum.splits)

lemma verify_round_state:
  "verify_round r s = (go_on, n) \<Longrightarrow>
   (n = s \<or> so_state n \<in> {nodeStateAlive, nodeStateUnreachable, nodeStateInvalidChainID}) \<and>
   so_started n = so_started s \<and> so_stopped n = so_stopped s"
  by (auto simp: verify_round_def so_if_started_def so_setState_def so_metric_def split: if_splits sum.splits)

lemma so_close_inv: "so_pc_ok p n \<Longrightarrow> so_pc_ok p (so_close_begin n)"
  by (cases p) (simp_all add: so_close_begin_def)

lemma so_step_inv: "so_step s t \<Longrightarrow> so_inv s \<Longrightarrow> so_inv t"
proof (induction rule: so_step.induct)
  case (so_check_panics s m)
  then show ?case by (simp add: so_inv_def so_start_check_def)
next
  case (so_check_passes s u)
  then show ?case by (simp add: so_inv_def)
next
  case (so_dial_fails s)
  then show ?case by (simp add: so_inv_def so_setState_def so_metric_def)
next
  case (so_dial_ok s r loop n)
  then show ?case using so_dialled_state [OF so_dial_ok(2)] by (auto simp: so_inv_def)
next
  case (so_verify s r go_on n)
  then show ?case using verify_round_state [OF so_verify(2)] by (auto simp: so_inv_def)
next
  case (so_close s)
  then show ?case by (simp add: so_inv_def so_close_inv) (simp add: so_close_begin_def)
next
  case (so_closed s)
  then show ?case by (simp add: so_inv_def so_close_end_def so_setState_def)
qed (simp add: so_inv_def)

lemma reach_so_inv: "so.reach s \<Longrightarrow> so_inv s"
proof (erule so.reach_invariant)
  show "so_init s \<Longrightarrow> so_inv s" for s by (simp add: so_init_def so_inv_def)
qed (rule so_step_inv)

lemma so_step_closed:
  "so_step s t \<Longrightarrow> so_inv s \<Longrightarrow> so_state (so_node s) = nodeStateClosed \<Longrightarrow> so_state (so_node t) = nodeStateClosed"
  by (induction rule: so_step.induct)
    (simp_all add: so_inv_def so_close_begin_def so_close_end_def so_setState_def)

lemma verify_round_started:
  "so_started s \<Longrightarrow> fst (verify_round r s) \<longleftrightarrow> r \<noteq> Inr (so_chainID s)"
  "so_started s \<Longrightarrow> r = Inr (so_chainID s) \<Longrightarrow> so_state (snd (verify_round r s)) = nodeStateAlive"
  by (auto simp: verify_round_def so_if_started_def so_setState_def so_metric_def split: sum.splits prod.splits)

lemma verify_round_keeps:
  "so_chainID (snd (verify_round r s)) = so_chainID s" "so_started (snd (verify_round r s)) = so_started s"
  by (auto simp: verify_round_def so_if_started_def so_setState_def so_metric_def split: sum.splits)

lemma verifyLoop_result:
  "so_started s \<Longrightarrow>
   (fst (verifyLoop rs s) \<longleftrightarrow> Inr (so_chainID s) \<notin> set rs) \<and>
   (Inr (so_chainID s) \<in> set rs \<longrightarrow> so_state (snd (verifyLoop rs s)) = nodeStateAlive)"
proof (induction rs arbitrary: s)
  case (Cons r rs)
  let ?s = "snd (verify_round r s)"
  have k: "so_chainID ?s = so_chainID s" "so_started ?s = so_started s" by (simp_all add: verify_round_keeps)
  have step: "verifyLoop (r # rs) s = (if fst (verify_round r s) then verifyLoop rs ?s else (False, ?s))"
    by (simp add: case_prod_beta)
  show ?case
    using Cons.IH [of ?s] Cons.prems k
    by (auto simp: step verify_round_started simp del: verifyLoop.simps)
qed simp

section \<open>Properties\<close>

text \<open>In every interleaving with \<open>Close\<close> the start of a send-only node never panics, and once
  \<open>Close\<close> has set the state it stays \<open>Closed\<close>: the goroutines have ended before.\<close>

theorem send_only_closed_final:
  assumes "so.reach s" and "so_step\<^sup>*\<^sup>* s t"
  shows "(\<forall>m. so_pc t \<noteq> SoCrash m) \<and>
    (so_state (so_node s) \<noteq> nodeStateClosed \<or> so_state (so_node t) = nodeStateClosed)"
proof -
  have t: "so_inv t" by (rule reach_so_inv [OF so.reach_steps [OF assms(2,1)]])
  have "so_state (so_node s) = nodeStateClosed \<Longrightarrow> so_state (so_node t) = nodeStateClosed"
    using assms(2)
  proof (induction rule: rtranclp_induct)
    case (step y z)
    have "so_inv y" by (rule reach_so_inv [OF so.reach_steps [OF step(1) assms(1)]])
    with step show ?case using so_step_closed by blast
  qed
  with t show ?thesis by (auto simp: so_inv_def)
qed

theorem send_only_closed_final_witness:
  "let n = (NewSendOnlyNode \<lparr>url_Scheme = ''http'', url_Host = ''h''\<rparr> ''s1'' ''5'')\<lparr>so_started := True\<rparr>;
       s = \<lparr>so_node = n, so_pc = SoStart\<rparr>
   in so_pc s \<noteq> SoCrash ''x''"
proof -
  define s where "s = \<lparr>so_node = (NewSendOnlyNode \<lparr>url_Scheme = ''http'', url_Host = ''h''\<rparr> ''s1'' ''5'')\<lparr>so_started := True\<rparr>,
    so_pc = SoStart\<rparr>"
  have "so.reach s"
    by (rule so.reach_init) (simp add: so_init_def s_def NewSendOnlyNode_def)
  from send_only_closed_final [OF this rtranclp.rtrancl_refl] show ?thesis by (simp add: s_def Let_def)
qed

text \<open>While the service is started, \<open>verifyLoop\<close> goes on until the endpoint answers with the
  configured chain ID, and then ends with the node alive.\<close>

theorem verifyLoop_until_match:
  assumes "so_started s"
  shows "(fst (verifyLoop rs s) \<longleftrightarrow> Inr (so_chainID s) \<notin> set rs) \<and>
    (Inr (so_chainID s) \<in> set rs \<longrightarrow> so_state (snd (verifyLoop rs s)) = nodeStateAlive)"
  using verifyLoop_result [OF assms, of rs] by simp

theorem verifyLoop_until_match_witness:
  "let s = (NewSendOnlyNode \<lparr>url_Scheme = ''http'', url_Host = ''h''\<rparr> ''s1'' ''5'')\<lparr>so_started := True\<rparr>
   in so_state (snd (verifyLoop [Inl ''timeout'', Inr ''1'', Inr ''5''] s)) = nodeStateAlive"
  using verifyLoop_until_match [of "(NewSendOnlyNode \<lparr>url_Scheme = ''http'', url_Host = ''h''\<rparr> ''s1'' ''5'')\<lparr>so_started := True\<rparr>"
      "[Inl ''timeout'', Inr ''1'', Inr ''5'']"]
  by (simp add: NewSendOnlyNode_def Let_def)

end
