(* ===== verification/Multi_Node.thy ===== *)
theory Multi_Node
  imports Node_Health Node_Selectors Send_Only_Node
begin

text \<open>
  \<open>multinode/multi_node.go\<close>: the pool of nodes behind a chain client. Its state is the nodes, the
  selection strategy with its counters, and the node callers currently use. Nodes change state on their
  own: a method that waits takes the pools it finds at each round, and one that takes the mutex after
  having read the state takes what other goroutines do in between as \<open>during\<close>. The pool is also the
  \<open>PoolChainInfoProvider\<close> of its nodes, which closes the loop with \<open>Node_Fsm\<close>: \<open>connect\<close> gives every
  node the pool it belongs to.
\<close>

section \<open>The pool\<close>

record multi_node =
  primaryNodes :: "node list"
  sendOnlyNodes :: "send_only_node list"
  mn_chainID :: string
  selectionMode :: string
  nodeSelector :: selector
  leaseDuration :: int
  deathDeclarationDelay :: int
  activeNode :: "nat option"

definition ErrNodeError :: string where
  "ErrNodeError = ''no live nodes available''"

definition NewMultiNode ::
  "string \<Rightarrow> int \<Rightarrow> node list \<Rightarrow> send_only_node list \<Rightarrow> string \<Rightarrow> int \<Rightarrow> multi_node outcome" where
  "NewMultiNode mode lease nodes sends chainID delay =
     outcome_bind (newNodeSelector mode nodes)
       (\<lambda>sel. Ret \<lparr>primaryNodes = nodes, sendOnlyNodes = sends, mn_chainID = chainID, selectionMode = mode,
                   nodeSelector = sel, leaseDuration = lease, deathDeclarationDelay = delay, activeNode = None\<rparr>)"

text \<open>\<open>DoAll\<close>. \<open>cancelled k\<close> says whether the context is done at the \<open>k\<close>-th check; \<open>stopErr\<close> is the error of
  \<open>IfNotStopped\<close> on a stopped engine. The result is the calls made, with the send-only flag, and the
  error.\<close>

fun do_loop :: "(nat \<Rightarrow> bool) \<Rightarrow> nat \<Rightarrow> (nat \<times> nodeState) list \<Rightarrow> nat list \<times> bool" where
  "do_loop cancelled k [] = ([], False)"
| "do_loop cancelled k ((i, st) # xs) =
     (if cancelled k then ([], True)
      else
        let (calls, stop) = do_loop cancelled (Suc k) xs
        in if st \<noteq> nodeStateAlive then (calls, stop) else (i # calls, stop))"

definition DoAll ::
  "string option \<Rightarrow> string \<Rightarrow> (nat \<Rightarrow> bool) \<Rightarrow> multi_node \<Rightarrow> (nat \<times> bool) list \<times> string option" where
  "DoAll stopErr ctxErr cancelled c =
     (case stopErr of
        Some e \<Rightarrow> ([], Some e)
      | None \<Rightarrow>
          let (ps, stop1) = do_loop cancelled 0 (enumerate 0 (map State (primaryNodes c)));
              pcalls = map (\<lambda>i. (i, False)) ps
          in if stop1 then (pcalls, Some ctxErr)
             else
               let (ss, stop2) = do_loop cancelled (length (primaryNodes c)) (enumerate 0 (map so_state (sendOnlyNodes c)));
                   calls = pcalls @ map (\<lambda>i. (i, True)) ss
               in if stop2 then (calls, Some ctxErr)
                  else if length ps = 0 then (calls, Some ErrNodeError)
                  else (calls, None))"

definition NodeStates :: "multi_node \<Rightarrow> (string \<rightharpoonup> string)" where
  "NodeStates c =
     foldl (\<lambda>m s. m(so_name s \<mapsto> nodeState_String (so_state s)))
       (foldl (\<lambda>m n. m(node_name n \<mapsto> nodeState_String (State n))) Map.empty (primaryNodes c))
       (sendOnlyNodes c)"

section \<open>Chain information of the pool\<close>

definition pool_zero :: chain_info where
  "pool_zero = \<lparr>BlockNumber = 0, FinalizedBlockNumber = 0, TotalDifficulty = Some 0\<rparr>"

definition LatestChainInfo :: "string \<Rightarrow> node list \<Rightarrow> int \<times> chain_info" where
  "LatestChainInfo callerName ns =
     foldl (\<lambda>(nLiveNodes, ch) n.
         case StateAndLatest n of (s, nodeChainInfo) \<Rightarrow>
           if s = nodeStateAlive
           then (if node_name n \<noteq> callerName then nLiveNodes + 1 else nLiveNodes, chain_info_max ch nodeChainInfo)
           else (nLiveNodes, ch))
       (0, pool_zero) ns"

definition HighestUserObservations :: "node list \<Rightarrow> chain_info" where
  "HighestUserObservations ns =
     foldl (\<lambda>ch n. chain_info_max ch (node_HighestUserObservations n)) pool_zero ns"

text \<open>What a node of the pool sees through its \<open>PoolChainInfoProvider\<close>: \<open>State\<close> reads only the second
  field, so the first is computed on nodes that already see it.\<close>

definition see :: "pool_info \<Rightarrow> node \<Rightarrow> node" where
  "see p n = n\<lparr>poolInfoProvider := Some p\<rparr>"

definition pool_of :: "node list \<Rightarrow> pool_info" where
  "pool_of ns =
     (let h = HighestUserObservations ns;
          p = \<lparr>pool_LatestChainInfo = (\<lambda>_. (0, pool_zero)), pool_HighestUserObservations = h\<rparr>
      in \<lparr>pool_LatestChainInfo = (\<lambda>name. LatestChainInfo name (map (see p) ns)),
          pool_HighestUserObservations = h\<rparr>)"

definition connect :: "node list \<Rightarrow> node list" where
  "connect ns = map (see (pool_of ns)) ns"

section \<open>Starting\<close>

text \<open>\<open>startErr\<close> is the error of \<open>ms.Start\<close> on the \<open>i\<close>-th service, if any. On success every primary node has
  the pool as its provider; the flag says whether the lease loop runs.\<close>

fun start_primary :: "(nat \<Rightarrow> string option) \<Rightarrow> string \<Rightarrow> pool_info \<Rightarrow> nat \<Rightarrow> node list \<Rightarrow> string + node list" where
  "start_primary startErr chainID p i [] = Inr []"
| "start_primary startErr chainID p i (n # ns) =
     (if node_chainID n \<noteq> chainID then
        Inl (''node '' @ node_String n @ '' has configured chain ID '' @ node_chainID n @
             '' which does not match multinode configured chain ID of '' @ chainID)
      else
        (case startErr i of
           Some e \<Rightarrow> Inl e
         | None \<Rightarrow>
             (case start_primary startErr chainID p (Suc i) ns of
                Inl e \<Rightarrow> Inl e
              | Inr ms \<Rightarrow> Inr (SetPoolChainInfoProvider p n # ms))))"

fun start_send_only :: "(nat \<Rightarrow> string option) \<Rightarrow> string \<Rightarrow> nat \<Rightarrow> send_only_node list \<Rightarrow> string option" where
  "start_send_only startErr chainID i [] = None"
| "start_send_only startErr chainID i (s # ss) =
     (if so_chainID s \<noteq> chainID then
        Some (''sendonly node '' @ so_String s @ '' has configured chain ID '' @ so_chainID s @
              '' which does not match multinode configured chain ID of '' @ chainID)
      else
        (case startErr i of Some e \<Rightarrow> Some e | None \<Rightarrow> start_send_only startErr chainID (Suc i) ss))"

definition MultiNode_start :: "(nat \<Rightarrow> string option) \<Rightarrow> multi_node \<Rightarrow> string + multi_node \<times> bool" where
  "MultiNode_start startErr c =
     (if primaryNodes c = [] then Inl (''no available nodes for chain '' @ mn_chainID c)
      else
        (case start_primary startErr (mn_chainID c) (pool_of (primaryNodes c)) 0 (primaryNodes c) of
           Inl e \<Rightarrow> Inl e
         | Inr ns \<Rightarrow>
             (case start_send_only startErr (mn_chainID c) (length (primaryNodes c)) (sendOnlyNodes c) of
                Some e \<Rightarrow> Inl e
              | None \<Rightarrow>
                  Inr (c\<lparr>primaryNodes := ns\<rparr>,
                       0 < leaseDuration c \<and> selectionMode c \<noteq> NodeSelectionModeRoundRobin \<and>
                       selectionMode c \<noteq> NodeSelectionModeRandomRPC))))"

section \<open>Selecting a node\<close>

text \<open>A round reads the states of the nodes twice, in the strategy and in the test for initializing nodes, without a lock:
  \<open>between\<close> is what happens to the nodes in between. A tick has the nodes at the next selection and what happens to them
  between that and the next test.\<close>

datatype tick = CtxDone string | Tick "node list" "node list \<Rightarrow> node list"

datatype decision = Found nat | NoLive | Wait

definition await_round :: "(nat \<Rightarrow> nat) \<Rightarrow> (node list \<Rightarrow> node list) \<Rightarrow> multi_node \<Rightarrow> (multi_node \<times> decision) outcome" where
  "await_round IntN between c =
     outcome_bind (Select IntN (nodeSelector c) (primaryNodes c))
       (\<lambda>(r, sel, ns).
          case r of
            Some i \<Rightarrow> Ret (c\<lparr>nodeSelector := sel, primaryNodes := ns\<rparr>, Found i)
          | None \<Rightarrow>
              let c1 = c\<lparr>nodeSelector := sel, primaryNodes := between ns\<rparr>
              in Ret (c1, if list_ex (\<lambda>n. isInitializing (State n)) (primaryNodes c1) then Wait else NoLive))"

text \<open>\<open>None\<close> while the rounds given are not enough to decide.\<close>

fun awaitNodeSelection ::
  "(nat \<Rightarrow> nat) \<Rightarrow> (node list \<Rightarrow> node list) \<Rightarrow> multi_node \<Rightarrow> tick list \<Rightarrow> (multi_node \<times> (string + nat)) outcome option" where
  "awaitNodeSelection IntN between c ticks =
     (case await_round IntN between c of
        Panic m \<Rightarrow> Some (Panic m)
      | Ret (c1, Found i) \<Rightarrow> Some (Ret (c1, Inr i))
      | Ret (c1, NoLive) \<Rightarrow> Some (Ret (c1, Inl ErrNodeError))
      | Ret (c1, Wait) \<Rightarrow>
          (case ticks of
             [] \<Rightarrow> None
           | CtxDone e # ts \<Rightarrow> Some (Ret (c1, Inl e))
           | Tick ns between' # ts \<Rightarrow> awaitNodeSelection IntN between' (c1\<lparr>primaryNodes := ns\<rparr>) ts))"

declare awaitNodeSelection.simps [simp del]

definition unsubscribe_node :: "nat \<Rightarrow> multi_node \<Rightarrow> multi_node" where
  "unsubscribe_node i c =
     c\<lparr>primaryNodes := (primaryNodes c)[i := UnsubscribeAllExceptAliveLoop (primaryNodes c ! i)]\<rparr>"

definition active_alive :: "multi_node \<Rightarrow> bool" where
  "active_alive c =
     (case activeNode c of None \<Rightarrow> False | Some i \<Rightarrow> State (primaryNodes c ! i) = nodeStateAlive)"

definition selectNode ::
  "(nat \<Rightarrow> nat) \<Rightarrow> (multi_node \<Rightarrow> multi_node) \<Rightarrow> (node list \<Rightarrow> node list) \<Rightarrow> tick list \<Rightarrow> multi_node \<Rightarrow>
   (multi_node \<times> (string + nat)) outcome option" where
  "selectNode IntN during between ticks c =
     (if selectionMode c = NodeSelectionModeRandomRPC then awaitNodeSelection IntN between c ticks
      else if active_alive c then Some (Ret (c, Inr (the (activeNode c))))
      else
        let c1 = during c in
        if active_alive c1 then Some (Ret (c1, Inr (the (activeNode c1))))
        else
          let c2 = (case activeNode c1 of None \<Rightarrow> c1 | Some i \<Rightarrow> unsubscribe_node i c1) in
          (case awaitNodeSelection IntN between c2 ticks of
             None \<Rightarrow> None
           | Some (Panic m) \<Rightarrow> Some (Panic m)
           | Some (Ret (c3, Inl err)) \<Rightarrow> Some (Ret (c3\<lparr>activeNode := None\<rparr>, Inl err))
           | Some (Ret (c3, Inr i)) \<Rightarrow> Some (Ret (c3\<lparr>activeNode := Some i\<rparr>, Inr i))))"

section \<open>The lease\<close>

definition unsubscribe_others :: "nat option \<Rightarrow> node list \<Rightarrow> node list" where
  "unsubscribe_others bestNode ns =
     map (\<lambda>(i, n). if State n = nodeStateAlive \<and> Some i \<noteq> bestNode then UnsubscribeAllExceptAliveLoop n else n)
       (enumerate 0 ns)"

definition checkLease ::
  "(nat \<Rightarrow> nat) \<Rightarrow> (multi_node \<Rightarrow> multi_node) \<Rightarrow> multi_node \<Rightarrow> multi_node outcome" where
  "checkLease IntN during c =
     outcome_bind (Select IntN (nodeSelector c) (primaryNodes c))
       (\<lambda>(bestNode, sel, ns).
          let c1 = during (c\<lparr>nodeSelector := sel, primaryNodes := unsubscribe_others bestNode ns\<rparr>) in
          if bestNode = activeNode c1 then Ret c1
          else
            (case activeNode c1 of
               None \<Rightarrow> Ret (c1\<lparr>activeNode := bestNode\<rparr>)
             | Some a \<Rightarrow>
                 (case bestNode of
                    None \<Rightarrow> Panic nil_deref
                  | Some b \<Rightarrow> Ret ((unsubscribe_node a c1)\<lparr>activeNode := bestNode\<rparr>))))"

section \<open>Reporting\<close>

record nodeWithState =
  nws_Node :: string
  nws_State :: string
  nws_DeadSince :: "int option"

definition initial_report :: "multi_node \<Rightarrow> nodeWithState list" where
  "initial_report c =
     map (\<lambda>n. \<lparr>nws_Node = node_String n, nws_State = nodeState_String (State n), nws_DeadSince = None\<rparr>)
       (primaryNodes c)"

definition report_entry :: "int \<Rightarrow> node \<Rightarrow> nodeWithState \<Rightarrow> nodeWithState" where
  "report_entry now n e =
     (let e1 = e\<lparr>nws_State := nodeState_String (State n)\<rparr> in
      if State n = nodeStateAlive then e1\<lparr>nws_DeadSince := None\<rparr>
      else e1\<lparr>nws_DeadSince := (case nws_DeadSince e of None \<Rightarrow> Some now | Some t \<Rightarrow> Some t)\<rparr>)"

definition entry_dead :: "int \<Rightarrow> int \<Rightarrow> nodeWithState \<Rightarrow> bool" where
  "entry_dead now delay e = (case nws_DeadSince e of None \<Rightarrow> False | Some t \<Rightarrow> delay \<le> now - t)"

fun report_loop :: "int \<Rightarrow> node list \<Rightarrow> nodeWithState list \<Rightarrow> nodeWithState list outcome" where
  "report_loop now [] es = Ret es"
| "report_loop now (n # ns) [] = Panic ''index out of range''"
| "report_loop now (n # ns) (e # es) =
     outcome_bind (report_loop now ns es) (\<lambda>es'. Ret (report_entry now n e # es'))"

text \<open>The updated entries, the counts per state that go to the metrics, the number of dead nodes and the
  health error, if every node is dead.\<close>

definition report ::
  "int \<Rightarrow> multi_node \<Rightarrow> nodeWithState list \<Rightarrow>
   (nodeWithState list \<times> (string \<times> nat) list \<times> nat \<times> string option) outcome" where
  "report now c es =
     outcome_bind (report_loop now (primaryNodes c) es)
       (\<lambda>es'.
          let dead = length (filter (entry_dead now (deathDeclarationDelay c)) (take (length (primaryNodes c)) es'));
              total = length (primaryNodes c);
              counts = map (\<lambda>s. (nodeState_String s, length (filter (\<lambda>n. State n = s) (primaryNodes c)))) allNodeStates
          in Ret (es', counts, dead,
                  if total = dead
                  then Some (''no primary nodes available: 0/'' @ go_itoa (int total) @ '' nodes are alive'')
                  else None))"

section \<open>The provider contract\<close>

text \<open>What the nodes rely on: the highest user observations bound what any user of any node has seen. The
  guarantee that follows is proved once, and holds for the pool because the pool is a provider.\<close>

locale pool_info_provider =
  fixes highest :: chain_info and observed :: "'n \<Rightarrow> chain_info" and members :: "'n set"
  assumes bound: "m \<in> members \<Longrightarrow> ci_le (observed m) highest"
    and floor: "0 \<le> BlockNumber highest" "0 \<le> FinalizedBlockNumber highest"
begin

lemma alive_is_fresh:
  assumes "poolInfoProvider n = Some p" and "pool_HighestUserObservations p = highest"
    and "State n = nodeStateAlive" and "cfg_EnforceRepeatableRead (node_cfg n)"
    and "BlockNumber highest \<le> MaxInt64" "FinalizedBlockNumber highest \<le> MaxInt64" and "m \<in> members"
  shows "if cfg_FinalityTagEnabled (node_cfg n)
    then FinalizedBlockNumber (observed m) - uint (cfg_FinalizedBlockOffset (node_cfg n))
           \<le> FinalizedBlockNumber (fst (GetInterceptedChainInfo (rpc n)))
    else BlockNumber (observed m) - uint (cfg_FinalizedBlockOffset (node_cfg n))
           \<le> BlockNumber (fst (GetInterceptedChainInfo (rpc n)))"
proof -
  let ?o = "cfg_FinalizedBlockOffset (node_cfg n)"
  have r: "i64 (BlockNumber highest - uint ?o) = BlockNumber highest - uint ?o"
    "i64 (FinalizedBlockNumber highest - uint ?o) = FinalizedBlockNumber highest - uint ?o"
    using floor assms(5,6) by (simp_all add: in_range_64 MinInt64_def)
  have "\<not> isFinalizedBlockOutOfSync n"
    using assms(3,4) by (auto simp: State_def recalculateState_def split: if_splits)
  then show ?thesis
    using bound [OF assms(7)] assms(1,2) r
    by (auto simp: isFinalizedBlockOutOfSync_def Let_def ci_le_def split: if_splits)
qed

end

lemma ci_le_pool_zero: "ci_le pool_zero a \<Longrightarrow> 0 \<le> BlockNumber a \<and> 0 \<le> FinalizedBlockNumber a"
  by (simp add: ci_le_def pool_zero_def)

interpretation mn: pool_info_provider "HighestUserObservations ns" node_HighestUserObservations "set ns" for ns
proof
  show "m \<in> set ns \<Longrightarrow> ci_le (node_HighestUserObservations m) (HighestUserObservations ns)" for m
    unfolding HighestUserObservations_def by (rule foldl_ci_upper)
  have "ci_le pool_zero (HighestUserObservations ns)"
    unfolding HighestUserObservations_def by (rule foldl_ci_init)
  then show "0 \<le> BlockNumber (HighestUserObservations ns)" "0 \<le> FinalizedBlockNumber (HighestUserObservations ns)"
    using ci_le_pool_zero by auto
qed

section \<open>Lemmas\<close>

lemma do_loop_all:
  assumes "\<And>j. k \<le> j \<Longrightarrow> j < k + length xs \<Longrightarrow> \<not> cancelled j"
  shows "do_loop cancelled k xs = (map fst (filter (\<lambda>(i, st). st = nodeStateAlive) xs), False)"
  using assms
proof (induction xs arbitrary: k)
  case (Cons x xs)
  have "do_loop cancelled (Suc k) xs = (map fst (filter (\<lambda>(i, st). st = nodeStateAlive) xs), False)"
    by (rule Cons.IH) (use Cons.prems in auto)
  moreover have "\<not> cancelled k" using Cons.prems by simp
  ultimately show ?case by (cases x) simp
qed simp

lemma do_loop_prefix:
  "\<exists>rest. map fst (filter (\<lambda>(i, st). st = nodeStateAlive) xs) = fst (do_loop cancelled k xs) @ rest"
proof (induction xs arbitrary: k)
  case (Cons x xs)
  then obtain rest where
    "map fst (filter (\<lambda>(i, st). st = nodeStateAlive) xs) = fst (do_loop cancelled (Suc k) xs) @ rest" by blast
  then show ?case by (cases x) (auto simp: case_prod_beta' Let_def)
qed simp

lemma live_enumerate:
  "map fst (filter (\<lambda>(i, st). st = nodeStateAlive) (enumerate 0 (map State ns))) = liveNodes ns"
proof -
  have "enumerate 0 (map State ns) = map (\<lambda>i. (i, State (ns ! i))) [0..<length ns]"
    by (rule nth_equalityI) (simp_all add: nth_enumerate_eq)
  then show ?thesis by (simp add: filter_map comp_def liveNodes_def node_alive_def [abs_def])
qed

lemma LatestChainInfo_snd:
  "snd (LatestChainInfo name ns) =
     foldl (\<lambda>ch n. chain_info_max ch (snd (StateAndLatest n))) pool_zero
       (filter (\<lambda>n. State n = nodeStateAlive) ns)"
  "fst (LatestChainInfo name ns) =
     int (length (filter (\<lambda>n. State n = nodeStateAlive \<and> node_name n \<noteq> name) ns))"
proof -
  have "foldl (\<lambda>(k, ch) n.
         case StateAndLatest n of (s, i) \<Rightarrow>
           if s = nodeStateAlive
           then (if node_name n \<noteq> name then k + 1 else k, chain_info_max ch i) else (k, ch)) (k, a) ns =
      (k + int (length (filter (\<lambda>n. State n = nodeStateAlive \<and> node_name n \<noteq> name) ns)),
       foldl (\<lambda>ch n. chain_info_max ch (snd (StateAndLatest n))) a (filter (\<lambda>n. State n = nodeStateAlive) ns))"
    for k :: int and a
    by (induction ns arbitrary: k a) (auto simp: StateAndLatest_def State_def)
  from this [of 0 pool_zero]
  show "snd (LatestChainInfo name ns) =
     foldl (\<lambda>ch n. chain_info_max ch (snd (StateAndLatest n))) pool_zero
       (filter (\<lambda>n. State n = nodeStateAlive) ns)"
    "fst (LatestChainInfo name ns) =
     int (length (filter (\<lambda>n. State n = nodeStateAlive \<and> node_name n \<noteq> name) ns))"
    by (simp_all add: LatestChainInfo_def)
qed

text \<open>One round of waiting, through the contract of the strategy.\<close>

lemma await_round_cases:
  assumes "selector_ok IntN (nodeSelector c) (primaryNodes c)"
  obtains c1 d ns1 where "await_round IntN between c = Ret (c1, d)"
    and "\<forall>ns. later (primaryNodes c) ns \<longrightarrow> selector_ok IntN (nodeSelector c1) ns"
    and "\<forall>i. d = Found i \<longrightarrow> i < length (primaryNodes c1) \<and> node_alive (primaryNodes c1) i"
    and "map State ns1 = map State (primaryNodes c)"
    and "(\<forall>j. d \<noteq> Found j) \<longrightarrow> list_all (\<lambda>n. State n \<noteq> nodeStateAlive) (primaryNodes c) \<and> primaryNodes c1 = between ns1"
    and "d = NoLive \<longrightarrow> list_all (\<lambda>n. \<not> isInitializing (State n)) (primaryNodes c1)"
    and "selectionMode c1 = selectionMode c"
proof -
  obtain r s' ns' where e: "Select IntN (nodeSelector c) (primaryNodes c) = Ret (r, s', ns')"
    using sel.sel_returns [OF assms] by blast
  note facts = sel.sel_ok [OF assms e] sel.sel_nodes [OF assms e] sel.sel_iff [OF assms e] Select_orders [OF e]
  have ok: "selector_ok IntN s' ns" if "later (primaryNodes c) ns" for ns
    using selector_ok_later [OF facts(1), of ns] that facts(4) by (simp add: later_def)
  have states: "map State ns' = map State (primaryNodes c)" using facts(2) by (intro nth_equalityI) auto
  show thesis
  proof (cases r)
    case None
    have "list_all (\<lambda>n. State n \<noteq> nodeStateAlive) (primaryNodes c)"
      using facts(3) None by (simp add: list_all_length node_alive_def)
    then show thesis
      by (intro that [of "c\<lparr>nodeSelector := s', primaryNodes := between ns'\<rparr>"
            "if list_ex (\<lambda>n. isInitializing (State n)) (between ns') then Wait else NoLive" ns'])
        (use e None ok states in \<open>auto simp: await_round_def Let_def list_ex_iff list_all_iff split: if_splits\<close>)
  next
    case (Some i)
    have "i < length (primaryNodes c) \<and> node_alive (primaryNodes c) i"
      using sel.sel_live [OF assms] e Some by blast
    then have "i < length ns' \<and> node_alive ns' i" using facts(2) by (simp add: node_alive_def)
    then show thesis
      by (intro that [of "c\<lparr>nodeSelector := s', primaryNodes := ns'\<rparr>" "Found i" ns'])
        (use e Some ok states in \<open>auto simp: await_round_def Let_def\<close>)
  qed
qed

text \<open>The rounds of a wait: the nodes at each selection, and what happened to them before the test.\<close>

definition rounds :: "node list \<Rightarrow> (node list \<Rightarrow> node list) \<Rightarrow> tick list \<Rightarrow> (node list \<times> (node list \<Rightarrow> node list)) list" where
  "rounds ns between ticks =
     (ns, between) # concat (map (\<lambda>t. case t of CtxDone e \<Rightarrow> [] | Tick ns' b \<Rightarrow> [(ns', b)]) ticks)"

text \<open>What a finished wait tells about the pool it left: the node found is alive; or, in one of the rounds, no node was alive
  when the strategy read them, and after what happened to them since, in which the strategy kept their states, none was
  initializing; or the context was done.\<close>

definition await_ok :: "(node list \<times> (node list \<Rightarrow> node list)) list \<Rightarrow> tick list \<Rightarrow> multi_node \<Rightarrow> string + nat \<Rightarrow> bool" where
  "await_ok rs ticks c res \<longleftrightarrow>
     (case res of
        Inr i \<Rightarrow> i < length (primaryNodes c) \<and> State (primaryNodes c ! i) = nodeStateAlive
      | Inl e \<Rightarrow>
          (\<exists>ns between ns1. e = ErrNodeError \<and> (ns, between) \<in> set rs \<and> list_all (\<lambda>n. State n \<noteq> nodeStateAlive) ns \<and>
             map State ns1 = map State ns \<and> primaryNodes c = between ns1 \<and>
             list_all (\<lambda>n. \<not> isInitializing (State n)) (primaryNodes c)) \<or>
          CtxDone e \<in> set ticks)"

lemma await_ok_mono: "await_ok rs ticks c res \<Longrightarrow> set rs \<subseteq> set rs' \<Longrightarrow> set ticks \<subseteq> set ticks' \<Longrightarrow> await_ok rs' ticks' c res"
  unfolding await_ok_def by (auto split: sum.splits)

lemma awaitNodeSelection_ok:
  assumes "selector_ok IntN (nodeSelector c) (primaryNodes c)"
    and "\<And>ns b. Tick ns b \<in> set ticks \<Longrightarrow> later (primaryNodes c) ns"
    and "awaitNodeSelection IntN between c ticks = Some m"
  shows "\<exists>c' res. m = Ret (c', res) \<and> await_ok (rounds (primaryNodes c) between ticks) ticks c' res \<and> selectionMode c' = selectionMode c"
  using assms
proof (induction IntN between c ticks rule: awaitNodeSelection.induct)
  case (1 IntN between c ticks)
  obtain c1 d ns1 where r: "await_round IntN between c = Ret (c1, d)"
    and ok: "\<forall>ns. later (primaryNodes c) ns \<longrightarrow> selector_ok IntN (nodeSelector c1) ns"
    and found: "\<forall>i. d = Found i \<longrightarrow> i < length (primaryNodes c1) \<and> node_alive (primaryNodes c1) i"
    and states: "map State ns1 = map State (primaryNodes c)"
    and dead: "(\<forall>j. d \<noteq> Found j) \<longrightarrow> list_all (\<lambda>n. State n \<noteq> nodeStateAlive) (primaryNodes c) \<and> primaryNodes c1 = between ns1"
    and nolive: "d = NoLive \<longrightarrow> list_all (\<lambda>n. \<not> isInitializing (State n)) (primaryNodes c1)"
    and mode: "selectionMode c1 = selectionMode c"
    by (rule await_round_cases [OF 1(2)])
  note unfold = 1(4) [unfolded awaitNodeSelection.simps [of IntN between c ticks] r]
  show ?case
  proof (cases d)
    case (Found i)
    then show ?thesis using unfold found mode by (auto simp: await_ok_def node_alive_def)
  next
    case NoLive
    then have "await_ok (rounds (primaryNodes c) between ticks) ticks c1 (Inl ErrNodeError)"
      using dead nolive states by (auto simp: await_ok_def rounds_def)
    then show ?thesis using unfold NoLive mode by auto
  next
    case Wait
    show ?thesis
    proof (cases ticks)
      case Nil
      then show ?thesis using unfold Wait by simp
    next
      case (Cons t ts)
      show ?thesis
      proof (cases t)
        case (CtxDone e)
        then show ?thesis using unfold Wait Cons mode by (auto simp: await_ok_def)
      next
        case (Tick ns b)
        let ?c = "c1\<lparr>primaryNodes := ns\<rparr>"
        have l: "later (primaryNodes c) ns" using 1(3) [of ns b] Cons Tick by simp
        have "\<exists>c' res. m = Ret (c', res) \<and> await_ok (rounds (primaryNodes ?c) b ts) ts c' res \<and> selectionMode c' = selectionMode ?c"
        proof (rule 1(1) [OF r refl Wait Cons Tick])
          show "selector_ok IntN (nodeSelector ?c) (primaryNodes ?c)" using ok l by simp
          show "Tick ns' b' \<in> set ts \<Longrightarrow> later (primaryNodes ?c) ns'" for ns' b'
            using 1(3) [of ns' b'] l Cons by (simp add: later_def)
          show "awaitNodeSelection IntN b ?c ts = Some m" using unfold Wait Cons Tick by simp
        qed
        moreover have "set (rounds (primaryNodes ?c) b ts) \<subseteq> set (rounds (primaryNodes c) between ticks)"
          using Cons Tick by (auto simp: rounds_def)
        moreover have "set ts \<subseteq> set ticks" using Cons by auto
        ultimately show ?thesis using mode await_ok_mono by fastforce
      qed
    qed
  qed
qed

lemma awaitNodeSelection_returns: "CtxDone e \<in> set ticks \<Longrightarrow> awaitNodeSelection IntN between c ticks \<noteq> None"
proof (induction IntN between c ticks rule: awaitNodeSelection.induct)
  case (1 IntN between c ticks)
  then show ?case
    by (subst awaitNodeSelection.simps) (auto split: outcome.splits prod.splits decision.splits list.splits tick.splits)
qed

lemma unsubscribe_node_later:
  assumes "heads_in_range (primaryNodes c)" and "i < length (primaryNodes c)"
  shows "later (primaryNodes c) (primaryNodes (unsubscribe_node i c))"
proof -
  let ?ns = "primaryNodes c"
  let ?ns' = "?ns[i := UnsubscribeAllExceptAliveLoop (?ns ! i)]"
  have "GetInterceptedChainInfo (rpc (?ns' ! k)) = GetInterceptedChainInfo (rpc (?ns ! k))"
    "node_order (?ns' ! k) = node_order (?ns ! k)" if "k < length ?ns" for k
    using that assms(2) by (auto simp: nth_list_update)
  then have "map node_order ?ns' = map node_order ?ns" "heads_in_range ?ns'"
    using assms(1) by (auto intro: nth_equalityI simp: heads_in_range_def block_of_def)
  then show ?thesis by (simp add: later_def unsubscribe_node_def)
qed

lemma unsubscribe_node_states: "map State (primaryNodes (unsubscribe_node i c)) = map State (primaryNodes c)"
proof (rule nth_equalityI)
  fix k assume "k < length (map State (primaryNodes (unsubscribe_node i c)))"
  then show "map State (primaryNodes (unsubscribe_node i c)) ! k = map State (primaryNodes c) ! k"
    by (cases "k = i") (simp_all add: unsubscribe_node_def)
qed (simp add: unsubscribe_node_def)

lemma unsubscribe_others_nth:
  assumes "i < length ns"
  shows "unsubscribe_others best ns ! i =
    (if State (ns ! i) = nodeStateAlive \<and> Some i \<noteq> best then UnsubscribeAllExceptAliveLoop (ns ! i) else ns ! i)"
  using assms by (simp add: unsubscribe_others_def nth_enumerate_eq)

definition liveSendOnly :: "multi_node \<Rightarrow> nat list" where
  "liveSendOnly c =
     map fst (filter (\<lambda>(i, st). st = nodeStateAlive) (enumerate 0 (map so_state (sendOnlyNodes c))))"

lemma do_loop_complete:
  "\<not> snd (do_loop cancelled k xs) \<Longrightarrow>
   fst (do_loop cancelled k xs) = map fst (filter (\<lambda>(i, st). st = nodeStateAlive) xs)"
  by (induction cancelled k xs rule: do_loop.induct) (auto simp: case_prod_beta' Let_def split: if_splits)

lemma DoAll_undisturbed:
  assumes "\<And>k. k < length (primaryNodes c) + length (sendOnlyNodes c) \<Longrightarrow> \<not> cancelled k"
  shows "DoAll None ctxErr cancelled c =
    (map (\<lambda>i. (i, False)) (liveNodes (primaryNodes c)) @ map (\<lambda>i. (i, True)) (liveSendOnly c),
     if liveNodes (primaryNodes c) = [] then Some ErrNodeError else None)"
proof -
  let ?ps = "enumerate 0 (map State (primaryNodes c))" and ?ss = "enumerate 0 (map so_state (sendOnlyNodes c))"
  have "do_loop cancelled 0 ?ps = (liveNodes (primaryNodes c), False)"
    "do_loop cancelled (length (primaryNodes c)) ?ss = (liveSendOnly c, False)"
    using do_loop_all [of 0 ?ps cancelled] do_loop_all [of "length (primaryNodes c)" ?ss cancelled] assms
    by (simp_all add: live_enumerate liveSendOnly_def)
  then show ?thesis by (simp add: DoAll_def Let_def)
qed

lemma report_loop_eq:
  "length ns = length es \<Longrightarrow> report_loop now ns es = Ret (map2 (report_entry now) ns es)"
  by (induction now ns es rule: report_loop.induct) auto

lemma filter_all_length: "length (filter P xs) = length xs \<longleftrightarrow> list_all P xs"
  unfolding list_all_iff by (metis filter_True length_filter_less less_irrefl)

section \<open>Properties\<close>

text \<open>C3. The repeatable-read guarantee of the pool: while a node enforces it and reports itself
  \<open>Alive\<close>, the (finalized) block it has seen in its current life cycle is at most the configured offset
  behind the highest one any user ever got from any node of the pool.\<close>

theorem repeatable_read:
  assumes "n \<in> set (connect ns)" and "State n = nodeStateAlive" and "cfg_EnforceRepeatableRead (node_cfg n)"
    and "BlockNumber (HighestUserObservations ns) \<le> MaxInt64"
    and "FinalizedBlockNumber (HighestUserObservations ns) \<le> MaxInt64" and "m \<in> set ns"
  shows "if cfg_FinalityTagEnabled (node_cfg n)
    then FinalizedBlockNumber (node_HighestUserObservations m) - uint (cfg_FinalizedBlockOffset (node_cfg n))
           \<le> FinalizedBlockNumber (snd (StateAndLatest n))
    else BlockNumber (node_HighestUserObservations m) - uint (cfg_FinalizedBlockOffset (node_cfg n))
           \<le> BlockNumber (snd (StateAndLatest n))"
proof -
  have "poolInfoProvider n = Some (pool_of ns)" using assms(1) by (auto simp: connect_def see_def)
  moreover have "pool_HighestUserObservations (pool_of ns) = HighestUserObservations ns"
    by (simp add: pool_of_def Let_def)
  ultimately show ?thesis
    using mn.alive_is_fresh [of n "pool_of ns" ns m] assms(2-) by (simp add: StateAndLatest_def)
qed

theorem repeatable_read_witness:
  "BlockNumber (node_HighestUserObservations (demo_alive 2 10)) - 1
     \<le> BlockNumber (snd (StateAndLatest (see (pool_of demo_pool) (demo_alive 2 10))))"
proof -
  let ?n = "see (pool_of demo_pool) (demo_alive 2 10)"
  have h: "HighestUserObservations demo_pool = pool_zero"
    by (simp add: HighestUserObservations_def demo_pool_defs node_HighestUserObservations_def
        GetInterceptedChainInfo_def NewRPCClientBase_def chain_info_zero_def chain_info_max_def pool_zero_def)
  have "?n \<in> set (connect demo_pool)" by (simp add: connect_def demo_pool_def)
  moreover have "State ?n = nodeStateAlive"
    by (simp add: State_def recalculateState_def isFinalizedBlockOutOfSync_def see_def pool_of_def Let_def h
        demo_alive_def demo_node_def NewNode_def demo_cfg_def GetInterceptedChainInfo_def pool_zero_def
        in_range_64 MinInt64_def MaxInt64_def)
  moreover have "demo_alive 2 10 \<in> set demo_pool" by (simp add: demo_pool_def)
  ultimately show ?thesis
    using repeatable_read [of ?n demo_pool "demo_alive 2 10"]
    by (simp add: h pool_zero_def MaxInt64_def see_def demo_alive_def demo_node_def NewNode_def demo_cfg_def)
qed

text \<open>C16. On a pool that its strategy is made for, that is, with orders between zero and below \<open>MaxInt32\<close>, fewer than
  \<open>2^32\<close> nodes and block numbers of 64 bits, \<open>selectNode\<close> never panics and returns at the latest when the context is done;
  the node it returns is alive in the pool it leaves (and is the active one, unless the mode is \<open>RandomRPC\<close>); it answers with
  \<open>ErrNodeError\<close> only when in one round no node was alive at the selection and then, after whatever happened in between,
  none was initializing at the test; and otherwise only with the error of a cancelled context, in both cases without an
  active node.\<close>

theorem selectNode_result:
  fixes c :: multi_node and during :: "multi_node \<Rightarrow> multi_node"
  defines "c1 \<equiv> (if selectionMode c = NodeSelectionModeRandomRPC \<or> active_alive c then c else during c)"
  assumes ok: "selector_ok IntN (nodeSelector c1) (primaryNodes c1)"
    and range: "heads_in_range (primaryNodes c1)"
    and active: "pred_option (\<lambda>i. i < length (primaryNodes c1)) (activeNode c1)"
    and ticks: "\<forall>ns b. Tick ns b \<in> set ticks \<longrightarrow> later (primaryNodes c1) ns"
  shows "(\<forall>e. CtxDone e \<in> set ticks \<longrightarrow> selectNode IntN during between ticks c \<noteq> None) \<and>
    (\<forall>m. selectNode IntN during between ticks c = Some m \<longrightarrow>
       (\<exists>c' res ns. m = Ret (c', res) \<and> map State ns = map State (primaryNodes c1) \<and>
          await_ok (rounds ns between ticks) ticks c' res \<and>
          (selectionMode c \<noteq> NodeSelectionModeRandomRPC \<longrightarrow>
             activeNode c' = (case res of Inr i \<Rightarrow> Some i | Inl e \<Rightarrow> None))))"
proof (intro conjI allI impI)
  fix e assume "CtxDone e \<in> set ticks"
  then show "selectNode IntN during between ticks c \<noteq> None"
    by (auto simp: selectNode_def Let_def dest: awaitNodeSelection_returns split: option.splits outcome.splits prod.splits sum.splits)
next
  fix m assume r: "selectNode IntN during between ticks c = Some m"
  show "\<exists>c' res ns. m = Ret (c', res) \<and> map State ns = map State (primaryNodes c1) \<and>
      await_ok (rounds ns between ticks) ticks c' res \<and>
      (selectionMode c \<noteq> NodeSelectionModeRandomRPC \<longrightarrow> activeNode c' = (case res of Inr i \<Rightarrow> Some i | Inl e \<Rightarrow> None))"
  proof (cases "selectionMode c = NodeSelectionModeRandomRPC")
    case True
    then have c1: "c1 = c" by (simp add: c1_def)
    have "awaitNodeSelection IntN between c ticks = Some m" using r True by (simp add: selectNode_def)
    then have "\<exists>c' res. m = Ret (c', res) \<and> await_ok (rounds (primaryNodes c) between ticks) ticks c' res \<and> selectionMode c' = selectionMode c"
      by (intro awaitNodeSelection_ok) (use ok ticks c1 in auto)
    with True c1 show ?thesis by auto
  next
    case False
    show ?thesis
    proof (cases "active_alive c1")
      case True
      have "m = Ret (c1, Inr (the (activeNode c1)))"
        using r False True by (auto simp: selectNode_def c1_def Let_def split: if_splits)
      with True active show ?thesis by (auto simp: active_alive_def await_ok_def split: option.splits)
    next
      case dead: False
      then have na: "\<not> active_alive c" "c1 = during c" using False by (auto simp: c1_def split: if_splits)
      let ?c2 = "case activeNode c1 of None \<Rightarrow> c1 | Some i \<Rightarrow> unsubscribe_node i c1"
      have l: "later (primaryNodes c1) (primaryNodes ?c2)"
        using range active unsubscribe_node_later [of c1] by (cases "activeNode c1") (auto simp: later_def)
      have sel2: "nodeSelector ?c2 = nodeSelector c1" by (simp add: unsubscribe_node_def split: option.splits)
      have states: "map State (primaryNodes ?c2) = map State (primaryNodes c1)"
        using active by (cases "activeNode c1") (auto simp: unsubscribe_node_states)
      obtain w where w: "awaitNodeSelection IntN between ?c2 ticks = Some w"
        using r False dead na by (auto simp: selectNode_def Let_def split: option.splits)
      have "\<exists>c' res. w = Ret (c', res) \<and> await_ok (rounds (primaryNodes ?c2) between ticks) ticks c' res \<and>
          selectionMode c' = selectionMode ?c2"
        by (rule awaitNodeSelection_ok [OF _ _ w])
          (use selector_ok_later [OF ok l] sel2 ticks l in \<open>auto simp: later_def\<close>)
      then obtain c' res where wr: "w = Ret (c', res)" and aok: "await_ok (rounds (primaryNodes ?c2) between ticks) ticks c' res"
        by blast
      have "m = Ret (c'\<lparr>activeNode := (case res of Inr i \<Rightarrow> Some i | Inl e \<Rightarrow> None)\<rparr>, res)"
        using r w [unfolded na(2)] False dead na wr by (cases res) (simp_all add: selectNode_def Let_def)
      moreover have "await_ok (rounds (primaryNodes ?c2) between ticks) ticks (c'\<lparr>activeNode := a\<rparr>) res" for a
        using aok by (cases res) (simp_all add: await_ok_def)
      ultimately show ?thesis using states
        by (intro exI [of _ "c'\<lparr>activeNode := (case res of Inr i \<Rightarrow> Some i | Inl e \<Rightarrow> None)\<rparr>"] exI [of _ res]
            exI [of _ "primaryNodes ?c2"]) simp
    qed
  qed
qed

definition demo_mn :: multi_node where
  "demo_mn = \<lparr>primaryNodes = demo_pool, sendOnlyNodes = [], mn_chainID = ''5'', selectionMode = NodeSelectionModeRoundRobin,
     nodeSelector = RoundRobinSelector 0, leaseDuration = 0, deathDeclarationDelay = 10, activeNode = Some 2\<rparr>"

theorem selectNode_result_witness:
  "\<exists>c' res ns. selectNode (\<lambda>n. 0) (\<lambda>c. c) (\<lambda>ns. ns) [CtxDone ''done''] demo_mn = Some (Ret (c', res)) \<and>
     await_ok (rounds ns (\<lambda>ns. ns) [CtxDone ''done'']) [CtxDone ''done''] c' res"
proof -
  have na: "\<not> active_alive demo_mn"
    by (simp add: active_alive_def demo_mn_def demo_pool_states numeral_2_eq_2)
  have ok: "selector_ok (\<lambda>n. 0) (nodeSelector demo_mn) (primaryNodes demo_mn)"
    by (simp add: demo_mn_def demo_pool_states)
  have "(\<forall>e. CtxDone e \<in> set [CtxDone ''done''] \<longrightarrow> selectNode (\<lambda>n. 0) (\<lambda>c. c) (\<lambda>ns. ns) [CtxDone ''done''] demo_mn \<noteq> None) \<and>
    (\<forall>m. selectNode (\<lambda>n. 0) (\<lambda>c. c) (\<lambda>ns. ns) [CtxDone ''done''] demo_mn = Some m \<longrightarrow>
       (\<exists>c' res ns. m = Ret (c', res) \<and> map State ns = map State (primaryNodes demo_mn) \<and>
          await_ok (rounds ns (\<lambda>ns. ns) [CtxDone ''done'']) [CtxDone ''done''] c' res \<and>
          (selectionMode demo_mn \<noteq> NodeSelectionModeRandomRPC \<longrightarrow>
             activeNode c' = (case res of Inr i \<Rightarrow> Some i | Inl e \<Rightarrow> None))))"
    using selectNode_result [of "\<lambda>n. 0" demo_mn "\<lambda>c. c" "[CtxDone ''done'']" "\<lambda>ns. ns"] ok
    by (simp add: demo_heads demo_mn_def demo_pool_states)
  then show ?thesis by fastforce
qed

text \<open>The two readings race: a node that becomes alive between the selection and the test is neither alive for the one nor
  initializing for the other, and \<open>ErrNodeError\<close> is returned although a node is alive then.\<close>

lemma selection_race:
  "\<exists>c'. awaitNodeSelection IntN (\<lambda>ns. [demo_alive 1 10])
     (demo_mn\<lparr>primaryNodes := [demo_node]\<rparr>) ticks = Some (Ret (c', Inl ErrNodeError)) \<and>
     State (primaryNodes c' ! 0) = nodeStateAlive"
proof -
  have "State demo_node = nodeStateUndialed" "State (demo_alive 1 10) = nodeStateAlive"
    by (simp_all add: demo_pool_defs State_def recalculateState_def isFinalizedBlockOutOfSync_def)
  then show ?thesis
    by (simp add: awaitNodeSelection.simps await_round_def demo_mn_def roundRobin_Select_def liveNodes_def node_alive_def Let_def
        isInitializing_def)
qed

text \<open>\<open>checkLease\<close> with no other goroutine in between: it panics exactly when no node is alive, or
  selectable, while one is still the active node; otherwise the best node becomes the active one, and
  every other live node has lost all subscriptions but those of its health checks.\<close>

theorem checkLease_result:
  assumes "selector_ok IntN (nodeSelector c) (primaryNodes c)"
    and "pred_option (\<lambda>i. i < length (primaryNodes c)) (activeNode c)"
  shows "(is_panic (checkLease IntN (\<lambda>c. c) c) \<longleftrightarrow>
            activeNode c \<noteq> None \<and> (\<forall>i<length (primaryNodes c). State (primaryNodes c ! i) \<noteq> nodeStateAlive)) \<and>
    (\<forall>c'. checkLease IntN (\<lambda>c. c) c = Ret c' \<longrightarrow>
       (\<forall>i<length (primaryNodes c'). State (primaryNodes c' ! i) = nodeStateAlive \<longrightarrow> Some i \<noteq> activeNode c' \<longrightarrow>
          set (subs (rpc (primaryNodes c' ! i))) \<subseteq> set (healthCheckSubs (primaryNodes c' ! i))))"
proof -
  obtain best s' ns' where e: "Select IntN (nodeSelector c) (primaryNodes c) = Ret (best, s', ns')"
    using sel.sel_returns [OF assms(1)] by blast
  note iff = sel.sel_iff [OF assms(1) e] and nodes = sel.sel_nodes [OF assms(1) e]
  let ?ns = "unsubscribe_others best ns'"
  have len: "length ?ns = length ns'" by (simp add: unsubscribe_others_def)
  have subs: "set (subs (rpc (?ns ! i))) \<subseteq> set (healthCheckSubs (?ns ! i))"
    if "i < length ns'" "State (?ns ! i) = nodeStateAlive" "Some i \<noteq> best" for i
    using that by (auto simp: unsubscribe_others_nth UnsubscribeAllExceptAliveLoop_def UnsubscribeAllExcept_eq
        split: if_splits)
  have upd: "set (subs (rpc (?ns[a := UnsubscribeAllExceptAliveLoop (?ns ! a)] ! i))) \<subseteq>
      set (healthCheckSubs (?ns[a := UnsubscribeAllExceptAliveLoop (?ns ! a)] ! i))"
    if "i < length ns'" "State (?ns[a := UnsubscribeAllExceptAliveLoop (?ns ! a)] ! i) = nodeStateAlive" "Some i \<noteq> best" for i a
    using that subs [of i] len
    by (cases "a = i") (auto simp: UnsubscribeAllExceptAliveLoop_def UnsubscribeAllExcept_eq)
  show ?thesis
  proof (cases "best = activeNode c")
    case True
    then show ?thesis
      using e iff subs len nodes
      by (auto simp: checkLease_def Let_def node_alive_def)
  next
    case False
    then show ?thesis
    proof (cases "activeNode c")
      case None
      then show ?thesis using e iff subs len False by (auto simp: checkLease_def Let_def)
    next
      case (Some a)
      then show ?thesis
        using e iff upd len False
        by (cases best) (auto simp: checkLease_def Let_def node_alive_def unsubscribe_node_def)
    qed
  qed
qed

theorem checkLease_result_witness:
  "is_panic (checkLease (\<lambda>n. 0) (\<lambda>c. c) (demo_mn\<lparr>primaryNodes := [demo_node], activeNode := Some 0\<rparr>))"
proof -
  let ?c = "demo_mn\<lparr>primaryNodes := [demo_node], activeNode := Some 0\<rparr>"
  have "selector_ok (\<lambda>n. 0) (nodeSelector ?c) (primaryNodes ?c)" by (simp add: demo_mn_def)
  from checkLease_result [OF this] show ?thesis
    by (simp add: demo_node_def NewNode_def State_def recalculateState_def)
qed

text \<open>Without cancellation \<open>DoAll\<close> calls exactly the live primary nodes, in order, and then the live
  send-only nodes, and fails with \<open>ErrNodeError\<close> exactly when no primary node is live; a cancellation
  cuts the sequence of calls short and is what is returned then.\<close>

theorem DoAll_calls:
  fixes c :: multi_node
  defines "all_calls \<equiv> map (\<lambda>i. (i, False)) (liveNodes (primaryNodes c)) @ map (\<lambda>i. (i, True)) (liveSendOnly c)"
  shows "(if \<exists>k < length (primaryNodes c) + length (sendOnlyNodes c). cancelled k
     then \<exists>rest. all_calls = fst (DoAll None ctxErr cancelled c) @ rest
     else DoAll None ctxErr cancelled c =
            (all_calls, if liveNodes (primaryNodes c) = [] then Some ErrNodeError else None))"
proof -
  let ?ps = "enumerate 0 (map State (primaryNodes c))" and ?ss = "enumerate 0 (map so_state (sendOnlyNodes c))"
  obtain ps b1 where p: "do_loop cancelled 0 ?ps = (ps, b1)" by (cases "do_loop cancelled 0 ?ps")
  obtain ss b2 where s: "do_loop cancelled (length (primaryNodes c)) ?ss = (ss, b2)"
    by (cases "do_loop cancelled (length (primaryNodes c)) ?ss")
  show ?thesis
  proof (cases "\<exists>k < length (primaryNodes c) + length (sendOnlyNodes c). cancelled k")
    case False
    then show ?thesis using DoAll_undisturbed [of c cancelled ctxErr] by (auto simp: all_calls_def)
  next
    case True
    obtain r1 where r1: "liveNodes (primaryNodes c) = ps @ r1"
      using do_loop_prefix [of ?ps cancelled 0] p by (auto simp: live_enumerate)
    obtain r2 where r2: "liveSendOnly c = ss @ r2"
      using do_loop_prefix [of ?ss cancelled "length (primaryNodes c)"] s by (auto simp: liveSendOnly_def)
    have "\<not> b1 \<Longrightarrow> r1 = []" using do_loop_complete [of cancelled 0 ?ps] p r1 by (simp add: live_enumerate)
    then have "\<exists>rest. all_calls = fst (DoAll None ctxErr cancelled c) @ rest"
      using p s r1 r2 by (auto simp: DoAll_def all_calls_def Let_def)
    with True show ?thesis by simp
  qed
qed

text \<open>\<open>LatestChainInfo\<close> counts the live nodes other than the caller, and its chain information
  is the componentwise maximum over the live nodes: an upper bound of each, and each block number is zero
  or that of a live node.\<close>

theorem LatestChainInfo_maximum:
  "fst (LatestChainInfo name ns) =
     int (length (filter (\<lambda>n. State n = nodeStateAlive \<and> node_name n \<noteq> name) ns)) \<and>
   (\<forall>n. n \<in> set ns \<and> State n = nodeStateAlive \<longrightarrow>
      ci_le (snd (StateAndLatest n)) (snd (LatestChainInfo name ns))) \<and>
   (BlockNumber (snd (LatestChainInfo name ns)) = 0 \<or>
      (\<exists>n. n \<in> set ns \<and> State n = nodeStateAlive \<and>
         BlockNumber (snd (StateAndLatest n)) = BlockNumber (snd (LatestChainInfo name ns))))"
proof -
  let ?live = "filter (\<lambda>n. State n = nodeStateAlive) ns"
  let ?f = "\<lambda>n. snd (StateAndLatest n)"
  have "ci_le (?f n) (snd (LatestChainInfo name ns))" if "n \<in> set ns" "State n = nodeStateAlive" for n
    unfolding LatestChainInfo_snd(1) using that by (intro foldl_ci_upper) simp
  moreover have "BlockNumber (snd (LatestChainInfo name ns)) \<in>
      insert (BlockNumber pool_zero) ((\<lambda>n. BlockNumber (?f n)) ` set ?live)"
    unfolding LatestChainInfo_snd(1) by (rule foldl_ci_attained(1))
  ultimately show ?thesis
    using LatestChainInfo_snd(2) [of name ns] by (auto simp: pool_zero_def)
qed

theorem LatestChainInfo_maximum_witness:
  "ci_le (snd (StateAndLatest (demo_alive 2 10))) (snd (LatestChainInfo ''x'' demo_pool))"
proof -
  have "demo_alive 2 10 \<in> set demo_pool" "State (demo_alive 2 10) = nodeStateAlive"
    using demo_pool_states(1) by (simp_all add: demo_pool_def)
  then show ?thesis using LatestChainInfo_maximum [of "''x''" demo_pool] by blast
qed

text \<open>The selection mode \<open>RandomRPC\<close> is accepted when the pool is built, but the alive loop's
  check against the pool does not know it: with a sync threshold and the pool connected, the first poll
  that gets that far panics.\<close>

theorem random_rpc_panics:
  assumes "cfg_SelectionMode (node_cfg n) = NodeSelectionModeRandomRPC" and "cfg_SyncThreshold (node_cfg n) \<noteq> 0"
    and "poolInfoProvider n \<noteq> None"
    and "cfg_PollFailureThreshold (node_cfg n) = 0"
  shows "\<not> is_panic (NewMultiNode NodeSelectionModeRandomRPC lease ns sends chainID delay) \<and>
    alive_handle L (AvPoll e) l n = Panic ''unrecognized NodeSelectionMode: RandomRPC''"
proof -
  obtain l1 n1 where p: "poll_ping e l n = (l1, n1)" by (cases "poll_ping e l n")
  have same: "same_id n n1" by (rule poll_ping_same_id [OF p])
  have "isOutOfSyncWithPool L (with_pool (pe_pool2 e) n1) = Panic ''unrecognized NodeSelectionMode: RandomRPC''"
    using assms same
    by (simp add: isOutOfSyncWithPool_def same_id_def selection_modes Let_def split: prod.splits)
  then show ?thesis
    using assms(4) p
    by (simp add: alive_poll_def poll_sync_def Let_def NewMultiNode_def newNodeSelector_def selection_modes)
qed

theorem random_rpc_panics_witness:
  "let p = \<lparr>pool_LatestChainInfo = (\<lambda>s. (0, chain_info_zero)), pool_HighestUserObservations = chain_info_zero\<rparr>;
       c = demo_cfg\<lparr>cfg_SelectionMode := NodeSelectionModeRandomRPC, cfg_PollFailureThreshold := 0\<rparr>;
       n = demo_node\<lparr>node_cfg := c, state := nodeStateAlive, poolInfoProvider := Some p\<rparr>;
       e = \<lparr>pe_ClientVersion = Inr ''v'', pe_FinalizedState = FsAvailable, pe_pool1 = p, pe_pool2 = p, pe_pool3 = p\<rparr>
   in is_panic (alive_handle \<lparr>jitter = (\<lambda>d. d), bigmath_Sub = (\<lambda>a b. Ret 0)\<rparr> (AvPoll e)
        \<lparr>pollFailures = 0, finalizedStateFailures = 0, localHighestChainInfo = chain_info_zero\<rparr> n)"
  unfolding Let_def
  by (subst random_rpc_panics [THEN conjunct2]) (simp_all add: demo_cfg_def demo_node_def NewNode_def)

text \<open>A report keeps for every node the time since which it has been seen not alive, clears it as soon
  as the node is alive again, and raises the health error exactly when every node has been dead for at
  least the configured delay.\<close>

theorem report_result:
  assumes "length es = length (primaryNodes c)"
  shows "\<exists>es' counts dead health. report now c es = Ret (es', counts, dead, health) \<and> length es' = length es \<and>
    (\<forall>i<length es. nws_DeadSince (es' ! i) =
       (if State (primaryNodes c ! i) = nodeStateAlive then None
        else Some (case nws_DeadSince (es ! i) of None \<Rightarrow> now | Some t \<Rightarrow> t))) \<and>
    (health \<noteq> None \<longleftrightarrow>
       (\<forall>i<length es. State (primaryNodes c ! i) \<noteq> nodeStateAlive \<and>
          deathDeclarationDelay c \<le> now - (case nws_DeadSince (es ! i) of None \<Rightarrow> now | Some t \<Rightarrow> t)))"
proof -
  let ?es = "map2 (report_entry now) (primaryNodes c) es"
  have loop: "report_loop now (primaryNodes c) es = Ret ?es" by (rule report_loop_eq [OF assms [symmetric]])
  have since: "nws_DeadSince (?es ! i) =
       (if State (primaryNodes c ! i) = nodeStateAlive then None
        else Some (case nws_DeadSince (es ! i) of None \<Rightarrow> now | Some t \<Rightarrow> t))" if "i < length es" for i
    using that assms by (simp add: report_entry_def Let_def split: option.splits)
  have len: "length ?es = length es" using assms by simp
  have "length (primaryNodes c) = length (filter (entry_dead now (deathDeclarationDelay c)) ?es) \<longleftrightarrow>
      (\<forall>i<length es. entry_dead now (deathDeclarationDelay c) (?es ! i))"
    unfolding assms [symmetric] len [symmetric] list_all_length [symmetric]
    using filter_all_length [of "entry_dead now (deathDeclarationDelay c)" ?es] by metis
  moreover have "entry_dead now (deathDeclarationDelay c) (?es ! i) \<longleftrightarrow>
      State (primaryNodes c ! i) \<noteq> nodeStateAlive \<and>
      deathDeclarationDelay c \<le> now - (case nws_DeadSince (es ! i) of None \<Rightarrow> now | Some t \<Rightarrow> t)" if "i < length es" for i
    using since [OF that] by (simp add: entry_dead_def)
  ultimately show ?thesis
    using since len assms by (simp add: report_def loop Let_def)
qed

theorem report_result_witness:
  "\<exists>es' counts dead health. report 100 (demo_mn\<lparr>primaryNodes := [demo_node]\<rparr>)
     [\<lparr>nws_Node = ''n1'', nws_State = ''Undialed'', nws_DeadSince = Some 50\<rparr>] =
     Ret (es', counts, dead, Some health)"
proof -
  have s: "State demo_node = nodeStateUndialed"
    by (simp add: State_def recalculateState_def demo_node_def NewNode_def)
  then show ?thesis
    using report_result [of "[\<lparr>nws_Node = ''n1'', nws_State = ''Undialed'', nws_DeadSince = Some 50\<rparr>]"
        "demo_mn\<lparr>primaryNodes := [demo_node]\<rparr>" 100]
    by (auto simp: demo_mn_def)
qed

end
