(* ===== verification/Pool_Service.thy ===== *)
theory Pool_Service
  imports Multi_Node
begin

text \<open>
  The goroutines and entry points around the pool (\<open>multinode/multi_node.go\<close>): \<open>SelectRPC\<close>, the loop that checks the lease, the
  loop that reports the states of the nodes; and the contexts of queries (\<open>multinode/rpc_client_base.go\<close>). A tick of a loop carries
  the pool as it is then, or what the rest of the program did to it before.
\<close>

section \<open>Selecting an endpoint\<close>

definition SelectRPC ::
  "(nat \<Rightarrow> nat) \<Rightarrow> (multi_node \<Rightarrow> multi_node) \<Rightarrow> (node list \<Rightarrow> node list) \<Rightarrow> tick list \<Rightarrow> multi_node \<Rightarrow>
   (multi_node \<times> (string + rpc_client)) outcome option" where
  "SelectRPC IntN during between ticks c =
     (case selectNode IntN during between ticks c of
        None \<Rightarrow> None
      | Some (Panic m) \<Rightarrow> Some (Panic m)
      | Some (Ret (c1, Inl err)) \<Rightarrow> Some (Ret (c1, Inl err))
      | Some (Ret (c1, Inr i)) \<Rightarrow> Some (Ret (c1, Inr (rpc (primaryNodes c1 ! i)))))"

section \<open>Loops\<close>

fun checkLeaseLoop ::
  "(nat \<Rightarrow> nat) \<Rightarrow> ((multi_node \<Rightarrow> multi_node) \<times> (multi_node \<Rightarrow> multi_node)) list \<Rightarrow> multi_node \<Rightarrow> multi_node outcome" where
  "checkLeaseLoop IntN [] c = Ret c"
| "checkLeaseLoop IntN ((before, during) # ticks) c =
     outcome_bind (checkLease IntN during (before c)) (checkLeaseLoop IntN ticks)"

text \<open>The reports of \<open>runLoop\<close>, each at a time: the entries kept between them, and the health error of each.\<close>

fun report_ticks ::
  "(int \<times> multi_node) list \<Rightarrow> nodeWithState list \<Rightarrow> (nodeWithState list \<times> string option list) outcome" where
  "report_ticks [] es = Ret (es, [])"
| "report_ticks ((now, c) # ticks) es =
     outcome_bind (report now c es)
       (\<lambda>(es1, counts, dead, health).
          outcome_bind (report_ticks ticks es1) (\<lambda>(es2, hs). Ret (es2, health # hs)))"

definition mn_runLoop ::
  "int \<Rightarrow> multi_node \<Rightarrow> (int \<times> multi_node) list \<Rightarrow> (nodeWithState list \<times> string option list) outcome" where
  "mn_runLoop now c ticks = report_ticks ((now, c) # ticks) (initial_report c)"

section \<open>Contexts of queries\<close>

text \<open>A context of a query holds the channel of the life cycle in which it was acquired. \<open>parentDone\<close> is whether the caller's
  context is done, \<open>elapsed\<close> the time since the context was made.\<close>

record query_ctx =
  qc_lifeCycleCh :: nat
  qc_timeout :: int
  qc_cancelled :: bool

definition makeQueryCtx :: "nat \<Rightarrow> int \<Rightarrow> query_ctx" where
  "makeQueryCtx ch timeout = \<lparr>qc_lifeCycleCh = ch, qc_timeout = timeout, qc_cancelled = False\<rparr>"

definition query_cancel :: "query_ctx \<Rightarrow> query_ctx" where
  "query_cancel q = q\<lparr>qc_cancelled := True\<rparr>"

definition query_done :: "bool \<Rightarrow> int \<Rightarrow> rpc_client \<Rightarrow> query_ctx \<Rightarrow> bool" where
  "query_done parentDone elapsed m q \<longleftrightarrow>
     parentDone \<or> qc_lifeCycleCh q \<in> closedChs m \<or> qc_timeout q \<le> elapsed \<or> qc_cancelled q"

definition AcquireQueryCtx :: "int \<Rightarrow> rpc_client \<Rightarrow> query_ctx \<times> nat" where
  "AcquireQueryCtx timeout m = (makeQueryCtx (lifeCycleCh m) timeout, lifeCycleCh m)"

section \<open>Lemmas\<close>

text \<open>The start of the current run of samples at which a node was not alive.\<close>

definition dead_since :: "(int \<times> bool) list \<Rightarrow> int option" where
  "dead_since samples =
     (case takeWhile (\<lambda>(t, alive). \<not> alive) (rev samples) of [] \<Rightarrow> None | xs \<Rightarrow> Some (fst (last xs)))"

definition node_sample :: "nat \<Rightarrow> int \<times> multi_node \<Rightarrow> int \<times> bool" where
  "node_sample i tick = (fst tick, State (primaryNodes (snd tick) ! i) = nodeStateAlive)"

lemma node_sample_Pair [simp]: "node_sample i (t, c) = (t, State (primaryNodes c ! i) = nodeStateAlive)"
  by (simp add: node_sample_def)

lemma dead_since_snoc:
  "dead_since (xs @ [(t, alive)]) = (if alive then None else Some (case dead_since xs of None \<Rightarrow> t | Some u \<Rightarrow> u))"
  by (auto simp: dead_since_def split: list.splits)

lemma report_ticks_snoc:
  "report_ticks (ts @ [(now, c)]) es =
     outcome_bind (report_ticks ts es)
       (\<lambda>(es1, hs). outcome_bind (report now c es1) (\<lambda>(es2, counts, dead, health). Ret (es2, hs @ [health])))"
proof (induction ts es rule: report_ticks.induct)
  case (1 es)
  show ?case by (cases "report now c es") (simp_all split: prod.splits)
next
  case (2 t d ts es)
  show ?case
  proof (cases "report t d es")
    case (Ret r)
    then show ?thesis using 2 by (cases r) (simp add: outcome_bind_assoc case_prod_unfold)
  qed simp
qed

lemma report_ticks_history:
  assumes "\<forall>(t, c)\<in>set ts. length (primaryNodes c) = length es" and "\<forall>e\<in>set es. nws_DeadSince e = None"
  shows "\<exists>es' hs. report_ticks ts es = Ret (es', hs) \<and> length hs = length ts \<and> length es' = length es \<and>
    (\<forall>i<length es. nws_DeadSince (es' ! i) = dead_since (map (node_sample i) ts))"
  using assms(1)
proof (induction ts rule: rev_induct)
  case Nil
  show ?case using assms(2) by (simp add: dead_since_def)
next
  case (snoc tick ts)
  obtain now c where tick: "tick = (now, c)" by (cases tick)
  obtain es1 hs where r: "report_ticks ts es = Ret (es1, hs)" "length hs = length ts" "length es1 = length es"
    "\<forall>i<length es. nws_DeadSince (es1 ! i) = dead_since (map (node_sample i) ts)"
    using snoc by auto
  have len: "length es1 = length (primaryNodes c)" using snoc.prems r(3) tick by auto
  obtain es2 counts dead health where s: "report now c es1 = Ret (es2, counts, dead, health)" "length es2 = length es1"
    "\<forall>i<length es1. nws_DeadSince (es2 ! i) =
       (if State (primaryNodes c ! i) = nodeStateAlive then None
        else Some (case nws_DeadSince (es1 ! i) of None \<Rightarrow> now | Some t \<Rightarrow> t))"
    using report_result [OF len] by blast
  show ?case using r s by (simp add: tick report_ticks_snoc dead_since_snoc)
qed

lemma next_ch_mono: "rpc_step s t \<Longrightarrow> next_ch (client s) \<le> next_ch (client t)"
  by (induction rule: rpc_step.induct)
    (simp_all add: complete_def OnNewHead_def OnNewFinalizedHead_def Let_def new_poller_def RegisterSub_def unsubscribe_eq
      UnsubscribeAllExcept_eq CancelLifeCycle_def resetLatestChainInfo_def poller_Unsubscribe_def)

section \<open>Properties\<close>

text \<open>C36. Over a whole run of the reporting loop, on a pool whose primary nodes stay the same, the last report raises the health
  error exactly when every primary node was found not alive at every report of an unbroken stretch up to now that began at
  least the death declaration delay ago: one report that finds a node alive starts its time anew.\<close>

theorem pool_death_declared:
  assumes "\<forall>(t, d)\<in>set ticks. length (primaryNodes d) = length (primaryNodes c)"
    and "last ((now, c) # ticks) = (t, d)"
  shows "\<exists>es hs. mn_runLoop now c ticks = Ret (es, hs) \<and> length hs = Suc (length ticks) \<and>
    (last hs \<noteq> None \<longleftrightarrow>
       (\<forall>i<length (primaryNodes c).
          \<exists>u. dead_since (map (node_sample i) ((now, c) # ticks)) = Some u \<and> deathDeclarationDelay d \<le> t - u))"
proof -
  let ?all = "(now, c) # ticks" and ?es = "initial_report c"
  define ts where "ts = butlast ?all"
  have all: "?all = ts @ [(t, d)]" unfolding ts_def using assms(2) by (metis append_butlast_last_id list.distinct(1))
  have len: "length (primaryNodes b) = length ?es" if "(x, b) \<in> set ?all" for x b
    using assms(1) that by (auto simp: initial_report_def)
  have prefix: "\<forall>(x, b)\<in>set ts. length (primaryNodes b) = length ?es" using len all by auto
  obtain es1 hs where r: "report_ticks ts ?es = Ret (es1, hs)" "length hs = length ts" "length es1 = length ?es"
    "\<forall>i<length ?es. nws_DeadSince (es1 ! i) = dead_since (map (node_sample i) ts)"
    using report_ticks_history [OF prefix] by (auto simp: initial_report_def)
  have d: "length es1 = length (primaryNodes d)" using len [of t d] all r(3) by simp
  obtain es2 counts dead health where s: "report t d es1 = Ret (es2, counts, dead, health)"
    "health \<noteq> None \<longleftrightarrow> (\<forall>i<length es1. State (primaryNodes d ! i) \<noteq> nodeStateAlive \<and>
        deathDeclarationDelay d \<le> t - (case nws_DeadSince (es1 ! i) of None \<Rightarrow> t | Some u \<Rightarrow> u))"
    using report_result [OF d, of t] by blast
  have "mn_runLoop now c ticks = Ret (es2, hs @ [health])"
    unfolding mn_runLoop_def all report_ticks_snoc using r s by simp
  moreover have "length ts = length ticks" using all by (metis length_append_singleton length_Cons nat.inject)
  moreover have "length es1 = length (primaryNodes c)" using r(3) by (simp add: initial_report_def)
  ultimately show ?thesis
    using r s unfolding all by (auto simp: dead_since_snoc split: if_splits)
qed

theorem pool_death_declared_witness:
  "\<exists>es hs. mn_runLoop 0 (demo_mn\<lparr>primaryNodes := [demo_node]\<rparr>) [(1000, demo_mn\<lparr>primaryNodes := [demo_node]\<rparr>)] = Ret (es, hs) \<and>
     last hs \<noteq> None"
proof -
  let ?c = "demo_mn\<lparr>primaryNodes := [demo_node]\<rparr>"
  have s: "State demo_node = nodeStateUndialed"
    by (simp add: State_def recalculateState_def demo_node_def NewNode_def)
  then have "dead_since (map (node_sample 0) [(0, ?c), (1000, ?c)]) = Some 0" by (simp add: dead_since_def)
  then show ?thesis
    using pool_death_declared [of "[(1000, ?c)]" ?c 0 1000 ?c] by (auto simp: demo_mn_def)
qed

text \<open>The context of a query lives as long as the life cycle in which it was acquired: in every interleaving of requests and closes,
  it is done exactly when that life cycle has been cancelled, unless the caller, the timeout or its own cancel function ended it
  before.\<close>

theorem query_ctx_of_lifecycle:
  assumes "rpc.reach s" and "rpc_step\<^sup>*\<^sup>* s t" and "fst (AcquireQueryCtx timeout (client s)) = q"
  shows "query_done parentDone elapsed (client t) q \<longleftrightarrow>
    parentDone \<or> timeout \<le> elapsed \<or> lifeCycleCh (client t) \<noteq> lifeCycleCh (client s)"
proof -
  have inv: "rpc_inv s" "rpc_inv t" using reach_rpc_inv rpc.reach_steps [OF assms(2,1)] assms(1) by blast+
  have "next_ch (client s) \<le> next_ch (client t)"
    by (rule rpc.steps_mono [OF assms(2), of "\<lambda>s. next_ch (client s)"]) (rule next_ch_mono)
  then have "lifeCycleCh (client s) < next_ch (client t)" using inv(1) by (simp add: rpc_inv_def Let_def)
  then have "lifeCycleCh (client s) \<in> closedChs (client t) \<longleftrightarrow> lifeCycleCh (client t) \<noteq> lifeCycleCh (client s)"
    using inv(2) by (auto simp: rpc_inv_def Let_def)
  then show ?thesis
    using assms(3) by (auto simp: AcquireQueryCtx_def makeQueryCtx_def query_done_def)
qed

end
