(* ===== verification/Transaction_Sender.thy ===== *)
theory Transaction_Sender
  imports Multi_Node
begin

text \<open>
  \<open>multinode/transaction_sender.go\<close>: broadcasting a transaction to all nodes and turning their replies into
  one result. The replies of the primary nodes arrive on a channel; an event of \<open>collectTxResults\<close> is what
  its \<open>select\<close> receives: the cancellation of the context, a reply, the zero value of the closed channel, or
  the soft timeout. \<open>order\<close> is the order in which \<open>range\<close> visits the keys of a map, \<open>zero\<close> the zero value of
  the result type.
\<close>

section \<open>Results\<close>

record 'r sendTxResult =
  res :: 'r
  code :: SendTxReturnCode
  error :: "string option"

type_synonym 'r sendTxResults = "SendTxReturnCode \<rightharpoonup> 'r sendTxResult list"

definition add_result :: "'r sendTxResult \<Rightarrow> 'r sendTxResults \<Rightarrow> 'r sendTxResults" where
  "add_result r m = m(code r \<mapsto> (case m (code r) of None \<Rightarrow> [r] | Some rs \<Rightarrow> rs @ [r]))"

fun findFirstIn :: "('k \<rightharpoonup> 'v) \<Rightarrow> 'k list \<Rightarrow> 'v option" where
  "findFirstIn m [] = None"
| "findFirstIn m (k # keys) = (case m k of Some v \<Rightarrow> Some v | None \<Rightarrow> findFirstIn m keys)"

definition contradiction_error :: string where
  "contradiction_error = ''found contradictions in nodes replies on SendTransaction: got success and severe error''"

definition no_response_error :: string where
  "no_response_error = ''expected at least one response on SendTransaction''"

definition aggregateTxResults ::
  "SendTxReturnCode list \<Rightarrow> 'r sendTxResult \<Rightarrow> 'r sendTxResults \<Rightarrow> 'r sendTxResult \<times> string option" where
  "aggregateTxResults order zero resultsByCode =
     (case findFirstIn resultsByCode sendTxSuccessfulCodes of
        Some successResults \<Rightarrow>
          (case findFirstIn resultsByCode sendTxSevereErrors of
             Some severeErrors \<Rightarrow> (hd successResults, Some contradiction_error)
           | None \<Rightarrow> (hd successResults, None))
      | None \<Rightarrow>
          (case findFirstIn resultsByCode sendTxSevereErrors of
             Some severeErrors \<Rightarrow> (hd severeErrors, None)
           | None \<Rightarrow>
               (case findFirstIn resultsByCode order of
                  Some r \<Rightarrow> (hd r, None)
                | None \<Rightarrow> (zero, Some no_response_error))))"

text \<open>\<open>int(math.Ceil(float64(n) * 0.7))\<close>: the rounding of the product never moves it past an integer, so
  the quorum is \<open>7 n / 10\<close> rounded up.\<close>

definition requiredResults :: "nat \<Rightarrow> nat" where
  "requiredResults healthyNodesNum = (7 * healthyNodesNum + 9) div 10"

section \<open>Collecting\<close>

datatype 'r collect_event = CtxCancelled string | Received "'r sendTxResult" | ChannelClosed | SoftTimeout

text \<open>The loop with its variables: the results so far, their number, and whether the soft timer runs. The
  value is \<^term>\<open>None\<close> while the events given do not end it.\<close>

fun collect_loop ::
  "(string \<Rightarrow> SendTxReturnCode) \<Rightarrow> SendTxReturnCode list \<Rightarrow> 'r sendTxResult \<Rightarrow> nat \<Rightarrow> 'r collect_event list \<Rightarrow>
   'r sendTxResults \<Rightarrow> nat \<Rightarrow> bool \<Rightarrow> 'r sendTxResult option" where
  "collect_loop classifyErr order zero required [] m n timer = None"
| "collect_loop classifyErr order zero required (CtxCancelled err # es) m n timer =
     Some \<lparr>res = res zero, code = classifyErr err, error = Some err\<rparr>"
| "collect_loop classifyErr order zero required (Received r # es) m n timer =
     (let m1 = add_result r m in
      if code r \<in> set sendTxSuccessfulCodes \<or> required \<le> Suc n
      then Some (fst (aggregateTxResults order zero m1))
      else collect_loop classifyErr order zero required es m1 (Suc n) True)"
| "collect_loop classifyErr order zero required (ChannelClosed # es) m n timer =
     (let m1 = add_result zero m in
      if code zero \<in> set sendTxSuccessfulCodes \<or> required \<le> Suc n
      then Some (fst (aggregateTxResults order zero m1))
      else collect_loop classifyErr order zero required es m1 (Suc n) True)"
| "collect_loop classifyErr order zero required (SoftTimeout # es) m n timer =
     (if timer then Some (fst (aggregateTxResults order zero m))
      else collect_loop classifyErr order zero required es m n timer)"

definition collectTxResults ::
  "(string \<Rightarrow> SendTxReturnCode) \<Rightarrow> SendTxReturnCode list \<Rightarrow> 'r sendTxResult \<Rightarrow> nat \<Rightarrow> 'r collect_event list \<Rightarrow>
   'r sendTxResult option" where
  "collectTxResults classifyErr order zero healthyNodesNum es =
     collect_loop classifyErr order zero (requiredResults healthyNodesNum) es Map.empty 0 False"

text \<open>The zero \<open>sendTxResult\<close> of a closed channel: code 0 and no error.\<close>

definition zero_result :: "'r \<Rightarrow> 'r sendTxResult" where
  "zero_result z = \<lparr>res = z, code = CodeNum 0, error = None\<rparr>"

section \<open>Sending\<close>

text \<open>\<open>started\<close> is \<open>IfStarted\<close>; the rest are the arguments of \<open>DoAll\<close> and of the collection.\<close>

definition SendTransaction ::
  "(string \<Rightarrow> SendTxReturnCode) \<Rightarrow> SendTxReturnCode list \<Rightarrow> 'r \<Rightarrow> bool \<Rightarrow> string option \<Rightarrow> string \<Rightarrow>
   (nat \<Rightarrow> bool) \<Rightarrow> 'r collect_event list \<Rightarrow> multi_node \<Rightarrow> 'r sendTxResult option" where
  "SendTransaction classifyErr order z started stopErr ctxErr cancelled es c =
     (if started then
        let (calls, err) = DoAll stopErr ctxErr cancelled c;
            healthyNodesNum = length (filter (\<lambda>(i, isSendOnly). \<not> isSendOnly) calls);
            err1 = (if err = None \<and> healthyNodesNum = 0 then Some ErrNodeError else err)
        in (case err1 of
              Some e \<Rightarrow> Some \<lparr>res = z, code = classifyErr e, error = Some e\<rparr>
            | None \<Rightarrow> collectTxResults classifyErr order (zero_result z) healthyNodesNum es)
      else
        let e = ''TransactionSender not started''
        in Some \<lparr>res = z, code = classifyErr e, error = Some e\<rparr>)"

text \<open>\<open>reportSendTxAnomalies\<close>: the invariant violation it counts, if any.\<close>

definition reportSendTxAnomalies ::
  "SendTxReturnCode list \<Rightarrow> 'r \<Rightarrow> 'r sendTxResult list \<Rightarrow> string option" where
  "reportSendTxAnomalies order z txResults =
     (let m = fold add_result txResults Map.empty
      in if txResults = [] then None else snd (aggregateTxResults order (zero_result z) m))"

definition loggable :: "'r sendTxResult \<Rightarrow> 'r \<times> SendTxReturnCode \<times> string" where
  "loggable r = (res r, code r, case error r of None \<Rightarrow> '''' | Some e \<Rightarrow> e)"

definition loggableSendTxResults :: "'r sendTxResults \<Rightarrow> SendTxReturnCode \<rightharpoonup> ('r \<times> SendTxReturnCode \<times> string) list" where
  "loggableSendTxResults m = (\<lambda>k. case m k of None \<Rightarrow> None | Some [] \<Rightarrow> None | Some rs \<Rightarrow> Some (map loggable rs))"

section \<open>Lemmas\<close>

text \<open>The map a list of results builds: the results of each code, in order.\<close>

lemma fold_add_result:
  "fold add_result rs m k =
     (let ks = filter (\<lambda>r. code r = k) rs
      in case m k of Some xs \<Rightarrow> Some (xs @ ks) | None \<Rightarrow> if ks = [] then None else Some ks)"
  by (induction rs arbitrary: m) (auto simp: add_result_def Let_def split: option.splits)

definition by_code :: "'r sendTxResult list \<Rightarrow> 'r sendTxResults" where
  "by_code rs = fold add_result rs Map.empty"

lemma by_code_eq:
  "by_code rs k = (let ks = filter (\<lambda>r. code r = k) rs in if ks = [] then None else Some ks)"
  by (simp add: by_code_def fold_add_result)

lemma by_code_snoc: "add_result r (by_code rs) = by_code (rs @ [r])"
  by (simp add: by_code_def)

lemma findFirstIn_by_code:
  "findFirstIn (by_code rs) ks = None \<longleftrightarrow> (\<forall>r\<in>set rs. code r \<notin> set ks)"
  "findFirstIn (by_code rs) ks = Some xs \<Longrightarrow> xs \<noteq> [] \<and> set xs \<subseteq> {r \<in> set rs. code r \<in> set ks}"
proof -
  show "findFirstIn (by_code rs) ks = None \<longleftrightarrow> (\<forall>r\<in>set rs. code r \<notin> set ks)"
    by (induction ks) (auto simp: by_code_eq Let_def filter_empty_conv split: option.splits if_splits)
  show "findFirstIn (by_code rs) ks = Some xs \<Longrightarrow> xs \<noteq> [] \<and> set xs \<subseteq> {r \<in> set rs. code r \<in> set ks}"
    by (induction ks) (auto simp: by_code_eq Let_def split: option.splits if_splits)
qed

lemma findFirstIn_hd:
  "findFirstIn (by_code rs) ks = Some xs \<Longrightarrow> hd xs \<in> set rs \<and> code (hd xs) \<in> set ks"
  using findFirstIn_by_code(2) [of rs ks xs] hd_in_set [of xs] by blast

definition has_code :: "SendTxReturnCode list \<Rightarrow> 'r sendTxResult list \<Rightarrow> bool" where
  "has_code ks rs \<longleftrightarrow> (\<exists>r\<in>set rs. code r \<in> set ks)"

lemma aggregate_spec:
  assumes "rs \<noteq> []" and "\<forall>r\<in>set rs. code r \<in> set order"
  shows "fst (aggregateTxResults order zero (by_code rs)) \<in> set rs \<and>
    (has_code sendTxSuccessfulCodes rs \<longrightarrow>
       code (fst (aggregateTxResults order zero (by_code rs))) \<in> set sendTxSuccessfulCodes) \<and>
    (\<not> has_code sendTxSuccessfulCodes rs \<and> has_code sendTxSevereErrors rs \<longrightarrow>
       code (fst (aggregateTxResults order zero (by_code rs))) \<in> set sendTxSevereErrors) \<and>
    snd (aggregateTxResults order zero (by_code rs)) =
      (if has_code sendTxSuccessfulCodes rs \<and> has_code sendTxSevereErrors rs then Some contradiction_error else None)"
proof -
  obtain r where r: "r \<in> set rs" using assms(1) by (meson last_in_set)
  have none: "findFirstIn (by_code rs) ks = None \<longleftrightarrow> \<not> has_code ks rs" for ks
    by (auto simp: findFirstIn_by_code(1) has_code_def)
  have "findFirstIn (by_code rs) order \<noteq> None" using r assms(2) by (auto simp: none has_code_def)
  then show ?thesis
    using none [of sendTxSuccessfulCodes] none [of sendTxSevereErrors] findFirstIn_hd [of rs]
    by (auto simp: aggregateTxResults_def split: option.splits)
qed

lemma aggregate_empty: "aggregateTxResults order zero Map.empty = (zero, Some no_response_error)"
  by (simp add: aggregateTxResults_def sendTxSuccessfulCodes_def sendTxSevereErrors_def)
    (induction order; simp)

text \<open>The replies received before an event list ends the collection.\<close>

fun received :: "'r collect_event list \<Rightarrow> 'r sendTxResult list" where
  "received [] = []"
| "received (Received r # es) = r # received es"
| "received (e # es) = received es"

definition ends_with ::
  "(string \<Rightarrow> SendTxReturnCode) \<Rightarrow> SendTxReturnCode list \<Rightarrow> 'r sendTxResult \<Rightarrow> nat \<Rightarrow> 'r collect_event list \<Rightarrow>
   'r sendTxResult list \<Rightarrow> 'r sendTxResult \<Rightarrow> bool" where
  "ends_with classifyErr order zero required es rs r \<longleftrightarrow>
     (\<exists>err. CtxCancelled err \<in> set es \<and> r = \<lparr>res = res zero, code = classifyErr err, error = Some err\<rparr>) \<or>
     (\<exists>got rest. received es = got @ rest \<and> rs @ got \<noteq> [] \<and>
        r = fst (aggregateTxResults order zero (by_code (rs @ got))) \<and>
        (has_code sendTxSuccessfulCodes got \<or> required \<le> length (rs @ got) \<or> SoftTimeout \<in> set es))"

lemma ends_with_skip:
  "received (e # es) = received es \<Longrightarrow> ends_with c ord z req es rs r \<Longrightarrow> ends_with c ord z req (e # es) rs r"
  unfolding ends_with_def by (auto 0 3)

lemma ends_with_received:
  assumes "ends_with c ord z req es (rs @ [x]) r"
  shows "ends_with c ord z req (Received x # es) rs r"
proof -
  consider (cancelled) err where "CtxCancelled err \<in> set es" "r = \<lparr>res = res z, code = c err, error = Some err\<rparr>"
    | (got) got rest where "received es = got @ rest" "r = fst (aggregateTxResults ord z (by_code ((rs @ [x]) @ got)))"
      "has_code sendTxSuccessfulCodes got \<or> req \<le> length ((rs @ [x]) @ got) \<or> SoftTimeout \<in> set es"
    using assms unfolding ends_with_def by blast
  then show ?thesis
  proof cases
    case cancelled
    then show ?thesis unfolding ends_with_def by auto
  next
    case got
    then have "received (Received x # es) = (x # got) @ rest"
      "r = fst (aggregateTxResults ord z (by_code (rs @ (x # got))))"
      "has_code sendTxSuccessfulCodes (x # got) \<or> req \<le> length (rs @ (x # got)) \<or> SoftTimeout \<in> set (Received x # es)"
      by (auto simp: has_code_def)
    then show ?thesis unfolding ends_with_def by blast
  qed
qed

lemma collect_loop_result:
  assumes "ChannelClosed \<notin> set es"
    and "collect_loop c ord z req es (by_code rs) (length rs) (rs \<noteq> []) = Some r"
  shows "ends_with c ord z req es rs r"
  using assms
proof (induction es arbitrary: rs)
  case (Cons e es)
  show ?case
  proof (cases e)
    case (CtxCancelled err)
    then show ?thesis using Cons.prems unfolding ends_with_def by auto
  next
    case (Received x)
    show ?thesis
    proof (cases "code x \<in> set sendTxSuccessfulCodes \<or> req \<le> Suc (length rs)")
      case True
      then have "r = fst (aggregateTxResults ord z (by_code (rs @ [x])))"
        "has_code sendTxSuccessfulCodes [x] \<or> req \<le> length (rs @ [x])"
        using Cons.prems Received by (auto simp: by_code_snoc has_code_def)
      moreover have "received (e # es) = [x] @ received es" using Received by simp
      ultimately show ?thesis unfolding ends_with_def by blast
    next
      case False
      then have "collect_loop c ord z req es (by_code (rs @ [x])) (length (rs @ [x])) (rs @ [x] \<noteq> []) = Some r"
        using Cons.prems Received by (simp add: by_code_snoc)
      then have "ends_with c ord z req es (rs @ [x]) r" using Cons.IH Cons.prems(1) by simp
      then show ?thesis unfolding Received by (rule ends_with_received)
    qed
  next
    case ChannelClosed
    then show ?thesis using Cons.prems by simp
  next
    case SoftTimeout
    show ?thesis
    proof (cases "rs = []")
      case True
      then have "ends_with c ord z req es [] r" using Cons SoftTimeout by simp
      then show ?thesis using True SoftTimeout by (simp add: ends_with_skip)
    next
      case False
      then have "r = fst (aggregateTxResults ord z (by_code (rs @ [])))"
        using Cons.prems SoftTimeout by simp
      moreover have "received (e # es) = [] @ received (e # es)" "rs @ [] \<noteq> []" "SoftTimeout \<in> set (e # es)"
        using False SoftTimeout by simp_all
      ultimately show ?thesis unfolding ends_with_def by blast
    qed
  qed
qed simp

text \<open>Receiving from the closed channel is receiving its zero value.\<close>

fun closed_as :: "'r sendTxResult \<Rightarrow> 'r collect_event \<Rightarrow> 'r collect_event" where
  "closed_as zero ChannelClosed = Received zero"
| "closed_as zero e = e"

definition replies :: "'r sendTxResult \<Rightarrow> 'r collect_event list \<Rightarrow> 'r sendTxResult list" where
  "replies zero es = received (map (closed_as zero) es)"

lemma collect_loop_closed_as: "collect_loop c ord z req (map (closed_as z) es) m n t = collect_loop c ord z req es m n t"
proof (induction es arbitrary: m n t)
  case (Cons e es)
  then show ?case by (cases e) (simp_all add: Let_def)
qed simp

lemma closed_as_open: "ChannelClosed \<notin> set (map (closed_as z) es)"
proof (induction es)
  case (Cons e es)
  then show ?case by (cases e) simp_all
qed simp

lemma closed_as_events:
  "CtxCancelled err \<in> closed_as z ` set es \<longleftrightarrow> CtxCancelled err \<in> set es"
  "SoftTimeout \<in> closed_as z ` set es \<longleftrightarrow> SoftTimeout \<in> set es"
proof -
  have "CtxCancelled err = closed_as z e \<longleftrightarrow> e = CtxCancelled err" "SoftTimeout = closed_as z e \<longleftrightarrow> e = SoftTimeout" for e
    by (cases e; auto)+
  then show "CtxCancelled err \<in> closed_as z ` set es \<longleftrightarrow> CtxCancelled err \<in> set es"
    "SoftTimeout \<in> closed_as z ` set es \<longleftrightarrow> SoftTimeout \<in> set es"
    by (auto simp: image_iff)
qed

lemma replies_cases: "r \<in> set (replies z es) \<Longrightarrow> r \<in> set (received es) \<or> r = z \<and> ChannelClosed \<in> set es"
proof (induction es)
  case (Cons e es)
  then show ?case by (cases e) (auto simp: replies_def)
qed (simp add: replies_def)

lemma collect_loop_progress:
  "n < req \<Longrightarrow> req \<le> n + length (received es) \<Longrightarrow> collect_loop c ord z req es m n timer \<noteq> None"
proof (induction es arbitrary: m n timer)
  case (Cons e es)
  then show ?case by (cases e) (auto simp: Let_def)
qed simp

lemma requiredResults_bounds: "0 < h \<Longrightarrow> 0 < requiredResults h \<and> requiredResults h \<le> h"
  by (auto simp: requiredResults_def)

lemma by_code_Nil: "by_code [] = Map.empty"
  by (simp add: by_code_def)

section \<open>Properties\<close>

text \<open>The aggregation of a non-empty set of replies returns one of them: a success when there is
  one, otherwise a severe error when there is one, otherwise any; and it reports the contradiction exactly
  when both a success and a severe error are among them.\<close>

theorem aggregateTxResults_priority:
  assumes "rs \<noteq> []" and "\<forall>r\<in>set rs. code r \<in> set order"
  shows "case aggregateTxResults order zero (fold add_result rs Map.empty) of (r, crit) \<Rightarrow>
     r \<in> set rs \<and>
     (has_code sendTxSuccessfulCodes rs \<longrightarrow> code r \<in> set sendTxSuccessfulCodes) \<and>
     (\<not> has_code sendTxSuccessfulCodes rs \<and> has_code sendTxSevereErrors rs \<longrightarrow> code r \<in> set sendTxSevereErrors) \<and>
     crit = (if has_code sendTxSuccessfulCodes rs \<and> has_code sendTxSevereErrors rs then Some contradiction_error else None)"
  using aggregate_spec [OF assms, of zero] by (simp add: by_code_def case_prod_beta)

theorem aggregateTxResults_priority_witness:
  "let a = \<lparr>res = 1 :: int, code = Fatal, error = Some ''e''\<rparr>; b = \<lparr>res = 2, code = Successful, error = None\<rparr>
   in code (fst (aggregateTxResults [Fatal, Successful] (zero_result 0) (fold add_result [a, b] Map.empty))) \<in> set sendTxSuccessfulCodes"
  using aggregateTxResults_priority [of "[\<lparr>res = 1 :: int, code = Fatal, error = Some ''e''\<rparr>, \<lparr>res = 2, code = Successful, error = None\<rparr>]"
      "[Fatal, Successful]" "zero_result 0"]
  by (simp add: Let_def case_prod_beta has_code_def sendTxSuccessfulCodes_def)

text \<open>C17. The collection returns either the error of a cancelled context or one of the replies received so far, where receiving
  from the channel once it is closed counts as a reply with the zero value; it stops on the first success, at the quorum or on
  the soft timeout, and if a success was received it returns a success. So while the channel is open what it returns is a reply of
  a node or the context's error.\<close>

theorem collectTxResults_result:
  assumes "\<forall>r\<in>set (replies zero es). code r \<in> set order"
    and "collectTxResults classifyErr order zero healthy es = Some r"
  shows "(\<exists>err. CtxCancelled err \<in> set es \<and> r = \<lparr>res = res zero, code = classifyErr err, error = Some err\<rparr>) \<or>
    (\<exists>got rest. replies zero es = got @ rest \<and> r \<in> set got \<and>
       (r \<in> set (received es) \<or> r = zero \<and> ChannelClosed \<in> set es) \<and>
       (has_code sendTxSuccessfulCodes got \<longrightarrow> code r \<in> set sendTxSuccessfulCodes) \<and>
       (has_code sendTxSuccessfulCodes got \<or> requiredResults healthy \<le> length got \<or> SoftTimeout \<in> set es))"
proof -
  let ?es = "map (closed_as zero) es"
  have "ends_with classifyErr order zero (requiredResults healthy) ?es [] r"
    by (rule collect_loop_result [OF closed_as_open])
      (use assms(2) in \<open>simp_all add: collectTxResults_def by_code_Nil collect_loop_closed_as\<close>)
  then consider (cancelled) err where "CtxCancelled err \<in> set ?es"
      "r = \<lparr>res = res zero, code = classifyErr err, error = Some err\<rparr>"
    | (got) got rest where "replies zero es = got @ rest" "got \<noteq> []"
      "r = fst (aggregateTxResults order zero (by_code got))"
      "has_code sendTxSuccessfulCodes got \<or> requiredResults healthy \<le> length got \<or> SoftTimeout \<in> set ?es"
    unfolding ends_with_def replies_def by auto
  then show ?thesis
  proof cases
    case cancelled
    then show ?thesis by (auto simp: closed_as_events)
  next
    case got
    then have "\<forall>r\<in>set got. code r \<in> set order" using assms(1) by simp
    note spec = aggregate_spec [OF got(2) this, of zero]
    then have "r \<in> set (replies zero es)" using got(1,3) by simp
    then have "r \<in> set (received es) \<or> r = zero \<and> ChannelClosed \<in> set es" by (rule replies_cases)
    with spec got show ?thesis by (simp add: closed_as_events) blast
  qed
qed

theorem collectTxResults_result_witness:
  "let a = \<lparr>res = 1 :: int, code = Retryable, error = Some ''e''\<rparr>; b = \<lparr>res = 2, code = Successful, error = None\<rparr>
   in \<exists>r. collectTxResults (\<lambda>e. Unknown) [Retryable, Successful] (zero_result 0) 3 [Received a, Received b] = Some r \<and> r \<in> {a, b}"
proof -
  define a b where "a = \<lparr>res = 1 :: int, code = Retryable, error = Some ''e''\<rparr>"
    and "b = \<lparr>res = 2 :: int, code = Successful, error = None\<rparr>"
  obtain r where r: "collectTxResults (\<lambda>e. Unknown) [Retryable, Successful] (zero_result 0) 3 [Received a, Received b] = Some r"
    by (simp add: collectTxResults_def requiredResults_def a_def b_def sendTxSuccessfulCodes_def)
  have "r \<in> set (received [Received a, Received b])"
    using collectTxResults_result [OF _ r] by (auto simp: a_def b_def replies_def)
  then have "r \<in> {a, b}" by simp
  with r show ?thesis by (auto simp: a_def b_def)
qed

text \<open>The collection ends no later than when every healthy node has replied: a quorum is at
  least one reply and at most as many as there are nodes.\<close>

theorem collectTxResults_ends:
  assumes "0 < healthy" and "healthy \<le> length (received es)"
  shows "\<exists>r. collectTxResults classifyErr order zero healthy es = Some r"
proof -
  have "collect_loop classifyErr order zero (requiredResults healthy) es Map.empty 0 False \<noteq> None"
    by (rule collect_loop_progress) (use assms requiredResults_bounds [of healthy] in auto)
  then show ?thesis by (simp add: collectTxResults_def)
qed

theorem collectTxResults_ends_witness:
  "\<exists>r. collectTxResults (\<lambda>e. Unknown) [] (zero_result (0 :: int)) 1 [Received \<lparr>res = 1, code = Retryable, error = None\<rparr>] = Some r"
  by (rule collectTxResults_ends) simp_all

text \<open>When the context is cancelled and the senders have given up before the collection looks, the
  closed channel can be received from: the zero value is counted as a reply, and with a quorum of one the
  caller gets an empty result with code 0 and no error.\<close>

theorem closed_channel_counts_as_reply:
  assumes "requiredResults healthy \<le> 1" and "CodeNum 0 \<in> set order"
  shows "collectTxResults classifyErr order (zero_result z) healthy [ChannelClosed] = Some \<lparr>res = z, code = CodeNum 0, error = None\<rparr>"
proof -
  have "fst (aggregateTxResults order (zero_result z) (by_code [zero_result z])) \<in> set [zero_result z]"
    using aggregate_spec [of "[zero_result z]" order "zero_result z"] assms(2) by (simp add: zero_result_def)
  then show ?thesis
    using assms(1) by (simp add: collectTxResults_def by_code_def zero_result_def)
qed

theorem closed_channel_counts_as_reply_witness:
  "collectTxResults (\<lambda>e. Unknown) [CodeNum 0] (zero_result (0 :: int)) 1 [ChannelClosed] = Some \<lparr>res = 0, code = CodeNum 0, error = None\<rparr>"
  by (rule closed_channel_counts_as_reply) (simp_all add: requiredResults_def)

text \<open>On a running sender and an undisturbed broadcast, \<open>SendTransaction\<close> answers \<open>ErrNodeError\<close> exactly
  when no primary node is live, and otherwise collects with the number of live primary nodes; send-only
  nodes never count.\<close>

theorem SendTransaction_healthy:
  assumes "\<forall>k. \<not> cancelled k"
  shows "SendTransaction classifyErr order z True None ctxErr cancelled es c =
    (if liveNodes (primaryNodes c) = []
     then Some \<lparr>res = z, code = classifyErr ErrNodeError, error = Some ErrNodeError\<rparr>
     else collectTxResults classifyErr order (zero_result z) (length (liveNodes (primaryNodes c))) es)"
proof -
  have "DoAll None ctxErr cancelled c =
      (map (\<lambda>i. (i, False)) (liveNodes (primaryNodes c)) @ map (\<lambda>i. (i, True)) (liveSendOnly c),
       if liveNodes (primaryNodes c) = [] then Some ErrNodeError else None)"
    by (rule DoAll_undisturbed) (use assms in simp)
  then show ?thesis by (simp add: SendTransaction_def Let_def filter_map comp_def)
qed

theorem SendTransaction_healthy_witness:
  "SendTransaction (\<lambda>e. Retryable) [] (0 :: int) True None ''ctx'' (\<lambda>k. False) [] (demo_mn\<lparr>primaryNodes := []\<rparr>) =
     Some \<lparr>res = 0, code = Retryable, error = Some ErrNodeError\<rparr>"
  by (subst SendTransaction_healthy) (simp_all add: liveNodes_def)

end
