(* ===== verification/Sender_System.thy ===== *)
theory Sender_System
  imports Transaction_Sender "HOL-Library.Multiset"
begin

text \<open>
  \<open>multinode/transaction_sender.go\<close>: the goroutines of one call of \<open>SendTransaction\<close> and the channels between them. The caller
  launches a goroutine per node, one that closes the channels and one that reports anomalies, and collects replies; \<open>send_step\<close>
  interleaves them with the cancellation of the caller's context and with \<open>Close\<close>. Both channels are unbuffered, so that a send
  and its receive are one step; a send on a closed channel, the closing of a closed channel and a \<open>Done\<close> on an empty wait group
  panic.
\<close>

section \<open>The goroutines\<close>

datatype 'r primary = Broadcasting | SendingResult "'r sendTxResult" | SendingReport "'r sendTxResult" | PrimaryDone

datatype closer = NotLaunched | Waiting | ClosedReport | CloserDone

datatype 'r reporter = NoReporter | Ranging "'r sendTxResult list" | Reported "'r sendTxResult list"

text \<open>The caller: \<open>Launching\<close> has the calls of \<open>DoAll\<close> still to make (whether each is send-only), \<open>Collecting\<close> the variables of
  \<open>collectTxResults\<close>.\<close>

datatype 'r caller = Launching "bool list" | Collecting "'r sendTxResults" nat bool | Returned "'r sendTxResult"

text \<open>\<open>s_sendOnly\<close> counts the running goroutines of send-only nodes, \<open>s_events\<close> lists what \<open>collectTxResults\<close> received and
  \<open>s_violations\<close> the invariant violations counted.\<close>

record 'r send_run =
  s_caller :: "'r caller"
  s_primaries :: "'r primary list"
  s_sendOnly :: nat
  s_wg :: nat
  s_closer :: closer
  s_reporter :: "'r reporter"
  s_ctxDone :: bool
  s_chStop :: bool
  s_resultsClosed :: bool
  s_reportClosed :: bool
  s_events :: "'r collect_event list"
  s_violations :: "string list"
  s_panicked :: bool

text \<open>\<open>se_err\<close> is the error \<open>DoAll\<close> returns; the rest are the arguments of the collection.\<close>

record 'r send_env =
  se_classifyErr :: "string \<Rightarrow> SendTxReturnCode"
  se_order :: "SendTxReturnCode list"
  se_zero :: 'r
  se_err :: "string option"

definition wg_done :: "'r send_run \<Rightarrow> 'r send_run" where
  "wg_done s = (if s_wg s = 0 then s\<lparr>s_panicked := True\<rparr> else s\<lparr>s_wg := s_wg s - 1\<rparr>)"

section \<open>The caller\<close>

text \<open>The function given to \<open>DoAll\<close>.\<close>

definition launch_call :: "bool \<Rightarrow> bool list \<Rightarrow> 'r send_run \<Rightarrow> 'r send_run" where
  "launch_call isSendOnly rest s =
     (if isSendOnly then s\<lparr>s_caller := Launching rest, s_wg := s_wg s + 1, s_sendOnly := s_sendOnly s + 1\<rparr>
      else s\<lparr>s_caller := Launching rest, s_primaries := s_primaries s @ [Broadcasting]\<rparr>)"

definition caller_returns :: "'r sendTxResult \<Rightarrow> 'r send_run \<Rightarrow> 'r send_run" where
  "caller_returns r s = s\<lparr>s_caller := Returned r, s_ctxDone := True\<rparr>"

text \<open>What follows \<open>DoAll\<close>, up to the collection.\<close>

definition after_DoAll :: "'r send_env \<Rightarrow> 'r send_run \<Rightarrow> 'r send_run" where
  "after_DoAll E s =
     (let s1 = s\<lparr>s_wg := s_wg s + 1, s_closer := Waiting\<rparr>;
          err = (if se_err E = None \<and> s_primaries s = [] then Some ErrNodeError else se_err E)
      in case err of
           Some e \<Rightarrow> caller_returns \<lparr>res = se_zero E, code = se_classifyErr E e, error = Some e\<rparr> s1
         | None \<Rightarrow> s1\<lparr>s_wg := s_wg s1 + 1, s_reporter := Ranging [], s_caller := Collecting Map.empty 0 False\<rparr>)"

text \<open>One round of the loop of \<open>collectTxResults\<close>.\<close>

fun collect_round ::
  "(string \<Rightarrow> SendTxReturnCode) \<Rightarrow> SendTxReturnCode list \<Rightarrow> 'r sendTxResult \<Rightarrow> nat \<Rightarrow> 'r collect_event \<Rightarrow> 'r caller \<Rightarrow> 'r caller" where
  "collect_round classifyErr order zero required e (Collecting m n timer) =
     (case e of
        CtxCancelled err \<Rightarrow> Returned \<lparr>res = res zero, code = classifyErr err, error = Some err\<rparr>
      | SoftTimeout \<Rightarrow> if timer then Returned (fst (aggregateTxResults order zero m)) else Collecting m n timer
      | _ \<Rightarrow>
          let r = (case e of Received r \<Rightarrow> r | _ \<Rightarrow> zero); m1 = add_result r m
          in if code r \<in> set sendTxSuccessfulCodes \<or> required \<le> Suc n
             then Returned (fst (aggregateTxResults order zero m1))
             else Collecting m1 (Suc n) True)"
| "collect_round classifyErr order zero required e c = c"

definition collect_one :: "'r send_env \<Rightarrow> nat \<Rightarrow> 'r collect_event \<Rightarrow> 'r caller \<Rightarrow> 'r caller" where
  "collect_one E healthy =
     collect_round (se_classifyErr E) (se_order E) (zero_result (se_zero E)) (requiredResults healthy)"

definition collect_receives :: "'r send_env \<Rightarrow> 'r collect_event \<Rightarrow> 'r send_run \<Rightarrow> 'r send_run" where
  "collect_receives E e s =
     (let s1 = s\<lparr>s_events := s_events s @ [e]\<rparr>
      in case collect_one E (length (s_primaries s)) e (s_caller s) of
           Returned r \<Rightarrow> caller_returns r s1
         | c \<Rightarrow> s1\<lparr>s_caller := c\<rparr>)"

section \<open>The other goroutines\<close>

definition set_primary :: "nat \<Rightarrow> 'r primary \<Rightarrow> 'r send_run \<Rightarrow> 'r send_run" where
  "set_primary i p s = s\<lparr>s_primaries := (s_primaries s)[i := p]\<rparr>"

text \<open>What the endpoint answers, whatever becomes of the caller's context.\<close>

definition broadcastTxAsync :: "'r \<times> SendTxReturnCode \<times> string option \<Rightarrow> 'r sendTxResult" where
  "broadcastTxAsync answer = (case answer of (r, c, err) \<Rightarrow> \<lparr>res = r, code = c, error = err\<rparr>)"

definition send_result :: "'r send_env \<Rightarrow> nat \<Rightarrow> 'r sendTxResult \<Rightarrow> 'r send_run \<Rightarrow> 'r send_run" where
  "send_result E i r s =
     (if s_resultsClosed s then s\<lparr>s_panicked := True\<rparr>
      else set_primary i (SendingReport r) (collect_receives E (Received r) s))"

definition send_report :: "nat \<Rightarrow> 'r sendTxResult \<Rightarrow> 'r send_run \<Rightarrow> 'r send_run" where
  "send_report i r s =
     (if s_reportClosed s then s\<lparr>s_panicked := True\<rparr>
      else
        (case s_reporter s of
           Ranging rs \<Rightarrow> set_primary i PrimaryDone (s\<lparr>s_reporter := Ranging (rs @ [r])\<rparr>)
         | _ \<Rightarrow> s))"

definition close_report :: "'r send_run \<Rightarrow> 'r send_run" where
  "close_report s =
     (if s_reportClosed s then s\<lparr>s_panicked := True\<rparr> else s\<lparr>s_reportClosed := True, s_closer := ClosedReport\<rparr>)"

definition close_results :: "'r send_run \<Rightarrow> 'r send_run" where
  "close_results s =
     (if s_resultsClosed s then s\<lparr>s_panicked := True\<rparr>
      else wg_done (s\<lparr>s_resultsClosed := True, s_closer := CloserDone\<rparr>))"

text \<open>The end of \<open>reportSendTxAnomalies\<close>, when its channel is closed.\<close>

definition report_ends :: "'r send_env \<Rightarrow> 'r sendTxResult list \<Rightarrow> 'r send_run \<Rightarrow> 'r send_run" where
  "report_ends E rs s =
     wg_done (s\<lparr>s_reporter := Reported rs,
       s_violations := s_violations s @
         (case reportSendTxAnomalies (se_order E) (se_zero E) rs of None \<Rightarrow> [] | Some e \<Rightarrow> [e])\<rparr>)"

fun is_collecting :: "'r caller \<Rightarrow> bool" where
  "is_collecting (Collecting m n timer) \<longleftrightarrow> True"
| "is_collecting _ \<longleftrightarrow> False"

fun is_ranging :: "'r reporter \<Rightarrow> bool" where
  "is_ranging (Ranging rs) \<longleftrightarrow> True"
| "is_ranging _ \<longleftrightarrow> False"

definition primary_at :: "'r send_run \<Rightarrow> nat \<Rightarrow> 'r primary \<Rightarrow> bool" where
  "primary_at s i p \<longleftrightarrow> i < length (s_primaries s) \<and> s_primaries s ! i = p"

definition all_done :: "'r send_run \<Rightarrow> bool" where
  "all_done s \<longleftrightarrow> list_all (\<lambda>p. p = PrimaryDone) (s_primaries s)"

section \<open>Steps\<close>

text \<open>The steps of the goroutines themselves.\<close>

inductive goroutine_step :: "'r send_env \<Rightarrow> 'r send_run \<Rightarrow> 'r send_run \<Rightarrow> bool" for E where
  launch: "s_caller s = Launching (b # rest) \<Longrightarrow> goroutine_step E s (launch_call b rest s)"
| launched: "s_caller s = Launching [] \<Longrightarrow> goroutine_step E s (after_DoAll E s)"
| send_only_done: "0 < s_sendOnly s \<Longrightarrow> goroutine_step E s (wg_done (s\<lparr>s_sendOnly := s_sendOnly s - 1\<rparr>))"
| replied: "primary_at s i Broadcasting \<Longrightarrow> goroutine_step E s (set_primary i (SendingResult (broadcastTxAsync answer)) s)"
| result_sent: "primary_at s i (SendingResult r) \<Longrightarrow> is_collecting (s_caller s) \<or> s_resultsClosed s \<Longrightarrow>
    goroutine_step E s (send_result E i r s)"
| result_dropped: "primary_at s i (SendingResult r) \<Longrightarrow> s_ctxDone s \<Longrightarrow> goroutine_step E s (set_primary i PrimaryDone s)"
| report_sent: "primary_at s i (SendingReport r) \<Longrightarrow> is_ranging (s_reporter s) \<or> s_reportClosed s \<Longrightarrow>
    goroutine_step E s (send_report i r s)"
| report_dropped: "primary_at s i (SendingReport r) \<Longrightarrow> s_chStop s \<Longrightarrow> goroutine_step E s (set_primary i PrimaryDone s)"
| report_closed: "s_closer s = Waiting \<Longrightarrow> all_done s \<Longrightarrow> goroutine_step E s (close_report s)"
| results_closed: "s_closer s = ClosedReport \<Longrightarrow> goroutine_step E s (close_results s)"
| reporter_ends: "s_reporter s = Ranging rs \<Longrightarrow> s_reportClosed s \<Longrightarrow> goroutine_step E s (report_ends E rs s)"
| collect_cancelled: "is_collecting (s_caller s) \<Longrightarrow> s_ctxDone s \<Longrightarrow> goroutine_step E s (collect_receives E (CtxCancelled err) s)"
| collect_closed: "is_collecting (s_caller s) \<Longrightarrow> s_resultsClosed s \<Longrightarrow> goroutine_step E s (collect_receives E ChannelClosed s)"
| soft_timeout: "s_caller s = Collecting m n True \<Longrightarrow> goroutine_step E s (collect_receives E SoftTimeout s)"

text \<open>A run interleaves them with the cancellation of the caller's context and with \<open>Close\<close>.\<close>

inductive send_step :: "'r send_env \<Rightarrow> 'r send_run \<Rightarrow> 'r send_run \<Rightarrow> bool" for E where
  goroutine: "goroutine_step E s t \<Longrightarrow> send_step E s t"
| cancelled: "\<not> s_ctxDone s \<Longrightarrow> send_step E s (s\<lparr>s_ctxDone := True\<rparr>)"
| stopped: "\<not> s_chStop s \<Longrightarrow> send_step E s (s\<lparr>s_chStop := True, s_ctxDone := True\<rparr>)"

text \<open>A call of \<open>SendTransaction\<close> on a started sender; \<open>calls\<close> are the calls that \<open>DoAll\<close> makes.\<close>

definition new_send :: "bool list \<Rightarrow> 'r send_run" where
  "new_send calls =
     \<lparr>s_caller = Launching calls, s_primaries = [], s_sendOnly = 0, s_wg = 0, s_closer = NotLaunched, s_reporter = NoReporter,
      s_ctxDone = False, s_chStop = False, s_resultsClosed = False, s_reportClosed = False, s_events = [], s_violations = [],
      s_panicked = False\<rparr>"

definition send_init :: "'r send_run \<Rightarrow> bool" where
  "send_init s \<longleftrightarrow> (\<exists>calls. s = new_send calls)"

interpretation sending: transition_system send_init "send_step E" for E .

text \<open>\<open>NewTransactionSender\<close>, with the settings that matter here, and when the function \<open>Close\<close> gives to \<open>StopOnce\<close> returns: it has
  closed \<open>chStop\<close>, and the wait group is empty.\<close>

record tx_sender =
  ts_chainID :: string
  ts_chainFamily :: string
  ts_sendTxSoftTimeout :: int

definition NewTransactionSender :: "string \<Rightarrow> string \<Rightarrow> int \<Rightarrow> tx_sender" where
  "NewTransactionSender chainID chainFamily sendTxSoftTimeout =
     \<lparr>ts_chainID = chainID, ts_chainFamily = chainFamily,
      ts_sendTxSoftTimeout = (if sendTxSoftTimeout = 0 then QueryTimeout div 2 else sendTxSoftTimeout)\<rparr>"

definition sender_Close_returns :: "'r send_run \<Rightarrow> bool" where
  "sender_Close_returns s \<longleftrightarrow> s_chStop s \<and> s_wg s = 0"

text \<open>Everything the call has started has ended.\<close>

definition send_finished :: "'r send_run \<Rightarrow> bool" where
  "send_finished s \<longleftrightarrow>
     (\<exists>r. s_caller s = Returned r) \<and> all_done s \<and> s_sendOnly s = 0 \<and> s_closer s = CloserDone \<and> \<not> is_ranging (s_reporter s)"

section \<open>The collection as a fold\<close>

definition collected :: "'r send_env \<Rightarrow> nat \<Rightarrow> 'r collect_event list \<Rightarrow> 'r caller" where
  "collected E healthy es = fold (collect_one E healthy) es (Collecting Map.empty 0 False)"

lemma collected_simps [simp]:
  "collected E h [] = Collecting Map.empty 0 False"
  "collected E h (es @ [e]) = collect_one E h e (collected E h es)"
  by (simp_all add: collected_def)

lemma collect_one_Returned [simp]: "collect_one E h e (Returned r) = Returned r"
  by (simp add: collect_one_def)

lemma fold_collect_Returned [simp]: "fold (collect_one E h) es (Returned r) = Returned r"
  by (induction es) auto

lemma collect_one_not_Launching [simp]: "collect_one E h e (Collecting m n t) \<noteq> Launching bs"
  by (auto simp: collect_one_def Let_def split: collect_event.splits if_splits)

text \<open>The rounds are those of \<open>collect_loop\<close>.\<close>

lemma fold_collect_loop:
  assumes "fold (collect_one E h) es (Collecting m n t) = Returned r"
  shows "collect_loop (se_classifyErr E) (se_order E) (zero_result (se_zero E)) (requiredResults h) es m n t = Some r"
  using assms
proof (induction es arbitrary: m n t)
  case (Cons e es)
  show ?case
  proof (cases "collect_one E h e (Collecting m n t)")
    case (Collecting m1 n1 t1)
    then have "fold (collect_one E h) es (Collecting m1 n1 t1) = Returned r" using Cons.prems by simp
    note ih = Cons.IH [OF this]
    from Collecting ih show ?thesis
      by (cases e) (auto simp: collect_one_def Let_def split: if_splits)
  next
    case (Returned r1)
    then have "r1 = r" using Cons.prems by simp
    with Returned show ?thesis by (cases e) (auto simp: collect_one_def Let_def split: if_splits)
  qed simp
qed simp

lemma collected_result:
  "collected E h es = Returned r \<Longrightarrow>
   collectTxResults (se_classifyErr E) (se_order E) (zero_result (se_zero E)) h es = Some r"
  unfolding collected_def collectTxResults_def by (rule fold_collect_loop)

lemma received_append [simp]: "received (es @ fs) = received es @ received fs"
  by (induction es rule: received.induct) auto

text \<open>A success ends the collection, so it is the last reply received.\<close>

definition succeeds :: "'r sendTxResult \<Rightarrow> bool" where
  "succeeds r \<longleftrightarrow> code r \<in> set sendTxSuccessfulCodes"

lemma collect_one_continues:
  "collect_one E h e (Collecting m n t) = Collecting m1 n1 t1 \<Longrightarrow> list_all (\<lambda>r. \<not> succeeds r) (received [e])"
  by (cases e) (auto simp: collect_one_def succeeds_def Let_def split: if_splits)

lemma collected_no_success:
  "collected E h es = Collecting m n t \<Longrightarrow> list_all (\<lambda>r. \<not> succeeds r) (received es)"
proof (induction es arbitrary: m n t rule: rev_induct)
  case (snoc e es)
  show ?case
  proof (cases "collected E h es")
    case (Collecting m0 n0 t0)
    then show ?thesis using snoc collect_one_continues [of E h e m0 n0 t0] by (auto simp del: received.simps)
  qed (use snoc.prems in \<open>simp_all add: collect_one_def\<close>)
qed simp

lemma collected_success_last:
  assumes "es = [] \<or> is_collecting (collected E h (butlast es))" and "has_code sendTxSuccessfulCodes (received es)"
  obtains pre x where "received es = pre @ [x]" and "list_all (\<lambda>r. \<not> succeeds r) pre"
proof (cases es rule: rev_cases)
  case (snoc fs e)
  then obtain m n t where "collected E h fs = Collecting m n t" using assms(1) by (cases "collected E h fs") auto
  then have none: "list_all (\<lambda>r. \<not> succeeds r) (received fs)" by (rule collected_no_success)
  then obtain x where "e = Received x"
    using assms(2) snoc by (cases e) (auto simp: has_code_def succeeds_def list_all_iff)
  then show ?thesis using that snoc none by simp
qed (use assms(2) in \<open>simp add: has_code_def\<close>)

section \<open>Invariant\<close>

fun report_of :: "'r primary \<Rightarrow> 'r sendTxResult list" where
  "report_of (SendingReport r) = [r]"
| "report_of _ = []"

definition pending :: "'r primary list \<Rightarrow> 'r sendTxResult multiset" where
  "pending ps = mset (concat (map report_of ps))"

fun reports :: "'r reporter \<Rightarrow> 'r sendTxResult list" where
  "reports NoReporter = []"
| "reports (Ranging rs) = rs"
| "reports (Reported rs) = rs"

lemma pending_update:
  "i < length ps \<Longrightarrow> pending (ps[i := p]) + mset (report_of (ps ! i)) = pending ps + mset (report_of p)"
  by (induction ps arbitrary: i) (auto simp: pending_def split: nat.splits)

lemma pending_append [simp]: "pending (ps @ qs) = pending ps + pending qs" "pending [] = {#}" "pending [p] = mset (report_of p)"
  by (simp_all add: pending_def)

definition chan_inv :: "'r send_run \<Rightarrow> bool" where
  "chan_inv s \<longleftrightarrow>
     \<not> s_panicked s \<and> (s_reportClosed s \<longleftrightarrow> s_closer s \<in> {ClosedReport, CloserDone}) \<and>
     (s_resultsClosed s \<longleftrightarrow> s_closer s = CloserDone) \<and> (s_reportClosed s \<longrightarrow> all_done s) \<and>
     s_wg s = s_sendOnly s + (if s_closer s \<in> {Waiting, ClosedReport} then 1 else 0) +
       (if is_ranging (s_reporter s) then 1 else 0)"

definition caller_inv :: "'r send_env \<Rightarrow> 'r send_run \<Rightarrow> bool" where
  "caller_inv E s \<longleftrightarrow>
     (s_closer s = NotLaunched \<longleftrightarrow> (\<exists>bs. s_caller s = Launching bs)) \<and>
     (\<forall>r. s_caller s = Returned r \<longrightarrow> s_ctxDone s) \<and>
     (s_closer s = NotLaunched \<longrightarrow> s_reporter s = NoReporter) \<and>
     (if s_reporter s = NoReporter then s_events s = [] \<and> \<not> is_collecting (s_caller s)
      else s_caller s = collected E (length (s_primaries s)) (s_events s) \<and>
        (s_events s = [] \<or> is_collecting (collected E (length (s_primaries s)) (butlast (s_events s)))))"

definition report_inv :: "'r send_env \<Rightarrow> 'r send_run \<Rightarrow> bool" where
  "report_inv E s \<longleftrightarrow>
     mset (reports (s_reporter s)) + pending (s_primaries s) \<subseteq># mset (received (s_events s)) \<and>
     (\<forall>rs. s_reporter s = Reported rs \<longrightarrow> s_reportClosed s) \<and>
     s_violations s =
       (case s_reporter s of
          Reported rs \<Rightarrow> (case reportSendTxAnomalies (se_order E) (se_zero E) rs of None \<Rightarrow> [] | Some e \<Rightarrow> [e])
        | _ \<Rightarrow> [])"

text \<open>What the collection receives, in a state in which it runs.\<close>

lemma collect_receives_simps [simp]:
  "s_primaries (collect_receives E e s) = s_primaries s" "s_sendOnly (collect_receives E e s) = s_sendOnly s"
  "s_wg (collect_receives E e s) = s_wg s" "s_closer (collect_receives E e s) = s_closer s"
  "s_reporter (collect_receives E e s) = s_reporter s" "s_chStop (collect_receives E e s) = s_chStop s"
  "s_resultsClosed (collect_receives E e s) = s_resultsClosed s" "s_reportClosed (collect_receives E e s) = s_reportClosed s"
  "s_events (collect_receives E e s) = s_events s @ [e]" "s_violations (collect_receives E e s) = s_violations s"
  "s_panicked (collect_receives E e s) = s_panicked s"
  "s_caller (collect_receives E e s) = collect_one E (length (s_primaries s)) e (s_caller s)"
  "s_ctxDone (collect_receives E e s) \<longleftrightarrow>
     s_ctxDone s \<or> (\<exists>r. collect_one E (length (s_primaries s)) e (s_caller s) = Returned r)"
  by (auto simp: collect_receives_def caller_returns_def Let_def split: caller.splits)

lemma set_primary_simps [simp]:
  "s_caller (set_primary i p s) = s_caller s" "s_sendOnly (set_primary i p s) = s_sendOnly s"
  "s_wg (set_primary i p s) = s_wg s" "s_closer (set_primary i p s) = s_closer s"
  "s_reporter (set_primary i p s) = s_reporter s" "s_ctxDone (set_primary i p s) = s_ctxDone s"
  "s_chStop (set_primary i p s) = s_chStop s" "s_resultsClosed (set_primary i p s) = s_resultsClosed s"
  "s_reportClosed (set_primary i p s) = s_reportClosed s" "s_events (set_primary i p s) = s_events s"
  "s_violations (set_primary i p s) = s_violations s" "s_panicked (set_primary i p s) = s_panicked s"
  "s_primaries (set_primary i p s) = (s_primaries s)[i := p]"
  by (simp_all add: set_primary_def)

lemma running_not_all_done: "primary_at s i p \<Longrightarrow> p \<noteq> PrimaryDone \<Longrightarrow> \<not> all_done s"
  by (auto simp: primary_at_def all_done_def list_all_length)

lemma collect_receives_all_done [simp]: "all_done (collect_receives E e s) = all_done s"
  by (simp add: all_done_def)

lemmas goroutine_defs = launch_call_def after_DoAll_def caller_returns_def send_result_def send_report_def close_report_def
  close_results_def report_ends_def wg_done_def

lemma step_chan_inv:
  assumes "goroutine_step E s t" and "chan_inv s" and "caller_inv E s"
  shows "chan_inv t"
  using assms
proof (cases rule: goroutine_step.cases)
  case (result_sent i r)
  then have "\<not> s_reportClosed s" using running_not_all_done [of s i] assms(2) by (auto simp: chan_inv_def)
  then show ?thesis using result_sent assms(2) by (auto simp: chan_inv_def goroutine_defs)
next
  case (report_sent i r)
  then have "\<not> s_reportClosed s" using running_not_all_done [of s i] assms(2) by (auto simp: chan_inv_def)
  then show ?thesis using report_sent assms(2) by (auto simp: chan_inv_def goroutine_defs split: reporter.splits)
next
  case (replied i r)
  then have "\<not> s_reportClosed s" using running_not_all_done [of s i] assms(2) by (auto simp: chan_inv_def)
  then show ?thesis using replied assms(2) by (auto simp: chan_inv_def)
next
  case (result_dropped i r)
  then have "\<not> s_reportClosed s" using running_not_all_done [of s i] assms(2) by (auto simp: chan_inv_def)
  then show ?thesis using result_dropped assms(2) by (auto simp: chan_inv_def)
next
  case (report_dropped i r)
  then have "\<not> s_reportClosed s" using running_not_all_done [of s i] assms(2) by (auto simp: chan_inv_def)
  then show ?thesis using report_dropped assms(2) by (auto simp: chan_inv_def)
qed (auto simp: chan_inv_def caller_inv_def goroutine_defs all_done_def Let_def split: option.splits)

lemma caller_inv_frame:
  assumes "caller_inv E s" and "s_caller t = s_caller s" and "s_events t = s_events s"
    and "length (s_primaries t) = length (s_primaries s)" and "s_ctxDone s \<longrightarrow> s_ctxDone t"
    and "s_closer t = NotLaunched \<longleftrightarrow> s_closer s = NotLaunched" and "s_reporter t = NoReporter \<longleftrightarrow> s_reporter s = NoReporter"
  shows "caller_inv E t"
  using assms unfolding caller_inv_def by metis

lemma collect_receives_caller_inv:
  "caller_inv E s \<Longrightarrow> is_collecting (s_caller s) \<Longrightarrow> caller_inv E (collect_receives E e s)"
  by (cases "s_caller s") (auto simp: caller_inv_def)

lemma step_caller_inv:
  assumes "goroutine_step E s t" and "chan_inv s" and "caller_inv E s"
  shows "caller_inv E t"
  using assms
proof (cases rule: goroutine_step.cases)
  case (launch b rest)
  then show ?thesis using assms(3) by (auto simp: caller_inv_def launch_call_def)
next
  case launched
  then show ?thesis
    using assms(3) by (auto simp: caller_inv_def after_DoAll_def caller_returns_def Let_def split: option.splits)
next
  case (result_sent i r)
  then have "\<not> s_resultsClosed s" using running_not_all_done [of s i] assms(2) by (auto simp: chan_inv_def)
  then show ?thesis
    using result_sent collect_receives_caller_inv [OF assms(3), of "Received r"]
    by (auto simp: send_result_def intro: caller_inv_frame)
next
  case (report_sent i r)
  then show ?thesis
    by (cases "s_reporter s") (auto simp: send_report_def intro: caller_inv_frame [OF assms(3)])
next
  case (soft_timeout m n)
  then show ?thesis using collect_receives_caller_inv [OF assms(3)] by simp
qed (auto simp: close_report_def close_results_def report_ends_def wg_done_def intro: caller_inv_frame [OF assms(3)]
    collect_receives_caller_inv [OF assms(3)])

lemma pending_step:
  "primary_at s i p \<Longrightarrow> pending ((s_primaries s)[i := q]) + mset (report_of p) = pending (s_primaries s) + mset (report_of q)"
  using pending_update [of i "s_primaries s" q] by (simp add: primary_at_def)

lemma report_inv_frame:
  assumes "report_inv E s" and "s_reporter t = s_reporter s" and "pending (s_primaries t) = pending (s_primaries s)"
    and "s_events t = s_events s @ es" and "s_reportClosed s \<longrightarrow> s_reportClosed t" and "s_violations t = s_violations s"
  shows "report_inv E t"
proof -
  have "mset (reports (s_reporter t)) + pending (s_primaries t) \<subseteq># mset (received (s_events s))"
    using assms(1-3) by (simp add: report_inv_def)
  also have "\<dots> \<subseteq># mset (received (s_events t))" by (simp add: assms(4))
  finally show ?thesis using assms unfolding report_inv_def by simp
qed

lemma step_report_inv:
  assumes "goroutine_step E s t" and "chan_inv s" and "caller_inv E s" and "report_inv E s"
  shows "report_inv E t"
  using assms
proof (cases rule: goroutine_step.cases)
  case (launch b rest)
  then show ?thesis by (auto simp: launch_call_def intro: report_inv_frame [OF assms(4)])
next
  case launched
  then have "s_reporter s = NoReporter" using assms(3) by (auto simp: caller_inv_def)
  then show ?thesis
    using launched assms(4) by (auto simp: report_inv_def after_DoAll_def caller_returns_def Let_def split: option.splits)
next
  case (reporter_ends rs)
  then show ?thesis using assms(4) by (auto simp: report_inv_def report_ends_def wg_done_def)
next
  case (replied i r)
  then show ?thesis using pending_step [OF replied(2), of "SendingResult (broadcastTxAsync r)"] assms(4) by (simp add: report_inv_def)
next
  case (result_sent i r)
  then have "\<not> s_resultsClosed s" using running_not_all_done [of s i] assms(2) by (auto simp: chan_inv_def)
  moreover have "pending ((s_primaries s)[i := SendingReport r]) = add_mset r (pending (s_primaries s))"
    using pending_step [OF result_sent(2), of "SendingReport r"] by simp
  ultimately show ?thesis using result_sent assms(4) by (auto simp: report_inv_def goroutine_defs)
next
  case (result_dropped i r)
  then show ?thesis using pending_step [OF result_dropped(2), of PrimaryDone] assms(4) by (simp add: report_inv_def)
next
  case (report_sent i r)
  then have "\<not> s_reportClosed s" using running_not_all_done [of s i] assms(2) by (auto simp: chan_inv_def)
  moreover have "pending (s_primaries s) = add_mset r (pending ((s_primaries s)[i := PrimaryDone]))"
    using pending_step [OF report_sent(2), of PrimaryDone] by simp
  ultimately show ?thesis
    using report_sent assms(4) by (cases "s_reporter s") (auto simp: report_inv_def goroutine_defs)
next
  case (report_dropped i r)
  then have "pending (s_primaries s) = add_mset r (pending ((s_primaries s)[i := PrimaryDone]))"
    using pending_step [OF report_dropped(2), of PrimaryDone] by simp
  then show ?thesis
    using report_dropped assms(4) by (auto simp: report_inv_def dest: mset_subset_eq_insertD)
qed (auto simp: close_report_def close_results_def wg_done_def intro: report_inv_frame [OF assms(4)])

definition send_inv :: "'r send_env \<Rightarrow> 'r send_run \<Rightarrow> bool" where
  "send_inv E s \<longleftrightarrow> chan_inv s \<and> caller_inv E s \<and> report_inv E s"

lemma init_send_inv: "send_init s \<Longrightarrow> send_inv E s"
  by (auto simp: send_init_def new_send_def send_inv_def chan_inv_def caller_inv_def report_inv_def)

lemma outside_inv:
  "chan_inv s \<Longrightarrow> chan_inv (s\<lparr>s_chStop := b, s_ctxDone := True\<rparr>)"
  "caller_inv E s \<Longrightarrow> caller_inv E (s\<lparr>s_chStop := b, s_ctxDone := True\<rparr>)"
  "report_inv E s \<Longrightarrow> report_inv E (s\<lparr>s_chStop := b, s_ctxDone := True\<rparr>)"
  "chan_inv s \<Longrightarrow> chan_inv (s\<lparr>s_ctxDone := True\<rparr>)"
  "caller_inv E s \<Longrightarrow> caller_inv E (s\<lparr>s_ctxDone := True\<rparr>)"
  "report_inv E s \<Longrightarrow> report_inv E (s\<lparr>s_ctxDone := True\<rparr>)"
  by (simp_all add: chan_inv_def all_done_def) (erule caller_inv_frame report_inv_frame; simp)+

lemma step_send_inv:
  assumes "send_step E s t" and "send_inv E s"
  shows "send_inv E t"
  using assms
proof (cases rule: send_step.cases)
  case goroutine
  then show ?thesis using assms(2) by (auto simp: send_inv_def intro: step_chan_inv step_caller_inv step_report_inv)
qed (auto simp: send_inv_def intro: outside_inv)

lemma reach_send_inv: "sending.reach E s \<Longrightarrow> send_inv E s"
  by (erule sending.reach_invariant) (auto intro: init_send_inv step_send_inv)

section \<open>Progress\<close>

fun primary_work :: "'r primary \<Rightarrow> nat" where
  "primary_work Broadcasting = 3"
| "primary_work (SendingResult r) = 2"
| "primary_work (SendingReport r) = 1"
| "primary_work PrimaryDone = 0"

fun closer_work :: "closer \<Rightarrow> nat" where
  "closer_work Waiting = 2"
| "closer_work ClosedReport = 1"
| "closer_work _ = 0"

fun caller_work :: "nat \<Rightarrow> 'r caller \<Rightarrow> nat" where
  "caller_work h (Launching bs) = 6 * length bs + h + 10"
| "caller_work h (Collecting m n timer) = 1 + (requiredResults h - n)"
| "caller_work h (Returned r) = 0"

definition send_work :: "'r send_run \<Rightarrow> nat" where
  "send_work s =
     caller_work (length (s_primaries s)) (s_caller s) + sum_list (map primary_work (s_primaries s)) + s_sendOnly s +
     closer_work (s_closer s) + (if is_ranging (s_reporter s) then 1 else 0) +
     (if s_ctxDone s then 0 else 1) + (if s_chStop s then 0 else 1)"

lemma primary_work_update:
  "i < length ps \<Longrightarrow> sum_list (map primary_work (ps[i := p])) + primary_work (ps ! i) = sum_list (map primary_work ps) + primary_work p"
  by (induction ps arbitrary: i) (auto split: nat.splits)

lemma set_primary_work:
  "primary_at s i p \<Longrightarrow> primary_work q < primary_work p \<Longrightarrow> send_work (set_primary i q s) < send_work s"
  using primary_work_update [of i "s_primaries s" q] by (auto simp: send_work_def primary_at_def)

lemma collect_one_work:
  "(case e of SoftTimeout \<Rightarrow> t | _ \<Rightarrow> True) \<Longrightarrow>
   caller_work h (collect_one E h e (Collecting m n t)) < caller_work h (Collecting m n t)"
  by (cases e) (auto simp: collect_one_def Let_def)

lemma collect_receives_work:
  assumes "s_caller s = Collecting m n t" and "case e of SoftTimeout \<Rightarrow> t | _ \<Rightarrow> True"
  shows "send_work (collect_receives E e s) < send_work s"
  using collect_one_work [OF assms(2), of "length (s_primaries s)" E m n] assms(1) by (auto simp: send_work_def)

lemma is_collectingE:
  assumes "is_collecting c"
  obtains m n t where "c = Collecting m n t"
  using assms by (cases c) auto

lemma requiredResults_le: "requiredResults h \<le> h"
  by (auto simp: requiredResults_def)

lemma after_DoAll_work: "s_caller s = Launching [] \<Longrightarrow> caller_inv E s \<Longrightarrow> send_work (after_DoAll E s) < send_work s"
  using requiredResults_le [of "length (s_primaries s)"]
  by (auto simp: send_work_def after_DoAll_def caller_returns_def caller_inv_def Let_def split: option.splits)

lemma step_work:
  assumes "goroutine_step E s t" and "send_inv E s"
  shows "send_work t < send_work s"
proof -
  have inv: "chan_inv s" "caller_inv E s" using assms(2) by (auto simp: send_inv_def)
  show ?thesis
    using assms(1)
  proof (cases rule: goroutine_step.cases)
    case (launch b rest)
    then show ?thesis by (auto simp: send_work_def launch_call_def)
  next
    case launched
    then show ?thesis using after_DoAll_work inv(2) by blast
  next
    case send_only_done
    then show ?thesis by (auto simp: send_work_def wg_done_def)
  next
    case (result_sent i r)
    then have "\<not> s_resultsClosed s" using running_not_all_done [of s i] inv(1) by (auto simp: chan_inv_def)
    then have t: "t = set_primary i (SendingReport r) (collect_receives E (Received r) s)" "is_collecting (s_caller s)"
      using result_sent by (simp_all add: send_result_def)
    have "send_work t < send_work (collect_receives E (Received r) s)"
      unfolding t by (rule set_primary_work [where p = "SendingResult r"]) (use result_sent in \<open>simp_all add: primary_at_def\<close>)
    also have "\<dots> < send_work s" using t(2) by (auto elim!: is_collectingE intro: collect_receives_work)
    finally show ?thesis .
  next
    case (report_sent i r)
    then obtain rs where rs: "s_reporter s = Ranging rs" "\<not> s_reportClosed s"
      using running_not_all_done [of s i] inv(1) by (cases "s_reporter s") (auto simp: chan_inv_def)
    then have "t = set_primary i PrimaryDone (s\<lparr>s_reporter := Ranging (rs @ [r])\<rparr>)" using report_sent by (simp add: send_report_def)
    moreover have "send_work \<dots> < send_work (s\<lparr>s_reporter := Ranging (rs @ [r])\<rparr>)"
      by (rule set_primary_work [where p = "SendingReport r"]) (use report_sent in \<open>simp_all add: primary_at_def\<close>)
    ultimately show ?thesis using rs by (simp add: send_work_def)
  next
    case (replied i r)
    then show ?thesis by (auto intro: set_primary_work)
  next
    case (result_dropped i r)
    then show ?thesis by (auto intro: set_primary_work)
  next
    case (report_dropped i r)
    then show ?thesis by (auto intro: set_primary_work)
  next
    case (collect_cancelled err)
    then show ?thesis by (auto elim!: is_collectingE intro: collect_receives_work)
  next
    case collect_closed
    then show ?thesis by (auto elim!: is_collectingE intro: collect_receives_work)
  next
    case (soft_timeout m n)
    then show ?thesis by (auto intro: collect_receives_work)
  next
    case report_closed
    then show ?thesis using inv(1) by (auto simp: chan_inv_def send_work_def close_report_def)
  next
    case results_closed
    then show ?thesis using inv(1) by (auto simp: chan_inv_def send_work_def close_results_def wg_done_def)
  next
    case (reporter_ends rs)
    then show ?thesis by (auto simp: send_work_def report_ends_def wg_done_def)
  qed
qed

lemma send_step_work: "send_step E s t \<Longrightarrow> send_inv E s \<Longrightarrow> send_work t < send_work s"
  by (erule send_step.cases) (auto simp: send_work_def [of "_\<lparr>s_ctxDone := _\<rparr>"] send_work_def [of "_\<lparr>s_chStop := _, s_ctxDone := _\<rparr>"]
    send_work_def [of s] intro: step_work)

lemma running_primary:
  assumes "\<not> all_done s"
  obtains i p where "primary_at s i p" and "p \<noteq> PrimaryDone"
  using assms by (auto simp: all_done_def primary_at_def list_all_length)

lemma primary_proceeds:
  assumes "send_inv E s" and "primary_at s i p" and "p \<noteq> PrimaryDone" and "s_closer s \<noteq> NotLaunched"
  shows "\<exists>t. goroutine_step E s t"
proof (cases p)
  case Broadcasting
  then show ?thesis using replied [of s i E] assms(2) by blast
next
  case (SendingResult r)
  show ?thesis
  proof (cases "s_caller s")
    case (Launching bs)
    then show ?thesis using assms(1,4) by (auto simp: send_inv_def caller_inv_def)
  next
    case (Collecting m n t)
    then show ?thesis using result_sent [of s i r E] assms(2) SendingResult by auto
  next
    case (Returned x)
    then have "s_ctxDone s" using assms(1) by (auto simp: send_inv_def caller_inv_def)
    then show ?thesis using result_dropped [of s i r E] assms(2) SendingResult by blast
  qed
next
  case (SendingReport r)
  have "r \<in># pending (s_primaries s)"
    using assms(2) SendingReport unfolding pending_def primary_at_def by (force simp: in_set_conv_nth)
  then have "s_reporter s \<noteq> NoReporter"
    using assms(1) by (auto simp: send_inv_def caller_inv_def report_inv_def)
  moreover have "\<not> s_reportClosed s"
    using assms(1) running_not_all_done [OF assms(2,3)] by (auto simp: send_inv_def chan_inv_def)
  ultimately have "is_ranging (s_reporter s)"
    using assms(1) by (cases "s_reporter s") (auto simp: send_inv_def report_inv_def)
  then show ?thesis using report_sent [of s i r E] assms(2) SendingReport by blast
qed (use assms(3) in simp)

lemma send_progress:
  assumes inv: "send_inv E s" and "\<not> send_finished s"
  shows "\<exists>t. goroutine_step E s t"
proof (cases "s_closer s = NotLaunched")
  case True
  then obtain bs where bs: "s_caller s = Launching bs" using inv by (auto simp: send_inv_def caller_inv_def)
  then show ?thesis using launch [of s _ _ E] launched [of s E] by (cases bs) blast+
next
  case False
  show ?thesis
  proof (cases "all_done s")
    case False
    then show ?thesis using primary_proceeds [OF inv] \<open>s_closer s \<noteq> NotLaunched\<close> by (blast elim: running_primary)
  next
    case True
    consider "s_closer s = Waiting" | "s_closer s = ClosedReport" | (c) "s_closer s = CloserDone"
      using False by (cases "s_closer s") auto
    then show ?thesis
    proof cases
      case c
      then have closed: "s_reportClosed s" "s_resultsClosed s" using inv by (auto simp: send_inv_def chan_inv_def)
      have "\<not> (\<exists>bs. s_caller s = Launching bs)" using inv False by (auto simp: send_inv_def caller_inv_def)
      then have "0 < s_sendOnly s \<or> is_ranging (s_reporter s) \<or> is_collecting (s_caller s)"
        using assms(2) True c by (cases "s_caller s") (auto simp: send_finished_def)
      then show ?thesis
        using send_only_done [of s E] collect_closed [of s E] reporter_ends [of s _ E] closed
        by (cases "s_reporter s") auto
    qed (use report_closed [of s E] results_closed [of s E] True in blast)+
  qed
qed

section \<open>A run\<close>

text \<open>Two primary nodes: the first replies with a fatal error, the second with a success.\<close>

definition demo_send_env :: "int send_env" where
  "demo_send_env = \<lparr>se_classifyErr = (\<lambda>e. Unknown), se_order = [Fatal, Successful], se_zero = 0, se_err = None\<rparr>"

definition demo_fatal :: "int sendTxResult" where
  "demo_fatal = broadcastTxAsync (1, Fatal, Some ''e'')"

definition demo_success :: "int sendTxResult" where
  "demo_success = broadcastTxAsync (2, Successful, None)"

definition demo_collected :: "int send_run" where
  "demo_collected =
     send_result demo_send_env 1 demo_success (send_result demo_send_env 0 demo_fatal
       (set_primary 1 (SendingResult demo_success) (set_primary 0 (SendingResult demo_fatal)
         (after_DoAll demo_send_env (launch_call False [] (launch_call False [False] (new_send [False, False])))))))"

definition demo_reported :: "int send_run" where
  "demo_reported =
     close_results (report_ends demo_send_env [demo_fatal, demo_success]
       (close_report (send_report 1 demo_success (send_report 0 demo_fatal demo_collected))))"

lemmas demo_send_defs = broadcastTxAsync_def demo_collected_def demo_reported_def demo_send_env_def demo_fatal_def demo_success_def new_send_def
  launch_call_def after_DoAll_def caller_returns_def send_result_def send_report_def close_report_def close_results_def
  report_ends_def wg_done_def collect_one_def zero_result_def requiredResults_def sendTxSuccessfulCodes_def

lemma reach_demo_collected: "sending.reach demo_send_env demo_collected"
proof -
  let ?E = demo_send_env
  let ?s0 = "new_send [False, False] :: int send_run"
  let ?s1 = "launch_call False [False] ?s0"
  let ?s2 = "launch_call False [] ?s1"
  let ?s3 = "after_DoAll ?E ?s2"
  let ?s4 = "set_primary 0 (SendingResult demo_fatal) ?s3"
  let ?s5 = "set_primary 1 (SendingResult demo_success) ?s4"
  let ?s6 = "send_result ?E 0 demo_fatal ?s5"
  have "sending.reach ?E ?s0" by (rule sending.reach_init) (auto simp: send_init_def)
  then have "sending.reach ?E ?s1" by (rule sending.reach_step) (rule goroutine, rule launch, simp add: new_send_def)
  then have "sending.reach ?E ?s2" by (rule sending.reach_step) (rule goroutine, rule launch, simp add: launch_call_def)
  then have "sending.reach ?E ?s3" by (rule sending.reach_step) (rule goroutine, rule launched, simp add: launch_call_def)
  then have "sending.reach ?E ?s4"
    by (rule sending.reach_step) (rule goroutine, unfold demo_fatal_def demo_success_def, rule replied, simp add: primary_at_def demo_send_defs)
  then have "sending.reach ?E ?s5"
    by (rule sending.reach_step) (rule goroutine, unfold demo_fatal_def demo_success_def, rule replied, simp add: primary_at_def demo_send_defs)
  then have "sending.reach ?E ?s6"
    by (rule sending.reach_step) (rule goroutine, rule result_sent, simp_all add: primary_at_def demo_send_defs)
  then show ?thesis unfolding demo_collected_def
    by (rule sending.reach_step) (rule goroutine, rule result_sent, simp_all add: primary_at_def demo_send_defs)
qed

lemma reach_demo_reported: "sending.reach demo_send_env demo_reported"
proof -
  let ?E = demo_send_env
  let ?s1 = "send_report 0 demo_fatal demo_collected"
  let ?s2 = "send_report 1 demo_success ?s1"
  let ?s3 = "close_report ?s2"
  have "sending.reach ?E ?s1"
    by (rule sending.reach_step [OF reach_demo_collected]) (rule goroutine, rule report_sent, simp_all add: primary_at_def demo_send_defs)
  then have "sending.reach ?E ?s2"
    by (rule sending.reach_step) (rule goroutine, rule report_sent, simp_all add: primary_at_def demo_send_defs)
  then have "sending.reach ?E ?s3"
    by (rule sending.reach_step) (rule goroutine, rule report_closed, simp_all add: all_done_def demo_send_defs)
  then have "sending.reach ?E (report_ends ?E [demo_fatal, demo_success] ?s3)"
    by (rule sending.reach_step) (rule goroutine, rule reporter_ends, simp_all add: demo_send_defs)
  then show ?thesis unfolding demo_reported_def
    by (rule sending.reach_step) (rule goroutine, rule results_closed, simp add: demo_send_defs)
qed

lemma demo_violation: "s_violations demo_reported = [contradiction_error]"
  by (simp add: demo_send_defs reportSendTxAnomalies_def add_result_def aggregateTxResults_def sendTxSevereErrors_def)

section \<open>Properties\<close>

text \<open>C18. In every interleaving of the goroutines of a \<open>SendTransaction\<close> with the cancellation of its context and with \<open>Close\<close>,
  nothing is sent on a closed channel, no channel is closed twice and the wait group never goes below zero; once the call has
  returned and the wait group is empty, so that \<open>Close\<close> may return, no goroutine of the call is left, those of the primary nodes
  included, which are not counted by the wait group; and what the call returns is the error of \<open>DoAll\<close> or what
  \<open>collectTxResults\<close> makes of the events it received.\<close>

theorem sender_goroutines:
  assumes "sending.reach E s"
  shows "\<not> s_panicked s \<and>
    (\<forall>r. s_caller s = Returned r \<and> sender_Close_returns s \<longrightarrow> send_finished s) \<and>
    (\<forall>r. s_caller s = Returned r \<and> s_reporter s \<noteq> NoReporter \<longrightarrow>
       collectTxResults (se_classifyErr E) (se_order E) (zero_result (se_zero E)) (length (s_primaries s)) (s_events s) = Some r)"
proof (intro conjI allI impI)
  have inv: "send_inv E s" by (rule reach_send_inv [OF assms])
  show "\<not> s_panicked s" using inv by (simp add: send_inv_def chan_inv_def)
  fix r
  show "send_finished s" if "s_caller s = Returned r \<and> sender_Close_returns s"
  proof -
    have "s_closer s = CloserDone" using inv that
      by (cases "s_closer s") (auto simp: send_inv_def chan_inv_def caller_inv_def sender_Close_returns_def)
    then show ?thesis using inv that
      by (auto simp: send_inv_def chan_inv_def sender_Close_returns_def send_finished_def split: if_splits)
  qed
  show "collectTxResults (se_classifyErr E) (se_order E) (zero_result (se_zero E)) (length (s_primaries s)) (s_events s) = Some r"
    if "s_caller s = Returned r \<and> s_reporter s \<noteq> NoReporter"
    by (rule collected_result) (use inv that in \<open>simp add: send_inv_def caller_inv_def\<close>)
qed

theorem sender_goroutines_witness:
  "\<not> s_panicked demo_reported \<and> s_caller demo_reported = Returned demo_success \<and>
   collectTxResults (\<lambda>e. Unknown) [Fatal, Successful] (zero_result 0) 2 [Received demo_fatal, Received demo_success] = Some demo_success"
proof -
  have s: "s_caller demo_reported = Returned demo_success" "s_reporter demo_reported \<noteq> NoReporter"
    "length (s_primaries demo_reported) = 2" "s_events demo_reported = [Received demo_fatal, Received demo_success]"
    by (simp_all add: demo_send_defs add_result_def aggregateTxResults_def sendTxSevereErrors_def Let_def)
  from sender_goroutines [OF reach_demo_reported] show ?thesis
    unfolding s(3,4) using s(1,2) by (simp add: demo_send_env_def)
qed

text \<open>C37. A \<open>SendTransaction\<close> and all it starts end: as long as the calls of the nodes return, there is no infinite interleaving
  of their steps, with or without cancellations, and unless the call has returned and every goroutine has ended one of the
  goroutines has a step of its own, with no need for a cancellation or for \<open>Close\<close>: there is no deadlock between the two channels,
  the wait group and the closing goroutine.\<close>

theorem sender_ends:
  assumes "sending.reach E s"
  shows "(send_finished s \<or> (\<exists>t. goroutine_step E s t)) \<and> \<not> (\<exists>f. f 0 = s \<and> (\<forall>i. send_step E (f i) (f (Suc i))))"
proof (intro conjI notI)
  show "send_finished s \<or> (\<exists>t. goroutine_step E s t)" using send_progress [OF reach_send_inv [OF assms]] by blast
  assume "\<exists>f. f 0 = s \<and> (\<forall>i. send_step E (f i) (f (Suc i)))"
  then obtain f where f: "f 0 = s" "\<And>i. send_step E (f i) (f (Suc i))" by blast
  have r: "sending.reach E (f i)" for i
    by (induction i) (use assms f in \<open>auto intro: sending.reach_step\<close>)
  have less: "send_work (f (Suc i)) < send_work (f i)" for i by (rule send_step_work [OF f(2) reach_send_inv [OF r]])
  have "send_work (f i) + i \<le> send_work (f 0)" for i
  proof (induction i)
    case (Suc i)
    from Suc less [of i] show ?case by linarith
  qed simp
  from this [of "Suc (send_work (f 0))"] show False by simp
qed

theorem sender_ends_witness:
  "(\<exists>t. goroutine_step demo_send_env demo_collected t) \<and> \<not> send_finished demo_collected \<and> send_finished demo_reported"
proof -
  have "\<not> send_finished demo_collected" "send_finished demo_reported"
    by (simp_all add: send_finished_def all_done_def demo_send_defs)
  then show ?thesis using sender_ends [OF reach_demo_collected] by blast
qed

text \<open>C40. Only replies that the caller still received are examined for contradictions, each at most once: a violation is
  counted only when the severe error came before the success, which ended the collection. A severe error that a node returns
  after the first success is never reported, since the goroutine that holds it gives up when the caller's context is cancelled.\<close>

theorem late_contradiction_unreported:
  assumes "sending.reach E s" and "\<forall>r\<in>set (received (s_events s)). code r \<in> set (se_order E)"
  shows "mset (reports (s_reporter s)) \<subseteq># mset (received (s_events s)) \<and>
    (s_violations s \<noteq> [] \<longrightarrow>
       (\<exists>pre x. received (s_events s) = pre @ [x] \<and> code x \<in> set sendTxSuccessfulCodes \<and> has_code sendTxSevereErrors pre))"
proof (intro conjI impI)
  have inv: "send_inv E s" by (rule reach_send_inv [OF assms(1)])
  show sub: "mset (reports (s_reporter s)) \<subseteq># mset (received (s_events s))"
    using inv by (auto simp: send_inv_def report_inv_def intro: subset_mset.order_trans [OF mset_subset_eq_add_left])
  assume "s_violations s \<noteq> []"
  then obtain rs e where rs: "s_reporter s = Reported rs" "reportSendTxAnomalies (se_order E) (se_zero E) rs = Some e"
    using inv by (auto simp: send_inv_def report_inv_def split: reporter.splits option.splits)
  have in_received: "set rs \<subseteq> set (received (s_events s))"
    using set_mset_mono [OF sub] rs(1) by simp
  have codes: "\<forall>r\<in>set rs. code r \<in> set (se_order E)" using assms(2) in_received by blast
  have "rs \<noteq> []" "snd (aggregateTxResults (se_order E) (zero_result (se_zero E)) (by_code rs)) = Some e"
    using rs(2) by (auto simp: reportSendTxAnomalies_def by_code_def Let_def split: if_splits)
  then have "has_code sendTxSuccessfulCodes rs" "has_code sendTxSevereErrors rs"
    using aggregate_spec [OF _ codes, of "zero_result (se_zero E)"] by (auto split: if_splits)
  then have both: "has_code sendTxSuccessfulCodes (received (s_events s))" "has_code sendTxSevereErrors (received (s_events s))"
    using in_received by (auto simp: has_code_def)
  have "s_events s = [] \<or> is_collecting (collected E (length (s_primaries s)) (butlast (s_events s)))"
    using inv rs(1) by (simp add: send_inv_def caller_inv_def)
  then obtain pre x where "received (s_events s) = pre @ [x]" "list_all (\<lambda>r. \<not> succeeds r) pre"
    using both(1) by (rule collected_success_last)
  then show "\<exists>pre x. received (s_events s) = pre @ [x] \<and> code x \<in> set sendTxSuccessfulCodes \<and> has_code sendTxSevereErrors pre"
    using both by (auto simp: has_code_def succeeds_def list_all_iff sendTxSuccessfulCodes_def sendTxSevereErrors_def)
qed

theorem late_contradiction_unreported_witness:
  "\<exists>pre x. received (s_events demo_reported) = pre @ [x] \<and> code x \<in> set sendTxSuccessfulCodes \<and> has_code sendTxSevereErrors pre"
proof -
  have "\<forall>r\<in>set (received (s_events demo_reported)). code r \<in> set (se_order demo_send_env)"
    by (simp add: demo_send_defs)
  from late_contradiction_unreported [OF reach_demo_reported this] show ?thesis using demo_violation by simp
qed

end
