(* ===== verification/Fees.thy ===== *)
theory Fees
  imports Go_Prelude Complex_Main
begin

text \<open>
  \<open>chains/fees/fees.go\<close>: fee limits and bumped fee prices. A price is an unbounded integer (\<open>*big.Int\<close>); only
  the current price may be nil. \<open>decimal_lib\<close> stands for the decimal package and \<open>bigmath\<close> for the two
  functions of \<open>chainlink-common\<close> the file calls; \<open>decimal_laws\<close> and \<open>bigmath_laws\<close> state what their
  documentation promises. The message of an error is left out: an error is the sentinel it wraps.
\<close>

section \<open>The libraries\<close>

record ('d, 'f) decimal_lib =
  dec_NewFromBigInt :: "int \<Rightarrow> 'd"
  dec_NewFromFloat32 :: "'f \<Rightarrow> 'd"
  dec_Mul :: "'d \<Rightarrow> 'd \<Rightarrow> 'd"
  dec_GreaterThan :: "'d \<Rightarrow> 'd \<Rightarrow> bool"
  dec_BigInt :: "'d \<Rightarrow> int"

record bigmath =
  bm_Min :: "int \<Rightarrow> int \<Rightarrow> int"
  bm_Max :: "int \<Rightarrow> int \<Rightarrow> int"

text \<open>Decimals are exact: \<open>v\<close> is the number a decimal stands for, and \<open>BigInt\<close> its integer part.\<close>

definition decimal_laws :: "('d, 'f) decimal_lib \<Rightarrow> ('d \<Rightarrow> rat) \<Rightarrow> bool" where
  "decimal_laws D v \<longleftrightarrow>
     (\<forall>x. v (dec_NewFromBigInt D x) = of_int x) \<and>
     (\<forall>a b. v (dec_Mul D a b) = v a * v b) \<and>
     (\<forall>a b. dec_GreaterThan D a b \<longleftrightarrow> v b < v a) \<and>
     (\<forall>a. 0 \<le> v a \<longrightarrow> dec_BigInt D a = \<lfloor>v a\<rfloor>)"


section \<open>Fees\<close>

datatype fee_error =
    ErrBumpFeeExceedsLimit
  | ErrBump
  | ErrConnectivity
  | ErrFeeLimitTooLow
  | OtherFeeErr string

definition MaxUint64 :: int where
  "MaxUint64 = 18446744073709551615"

definition multiplier_overflow :: string where
  "multiplier_overflow = ''integer overflow when applying multiplier''"

definition ApplyMultiplier :: "('d, 'f) decimal_lib \<Rightarrow> 64 word \<Rightarrow> 'f \<Rightarrow> fee_error + 64 word" where
  "ApplyMultiplier D feeLimit multiplier =
     (let result = dec_Mul D (dec_NewFromBigInt D (uint feeLimit)) (dec_NewFromFloat32 D multiplier)
      in if dec_GreaterThan D result (dec_NewFromBigInt D MaxUint64) then Inl (OtherFeeErr multiplier_overflow)
         else Inr (word_of_int (dec_BigInt D result)))"

text \<open>\<open>100+percentage\<close> is computed in \<open>uint16\<close>, before the conversion.\<close>

definition AddPercentage :: "int \<Rightarrow> 16 word \<Rightarrow> int" where
  "AddPercentage val percentage = val * uint (100 + percentage) div 100"


definition CalculateFee :: "bigmath \<Rightarrow> int \<Rightarrow> int \<Rightarrow> int \<Rightarrow> int" where
  "CalculateFee B maxFeePrice defaultPrice maxFeePriceConfigured =
     (let maxFeePriceAllowed = bm_Min B maxFeePrice maxFeePriceConfigured
      in bm_Min B defaultPrice maxFeePriceAllowed)"




section \<open>Lemmas\<close>


lemma uint16_add_100_wraps: "65436 \<le> uint (p :: 16 word) \<Longrightarrow> uint (100 + p) = uint p - 65436"
proof -
  assume p: "65436 \<le> uint p"
  have "uint p < 65536" using uint_bounded [of p] by simp
  with p have "(100 + uint p) mod 65536 = uint p - 65436"
    by (subst mod_pos_geq) auto
  then show ?thesis by (simp add: uint_word_ariths)
qed


text \<open>From 65436 percent on the factor has wrapped: the price goes down to less than one times itself.\<close>

lemma AddPercentage_wraps:
  assumes "65436 \<le> uint p" and "0 < v"
  shows "AddPercentage v p < v"
proof -
  have "uint p < 65536" using uint_bounded [of p] by simp
  then have "v * (uint p - 65436) < v * 100" using assms by (intro mult_strict_left_mono) auto
  then show ?thesis using assms(1) by (simp add: AddPercentage_def uint16_add_100_wraps div_less_iff_less_mult)
qed

section \<open>Properties\<close>



text \<open>For a non-negative multiplier, applying it to a fee limit returns the integer part of the exact
  product, with no wrap-around of the 64-bit result, and an error exactly when the product exceeds
  \<open>math.MaxUint64\<close>.\<close>

theorem ApplyMultiplier_exact:
  assumes "decimal_laws D v" and "0 \<le> v (dec_NewFromFloat32 D multiplier)"
  shows "case ApplyMultiplier D feeLimit multiplier of
      Inl err \<Rightarrow> of_int MaxUint64 < of_int (uint feeLimit) * v (dec_NewFromFloat32 D multiplier)
    | Inr r \<Rightarrow> of_int (uint feeLimit) * v (dec_NewFromFloat32 D multiplier) \<le> of_int MaxUint64 \<and>
        uint r = \<lfloor>of_int (uint feeLimit) * v (dec_NewFromFloat32 D multiplier)\<rfloor>"
proof -
  let ?x = "of_int (uint feeLimit) * v (dec_NewFromFloat32 D multiplier)"
  have "(0 :: rat) \<le> of_int (uint feeLimit)" by (simp only: of_int_0_le_iff unsigned_greater_eq)
  then have x0: "0 \<le> ?x" using assms(2) by (rule mult_nonneg_nonneg)
  have "uint (word_of_int \<lfloor>?x\<rfloor> :: 64 word) = \<lfloor>?x\<rfloor>" if "?x \<le> of_int MaxUint64"
  proof -
    have "\<lfloor>?x\<rfloor> \<le> MaxUint64" "0 \<le> \<lfloor>?x\<rfloor>" using that x0 by linarith+
    then show ?thesis by (simp add: uint_word_of_int MaxUint64_def)
  qed
  then show ?thesis
    using assms(1) x0 by (auto simp: ApplyMultiplier_def decimal_laws_def Let_def)
qed

theorem ApplyMultiplier_exact_witness:
  "case ApplyMultiplier \<lparr>dec_NewFromBigInt = of_int, dec_NewFromFloat32 = (\<lambda>f. f), dec_Mul = (*),
        dec_GreaterThan = (\<lambda>a b. b < a), dec_BigInt = floor\<rparr> 1001 (3 / 2 :: rat) of
     Inl err \<Rightarrow> False | Inr r \<Rightarrow> uint r = \<lfloor>1001 * (3 / 2 :: rat)\<rfloor>"
  using ApplyMultiplier_exact [where D = "\<lparr>dec_NewFromBigInt = of_int, dec_NewFromFloat32 = (\<lambda>f. f), dec_Mul = (*),
      dec_GreaterThan = (\<lambda>a b. b < a), dec_BigInt = floor\<rparr>" and v = "\<lambda>x. x" and feeLimit = 1001 and multiplier = "3 / 2"]
  by (simp add: decimal_laws_def MaxUint64_def split: sum.splits)

end
