(* ===== verification/Head_Listener.thy ===== *)
theory Head_Listener
  imports Go_Prelude
begin

text \<open>
  \<open>chains/heads/listener.go\<close>: the loop that subscribes to new heads and hands them to a handler. The client, the
  handler and the heads are parameters (\<open>listener_env\<close>); the handler acts on a world \<open>'w\<close>, from which
  \<open>ln_ctxDone\<close> reads the context. An event of a loop is what its \<open>select\<close> receives. The listener's effects are
  the subscriptions it was given by the client and those it ended.
\<close>

section \<open>State and environment\<close>

record ('h, 'w) listener_env =
  ln_IsValid :: "'h \<Rightarrow> bool"
  ln_ChainID :: "'h \<Rightarrow> string option"
  ln_ConfiguredChainID :: string
  ln_handleNewHead :: "'h \<Rightarrow> 'w \<Rightarrow> string option \<times> 'w"
  ln_onSubscription :: "('w \<Rightarrow> 'w) option"
  ln_ctxDone :: "'w \<Rightarrow> bool"
  ln_BlockEmissionIdleWarningThreshold :: int

record ('s, 'w) listener =
  headSubscription :: "'s option"
  connected :: bool
  receivingHeads :: bool
  opened :: "'s list"
  ended :: "'s list"
  ln_world :: 'w

definition NewListener :: "'w \<Rightarrow> ('s, 'w) listener" where
  "NewListener w =
     \<lparr>headSubscription = None, connected = False, receivingHeads = False, opened = [], ended = [], ln_world = w\<rparr>"

definition ln_unsubscribe :: "('s, 'w) listener \<Rightarrow> ('s, 'w) listener" where
  "ln_unsubscribe l =
     (case headSubscription l of
        None \<Rightarrow> l
      | Some s \<Rightarrow> l\<lparr>connected := False, ended := ended l @ [s], headSubscription := None\<rparr>)"

text \<open>The error carries the two flags it prints.\<close>

definition HealthReport :: "('s, 'w) listener \<Rightarrow> (bool \<times> bool) option" where
  "HealthReport l = (if \<not> receivingHeads l \<or> \<not> connected l then Some (connected l, receivingHeads l) else None)"

section \<open>Subscribing\<close>

text \<open>An attempt: the context is done, or the client was called; on an error it may still have returned a
  subscription.\<close>

datatype 's attempt = SubDone | SubFails "'s option" string | SubOk 's

definition subscribeToHead :: "'s option \<Rightarrow> bool \<Rightarrow> ('s, 'w) listener \<Rightarrow> ('s, 'w) listener" where
  "subscribeToHead res ok l =
     (let l1 = l\<lparr>headSubscription := res, opened := opened l @ (case res of None \<Rightarrow> [] | Some s \<Rightarrow> [s])\<rparr>
      in if ok then l1\<lparr>connected := True\<rparr> else l1)"

text \<open>\<open>None\<close> while the attempts given do not decide.\<close>

fun ln_subscribe :: "'s attempt list \<Rightarrow> ('s, 'w) listener \<Rightarrow> bool option \<times> ('s, 'w) listener" where
  "ln_subscribe [] l = (None, ln_unsubscribe l)"
| "ln_subscribe (SubDone # as) l = (Some False, ln_unsubscribe l)"
| "ln_subscribe (SubFails res err # as) l = ln_subscribe as (subscribeToHead res False (ln_unsubscribe l))"
| "ln_subscribe (SubOk s # as) l = (Some True, subscribeToHead (Some s) True (ln_unsubscribe l))"

section \<open>Receiving\<close>

text \<open>\<open>RcvHead None\<close> is the closed channel; \<open>RcvErr None\<close> the closed error channel or a nil error.\<close>

datatype 'h rcv_event = RcvDone | RcvHead "'h option" | RcvErr "string option" | RcvAlarm

definition nil_subscription :: string where
  "nil_subscription = ''invalid memory address or nil pointer dereference''"

text \<open>The result: \<open>None\<close> while the loop goes on, \<open>Some None\<close> for a nil error.\<close>

definition receive_head ::
  "('h, 'w) listener_env \<Rightarrow> 'h option \<Rightarrow> ('s, 'w) listener \<Rightarrow> (string option option \<times> ('s, 'w) listener) outcome" where
  "receive_head E header l =
     (let l1 = l\<lparr>receivingHeads := True\<rparr> in
      case header of
        None \<Rightarrow> Ret (Some (Some ''head listener: chHeaders prematurely closed''), l1)
      | Some h \<Rightarrow>
          if \<not> ln_IsValid E h then Ret (None, l1)
          else if ln_ChainID E h \<noteq> Some (ln_ConfiguredChainID E)
          then Panic (''head listener for '' @ ln_ConfiguredChainID E @ '' received block header for another chain'')
          else
            let (err, w) = ln_handleNewHead E h (ln_world l1); l2 = l1\<lparr>ln_world := w\<rparr>
            in if ln_ctxDone E w then Ret (Some None, l2)
               else (case err of Some e \<Rightarrow> Ret (Some (Some e), l2) | None \<Rightarrow> Ret (None, l2)))"

fun receive_event ::
  "('h, 'w) listener_env \<Rightarrow> 'h rcv_event \<Rightarrow> ('s, 'w) listener \<Rightarrow> (string option option \<times> ('s, 'w) listener) outcome" where
  "receive_event E RcvDone l = Ret (Some None, l)"
| "receive_event E (RcvHead header) l = receive_head E header l"
| "receive_event E (RcvErr None) l = Ret (Some (Some ''head listener: subscription Err channel prematurely closed''), l)"
| "receive_event E (RcvErr (Some err)) l = Ret (Some (Some err), l)"
| "receive_event E RcvAlarm l =
     Ret (None, if 0 < ln_BlockEmissionIdleWarningThreshold E then l\<lparr>receivingHeads := False\<rparr> else l)"

fun receiveHeaders ::
  "('h, 'w) listener_env \<Rightarrow> 'h rcv_event list \<Rightarrow> ('s, 'w) listener \<Rightarrow> (string option option \<times> ('s, 'w) listener) outcome" where
  "receiveHeaders E [] l = Ret (None, l)"
| "receiveHeaders E (e # es) l =
     (if headSubscription l = None then Panic nil_subscription
      else outcome_bind (receive_event E e l)
        (\<lambda>(r, l1). case r of None \<Rightarrow> receiveHeaders E es l1 | Some err \<Rightarrow> Ret (Some err, l1)))"

section \<open>The listen loop\<close>

text \<open>One round of \<open>ListenForNewHeads\<close> is its subscription attempts and the events of \<open>receiveHeaders\<close>. The value
  says whether the loop has ended, in which case the deferred \<open>unsubscribe\<close> has run.\<close>

fun ListenForNewHeads ::
  "('h, 'w) listener_env \<Rightarrow> ('s attempt list \<times> 'h rcv_event list) list \<Rightarrow> ('s, 'w) listener \<Rightarrow>
   (bool \<times> ('s, 'w) listener) outcome" where
  "ListenForNewHeads E [] l = Ret (False, l)"
| "ListenForNewHeads E ((as, es) # rounds) l =
     (case ln_subscribe as l of
        (None, l1) \<Rightarrow> Ret (False, l1)
      | (Some False, l1) \<Rightarrow> Ret (True, ln_unsubscribe l1)
      | (Some True, l1) \<Rightarrow>
          let l2 = (case ln_onSubscription E of None \<Rightarrow> l1 | Some f \<Rightarrow> l1\<lparr>ln_world := f (ln_world l1)\<rparr>)
          in outcome_bind (receiveHeaders E es l2)
               (\<lambda>(r, l3). case r of
                  None \<Rightarrow> Ret (False, l3)
                | Some err \<Rightarrow>
                    if ln_ctxDone E (ln_world l3) then Ret (True, ln_unsubscribe l3)
                    else if err \<noteq> None then ListenForNewHeads E rounds l3
                    else Ret (True, ln_unsubscribe l3)))"

section \<open>Lemmas\<close>

text \<open>All subscriptions but the current one have been ended, in the order in which they were opened; the listener
  calls itself connected only while it has one.\<close>

definition sub_inv :: "('s, 'w) listener \<Rightarrow> bool" where
  "sub_inv l \<longleftrightarrow>
     opened l = ended l @ (case headSubscription l of None \<Rightarrow> [] | Some s \<Rightarrow> [s]) \<and>
     (connected l \<longrightarrow> headSubscription l \<noteq> None)"

lemma ln_unsubscribe_inv:
  "sub_inv l \<Longrightarrow> sub_inv (ln_unsubscribe l) \<and> headSubscription (ln_unsubscribe l) = None \<and> \<not> connected (ln_unsubscribe l)"
  by (auto simp: ln_unsubscribe_def sub_inv_def split: option.splits)

lemma subscribeToHead_inv:
  "sub_inv l \<Longrightarrow> headSubscription l = None \<Longrightarrow> \<not> connected l \<Longrightarrow> (ok \<Longrightarrow> res \<noteq> None) \<Longrightarrow>
   sub_inv (subscribeToHead res ok l)"
  by (auto simp: subscribeToHead_def sub_inv_def Let_def split: option.splits)

lemma ln_subscribe_inv:
  "sub_inv l \<Longrightarrow> ln_subscribe as l = (r, l') \<Longrightarrow>
   sub_inv l' \<and> (r = Some True \<longrightarrow> headSubscription l' \<noteq> None) \<and> (r \<noteq> Some True \<longrightarrow> headSubscription l' = None)"
proof (induction as l rule: ln_subscribe.induct)
  case (3 res err as l)
  then show ?case using ln_unsubscribe_inv [OF 3(2)] subscribeToHead_inv [of "ln_unsubscribe l" False res] by simp
next
  case (4 s as l)
  then show ?case
    using ln_unsubscribe_inv [OF 4(1)] subscribeToHead_inv [of "ln_unsubscribe l" True "Some s"]
    by (auto simp: subscribeToHead_def Let_def)
qed (auto dest: ln_unsubscribe_inv)

text \<open>Receiving changes neither the subscription nor the lists of subscriptions.\<close>

definition same_subs :: "('s, 'w) listener \<Rightarrow> ('s, 'w) listener \<Rightarrow> bool" where
  "same_subs l l' \<longleftrightarrow>
     headSubscription l' = headSubscription l \<and> connected l' = connected l \<and> opened l' = opened l \<and> ended l' = ended l"

lemma receive_event_same: "receive_event E e l = Ret (r, l') \<Longrightarrow> same_subs l l'"
  by (cases "(E, e, l)" rule: receive_event.cases)
    (auto simp: receive_head_def same_subs_def Let_def split: option.splits if_splits prod.splits)

lemma receiveHeaders_same: "receiveHeaders E es l = Ret (r, l') \<Longrightarrow> same_subs l l'"
proof (induction es arbitrary: l)
  case Nil
  then show ?case by (simp add: same_subs_def)
next
  case (Cons e es)
  from Cons.prems obtain r1 l1 where e: "receive_event E e l = Ret (r1, l1)" "headSubscription l \<noteq> None"
    and rest: "(case r1 of None \<Rightarrow> receiveHeaders E es l1 | Some err \<Rightarrow> Ret (Some err, l1)) = Ret (r, l')"
    by (auto simp: outcome_bind_Ret_iff split: if_splits)
  have "same_subs l l1" by (rule receive_event_same [OF e(1)])
  moreover have "same_subs l1 l'"
    using rest Cons.IH [of l1] by (cases r1) (auto simp: same_subs_def)
  ultimately show ?case by (simp add: same_subs_def)
qed

lemma sub_inv_same: "sub_inv l \<Longrightarrow> same_subs l l' \<Longrightarrow> sub_inv l'"
  by (simp add: sub_inv_def same_subs_def)

definition on_subscription :: "('h, 'w) listener_env \<Rightarrow> ('s, 'w) listener \<Rightarrow> ('s, 'w) listener" where
  "on_subscription E l = (case ln_onSubscription E of None \<Rightarrow> l | Some f \<Rightarrow> l\<lparr>ln_world := f (ln_world l)\<rparr>)"

lemma on_subscription_same: "same_subs l (on_subscription E l)"
  by (simp add: on_subscription_def same_subs_def split: option.splits)

lemma listen_inv:
  assumes "sub_inv l" and "ListenForNewHeads E rounds l = Ret (fin, l')"
  shows "sub_inv l' \<and> (fin \<longrightarrow> headSubscription l' = None \<and> \<not> connected l')"
  using assms
proof (induction rounds arbitrary: l)
  case Nil
  then show ?case by simp
next
  case (Cons p rounds)
  obtain as es where p: "p = (as, es)" by (cases p)
  obtain r l1 where s: "ln_subscribe as l = (r, l1)" by (cases "ln_subscribe as l")
  have i1: "sub_inv l1" using ln_subscribe_inv [OF Cons.prems(1) s] by simp
  have iu: "sub_inv (ln_unsubscribe k) \<and> headSubscription (ln_unsubscribe k) = None \<and> \<not> connected (ln_unsubscribe k)"
    if "sub_inv k" for k :: "('a, 'b) listener"
    by (rule ln_unsubscribe_inv [OF that])
  consider "r = None" | "r = Some False" | "r = Some True" by (cases r) auto
  then show ?case
  proof cases
    case 3
    obtain q l3 where rcv: "receiveHeaders E es (on_subscription E l1) = Ret (q, l3)"
      and rest: "(case q of None \<Rightarrow> Ret (False, l3)
        | Some err \<Rightarrow> if ln_ctxDone E (ln_world l3) then Ret (True, ln_unsubscribe l3)
            else if err \<noteq> None then ListenForNewHeads E rounds l3 else Ret (True, ln_unsubscribe l3)) = Ret (fin, l')"
      using Cons.prems(2) 3 s by (auto simp: p on_subscription_def [symmetric] outcome_bind_Ret_iff Let_def)
    have i3: "sub_inv l3"
      by (rule sub_inv_same [OF sub_inv_same [OF i1 on_subscription_same] receiveHeaders_same [OF rcv]])
    show ?thesis
      using rest iu [OF i3] i3 Cons.IH [OF i3] by (auto split: option.splits if_splits)
  qed (use Cons.prems(2) s i1 iu in \<open>auto simp: p\<close>)
qed

section \<open>Properties\<close>

text \<open>C31. However subscribing and receiving go, the listener has at most one subscription open at a time: all
  it was ever given, except the current one, have been ended once each, in order. It reports itself connected
  only while it holds a subscription, and when the loop has ended it holds none.\<close>

theorem listener_subscriptions:
  assumes "ListenForNewHeads E rounds (NewListener w) = Ret (fin, l)"
  shows "opened l = ended l @ (case headSubscription l of None \<Rightarrow> [] | Some s \<Rightarrow> [s]) \<and>
    (connected l \<longrightarrow> headSubscription l \<noteq> None) \<and> (fin \<longrightarrow> opened l = ended l \<and> \<not> connected l)"
proof -
  have "sub_inv (NewListener w :: ('a, 'b) listener)" by (simp add: sub_inv_def NewListener_def)
  from listen_inv [OF this assms] show ?thesis by (auto simp: sub_inv_def)
qed

theorem listener_subscriptions_witness:
  "let E = \<lparr>ln_IsValid = (\<lambda>h. True), ln_ChainID = (\<lambda>h. Some ''1''), ln_ConfiguredChainID = ''1'',
            ln_handleNewHead = (\<lambda>h w. (None, w + h)), ln_onSubscription = None, ln_ctxDone = (\<lambda>w. False),
            ln_BlockEmissionIdleWarningThreshold = 5\<rparr>;
       rounds = [([SubFails None ''refused'', SubOk ''s1''], [RcvHead (Some 3), RcvErr None]), ([SubOk ''s2''], [RcvHead (Some 4), RcvDone])]
   in \<exists>l. ListenForNewHeads E rounds (NewListener (0 :: nat)) = Ret (True, l) \<and> opened l = ended l"
proof -
  let ?E = "\<lparr>ln_IsValid = (\<lambda>h. True), ln_ChainID = (\<lambda>h. Some ''1''), ln_ConfiguredChainID = ''1'',
            ln_handleNewHead = (\<lambda>h w. (None, w + h)), ln_onSubscription = None, ln_ctxDone = (\<lambda>w. False),
            ln_BlockEmissionIdleWarningThreshold = 5\<rparr> :: (nat, nat) listener_env"
  let ?r = "[([SubFails None ''refused'', SubOk ''s1''], [RcvHead (Some 3), RcvErr None]), ([SubOk ''s2''], [RcvHead (Some 4), RcvDone])]"
  obtain l where l: "ListenForNewHeads ?E ?r (NewListener 0) = Ret (True, l)"
    by (simp add: NewListener_def subscribeToHead_def ln_unsubscribe_def receive_head_def Let_def)
  have "opened l = ended l" using listener_subscriptions [OF l] by blast
  with l show ?thesis unfolding Let_def by blast
qed

end
