(* ===== verification/Head_Tracker.thy ===== *)
theory Head_Tracker
  imports Go_Prelude
begin

text \<open>
  \<open>chains/heads/tracker.go\<close>: following the longest chain. The chain-specific head, the saver and the client are
  code outside the repository: \<open>head_ops\<close> holds the methods of the \<open>Head\<close> interface (\<open>chains/head.go\<close>),
  \<open>tracker_env\<close> those of \<open>Saver\<close> and \<open>Client\<close>. They act on a world of type \<open>'w\<close>, which also changes by what
  other goroutines and the chain do; \<open>ctx_Err\<close> reads the context. The two mailboxes are library queues: what is
  delivered to them is an effect of the tracker, and what is retrieved from them an event of the loops.
\<close>

section \<open>Interfaces\<close>

record ('h, 'b) head_ops =
  IsValid :: "'h \<Rightarrow> bool"
  BlockNum :: "'h \<Rightarrow> int"
  BlockHash :: "'h \<Rightarrow> 'b"
  GetParentHash :: "'h \<Rightarrow> 'b"
  LatestFinalizedHead :: "'h \<Rightarrow> 'h option"
  HeadAtHeight :: "'h \<Rightarrow> int \<Rightarrow> string + 'h"

record ('h, 'b, 'w) tracker_env =
  sv_Load :: "int \<Rightarrow> 'w \<Rightarrow> (string + 'h) \<times> 'w"
  sv_Save :: "'h \<Rightarrow> 'w \<Rightarrow> string option \<times> 'w"
  sv_LatestChain :: "'w \<Rightarrow> 'h"
  sv_Chain :: "'b \<Rightarrow> 'w \<Rightarrow> 'h"
  sv_MarkFinalized :: "'h \<Rightarrow> 'w \<Rightarrow> string option \<times> 'w"
  cl_HeadByNumber :: "int option \<Rightarrow> 'w \<Rightarrow> (string + 'h) \<times> 'w"
  cl_HeadByHash :: "'b \<Rightarrow> 'w \<Rightarrow> (string + 'h) \<times> 'w"
  cl_LatestFinalizedBlock :: "'w \<Rightarrow> (string + 'h) \<times> 'w"
  cl_LatestSafeBlock :: "'w \<Rightarrow> (string + 'h) \<times> 'w"
  ctx_Err :: "'w \<Rightarrow> string option"

record tracker_cfg =
  tc_FinalityDepth :: "32 word"
  tc_SafeDepth :: "32 word"
  tc_FinalityTagEnabled :: bool
  tc_SafeTagSupported :: bool
  tc_FinalizedBlockOffset :: "32 word"
  tc_FinalityTagBypass :: bool
  tc_MaxAllowedFinalityDepth :: "32 word"
  tc_SamplingInterval :: int

text \<open>An error is the sentinel it wraps: \<open>types.ErrFinalityViolated\<close>, \<open>FinalizedMissingError\<close>, or a message.\<close>

datatype 'b tracker_error = ErrFinalityViolated | FinalizedMissingError 'b 'b | TrackerErr string

fun wrap_err :: "string \<Rightarrow> 'b tracker_error \<Rightarrow> 'b tracker_error" where
  "wrap_err prefix (TrackerErr m) = TrackerErr (prefix @ m)"
| "wrap_err prefix err = err"

datatype 'h tracker_effect =
    DeliverBackfill 'h 'h
  | DeliverBroadcast 'h
  | BroadcastNewLongestChain 'h
  | SetCurrentHead int
  | IncOldHead

record ('h, 'b, 'w) tracker =
  world :: 'w
  health :: "string \<rightharpoonup> 'b tracker_error"
  tr_effects :: "'h tracker_effect list"

definition tr_emit :: "'h tracker_effect list \<Rightarrow> ('h, 'b, 'w) tracker \<Rightarrow> ('h, 'b, 'w) tracker" where
  "tr_emit es t = t\<lparr>tr_effects := tr_effects t @ es\<rparr>"

definition SetHealthCond :: "string \<Rightarrow> 'b tracker_error \<Rightarrow> ('h, 'b, 'w) tracker \<Rightarrow> ('h, 'b, 'w) tracker" where
  "SetHealthCond c e t = t\<lparr>health := (health t)(c \<mapsto> e)\<rparr>"

definition ClearHealthCond :: "string \<Rightarrow> ('h, 'b, 'w) tracker \<Rightarrow> ('h, 'b, 'w) tracker" where
  "ClearHealthCond c t = t\<lparr>health := (health t)(c := None)\<rparr>"

section \<open>Finality\<close>

definition verifyFinalizedBlockHashes ::
  "('h, 'b) head_ops \<Rightarrow> 'h option \<Rightarrow> 'h option \<Rightarrow> 'b tracker_error option" where
  "verifyFinalizedBlockHashes H finalizedHeadWithChain prevHeadWithChain =
     (case (finalizedHeadWithChain, prevHeadWithChain) of
        (Some fin, Some prev) \<Rightarrow>
          (case LatestFinalizedHead H prev of
             None \<Rightarrow> None
           | Some prevLatestFinalized \<Rightarrow>
               (case HeadAtHeight H fin (BlockNum H prevLatestFinalized) of
                  Inl err \<Rightarrow> None
                | Inr finalizedHead \<Rightarrow>
                    if BlockNum H finalizedHead < BlockNum H prevLatestFinalized then Some ErrFinalityViolated
                    else if BlockHash H finalizedHead \<noteq> BlockHash H prevLatestFinalized then Some ErrFinalityViolated
                    else None))
      | _ \<Rightarrow> None)"

definition instantFinality :: "tracker_cfg \<Rightarrow> bool" where
  "instantFinality c \<longleftrightarrow>
     \<not> tc_FinalityTagEnabled c \<and> tc_FinalityDepth c = 0 \<and> tc_FinalizedBlockOffset c = 0"

definition getHeadAtHeight ::
  "('h, 'b) head_ops \<Rightarrow> ('h, 'b, 'w) tracker_env \<Rightarrow> 'b \<Rightarrow> int \<Rightarrow> 'w \<Rightarrow> (string + 'h) \<times> 'w" where
  "getHeadAtHeight H E chainHeadHash blockHeight w =
     (let chainHead = sv_Chain E chainHeadHash w;
          fromClient = cl_HeadByNumber E (Some blockHeight) w
      in if IsValid H chainHead then
           (case HeadAtHeight H chainHead blockHeight of
              Inl err \<Rightarrow> fromClient
            | Inr headAtHeight \<Rightarrow>
                let hthAtHeight = sv_Chain E (BlockHash H headAtHeight) w
                in if IsValid H hthAtHeight then (Inr hthAtHeight, w) else fromClient)
         else fromClient)"

definition calculateLatestFinalized ::
  "('h, 'b) head_ops \<Rightarrow> ('h, 'b, 'w) tracker_env \<Rightarrow> tracker_cfg \<Rightarrow> 'h \<Rightarrow> bool \<Rightarrow> 'w \<Rightarrow> (string + 'h) \<times> 'w" where
  "calculateLatestFinalized H E c currentHead finalityTagBypass w =
     (if tc_FinalityTagEnabled c \<and> \<not> finalityTagBypass then
        (case cl_LatestFinalizedBlock E w of
           (Inl err, w1) \<Rightarrow> (Inl (''failed to get latest finalized block: '' @ err), w1)
         | (Inr latestFinalized, w1) \<Rightarrow>
             if \<not> IsValid H latestFinalized then (Inl ''failed to get valid latest finalized block'', w1)
             else if tc_FinalizedBlockOffset c = 0 then (Inr latestFinalized, w1)
             else
               getHeadAtHeight H E (BlockHash H latestFinalized)
                 (max (i64 (BlockNum H latestFinalized - uint (tc_FinalizedBlockOffset c))) 0) w1)
      else if instantFinality c then (Inr currentHead, w)
      else
        getHeadAtHeight H E (BlockHash H currentHead)
          (max (i64 (i64 (BlockNum H currentHead - uint (tc_FinalityDepth c)) - uint (tc_FinalizedBlockOffset c))) 0) w)"

section \<open>Queries\<close>

definition LatestAndFinalizedBlock ::
  "('h, 'b) head_ops \<Rightarrow> ('h, 'b, 'w) tracker_env \<Rightarrow> tracker_cfg \<Rightarrow> 'w \<Rightarrow> (string + 'h \<times> 'h) \<times> 'w" where
  "LatestAndFinalizedBlock H E c w =
     (case cl_HeadByNumber E None w of
        (Inl err, w1) \<Rightarrow> (Inl (''failed to get latest block: '' @ err), w1)
      | (Inr latest, w1) \<Rightarrow>
          if \<not> IsValid H latest then (Inl ''expected latest block to be valid'', w1)
          else
            (case calculateLatestFinalized H E c latest False w1 of
               (Inl err, w2) \<Rightarrow> (Inl (''failed to calculate latest finalized block: '' @ err), w2)
             | (Inr finalized, w2) \<Rightarrow>
                 if \<not> IsValid H finalized then (Inl ''expected finalized block to be valid'', w2)
                 else (Inr (latest, finalized), w2)))"

definition safe_with_tag ::
  "('h, 'b) head_ops \<Rightarrow> ('h, 'b, 'w) tracker_env \<Rightarrow> tracker_cfg \<Rightarrow> 'w \<Rightarrow> (string + 'h) \<times> 'w" where
  "safe_with_tag H E c w =
     (let (res, w1) = (if tc_SafeTagSupported c then cl_LatestSafeBlock E w
                       else (case LatestAndFinalizedBlock H E c w of
                               (Inl err, w1) \<Rightarrow> (Inl err, w1)
                             | (Inr (_, finalized), w1) \<Rightarrow> (Inr finalized, w1)))
      in case res of
           Inl err \<Rightarrow> (Inl (''failed to get latest finalized block: '' @ err), w1)
         | Inr latestSafe \<Rightarrow>
             if \<not> IsValid H latestSafe then (Inl ''failed to get valid latest finalized block'', w1)
             else (Inr latestSafe, w1))"

definition LatestSafeBlock ::
  "('h, 'b) head_ops \<Rightarrow> ('h, 'b, 'w) tracker_env \<Rightarrow> tracker_cfg \<Rightarrow> 'w \<Rightarrow> (string + 'h) \<times> 'w" where
  "LatestSafeBlock H E c w =
     (if tc_FinalityTagEnabled c then safe_with_tag H E c w
      else
        (case cl_HeadByNumber E None w of
           (Inl err, w1) \<Rightarrow> (Inl (''failed to get latest block: '' @ err), w1)
         | (Inr latest, w1) \<Rightarrow>
             if \<not> IsValid H latest then (Inl ''expected latest block to be valid'', w1)
             else if instantFinality c then (Inr latest, w1)
             else
               let safeDepth = (if uint (tc_SafeDepth c) \<le> 0 then uint (tc_FinalityDepth c) else uint (tc_SafeDepth c))
               in getHeadAtHeight H E (BlockHash H latest) (max (i64 (BlockNum H latest - safeDepth)) 0) w1))"

definition LatestChain :: "('h, 'b, 'w) tracker_env \<Rightarrow> ('h, 'b, 'w) tracker \<Rightarrow> 'h" where
  "LatestChain E t = sv_LatestChain E (world t)"

section \<open>Backfill\<close>

definition fetchAndSaveHead ::
  "('h, 'b) head_ops \<Rightarrow> ('h, 'b, 'w) tracker_env \<Rightarrow> 'b \<Rightarrow> 'w \<Rightarrow> (string + 'h) \<times> 'w" where
  "fetchAndSaveHead H E hash w =
     (case cl_HeadByHash E hash w of
        (Inl err, w1) \<Rightarrow> (Inl err, w1)
      | (Inr head, w1) \<Rightarrow>
          if \<not> IsValid H head then (Inl ''got nil head'', w1)
          else
            (case sv_Save E head w1 of
               (Some err, w2) \<Rightarrow> (Inl err, w2)
             | (None, w2) \<Rightarrow> (Inr head, w2)))"

text \<open>The loop runs once per block number from the one below the head down to the base height; the argument
  counts the iterations left.\<close>

fun backfill_loop ::
  "('h, 'b) head_ops \<Rightarrow> ('h, 'b, 'w) tracker_env \<Rightarrow> nat \<Rightarrow> 'h \<Rightarrow> 'w \<Rightarrow> (string + 'h) \<times> 'w" where
  "backfill_loop H E 0 head w = (Inr head, w)"
| "backfill_loop H E (Suc k) head w =
     (let existingHead = sv_Chain E (GetParentHash H head) w
      in if IsValid H existingHead then backfill_loop H E k existingHead w
         else
           (case fetchAndSaveHead H E (GetParentHash H head) w of
              (res, w1) \<Rightarrow>
                (case ctx_Err E w1 of
                   Some err \<Rightarrow> (Inl (''fetchAndSaveHead failed: '' @ err), w1)
                 | None \<Rightarrow>
                     (case res of
                        Inl err \<Rightarrow> (Inl (''fetchAndSaveHead failed: '' @ err), w1)
                      | Inr head1 \<Rightarrow> backfill_loop H E k head1 w1))))"

definition backfill ::
  "('h, 'b) head_ops \<Rightarrow> ('h, 'b, 'w) tracker_env \<Rightarrow> 'h \<Rightarrow> 'h \<Rightarrow> 'w \<Rightarrow> 'b tracker_error option \<times> 'w" where
  "backfill H E head latestFinalizedHead w =
     (case backfill_loop H E (nat (BlockNum H head - BlockNum H latestFinalizedHead)) head w of
        (Inl err, w1) \<Rightarrow> (Some (TrackerErr err), w1)
      | (Inr head1, w1) \<Rightarrow>
          if BlockHash H head1 \<noteq> BlockHash H latestFinalizedHead
          then (Some (FinalizedMissingError (BlockHash H latestFinalizedHead) (BlockHash H head1)), w1)
          else (None, snd (sv_MarkFinalized E latestFinalizedHead w1)))"

definition warnMsg :: string where
  "warnMsg = ''expected head of canonical chain to be ahead of the latestFinalized, but this may be normal on chains with fast finality due to fetch timing''"

definition backfill_violation :: string where
  "backfill_violation = ''backfill finality violated''"

definition Backfill ::
  "('h, 'b) head_ops \<Rightarrow> ('h, 'b, 'w) tracker_env \<Rightarrow> tracker_cfg \<Rightarrow> 'h \<Rightarrow> 'h \<Rightarrow> ('h, 'b, 'w) tracker \<Rightarrow>
   'b tracker_error option \<times> ('h, 'b, 'w) tracker" where
  "Backfill H E c headWithChain prevHeadWithChain t =
     (case calculateLatestFinalized H E c headWithChain (tc_FinalityTagBypass c) (world t) of
        (Inl err, w1) \<Rightarrow> (Some (TrackerErr (''failed to calculate finalized block: '' @ err)), t\<lparr>world := w1\<rparr>)
      | (Inr latestFinalized, w1) \<Rightarrow>
          let t1 = t\<lparr>world := w1\<rparr>;
              run = (\<lambda>t. case backfill H E headWithChain latestFinalized (world t) of
                           (err, w2) \<Rightarrow> (err, t\<lparr>world := w2\<rparr>))
          in if \<not> IsValid H latestFinalized
             then (Some (TrackerErr ''can not perform backfill without a valid latestFinalized head''), t1)
             else if BlockNum H headWithChain < BlockNum H latestFinalized then (Some (TrackerErr warnMsg), t1)
             else if i64 (BlockNum H headWithChain - BlockNum H latestFinalized) > uint (tc_MaxAllowedFinalityDepth c)
             then (Some (TrackerErr ''gap between latest finalized block and current head is too large''), t1)
             else if instantFinality c then run t1
             else
               (case verifyFinalizedBlockHashes H (Some latestFinalized) (LatestFinalizedHead H prevHeadWithChain) of
                  Some err \<Rightarrow> (Some err, SetHealthCond backfill_violation err t1)
                | None \<Rightarrow> run (ClearHealthCond backfill_violation t1)))"

section \<open>New heads\<close>

definition head_violation :: string where
  "head_violation = ''handleNewHead finality violated''"

definition handle_saved_head ::
  "('h, 'b) head_ops \<Rightarrow> ('h, 'b, 'w) tracker_env \<Rightarrow> 'h \<Rightarrow> 'h \<Rightarrow> ('h, 'b, 'w) tracker \<Rightarrow>
   'b tracker_error option \<times> ('h, 'b, 'w) tracker" where
  "handle_saved_head H E head prevHead t =
     (if \<not> IsValid H prevHead \<or> BlockNum H head > BlockNum H prevHead then
        let t1 = tr_emit [SetCurrentHead (BlockNum H head)] t;
            headWithChain = sv_Chain E (BlockHash H head) (world t1)
        in if \<not> IsValid H headWithChain
           then (Some (TrackerErr ''heads.tracker#handleNewHighestHead headWithChain was unexpectedly nil''), t1)
           else (None, tr_emit [DeliverBackfill headWithChain prevHead, DeliverBroadcast headWithChain] t1)
      else if BlockNum H head = BlockNum H prevHead then (None, t)
      else (None, tr_emit [IncOldHead] t))"

definition handleNewHead ::
  "('h, 'b) head_ops \<Rightarrow> ('h, 'b, 'w) tracker_env \<Rightarrow> 'h \<Rightarrow> ('h, 'b, 'w) tracker \<Rightarrow>
   'b tracker_error option \<times> ('h, 'b, 'w) tracker" where
  "handleNewHead H E head t =
     (let prevHead = sv_LatestChain E (world t);
          prevLatestFinalized = (if IsValid H prevHead then LatestFinalizedHead H prevHead else None);
          veryOld = (case prevLatestFinalized of None \<Rightarrow> False | Some f \<Rightarrow> BlockNum H head < BlockNum H f)
      in if veryOld
         then (Some ErrFinalityViolated, SetHealthCond head_violation ErrFinalityViolated (tr_emit [IncOldHead] t))
         else
           (case verifyFinalizedBlockHashes H (LatestFinalizedHead H head) (Some prevHead) of
              Some err \<Rightarrow> (Some err, SetHealthCond head_violation err t)
            | None \<Rightarrow>
                let t1 = ClearHealthCond head_violation t;
                    (err, w1) = sv_Save E head (world t1);
                    t2 = t1\<lparr>world := w1\<rparr>
                in if ctx_Err E w1 \<noteq> None then (None, t2)
                   else
                     (case err of
                        Some e \<Rightarrow> (Some (TrackerErr (''failed to save head: '' @ e)), t2)
                      | None \<Rightarrow> handle_saved_head H E head prevHead t2)))"

definition handleInitialHead ::
  "('h, 'b) head_ops \<Rightarrow> ('h, 'b, 'w) tracker_env \<Rightarrow> tracker_cfg \<Rightarrow> ('h, 'b, 'w) tracker \<Rightarrow>
   'b tracker_error option \<times> ('h, 'b, 'w) tracker" where
  "handleInitialHead H E c t =
     (case cl_HeadByNumber E None (world t) of
        (Inl err, w1) \<Rightarrow> (Some (TrackerErr (''failed to fetch initial head: '' @ err)), t\<lparr>world := w1\<rparr>)
      | (Inr initialHead, w1) \<Rightarrow>
          if \<not> IsValid H initialHead then (None, t\<lparr>world := w1\<rparr>)
          else
            (case calculateLatestFinalized H E c initialHead (tc_FinalityTagBypass c) w1 of
               (Inl err, w2) \<Rightarrow> (Some (TrackerErr (''failed to calculate latest finalized head: '' @ err)), t\<lparr>world := w2\<rparr>)
             | (Inr latestFinalized, w2) \<Rightarrow>
                 if \<not> IsValid H latestFinalized
                 then (Some (TrackerErr ''latest finalized block is not valid''), t\<lparr>world := w2\<rparr>)
                 else
                   (case sv_Load E (BlockNum H latestFinalized) w2 of
                      (Inl err, w3) \<Rightarrow> (Some (TrackerErr (''failed to initialized headSaver: '' @ err)), t\<lparr>world := w3\<rparr>)
                    | (Inr latestChain, w3) \<Rightarrow> (case handleNewHead H E initialHead (t\<lparr>world := w3\<rparr>) of
                         (err, t1) \<Rightarrow> (map_option (wrap_err ''error handling initial head: '') err, t1)))))"

section \<open>Loops\<close>

text \<open>One event of \<open>broadcastLoop\<close>: the sampling tick with what \<open>RetrieveLatestAndClear\<close> returned, or the
  notification with what the successive calls of \<open>Retrieve\<close> returned.\<close>

datatype 'h broadcast_event = BcTick 'h | BcNotify "'h list"

fun broadcast_handle ::
  "('h, 'b) head_ops \<Rightarrow> 'h broadcast_event \<Rightarrow> ('h, 'b, 'w) tracker \<Rightarrow> ('h, 'b, 'w) tracker" where
  "broadcast_handle H (BcTick item) t =
     (if IsValid H item then tr_emit [BroadcastNewLongestChain item] t else t)"
| "broadcast_handle H (BcNotify items) t = tr_emit (map BroadcastNewLongestChain items) t"

definition broadcastLoop ::
  "('h, 'b) head_ops \<Rightarrow> tracker_cfg \<Rightarrow> 'h broadcast_event list \<Rightarrow> ('h, 'b, 'w) tracker \<Rightarrow> ('h, 'b, 'w) tracker" where
  "broadcastLoop H c es t =
     fold (broadcast_handle H)
       (filter (\<lambda>e. case e of BcTick _ \<Rightarrow> 0 < tc_SamplingInterval c | BcNotify _ \<Rightarrow> \<not> 0 < tc_SamplingInterval c) es) t"

fun backfill_pairs ::
  "('h, 'b) head_ops \<Rightarrow> ('h, 'b, 'w) tracker_env \<Rightarrow> tracker_cfg \<Rightarrow> ('h \<times> 'h) list \<Rightarrow> ('h, 'b, 'w) tracker \<Rightarrow>
   ('h, 'b, 'w) tracker" where
  "backfill_pairs H E c [] t = t"
| "backfill_pairs H E c ((head, prevHead) # ps) t =
     (case Backfill H E c head prevHead t of
        (err, t1) \<Rightarrow>
          if err = None \<and> ctx_Err E (world t1) \<noteq> None then t1
          else backfill_pairs H E c ps t1)"

definition backfillLoop ::
  "('h, 'b) head_ops \<Rightarrow> ('h, 'b, 'w) tracker_env \<Rightarrow> tracker_cfg \<Rightarrow> ('h \<times> 'h) list list \<Rightarrow> ('h, 'b, 'w) tracker \<Rightarrow>
   ('h, 'b, 'w) tracker" where
  "backfillLoop H E c notifications t = fold (backfill_pairs H E c) notifications t"

section \<open>What the interfaces promise\<close>

text \<open>A lookup by hash or by height returns a block of that hash or height, a hash determines its block's number,
  and block numbers are non-negative \<open>int64\<close> values.\<close>

definition head_laws :: "('h, 'b) head_ops \<Rightarrow> bool" where
  "head_laws H \<longleftrightarrow>
     (\<forall>h. IsValid H h \<longrightarrow> 0 \<le> BlockNum H h \<and> BlockNum H h \<le> MaxInt64) \<and>
     (\<forall>h h'. BlockHash H h = BlockHash H h' \<longrightarrow> BlockNum H h = BlockNum H h') \<and>
     (\<forall>h n h'. HeadAtHeight H h n = Inr h' \<longrightarrow> BlockNum H h' = n)"

definition lookup_laws :: "('h, 'b) head_ops \<Rightarrow> ('h, 'b, 'w) tracker_env \<Rightarrow> bool" where
  "lookup_laws H E \<longleftrightarrow>
     (\<forall>b w. IsValid H (sv_Chain E b w) \<longrightarrow> BlockHash H (sv_Chain E b w) = b) \<and>
     (\<forall>b w h w'. cl_HeadByHash E b w = (Inr h, w') \<and> IsValid H h \<longrightarrow> BlockHash H h = b) \<and>
     (\<forall>n w h w'. cl_HeadByNumber E (Some n) w = (Inr h, w') \<and> IsValid H h \<longrightarrow> BlockNum H h = n)"

text \<open>The saver's latest chain is the highest head saved.\<close>

definition saver_laws :: "('h, 'b) head_ops \<Rightarrow> ('h, 'b, 'w) tracker_env \<Rightarrow> bool" where
  "saver_laws H E \<longleftrightarrow>
     (\<forall>h w w'. sv_Save E h w = (None, w') \<longrightarrow>
        IsValid H (sv_LatestChain E w') \<and> BlockNum H h \<le> BlockNum H (sv_LatestChain E w')) \<and>
     (\<forall>h w. IsValid H (sv_LatestChain E w) \<longrightarrow>
        IsValid H (sv_LatestChain E (snd (sv_Save E h w))) \<and>
        BlockNum H (sv_LatestChain E w) \<le> BlockNum H (sv_LatestChain E (snd (sv_Save E h w))))"

text \<open>What \<open>handleNewHead\<close> must reject: a head below the latest finalized block of the previous chain, or one
  whose own finalized chain has another block in its place.\<close>

definition violates_finality :: "('h, 'b) head_ops \<Rightarrow> 'h \<Rightarrow> 'h \<Rightarrow> bool" where
  "violates_finality H head prev \<longleftrightarrow>
     (\<exists>f. LatestFinalizedHead H prev = Some f \<and>
        (IsValid H prev \<and> BlockNum H head < BlockNum H f \<or>
         (\<exists>fin x. LatestFinalizedHead H head = Some fin \<and> HeadAtHeight H fin (BlockNum H f) = Inr x \<and>
            (BlockNum H x < BlockNum H f \<or> BlockHash H x \<noteq> BlockHash H f))))"

text \<open>A run of new heads, with what other goroutines do to the world before each.\<close>

fun handle_heads ::
  "('h, 'b) head_ops \<Rightarrow> ('h, 'b, 'w) tracker_env \<Rightarrow> (('w \<Rightarrow> 'w) \<times> 'h) list \<Rightarrow> ('h, 'b, 'w) tracker \<Rightarrow>
   ('h, 'b, 'w) tracker" where
  "handle_heads H E [] t = t"
| "handle_heads H E ((g, head) # hs) t =
     handle_heads H E hs (snd (handleNewHead H E head (t\<lparr>world := g (world t)\<rparr>)))"

definition progressive :: "('h, 'b) head_ops \<Rightarrow> ('h, 'b, 'w) tracker_env \<Rightarrow> ('w \<Rightarrow> 'w) \<Rightarrow> bool" where
  "progressive H E g \<longleftrightarrow>
     (\<forall>w. IsValid H (sv_LatestChain E w) \<longrightarrow>
        IsValid H (sv_LatestChain E (g w)) \<and>
        BlockNum H (sv_LatestChain E w) \<le> BlockNum H (sv_LatestChain E (g w)))"

fun broadcast_nums :: "('h, 'b) head_ops \<Rightarrow> 'h tracker_effect list \<Rightarrow> int list" where
  "broadcast_nums H [] = []"
| "broadcast_nums H (DeliverBroadcast h # es) = BlockNum H h # broadcast_nums H es"
| "broadcast_nums H (e # es) = broadcast_nums H es"

definition order_inv :: "('h, 'b) head_ops \<Rightarrow> ('h, 'b, 'w) tracker_env \<Rightarrow> ('h, 'b, 'w) tracker \<Rightarrow> bool" where
  "order_inv H E t \<longleftrightarrow>
     sorted_wrt (<) (broadcast_nums H (tr_effects t)) \<and>
     (\<forall>n\<in>set (broadcast_nums H (tr_effects t)).
        IsValid H (sv_LatestChain E (world t)) \<and> n \<le> BlockNum H (sv_LatestChain E (world t)))"

fun linked :: "('h, 'b) head_ops \<Rightarrow> 'h list \<Rightarrow> bool" where
  "linked H (h # h' # hs) \<longleftrightarrow> GetParentHash H h = BlockHash H h' \<and> linked H (h' # hs)"
| "linked H hs \<longleftrightarrow> True"

text \<open>A chain of twelve blocks, each named by its number, two blocks from finality, and a saver that keeps what it
  is given: an instance of the interfaces.\<close>

definition demo_heads :: "(int option, int option) head_ops" where
  "demo_heads =
     \<lparr>IsValid = (\<lambda>h. case h of None \<Rightarrow> False | Some n \<Rightarrow> 0 \<le> n \<and> n \<le> MaxInt64),
      BlockNum = (\<lambda>h. case h of None \<Rightarrow> 0 | Some n \<Rightarrow> n), BlockHash = (\<lambda>h. h),
      GetParentHash = map_option (\<lambda>n. n - 1),
      LatestFinalizedHead = (\<lambda>h. case h of None \<Rightarrow> None | Some n \<Rightarrow> Some (Some (max (n - 2) 0))),
      HeadAtHeight = (\<lambda>h n. if h \<noteq> None \<and> 0 \<le> n then Inr (Some n) else Inl ''not in chain'')\<rparr>"

definition demo_saver :: "(int option, int option, int option \<times> int option list \<times> int option list) tracker_env" where
  "demo_saver =
     \<lparr>sv_Load = (\<lambda>n w. (Inr (fst w), w)),
      sv_Save = (\<lambda>h (l, s, m). if IsValid demo_heads h
                  then (None, (if IsValid demo_heads l \<and> BlockNum demo_heads h \<le> BlockNum demo_heads l then l else h, h # s, m))
                  else (Some ''invalid'', (l, s, m))),
      sv_LatestChain = fst,
      sv_Chain = (\<lambda>b (l, s, m). if b \<in> set s then b else None),
      sv_MarkFinalized = (\<lambda>h (l, s, m). (None, (l, s, h # m))),
      cl_HeadByNumber = (\<lambda>n w. (case n of None \<Rightarrow> Inr (Some 12) | Some k \<Rightarrow> Inr (Some k), w)),
      cl_HeadByHash = (\<lambda>b w. (Inr b, w)),
      cl_LatestFinalizedBlock = (\<lambda>w. (Inr (Some 9), w)),
      cl_LatestSafeBlock = (\<lambda>w. (Inr (Some 10), w)),
      ctx_Err = (\<lambda>w. None)\<rparr>"

definition demo_tracker_cfg :: tracker_cfg where
  "demo_tracker_cfg =
     \<lparr>tc_FinalityDepth = 2, tc_SafeDepth = 1, tc_FinalityTagEnabled = False, tc_SafeTagSupported = False,
      tc_FinalizedBlockOffset = 1, tc_FinalityTagBypass = False, tc_MaxAllowedFinalityDepth = 100,
      tc_SamplingInterval = 0\<rparr>"

section \<open>Lemmas\<close>

lemma demo_laws: "head_laws demo_heads" "lookup_laws demo_heads demo_saver" "saver_laws demo_heads demo_saver"
  by (auto simp: head_laws_def lookup_laws_def saver_laws_def demo_heads_def demo_saver_def
      split: option.splits if_splits)

lemma linked_Cons: "linked H hs \<Longrightarrow> hs \<noteq> [] \<Longrightarrow> GetParentHash H h = BlockHash H (hd hs) \<Longrightarrow> linked H (h # hs)"
  by (cases hs) auto

lemma fetchAndSaveHead_hash:
  "lookup_laws H E \<Longrightarrow> fetchAndSaveHead H E b w = (Inr h, w') \<Longrightarrow> BlockHash H h = b"
  by (fastforce simp: fetchAndSaveHead_def lookup_laws_def split: prod.splits sum.splits if_splits option.splits)

lemma backfill_loop_linked:
  assumes "lookup_laws H E" and "backfill_loop H E k head w = (Inr h', w')"
  shows "\<exists>hs. length hs = Suc k \<and> hd hs = head \<and> last hs = h' \<and> linked H hs"
  using assms(2)
proof (induction k arbitrary: head w)
  case 0
  then show ?case by (intro exI [of _ "[head]"]) simp
next
  case (Suc k)
  from Suc.prems obtain head1 w1 where h1: "BlockHash H head1 = GetParentHash H head"
    and r: "backfill_loop H E k head1 w1 = (Inr h', w')"
    using assms(1) fetchAndSaveHead_hash [OF assms(1)]
    by (fastforce simp: Let_def lookup_laws_def split: if_splits prod.splits option.splits sum.splits)
  from Suc.IH [OF r] obtain hs where hs: "length hs = Suc k" "hd hs = head1" "last hs = h'" "linked H hs" by blast
  then have "linked H (head # hs)" by (intro linked_Cons) (auto simp: h1)
  with hs show ?case by (intro exI [of _ "head # hs"]) auto
qed

lemma fetchAndSaveHead_keeps:
  assumes "Q w" and "\<And>b w. Q w \<Longrightarrow> Q (snd (cl_HeadByHash E b w))" and "\<And>h w. Q w \<Longrightarrow> Q (snd (sv_Save E h w))"
  shows "Q (snd (fetchAndSaveHead H E b w))"
proof -
  obtain r w1 where c: "cl_HeadByHash E b w = (r, w1)" by (cases "cl_HeadByHash E b w")
  have q: "Q w1" using assms(2) [OF assms(1), of b] c by simp
  show ?thesis
  proof (cases r)
    case (Inl e)
    then show ?thesis using q c by (simp add: fetchAndSaveHead_def)
  next
    case (Inr h)
    obtain r2 w2 where s: "sv_Save E h w1 = (r2, w2)" by (cases "sv_Save E h w1")
    have "Q w2" using assms(3) [OF q, of h] s by simp
    then show ?thesis using q c s Inr by (simp add: fetchAndSaveHead_def split: option.splits)
  qed
qed

lemma backfill_loop_keeps:
  assumes "Q w" and "\<And>b w. Q w \<Longrightarrow> Q (snd (cl_HeadByHash E b w))" and "\<And>h w. Q w \<Longrightarrow> Q (snd (sv_Save E h w))"
  shows "Q (snd (backfill_loop H E k head w))"
  using assms(1)
proof (induction k arbitrary: head w)
  case (Suc k)
  have "Q (snd (fetchAndSaveHead H E (GetParentHash H head) w))"
    by (rule fetchAndSaveHead_keeps [OF Suc.prems assms(2,3)])
  then show ?case
    using Suc.IH Suc.prems by (auto simp: Let_def split: prod.splits option.splits sum.splits)
qed simp

lemma calculateLatestFinalized_keeps:
  assumes "Q w" and "\<And>w. Q w \<Longrightarrow> Q (snd (cl_LatestFinalizedBlock E w))"
    and "\<And>n w. Q w \<Longrightarrow> Q (snd (cl_HeadByNumber E n w))"
  shows "Q (snd (calculateLatestFinalized H E c h bypass w))"
proof -
  have g: "Q (snd (getHeadAtHeight H E b n w))" if "Q w" for b n w
    using that assms(3) [OF that, of "Some n"] by (auto simp: getHeadAtHeight_def Let_def split: sum.splits)
  show ?thesis
    using assms(1) assms(2) [OF assms(1)] g
    by (auto simp: calculateLatestFinalized_def split: prod.splits sum.splits)
qed

lemma getHeadAtHeight_number:
  assumes "head_laws H" and "lookup_laws H E" and "getHeadAtHeight H E b n w = (Inr h, w')" and "IsValid H h"
  shows "BlockNum H h = n"
proof (cases "cl_HeadByNumber E (Some n) w = (Inr h, w')")
  case True
  then show ?thesis using assms(2,4) unfolding lookup_laws_def by blast
next
  case False
  then obtain x where x: "HeadAtHeight H (sv_Chain E b w) n = Inr x" "h = sv_Chain E (BlockHash H x) w"
    using assms(3) by (auto simp: getHeadAtHeight_def Let_def split: if_splits sum.splits)
  have "BlockNum H x = n" using x(1) assms(1) unfolding head_laws_def by blast
  moreover have "BlockHash H h = BlockHash H x" using x(2) assms(2,4) unfolding lookup_laws_def by blast
  then have "BlockNum H h = BlockNum H x" using assms(1) unfolding head_laws_def by blast
  ultimately show ?thesis by simp
qed

text \<open>A block number minus 32-bit depths never wraps.\<close>

lemma depth_no_wrap:
  assumes "0 \<le> x" and "x \<le> MaxInt64"
  shows "i64 (x - uint (d :: 32 word)) = x - uint d"
    and "i64 (x - uint d - uint (o' :: 32 word)) = x - uint d - uint o'"
proof -
  have b: "0 \<le> uint d" "uint d < 4294967296" "0 \<le> uint o'" "uint o' < 4294967296"
    using uint_bounded [of d] uint_bounded [of o'] by simp_all
  have "in_range 64 (x - uint d)" "in_range 64 (x - uint d - uint o')"
    using assms b unfolding in_range_64 MinInt64_def MaxInt64_def by linarith+
  then show "i64 (x - uint d) = x - uint d" "i64 (x - uint d - uint o') = x - uint d - uint o'" by simp_all
qed

lemma backfill_cases:
  assumes "lookup_laws H E" and "backfill H E head fin w = (err, w')"
    and keeps: "\<And>b w. Q w \<Longrightarrow> Q (snd (cl_HeadByHash E b w))" "\<And>h w. Q w \<Longrightarrow> Q (snd (sv_Save E h w))" and "Q w"
  shows "err \<noteq> None \<and> Q w' \<or>
    err = None \<and> (\<exists>w2. Q w2 \<and> w' = snd (sv_MarkFinalized E fin w2)) \<and>
    (\<exists>hs. length hs = Suc (nat (BlockNum H head - BlockNum H fin)) \<and> hd hs = head \<and>
       BlockHash H (last hs) = BlockHash H fin \<and> linked H hs)"
proof -
  let ?k = "nat (BlockNum H head - BlockNum H fin)"
  obtain r w1 where l: "backfill_loop H E ?k head w = (r, w1)" by (cases "backfill_loop H E ?k head w")
  have q: "Q w1" using backfill_loop_keeps [OF \<open>Q w\<close> keeps, where k = ?k and head = head and H = H] l by simp
  show ?thesis
  proof (cases r)
    case (Inl e)
    then show ?thesis using assms(2) l q by (auto simp: backfill_def)
  next
    case (Inr h)
    from backfill_loop_linked [OF assms(1) l [unfolded Inr]]
    show ?thesis using assms(2) l q Inr by (auto simp: backfill_def split: if_splits)
  qed
qed

lemma Backfill_reaches_backfill:
  assumes "Backfill H E c head prev t = (err, t')"
    and f: "calculateLatestFinalized H E c head (tc_FinalityTagBypass c) (world t) = (r, w1)"
  shows "err \<noteq> None \<and> world t' = w1 \<or>
    (\<exists>fin. r = Inr fin \<and> IsValid H fin \<and> BlockNum H fin \<le> BlockNum H head \<and>
       i64 (BlockNum H head - BlockNum H fin) \<le> uint (tc_MaxAllowedFinalityDepth c) \<and>
       backfill H E head fin w1 = (err, world t'))"
proof (cases r)
  case (Inl e)
  then show ?thesis using assms(1) by (auto simp: Backfill_def f)
next
  case (Inr fin)
  obtain e2 w2 where b: "backfill H E head fin w1 = (e2, w2)" by (cases "backfill H E head fin w1")
  let ?v = "verifyFinalizedBlockHashes H (Some fin) (LatestFinalizedHead H prev)"
  let ?gap = "uint (tc_MaxAllowedFinalityDepth c) < i64 (BlockNum H head - BlockNum H fin)"
  consider "\<not> IsValid H fin \<or> BlockNum H head < BlockNum H fin \<or> ?gap"
    | "IsValid H fin \<and> \<not> BlockNum H head < BlockNum H fin \<and> \<not> ?gap" by blast
  then show ?thesis
  proof cases
    case 1
    then show ?thesis using assms(1) by (auto simp: Backfill_def f Inr Let_def split: if_splits)
  next
    case 2
    show ?thesis
    proof (cases "\<not> instantFinality c \<and> ?v \<noteq> None")
      case True
      then obtain e where "\<not> instantFinality c" "?v = Some e" by blast
      then have "err = Some e \<and> world t' = w1"
        using assms(1) 2 by (auto simp: Backfill_def f Inr Let_def SetHealthCond_def)
      then show ?thesis by simp
    next
      case False
      then have "err = e2 \<and> world t' = w2"
        using assms(1) 2 b by (auto simp: Backfill_def f Inr Let_def ClearHealthCond_def split: if_splits)
      then show ?thesis using 2 b Inr by auto
    qed
  qed
qed

lemma verify_Some_iff:
  "verifyFinalizedBlockHashes H (LatestFinalizedHead H head) (Some prev) =
     (if \<exists>f fin x. LatestFinalizedHead H prev = Some f \<and> LatestFinalizedHead H head = Some fin \<and>
           HeadAtHeight H fin (BlockNum H f) = Inr x \<and> (BlockNum H x < BlockNum H f \<or> BlockHash H x \<noteq> BlockHash H f)
      then Some ErrFinalityViolated else None)"
  by (auto simp: verifyFinalizedBlockHashes_def split: option.splits sum.splits)

lemma handle_saved_head_result:
  assumes "handle_saved_head H E head prev t = (err, t')"
  shows "err \<noteq> Some ErrFinalityViolated \<and> health t' = health t \<and> world t' = world t \<and>
    (\<exists>es. tr_effects t' = tr_effects t @ es \<and>
       (\<forall>h. DeliverBroadcast h \<in> set es \<longleftrightarrow>
          (\<not> IsValid H prev \<or> BlockNum H prev < BlockNum H head) \<and>
          h = sv_Chain E (BlockHash H head) (world t) \<and> IsValid H h) \<and>
       broadcast_nums H es = (if (\<not> IsValid H prev \<or> BlockNum H prev < BlockNum H head) \<and>
           IsValid H (sv_Chain E (BlockHash H head) (world t))
         then [BlockNum H (sv_Chain E (BlockHash H head) (world t))] else []))"
  using assms by (auto simp: handle_saved_head_def Let_def tr_emit_def split: if_splits)

lemma handleNewHead_violation:
  assumes "violates_finality H head (sv_LatestChain E (world t))"
  shows "fst (handleNewHead H E head t) = Some ErrFinalityViolated \<and>
    world (snd (handleNewHead H E head t)) = world t \<and>
    health (snd (handleNewHead H E head t)) head_violation = Some ErrFinalityViolated \<and>
    (tr_effects (snd (handleNewHead H E head t)) = tr_effects t \<or>
     tr_effects (snd (handleNewHead H E head t)) = tr_effects t @ [IncOldHead])"
  using assms
  by (auto simp: handleNewHead_def verify_Some_iff violates_finality_def Let_def SetHealthCond_def tr_emit_def
      split: option.splits if_splits)

lemma handleNewHead_accepts:
  assumes "\<not> violates_finality H head (sv_LatestChain E (world t))"
  shows "handleNewHead H E head t =
    (let t1 = ClearHealthCond head_violation t; (err, w1) = sv_Save E head (world t); t2 = t1\<lparr>world := w1\<rparr>
     in if ctx_Err E w1 \<noteq> None then (None, t2)
        else (case err of
                Some e \<Rightarrow> (Some (TrackerErr (''failed to save head: '' @ e)), t2)
              | None \<Rightarrow> handle_saved_head H E head (sv_LatestChain E (world t)) t2))"
proof -
  have v: "verifyFinalizedBlockHashes H (LatestFinalizedHead H head) (Some (sv_LatestChain E (world t))) = None"
    using assms unfolding verify_Some_iff violates_finality_def by auto
  have o: "\<not> (case if IsValid H (sv_LatestChain E (world t)) then LatestFinalizedHead H (sv_LatestChain E (world t)) else None of
      None \<Rightarrow> False | Some f \<Rightarrow> BlockNum H head < BlockNum H f)"
    using assms by (auto simp: violates_finality_def split: option.splits if_splits)
  show ?thesis
    unfolding handleNewHead_def Let_def using v o by (simp add: ClearHealthCond_def)
qed

lemma broadcast_nums_append: "broadcast_nums H (xs @ ys) = broadcast_nums H xs @ broadcast_nums H ys"
  by (induction xs rule: broadcast_nums.induct) auto

lemma order_inv_world:
  assumes "order_inv H E t" and "tr_effects t' = tr_effects t" and "world t' = g (world t)" and "progressive H E g"
  shows "order_inv H E t'"
  unfolding order_inv_def
proof (intro conjI ballI)
  show "sorted_wrt (<) (broadcast_nums H (tr_effects t'))" using assms(1,2) by (simp add: order_inv_def)
  fix n
  assume "n \<in> set (broadcast_nums H (tr_effects t'))"
  then have "IsValid H (sv_LatestChain E (world t))" "n \<le> BlockNum H (sv_LatestChain E (world t))"
    using assms(1,2) by (auto simp: order_inv_def)
  then show "IsValid H (sv_LatestChain E (world t'))" "n \<le> BlockNum H (sv_LatestChain E (world t'))"
    using assms(3,4) unfolding progressive_def by (force intro: order_trans)+
qed

lemma save_progressive: "saver_laws H E \<Longrightarrow> progressive H E (\<lambda>w. snd (sv_Save E head w))"
  unfolding saver_laws_def progressive_def by blast

lemma handle_saved_head_order:
  assumes "head_laws H" and "lookup_laws H E" and "saver_laws H E" and inv: "order_inv H E t"
    and s: "sv_Save E head (world t) = (None, w)"
    and t2: "tr_effects t2 = tr_effects t" "world t2 = w"
    and r: "handle_saved_head H E head (sv_LatestChain E (world t)) t2 = (err, t')"
  shows "order_inv H E t'"
proof -
  let ?prev = "sv_LatestChain E (world t)" and ?h = "sv_Chain E (BlockHash H head) w"
  have i2: "order_inv H E t2"
    by (rule order_inv_world [OF inv t2(1) _ save_progressive [OF assms(3), of head]]) (simp add: t2 s)
  obtain es where es: "tr_effects t' = tr_effects t @ es" "world t' = w"
    "broadcast_nums H es = (if (\<not> IsValid H ?prev \<or> BlockNum H ?prev < BlockNum H head) \<and> IsValid H ?h
       then [BlockNum H ?h] else [])"
    using handle_saved_head_result [OF r] t2 by auto
  show ?thesis
  proof (cases "(\<not> IsValid H ?prev \<or> BlockNum H ?prev < BlockNum H head) \<and> IsValid H ?h")
    case True
    then have "BlockHash H ?h = BlockHash H head" using assms(2) unfolding lookup_laws_def by blast
    then have num: "BlockNum H ?h = BlockNum H head" using assms(1) unfolding head_laws_def by blast
    have new: "IsValid H (sv_LatestChain E w)" "BlockNum H head \<le> BlockNum H (sv_LatestChain E w)"
      using assms(3) s unfolding saver_laws_def by blast+
    have "\<forall>n\<in>set (broadcast_nums H (tr_effects t)). n < BlockNum H head"
      using inv True by (force simp: order_inv_def)
    then show ?thesis
      using inv i2 new True num es t2
      by (auto simp: order_inv_def broadcast_nums_append sorted_wrt_append)
  next
    case False
    then have "broadcast_nums H (tr_effects t') = broadcast_nums H (tr_effects t2)"
      by (simp add: es t2 broadcast_nums_append)
    then show ?thesis using i2 es t2 by (simp add: order_inv_def)
  qed
qed

lemma handleNewHead_order:
  assumes "head_laws H" and "lookup_laws H E" and "saver_laws H E" and inv: "order_inv H E t"
  shows "order_inv H E (snd (handleNewHead H E head t))"
proof (cases "violates_finality H head (sv_LatestChain E (world t))")
  case True
  then have "world (snd (handleNewHead H E head t)) = world t"
    "broadcast_nums H (tr_effects (snd (handleNewHead H E head t))) = broadcast_nums H (tr_effects t)"
    using handleNewHead_violation [of H head E t] by (auto simp: broadcast_nums_append)
  then show ?thesis using inv by (simp add: order_inv_def)
next
  case False
  obtain e w where s: "sv_Save E head (world t) = (e, w)" by (cases "sv_Save E head (world t)")
  let ?t2 = "(ClearHealthCond head_violation t)\<lparr>world := w\<rparr>"
  have t2: "tr_effects ?t2 = tr_effects t" "world ?t2 = w" by (simp_all add: ClearHealthCond_def)
  have i2: "order_inv H E ?t2"
    by (rule order_inv_world [OF inv t2(1) _ save_progressive [OF assms(3), of head]]) (simp add: s)
  show ?thesis
  proof (cases "ctx_Err E w = None \<and> e = None")
    case True
    obtain err t' where r: "handle_saved_head H E head (sv_LatestChain E (world t)) ?t2 = (err, t')"
      by (cases "handle_saved_head H E head (sv_LatestChain E (world t)) ?t2")
    have "order_inv H E t'" by (rule handle_saved_head_order [OF assms _ t2 r]) (use True s in simp)
    then show ?thesis using handleNewHead_accepts [OF False] True s r by (simp add: Let_def)
  next
    case ne: False
    then have "snd (handleNewHead H E head t) = ?t2"
      using handleNewHead_accepts [OF False] s by (auto simp: Let_def split: option.splits)
    then show ?thesis using i2 by simp
  qed
qed

section \<open>Properties\<close>

text \<open>C26. \<open>Backfill\<close> either returns an error and marks nothing, or it returns none and calls \<open>MarkFinalized\<close> once, as its last
  call, with the latest finalized block that it calculated; and that block is then an ancestor of the head: from the head a chain
  of blocks linked by parent hashes, one per block number and no longer than the allowed finality depth, leads down to it. (\<open>Q\<close>
  is any property of the world that the queries and \<open>Save\<close> keep: it holds up to the call of \<open>MarkFinalized\<close>. Lookups answer with the
  block they are asked for, and block numbers are \<open>int64\<close> values that the hash determines.)\<close>

theorem Backfill_marks_ancestors:
  assumes "head_laws H" and "lookup_laws H E" and "IsValid H head"
    and "Backfill H E c head prev t = (err, t')"
    and keeps: "\<And>b w. Q w \<Longrightarrow> Q (snd (cl_HeadByHash E b w))" "\<And>h w. Q w \<Longrightarrow> Q (snd (sv_Save E h w))"
      "\<And>w. Q w \<Longrightarrow> Q (snd (cl_LatestFinalizedBlock E w))" "\<And>n w. Q w \<Longrightarrow> Q (snd (cl_HeadByNumber E n w))"
    and "Q (world t)"
  shows "err \<noteq> None \<and> Q (world t') \<or>
    err = None \<and>
    (\<exists>fin w2 hs. fst (calculateLatestFinalized H E c head (tc_FinalityTagBypass c) (world t)) = Inr fin \<and>
       Q w2 \<and> world t' = snd (sv_MarkFinalized E fin w2) \<and>
       hd hs = head \<and> BlockHash H (last hs) = BlockHash H fin \<and> linked H hs \<and>
       int (length hs) = BlockNum H head - BlockNum H fin + 1 \<and>
       int (length hs) \<le> uint (tc_MaxAllowedFinalityDepth c) + 1)"
proof -
  obtain r w1 where f: "calculateLatestFinalized H E c head (tc_FinalityTagBypass c) (world t) = (r, w1)"
    by (cases "calculateLatestFinalized H E c head (tc_FinalityTagBypass c) (world t)")
  have q: "Q w1" using calculateLatestFinalized_keeps [OF \<open>Q (world t)\<close> keeps(3,4)] f by (metis snd_conv)
  show ?thesis
  proof (cases "err \<noteq> None \<and> world t' = w1")
    case True
    then show ?thesis using q by simp
  next
    case False
    then obtain fin where r: "r = Inr fin" and valid: "IsValid H fin" and le: "BlockNum H fin \<le> BlockNum H head"
      and gap: "i64 (BlockNum H head - BlockNum H fin) \<le> uint (tc_MaxAllowedFinalityDepth c)"
      and b: "backfill H E head fin w1 = (err, world t')"
      using Backfill_reaches_backfill [OF assms(4) f] by blast
    have num: "0 \<le> BlockNum H fin" "BlockNum H head \<le> MaxInt64"
      using assms(1,3) valid unfolding head_laws_def by blast+
    have "in_range 64 (BlockNum H head - BlockNum H fin)"
      using num le unfolding in_range_64 MinInt64_def MaxInt64_def by linarith
    then have gap': "BlockNum H head - BlockNum H fin \<le> uint (tc_MaxAllowedFinalityDepth c)" using gap by simp
    have "err \<noteq> None \<and> Q (world t') \<or> err = None \<and> (\<exists>w2. Q w2 \<and> world t' = snd (sv_MarkFinalized E fin w2)) \<and>
        (\<exists>hs. length hs = Suc (nat (BlockNum H head - BlockNum H fin)) \<and> hd hs = head \<and>
           BlockHash H (last hs) = BlockHash H fin \<and> linked H hs)"
      by (rule backfill_cases [OF assms(2) b]) (use keeps(1,2) q in auto)
    then show ?thesis
    proof (elim disjE conjE exE)
      fix w2 hs
      assume "err = None" "Q w2" "world t' = snd (sv_MarkFinalized E fin w2)" "length hs = Suc (nat (BlockNum H head - BlockNum H fin))"
        "hd hs = head" "BlockHash H (last hs) = BlockHash H fin" "linked H hs"
      then show ?thesis using le gap' by (intro disjI2 conjI exI [of _ fin] exI [of _ w2] exI [of _ hs]) (simp_all add: f r)
    qed simp
  qed
qed

theorem Backfill_marks_ancestors_witness:
  "\<exists>hs. hd hs = Some 7 \<and> BlockHash demo_heads (last hs) = Some 4 \<and> linked demo_heads hs \<and> length hs = 4"
proof -
  let ?t = "\<lparr>world = (Some 7, [Some 7], []), health = Map.empty, tr_effects = []\<rparr>"
  have "fst (Backfill demo_heads demo_saver demo_tracker_cfg (Some 7) (Some 6) ?t) = None"
    by code_simp
  then have r: "Backfill demo_heads demo_saver demo_tracker_cfg (Some 7) (Some 6) ?t =
      (None, snd (Backfill demo_heads demo_saver demo_tracker_cfg (Some 7) (Some 6) ?t))"
    by (metis prod.collapse)
  have f: "fst (calculateLatestFinalized demo_heads demo_saver demo_tracker_cfg (Some 7)
      (tc_FinalityTagBypass demo_tracker_cfg) (world ?t)) = Inr (Some 4)"
    by code_simp
  have n: "IsValid demo_heads (Some 7)" "BlockNum demo_heads (Some 7) = 7" "BlockNum demo_heads (Some 4) = 4"
    "BlockHash demo_heads (Some 4) = Some 4"
    by (simp_all add: demo_heads_def MaxInt64_def)
  from Backfill_marks_ancestors [OF demo_laws(1,2) n(1) r, where Q = "\<lambda>w. True"]
  obtain hs where "hd hs = Some 7" "BlockHash demo_heads (last hs) = BlockHash demo_heads (Some 4)" "linked demo_heads hs"
    "int (length hs) = BlockNum demo_heads (Some 7) - BlockNum demo_heads (Some 4) + 1"
    using f by auto
  then show ?thesis by (intro exI [of _ hs]) (simp add: n)
qed

text \<open>The latest finalized block is found at the configured depth: the offset below the
  endpoint's finalized block with the finality tag, and finality depth plus offset below the given head
  without it, never below block zero and never with a wrapped subtraction.\<close>

theorem finalized_height:
  assumes "head_laws H" and "lookup_laws H E" and "IsValid H head"
    and "calculateLatestFinalized H E c head bypass w = (Inr fin, w')" and "IsValid H fin"
  shows "(if tc_FinalityTagEnabled c \<and> \<not> bypass
     then \<exists>l. fst (cl_LatestFinalizedBlock E w) = Inr l \<and> IsValid H l \<and>
            BlockNum H fin = max (BlockNum H l - uint (tc_FinalizedBlockOffset c)) 0
     else BlockNum H fin = max (BlockNum H head - uint (tc_FinalityDepth c) - uint (tc_FinalizedBlockOffset c)) 0)"
proof (cases "tc_FinalityTagEnabled c \<and> \<not> bypass")
  case True
  then obtain l w1 where l: "cl_LatestFinalizedBlock E w = (Inr l, w1)" "IsValid H l"
    and r: "tc_FinalizedBlockOffset c = 0 \<and> fin = l \<or>
       getHeadAtHeight H E (BlockHash H l) (max (i64 (BlockNum H l - uint (tc_FinalizedBlockOffset c))) 0) w1 = (Inr fin, w')"
    using assms(4) by (auto simp: calculateLatestFinalized_def split: prod.splits sum.splits if_splits)
  have num: "0 \<le> BlockNum H l" "BlockNum H l \<le> MaxInt64" using assms(1) l(2) unfolding head_laws_def by blast+
  from r have "BlockNum H fin = max (BlockNum H l - uint (tc_FinalizedBlockOffset c)) 0"
    using getHeadAtHeight_number [OF assms(1,2) _ assms(5)] num by (auto simp: depth_no_wrap(1) [OF num])
  then show ?thesis using True l by auto
next
  case False
  have num: "0 \<le> BlockNum H head" "BlockNum H head \<le> MaxInt64"
    using assms(1,3) unfolding head_laws_def by blast+
  from False assms(4) consider "instantFinality c" "fin = head"
    | "getHeadAtHeight H E (BlockHash H head)
         (max (BlockNum H head - uint (tc_FinalityDepth c) - uint (tc_FinalizedBlockOffset c)) 0) w = (Inr fin, w')"
    by (auto simp: calculateLatestFinalized_def depth_no_wrap [OF num] split: if_splits)
  then show ?thesis
  proof cases
    case 1
    then show ?thesis using False num by (auto simp: instantFinality_def)
  next
    case 2
    then show ?thesis using False getHeadAtHeight_number [OF assms(1,2) 2 assms(5)] by auto
  qed
qed

theorem finalized_height_witness:
  "BlockNum demo_heads (Some 4) = max (BlockNum demo_heads (Some 7) - uint (2 :: 32 word) - uint (1 :: 32 word)) 0"
proof -
  have "calculateLatestFinalized demo_heads demo_saver demo_tracker_cfg (Some 7) False (None, [], []) =
      (Inr (Some 4), (None, [], []))"
    by code_simp
  from finalized_height [OF demo_laws(1,2) _ this] show ?thesis
    by (simp add: demo_heads_def demo_tracker_cfg_def MaxInt64_def)
qed

text \<open>\<open>handleNewHead\<close> answers with a finality violation exactly when the head lies below the finalized
  block of the previous chain or contradicts it; then nothing is saved or sent on and the health condition
  is set. Otherwise the condition is cleared, the head is saved, and the head with its chain goes to the
  broadcaster exactly when saving succeeded, the context is live, it is higher than the previous head and
  the saver knows its chain.\<close>

theorem handleNewHead_result:
  fixes t :: "('h, 'b, 'w) tracker"
  assumes "handleNewHead H E head t = (err, t')"
  defines "prev \<equiv> sv_LatestChain E (world t)" and "w1 \<equiv> snd (sv_Save E head (world t))"
  shows "(err = Some ErrFinalityViolated \<longleftrightarrow> violates_finality H head prev) \<and>
    (\<exists>es. tr_effects t' = tr_effects t @ es \<and>
      (if violates_finality H head prev
       then world t' = world t \<and> health t' head_violation = Some ErrFinalityViolated \<and> set es \<subseteq> {IncOldHead}
       else world t' = w1 \<and> health t' head_violation = None \<and>
         (\<forall>h. DeliverBroadcast h \<in> set es \<longleftrightarrow>
            fst (sv_Save E head (world t)) = None \<and> ctx_Err E w1 = None \<and>
            (\<not> IsValid H prev \<or> BlockNum H prev < BlockNum H head) \<and>
            h = sv_Chain E (BlockHash H head) w1 \<and> IsValid H h)))"
proof (cases "violates_finality H head prev")
  case True
  then show ?thesis using handleNewHead_violation [of H head E t] assms by auto
next
  case False
  obtain e w where s: "sv_Save E head (world t) = (e, w)" by (cases "sv_Save E head (world t)")
  let ?t2 = "(ClearHealthCond head_violation t)\<lparr>world := w\<rparr>"
  have t2: "health ?t2 head_violation = None" "tr_effects ?t2 = tr_effects t" "world ?t2 = w"
    by (simp_all add: ClearHealthCond_def)
  show ?thesis
  proof (cases "ctx_Err E w = None \<and> e = None")
    case True
    then have "handle_saved_head H E head prev ?t2 = (err, t')"
      using handleNewHead_accepts [of H head E t] False assms s by (simp add: prev_def Let_def)
    from handle_saved_head_result [OF this] show ?thesis using False True s t2 by (auto simp: w1_def)
  next
    case ne: False
    then have "(err, t') = (if ctx_Err E w \<noteq> None then None else map_option (\<lambda>e. TrackerErr (''failed to save head: '' @ e)) e, ?t2)"
      using handleNewHead_accepts [of H head E t] False assms s by (auto simp: prev_def Let_def split: option.splits)
    then show ?thesis using False ne s t2 by (auto simp: w1_def)
  qed
qed

theorem handleNewHead_result_witness:
  "violates_finality demo_heads (Some 3) (Some 7)"
proof -
  have "handleNewHead demo_heads demo_saver (Some 3) \<lparr>world = (Some 7, [Some 7], []), health = Map.empty, tr_effects = []\<rparr> =
      (Some ErrFinalityViolated, SetHealthCond head_violation ErrFinalityViolated
         (tr_emit [IncOldHead] \<lparr>world = (Some 7, [Some 7], []), health = Map.empty, tr_effects = []\<rparr>))"
    by (simp add: handleNewHead_def demo_heads_def demo_saver_def MaxInt64_def Let_def)
  from handleNewHead_result [OF this] show ?thesis by (simp add: demo_saver_def)
qed

text \<open>Whatever heads arrive, in whatever order, and whatever other goroutines do to the saver in between
  (short of moving its latest chain back), the heads sent on to the broadcaster have strictly increasing block
  numbers.\<close>

theorem broadcasts_increase:
  assumes "head_laws H" and "lookup_laws H E" and "saver_laws H E"
    and "\<forall>(g, h)\<in>set hs. progressive H E g" and "tr_effects t = []"
  shows "sorted_wrt (<) (broadcast_nums H (tr_effects (handle_heads H E hs t)))"
proof -
  have "order_inv H E (handle_heads H E hs t)" if "order_inv H E t"
    using that assms(4)
  proof (induction hs arbitrary: t)
    case (Cons p hs)
    obtain g h where p: "p = (g, h)" by (cases p)
    have "order_inv H E (t\<lparr>world := g (world t)\<rparr>)"
      by (rule order_inv_world [OF Cons.prems(1)]) (use Cons.prems(2) p in auto)
    from handleNewHead_order [OF assms(1,2,3) this, of h] show ?case
      using Cons.IH Cons.prems(2) by (auto simp: p)
  qed simp
  then show ?thesis using assms(5) by (simp add: order_inv_def)
qed

theorem broadcasts_increase_witness:
  "sorted_wrt (<) (broadcast_nums demo_heads (tr_effects (handle_heads demo_heads demo_saver
     [(\<lambda>w. w, Some 5), (\<lambda>w. w, Some 4), (\<lambda>w. w, Some 7)]
     \<lparr>world = (None, [], []), health = Map.empty, tr_effects = []\<rparr>)))"
  by (rule broadcasts_increase [OF demo_laws]) (auto simp: progressive_def)

end
