(* ===== verification/Head_Broadcaster.thy ===== *)
theory Head_Broadcaster
  imports Go_Prelude
begin

text \<open>
  \<open>chains/heads/broadcaster.go\<close>: relaying heads to subscribers. The state is the map of callbacks under their
  numbers, the latest head relayed and the last number given out. The mailbox is a library queue, so
  \<open>executeCallbacks\<close> takes what \<open>Retrieve\<close> returned; the callbacks run concurrently, so the calls of one
  execution are a map from subscription numbers to what is called with which head.
\<close>

section \<open>The broadcaster\<close>

record ('h, 'c) broadcaster =
  callbacks :: "int \<rightharpoonup> 'c"
  latest :: "'h option"
  lastCallbackID :: int

definition NewBroadcaster :: "('h, 'c) broadcaster" where
  "NewBroadcaster = \<lparr>callbacks = Map.empty, latest = None, lastCallbackID = 0\<rparr>"

definition bc_close :: "('h, 'c) broadcaster \<Rightarrow> ('h, 'c) broadcaster" where
  "bc_close b = b\<lparr>callbacks := Map.empty\<rparr>"

definition bc_Subscribe :: "'c \<Rightarrow> ('h, 'c) broadcaster \<Rightarrow> 'h option \<times> int \<times> ('h, 'c) broadcaster" where
  "bc_Subscribe callback b =
     (let callbackID = i64 (lastCallbackID b + 1)
      in (latest b, callbackID,
          b\<lparr>callbacks := (callbacks b)(callbackID \<mapsto> callback), lastCallbackID := callbackID\<rparr>))"

definition bc_unsubscribe :: "int \<Rightarrow> ('h, 'c) broadcaster \<Rightarrow> ('h, 'c) broadcaster" where
  "bc_unsubscribe callbackID b = b\<lparr>callbacks := (callbacks b)(callbackID := None)\<rparr>"

definition executeCallbacks :: "'h option \<Rightarrow> ('h, 'c) broadcaster \<Rightarrow> (int \<rightharpoonup> 'c \<times> 'h) \<times> ('h, 'c) broadcaster" where
  "executeCallbacks retrieved b =
     (case retrieved of
        None \<Rightarrow> (Map.empty, b)
      | Some head \<Rightarrow> (\<lambda>i. map_option (\<lambda>c. (c, head)) (callbacks b i), b\<lparr>latest := Some head\<rparr>))"

text \<open>A run of the broadcaster: its operations in the order in which they take the mutex.\<close>

datatype ('h, 'c) bc_op = BSubscribe 'c | BUnsubscribe int | BExecute "'h option" | BClose

fun bc_apply :: "('h, 'c) bc_op \<Rightarrow> ('h, 'c) broadcaster \<Rightarrow> ('h, 'c) broadcaster" where
  "bc_apply (BSubscribe c) b = snd (snd (bc_Subscribe c b))"
| "bc_apply (BUnsubscribe i) b = bc_unsubscribe i b"
| "bc_apply (BExecute r) b = snd (executeCallbacks r b)"
| "bc_apply BClose b = bc_close b"

definition bc_run :: "('h, 'c) bc_op list \<Rightarrow> ('h, 'c) broadcaster" where
  "bc_run ops = fold bc_apply ops NewBroadcaster"

section \<open>What a subscriber may rely on\<close>

fun is_subscribe :: "('h, 'c) bc_op \<Rightarrow> bool" where
  "is_subscribe (BSubscribe c) \<longleftrightarrow> True"
| "is_subscribe _ \<longleftrightarrow> False"

definition sub_count :: "('h, 'c) bc_op list \<Rightarrow> nat" where
  "sub_count ops = length (filter is_subscribe ops)"

text \<open>The subscription number \<open>i\<close> of callback \<open>c\<close> is active: it was given out, and since then neither closed
  nor unsubscribed.\<close>

definition active_sub :: "('h, 'c) bc_op list \<Rightarrow> int \<Rightarrow> 'c \<Rightarrow> bool" where
  "active_sub ops i c \<longleftrightarrow>
     (\<exists>pre post. ops = pre @ BSubscribe c # post \<and> i = int (sub_count pre) + 1 \<and>
        BClose \<notin> set post \<and> BUnsubscribe i \<notin> set post)"

fun last_head :: "('h, 'c) bc_op list \<Rightarrow> 'h option" where
  "last_head [] = None"
| "last_head (BExecute (Some h) # ops) = (case last_head ops of None \<Rightarrow> Some h | Some h' \<Rightarrow> Some h')"
| "last_head (_ # ops) = last_head ops"

section \<open>Lemmas\<close>

lemma sub_count_snoc [simp]: "sub_count (ops @ [x]) = sub_count ops + (if is_subscribe x then 1 else 0)"
  by (simp add: sub_count_def)

lemma bc_run_snoc [simp]: "bc_run (ops @ [x]) = bc_apply x (bc_run ops)"
  by (simp add: bc_run_def)

lemma active_sub_snoc:
  "active_sub (ops @ [x]) i c \<longleftrightarrow>
     x = BSubscribe c \<and> i = int (sub_count ops) + 1 \<or>
     active_sub ops i c \<and> x \<noteq> BClose \<and> x \<noteq> BUnsubscribe i"
proof
  assume "active_sub (ops @ [x]) i c"
  then obtain pre post where p: "ops @ [x] = pre @ BSubscribe c # post" "i = int (sub_count pre) + 1"
    "BClose \<notin> set post" "BUnsubscribe i \<notin> set post"
    by (auto simp: active_sub_def)
  show "x = BSubscribe c \<and> i = int (sub_count ops) + 1 \<or>
     active_sub ops i c \<and> x \<noteq> BClose \<and> x \<noteq> BUnsubscribe i"
    using p by (cases post rule: rev_cases) (auto simp: active_sub_def)
next
  assume "x = BSubscribe c \<and> i = int (sub_count ops) + 1 \<or>
     active_sub ops i c \<and> x \<noteq> BClose \<and> x \<noteq> BUnsubscribe i"
  then show "active_sub (ops @ [x]) i c"
  proof (elim disjE conjE)
    assume "x = BSubscribe c" "i = int (sub_count ops) + 1"
    then show ?thesis unfolding active_sub_def by (intro exI [of _ ops] exI [of _ "[]"]) simp
  next
    assume "active_sub ops i c" "x \<noteq> BClose" "x \<noteq> BUnsubscribe i"
    then obtain pre post where "ops = pre @ BSubscribe c # post" "i = int (sub_count pre) + 1"
      "BClose \<notin> set post" "BUnsubscribe i \<notin> set post"
      by (auto simp: active_sub_def)
    then show ?thesis
      using \<open>x \<noteq> BClose\<close> \<open>x \<noteq> BUnsubscribe i\<close> unfolding active_sub_def
      by (intro exI [of _ pre] exI [of _ "post @ [x]"]) auto
  qed
qed

lemma active_sub_le: "active_sub ops i c \<Longrightarrow> i \<le> int (sub_count ops)"
  by (auto simp: active_sub_def sub_count_def)

lemma lastCallbackID_run: "int (sub_count ops) \<le> MaxInt64 \<Longrightarrow> lastCallbackID (bc_run ops) = int (sub_count ops)"
proof (induction ops rule: rev_induct)
  case Nil
  then show ?case by (simp add: bc_run_def NewBroadcaster_def sub_count_def)
next
  case (snoc x ops)
  then have le: "int (sub_count ops) \<le> MaxInt64" by (simp split: if_splits)
  show ?case
  proof (cases x)
    case (BSubscribe c)
    then have "in_range 64 (int (sub_count ops) + 1)"
      using snoc.prems unfolding in_range_64 MinInt64_def by simp
    then show ?thesis using snoc.IH [OF le] BSubscribe by (simp add: bc_Subscribe_def Let_def)
  qed (use snoc.IH [OF le] in \<open>simp_all add: bc_unsubscribe_def executeCallbacks_def bc_close_def split: option.splits\<close>)
qed

lemma callbacks_run:
  assumes "int (sub_count ops) \<le> MaxInt64"
  shows "callbacks (bc_run ops) i = Some c \<longleftrightarrow> active_sub ops i c"
  using assms
proof (induction ops rule: rev_induct)
  case Nil
  then show ?case by (simp add: bc_run_def NewBroadcaster_def active_sub_def)
next
  case (snoc x ops)
  then have le: "int (sub_count ops) \<le> MaxInt64" by (simp split: if_splits)
  note ih = snoc.IH [OF le]
  show ?case
  proof (cases x)
    case (BSubscribe d)
    then have r: "in_range 64 (int (sub_count ops) + 1)"
      using snoc.prems unfolding in_range_64 MinInt64_def by simp
    have "\<not> active_sub ops (int (sub_count ops) + 1) c" using active_sub_le [of ops "int (sub_count ops) + 1" c] by auto
    then show ?thesis
      using ih BSubscribe r lastCallbackID_run [OF le] by (auto simp: bc_Subscribe_def Let_def active_sub_snoc)
  next
    case (BUnsubscribe j)
    then show ?thesis using ih by (auto simp: bc_unsubscribe_def active_sub_snoc)
  next
    case (BExecute r)
    then show ?thesis using ih by (auto simp: executeCallbacks_def active_sub_snoc split: option.splits)
  next
    case BClose
    then show ?thesis by (auto simp: bc_close_def active_sub_snoc)
  qed
qed

lemma last_head_snoc:
  "last_head (ops @ [x]) = (case x of BExecute (Some h) \<Rightarrow> Some h | _ \<Rightarrow> last_head ops)"
  by (induction ops rule: last_head.induct) (auto split: bc_op.splits option.splits)

lemma latest_run: "latest (bc_run ops) = last_head ops"
proof (induction ops rule: rev_induct)
  case Nil
  then show ?case by (simp add: bc_run_def NewBroadcaster_def)
next
  case (snoc x ops)
  then show ?case
    by (cases x) (auto simp: last_head_snoc bc_Subscribe_def Let_def bc_unsubscribe_def bc_close_def executeCallbacks_def
        split: option.splits)
qed

section \<open>Properties\<close>

text \<open>In every run with fewer than \<open>2^63\<close> subscriptions: relaying a head calls exactly the active
  subscriptions, each once and with that head, where a subscription is active from its \<open>Subscribe\<close> until its
  own unsubscribe function is called or the broadcaster is closed (an unsubscribe function never removes
  another's callback, not even after a close); and a new subscriber is given the head relayed last.\<close>

theorem executeCallbacks_calls_active:
  assumes "int (sub_count ops) \<le> MaxInt64"
  shows "(fst (executeCallbacks (Some head) (bc_run ops)) i = Some (c, h) \<longleftrightarrow> active_sub ops i c \<and> h = head) \<and>
    fst (bc_Subscribe d (bc_run ops)) = last_head ops"
  using callbacks_run [OF assms, of i c] latest_run [of ops]
  by (auto simp: executeCallbacks_def bc_Subscribe_def Let_def)

theorem executeCallbacks_calls_active_witness:
  "fst (executeCallbacks (Some (9 :: nat)) (bc_run [BSubscribe ''a'', BSubscribe ''b'', BUnsubscribe 1])) 2 = Some (''b'', 9)"
proof -
  have "active_sub [BSubscribe ''a'', BSubscribe ''b'', BUnsubscribe 1 :: (nat, string) bc_op] 2 ''b''"
    unfolding active_sub_def
    by (intro exI [of _ "[BSubscribe ''a'']"] exI [of _ "[BUnsubscribe 1]"]) (simp add: sub_count_def)
  then show ?thesis
    using executeCallbacks_calls_active [of "[BSubscribe ''a'', BSubscribe ''b'', BUnsubscribe 1]" "9 :: nat" 2 "''b''" 9 "''c''"]
    by (simp add: sub_count_def MaxInt64_def)
qed

end
