(* ===== verification/Head_Service.thy ===== *)
theory Head_Service
  imports Head_Tracker Head_Broadcaster "HOL-Library.Sublist"
begin

text \<open>
  The head tracking put together (\<open>chains/heads/tracker.go\<close>, \<open>broadcaster.go\<close>, \<open>listener.go\<close>): the listener's goroutine hands
  heads to the tracker, which saves them and puts the new highest ones into a mailbox; its broadcast loop moves them into the
  broadcaster's mailbox, and the broadcaster's goroutine relays them to the subscribers. The mailboxes and the service engine come
  from another package: \<open>mailbox_ops\<close> are the operations used, \<open>mailbox_law\<close> what is documented of them (a queue that drops its
  oldest items when it is full), over a function \<open>contents\<close> that shows the items of a mailbox.
\<close>

section \<open>Mailboxes\<close>

record ('h, 'm) mailbox_ops =
  mb_New :: "nat \<Rightarrow> 'm"
  mb_Deliver :: "'h \<Rightarrow> 'm \<Rightarrow> 'm"
  mb_Retrieve :: "'m \<Rightarrow> 'h option \<times> 'm"
  mb_RetrieveLatestAndClear :: "'m \<Rightarrow> 'h \<times> 'm"
  mb_Close :: "'m \<Rightarrow> 'm"

definition mailbox_law :: "('h \<Rightarrow> bool) \<Rightarrow> ('m \<Rightarrow> 'h list) \<Rightarrow> ('h, 'm) mailbox_ops \<Rightarrow> bool" where
  "mailbox_law valid contents B \<longleftrightarrow>
     (\<forall>n. contents (mb_New B n) = []) \<and>
     (\<forall>h m. \<exists>k. contents (mb_Deliver B h m) = drop k (contents m @ [h])) \<and>
     (\<forall>m. case contents m of
            [] \<Rightarrow> fst (mb_Retrieve B m) = None \<and> contents (snd (mb_Retrieve B m)) = []
          | x # xs \<Rightarrow> fst (mb_Retrieve B m) = Some x \<and> contents (snd (mb_Retrieve B m)) = xs) \<and>
     (\<forall>m. contents (snd (mb_RetrieveLatestAndClear B m)) = [] \<and>
        (if contents m = [] then \<not> valid (fst (mb_RetrieveLatestAndClear B m))
         else fst (mb_RetrieveLatestAndClear B m) = last (contents m))) \<and>
     (\<forall>m. \<exists>k. contents (mb_Close B m) = drop k (contents m))"

section \<open>The system\<close>

datatype head_loop = ListenLoop | BroadcastLoop | BackfillLoop | RelayLoop

text \<open>For the subscription with number \<open>i\<close>, \<open>hs_given\<close> has the head that \<open>Subscribe\<close> returned and \<open>hs_seen\<close> those with which its
  callback was called since; \<open>hs_relayed\<close> lists all heads relayed.\<close>

record ('h, 'b, 'w, 'm, 'c) head_system =
  hs_tracker :: "('h, 'b, 'w) tracker"
  hs_broadcastMB :: 'm
  hs_mailbox :: 'm
  hs_broadcaster :: "('h, 'c) broadcaster"
  hs_loops :: "head_loop list"
  hs_relayed :: "'h list"
  hs_given :: "int \<Rightarrow> 'h list"
  hs_seen :: "int \<Rightarrow> 'h list"

definition HeadsBufferSize :: nat where
  "HeadsBufferSize = 10"

text \<open>\<open>NewTracker\<close> with the broadcaster it is given; a single mailbox has capacity one.\<close>

definition NewTracker :: "('h, 'm) mailbox_ops \<Rightarrow> 'w \<Rightarrow> ('h, 'b, 'w, 'm, 'c) head_system" where
  "NewTracker B w =
     \<lparr>hs_tracker = \<lparr>world = w, health = Map.empty, tr_effects = []\<rparr>, hs_broadcastMB = mb_New B HeadsBufferSize,
      hs_mailbox = mb_New B 1, hs_broadcaster = NewBroadcaster, hs_loops = [], hs_relayed = [], hs_given = (\<lambda>i. []),
      hs_seen = (\<lambda>i. [])\<rparr>"

definition tracker_start :: "('h, 'b, 'w, 'm, 'c) head_system \<Rightarrow> ('h, 'b, 'w, 'm, 'c) head_system" where
  "tracker_start s = s\<lparr>hs_loops := hs_loops s @ [BackfillLoop, BroadcastLoop]\<rparr>"

definition tracker_close :: "('h, 'm) mailbox_ops \<Rightarrow> ('h, 'b, 'w, 'm, 'c) head_system \<Rightarrow> ('h, 'b, 'w, 'm, 'c) head_system" where
  "tracker_close B s = s\<lparr>hs_broadcastMB := mb_Close B (hs_broadcastMB s)\<rparr>"

definition listener_start :: "('h, 'b, 'w, 'm, 'c) head_system \<Rightarrow> ('h, 'b, 'w, 'm, 'c) head_system" where
  "listener_start s = s\<lparr>hs_loops := hs_loops s @ [ListenLoop]\<rparr>"

definition broadcaster_start :: "('h, 'b, 'w, 'm, 'c) head_system \<Rightarrow> ('h, 'b, 'w, 'm, 'c) head_system" where
  "broadcaster_start s = s\<lparr>hs_loops := hs_loops s @ [RelayLoop]\<rparr>"

text \<open>What a step of the tracker delivers: its effects since the step began, sorted into the two mailboxes. Putting a head into
  the broadcaster's mailbox is \<open>BroadcastNewLongestChain\<close>.\<close>

fun saved_head :: "'h tracker_effect \<Rightarrow> 'h list" where
  "saved_head (DeliverBroadcast h) = [h]"
| "saved_head _ = []"

fun longest_head :: "'h tracker_effect \<Rightarrow> 'h list" where
  "longest_head (BroadcastNewLongestChain h) = [h]"
| "longest_head _ = []"

definition broadcast_heads :: "'h tracker_effect list \<Rightarrow> 'h list" where
  "broadcast_heads es = concat (map saved_head es)"

definition mb_deliver_all :: "('h, 'm) mailbox_ops \<Rightarrow> 'h list \<Rightarrow> 'm \<Rightarrow> 'm" where
  "mb_deliver_all B hs m = fold (mb_Deliver B) hs m"

definition tracker_did ::
  "('h, 'm) mailbox_ops \<Rightarrow> ('h, 'b, 'w) tracker \<Rightarrow> ('h, 'b, 'w, 'm, 'c) head_system \<Rightarrow> ('h, 'b, 'w, 'm, 'c) head_system" where
  "tracker_did B t s =
     (let es = drop (length (tr_effects (hs_tracker s))) (tr_effects t)
      in s\<lparr>hs_tracker := t,
           hs_broadcastMB := mb_deliver_all B (broadcast_heads es) (hs_broadcastMB s),
           hs_mailbox := mb_deliver_all B (concat (map longest_head es)) (hs_mailbox s)\<rparr>)"

text \<open>The broadcaster: one round of \<open>run\<close> with what \<open>Retrieve\<close> returns, and \<open>Subscribe\<close>.\<close>

definition relay_round :: "('h, 'm) mailbox_ops \<Rightarrow> ('h, 'b, 'w, 'm, 'c) head_system \<Rightarrow> ('h, 'b, 'w, 'm, 'c) head_system" where
  "relay_round B s =
     (let (retrieved, m) = mb_Retrieve B (hs_mailbox s);
          (calls, b) = executeCallbacks retrieved (hs_broadcaster s)
      in s\<lparr>hs_mailbox := m, hs_broadcaster := b,
           hs_relayed := hs_relayed s @ (case retrieved of None \<Rightarrow> [] | Some h \<Rightarrow> [h]),
           hs_seen := (\<lambda>i. hs_seen s i @ (case calls i of None \<Rightarrow> [] | Some (cb, h) \<Rightarrow> [h]))\<rparr>)"

definition subscriber_joins :: "'c \<Rightarrow> ('h, 'b, 'w, 'm, 'c) head_system \<Rightarrow> ('h, 'b, 'w, 'm, 'c) head_system" where
  "subscriber_joins cb s =
     (let (current, i, b) = bc_Subscribe cb (hs_broadcaster s)
      in s\<lparr>hs_broadcaster := b,
           hs_given := (hs_given s)(i := (case current of None \<Rightarrow> [] | Some h \<Rightarrow> [h])),
           hs_seen := (hs_seen s)(i := [])\<rparr>)"

definition on_hs_broadcaster ::
  "(('h, 'c) broadcaster \<Rightarrow> ('h, 'c) broadcaster) \<Rightarrow> ('h, 'b, 'w, 'm, 'c) head_system \<Rightarrow> ('h, 'b, 'w, 'm, 'c) head_system" where
  "on_hs_broadcaster f s = s\<lparr>hs_broadcaster := f (hs_broadcaster s)\<rparr>"

section \<open>Steps\<close>

text \<open>\<open>rest\<close> is what other users of the saver do to it, short of moving its latest chain back.\<close>

inductive head_step ::
  "('h, 'b) head_ops \<Rightarrow> ('h, 'b, 'w) tracker_env \<Rightarrow> tracker_cfg \<Rightarrow> ('h, 'm) mailbox_ops \<Rightarrow>
   ('h, 'b, 'w, 'm, 'c) head_system \<Rightarrow> ('h, 'b, 'w, 'm, 'c) head_system \<Rightarrow> bool" for H E c B where
  starts_tracker: "head_step H E c B s (tracker_start s)"
| starts_listener: "head_step H E c B s (listener_start s)"
| starts_broadcaster: "head_step H E c B s (broadcaster_start s)"
| loop_ends: "head_step H E c B s (s\<lparr>hs_loops := filter (\<lambda>l. l \<noteq> loop) (hs_loops s)\<rparr>)"
| closes_tracker: "head_step H E c B s (tracker_close B s)"
| initial_head: "ListenLoop \<in> set (hs_loops s) \<Longrightarrow>
    head_step H E c B s (tracker_did B (snd (handleInitialHead H E c (hs_tracker s))) s)"
| new_head: "ListenLoop \<in> set (hs_loops s) \<Longrightarrow> IsValid H h \<Longrightarrow>
    head_step H E c B s (tracker_did B (snd (handleNewHead H E h (hs_tracker s))) s)"
| sampled: "BroadcastLoop \<in> set (hs_loops s) \<Longrightarrow> 0 < tc_SamplingInterval c \<Longrightarrow>
    mb_RetrieveLatestAndClear B (hs_broadcastMB s) = (item, m) \<Longrightarrow>
    head_step H E c B s (tracker_did B (broadcast_handle H (BcTick item) (hs_tracker s)) (s\<lparr>hs_broadcastMB := m\<rparr>))"
| broadcast_next: "BroadcastLoop \<in> set (hs_loops s) \<Longrightarrow> \<not> 0 < tc_SamplingInterval c \<Longrightarrow>
    mb_Retrieve B (hs_broadcastMB s) = (Some item, m) \<Longrightarrow>
    head_step H E c B s (tracker_did B (broadcast_handle H (BcNotify [item]) (hs_tracker s)) (s\<lparr>hs_broadcastMB := m\<rparr>))"
| backfilled: "BackfillLoop \<in> set (hs_loops s) \<Longrightarrow> DeliverBackfill h prev \<in> set (tr_effects (hs_tracker s)) \<Longrightarrow>
    head_step H E c B s (tracker_did B (snd (Backfill H E c h prev (hs_tracker s))) s)"
| relays: "RelayLoop \<in> set (hs_loops s) \<Longrightarrow> head_step H E c B s (relay_round B s)"
| subscribes: "head_step H E c B s (subscriber_joins cb s)"
| unsubscribes: "head_step H E c B s (on_hs_broadcaster (bc_unsubscribe i) s)"
| closes_broadcaster: "head_step H E c B s (on_hs_broadcaster bc_close s)"
| rest: "progressive H E g \<Longrightarrow>
    head_step H E c B s (s\<lparr>hs_tracker := (hs_tracker s)\<lparr>world := g (world (hs_tracker s))\<rparr>\<rparr>)"

definition head_init :: "('h, 'm) mailbox_ops \<Rightarrow> ('h, 'b, 'w, 'm, 'c) head_system \<Rightarrow> bool" where
  "head_init B s \<longleftrightarrow> (\<exists>w. s = NewTracker B w)"

interpretation head_tracking: transition_system "head_init B" "head_step H E c B" for H E c B .

section \<open>The saver's latest chain\<close>

text \<open>No call of the client or the saver moves the latest chain back.\<close>

definition call_laws :: "('h, 'b) head_ops \<Rightarrow> ('h, 'b, 'w) tracker_env \<Rightarrow> bool" where
  "call_laws H E \<longleftrightarrow>
     (\<forall>n. progressive H E (\<lambda>w. snd (sv_Load E n w))) \<and> (\<forall>h. progressive H E (\<lambda>w. snd (sv_MarkFinalized E h w))) \<and>
     (\<forall>n. progressive H E (\<lambda>w. snd (cl_HeadByNumber E n w))) \<and> (\<forall>b. progressive H E (\<lambda>w. snd (cl_HeadByHash E b w))) \<and>
     progressive H E (\<lambda>w. snd (cl_LatestFinalizedBlock E w))"

definition at_least :: "('h, 'b) head_ops \<Rightarrow> ('h, 'b, 'w) tracker_env \<Rightarrow> int \<Rightarrow> 'w \<Rightarrow> bool" where
  "at_least H E n w \<longleftrightarrow> IsValid H (sv_LatestChain E w) \<and> n \<le> BlockNum H (sv_LatestChain E w)"

lemma progressive_at_least: "progressive H E g \<Longrightarrow> at_least H E n w \<Longrightarrow> at_least H E n (g w)"
  unfolding progressive_def at_least_def by (meson order_trans)

lemma order_inv_later:
  assumes "order_inv H E t" and "tr_effects t' = tr_effects t"
    and "\<And>n. at_least H E n (world t) \<Longrightarrow> at_least H E n (world t')"
  shows "order_inv H E t'"
  using assms unfolding order_inv_def at_least_def by auto

lemma call_at_least:
  assumes "call_laws H E" and "saver_laws H E"
  shows "at_least H E n w \<Longrightarrow> at_least H E n (snd (sv_Load E k w))"
    and "at_least H E n w \<Longrightarrow> at_least H E n (snd (sv_MarkFinalized E h w))"
    and "at_least H E n w \<Longrightarrow> at_least H E n (snd (cl_HeadByNumber E num w))"
    and "at_least H E n w \<Longrightarrow> at_least H E n (snd (cl_HeadByHash E b w))"
    and "at_least H E n w \<Longrightarrow> at_least H E n (snd (cl_LatestFinalizedBlock E w))"
    and "at_least H E n w \<Longrightarrow> at_least H E n (snd (sv_Save E h w))"
  using assms progressive_at_least [of H E "\<lambda>w. snd (sv_Load E k w)" n w]
    progressive_at_least [of H E "\<lambda>w. snd (sv_MarkFinalized E h w)" n w]
    progressive_at_least [of H E "\<lambda>w. snd (cl_HeadByNumber E num w)" n w]
    progressive_at_least [of H E "\<lambda>w. snd (cl_HeadByHash E b w)" n w]
    progressive_at_least [of H E "\<lambda>w. snd (cl_LatestFinalizedBlock E w)" n w]
    progressive_at_least [of H E "\<lambda>w. snd (sv_Save E h w)" n w] save_progressive [of H E h]
  by (simp_all add: call_laws_def)

lemma calculate_at_least:
  assumes "call_laws H E" and "saver_laws H E" and "at_least H E n w"
  shows "at_least H E n (snd (calculateLatestFinalized H E c h bypass w))"
  by (rule calculateLatestFinalized_keeps [where Q = "at_least H E n", OF assms(3)])
    (erule call_at_least [OF assms(1,2)])+

lemma backfill_at_least:
  assumes "call_laws H E" and "saver_laws H E" and "at_least H E n w"
  shows "at_least H E n (snd (backfill H E head fin w))"
proof -
  let ?k = "nat (BlockNum H head - BlockNum H fin)"
  have "at_least H E n (snd (backfill_loop H E ?k head w))"
    by (rule backfill_loop_keeps [where Q = "at_least H E n", OF assms(3)])
      (erule call_at_least [OF assms(1,2)])+
  moreover obtain r w1 where "backfill_loop H E ?k head w = (r, w1)" by (cases "backfill_loop H E ?k head w")
  ultimately show ?thesis
    using call_at_least(2) [OF assms(1,2), of n w1 fin] by (cases r) (simp_all add: backfill_def)
qed

lemma Backfill_order:
  assumes "call_laws H E" and "saver_laws H E" and "order_inv H E t" and "Backfill H E c head prev t = (err, t')"
  shows "order_inv H E t' \<and> tr_effects t' = tr_effects t"
proof -
  obtain r w1 where f: "calculateLatestFinalized H E c head (tc_FinalityTagBypass c) (world t) = (r, w1)"
    by (cases "calculateLatestFinalized H E c head (tc_FinalityTagBypass c) (world t)")
  have w1: "at_least H E n w1" if "at_least H E n (world t)" for n
    using calculate_at_least [OF assms(1,2) that] f by (metis snd_conv)
  have eff: "tr_effects t' = tr_effects t"
    using assms(4)
    by (auto simp: Backfill_def Let_def SetHealthCond_def ClearHealthCond_def split: prod.splits sum.splits if_splits option.splits)
  have "at_least H E n (world t')" if "at_least H E n (world t)" for n
    using Backfill_reaches_backfill [OF assms(4) f] w1 [OF that] backfill_at_least [OF assms(1,2) w1 [OF that], of head]
    by (metis snd_conv)
  then show ?thesis using order_inv_later [OF assms(3) eff] eff by blast
qed

text \<open>The tracker only adds effects.\<close>

definition extends :: "('h, 'b, 'w) tracker \<Rightarrow> ('h, 'b, 'w) tracker \<Rightarrow> bool" where
  "extends t t' \<longleftrightarrow> (\<exists>es. tr_effects t' = tr_effects t @ es \<and> concat (map longest_head es) = [])"

lemma handle_saved_head_extends: "extends t (snd (handle_saved_head H E head prev t))"
  by (auto simp: handle_saved_head_def extends_def tr_emit_def Let_def)

lemma handleNewHead_extends: "extends t (snd (handleNewHead H E head t))"
proof (cases "violates_finality H head (sv_LatestChain E (world t))")
  case True
  then show ?thesis using handleNewHead_violation [OF True] by (auto simp: extends_def)
next
  case False
  obtain e w where s: "sv_Save E head (world t) = (e, w)" by (cases "sv_Save E head (world t)")
  let ?t2 = "(ClearHealthCond head_violation t)\<lparr>world := w\<rparr>"
  have "tr_effects ?t2 = tr_effects t" by (simp add: ClearHealthCond_def)
  then show ?thesis
    using handleNewHead_accepts [OF False] s handle_saved_head_extends [of ?t2]
    by (auto simp: Let_def extends_def split: option.splits)
qed

lemma handleInitialHead_order:
  assumes laws: "head_laws H" "lookup_laws H E" "saver_laws H E" "call_laws H E" and inv: "order_inv H E t"
  shows "order_inv H E (snd (handleInitialHead H E c t)) \<and> extends t (snd (handleInitialHead H E c t))"
proof -
  obtain r1 w1 where c1: "cl_HeadByNumber E None (world t) = (r1, w1)" by (cases "cl_HeadByNumber E None (world t)")
  have o1: "at_least H E n (world t) \<Longrightarrow> at_least H E n w1" for n
    using call_at_least(3) [OF laws(4,3)] c1 by (metis snd_conv)
  have w: "order_inv H E (t\<lparr>world := w'\<rparr>) \<and> extends t (t\<lparr>world := w'\<rparr>)" if "\<And>n. at_least H E n (world t) \<Longrightarrow> at_least H E n w'" for w'
    using order_inv_later [OF inv, of "t\<lparr>world := w'\<rparr>"] that by (simp add: extends_def)
  show ?thesis
  proof (cases r1)
    case (Inl err)
    then show ?thesis using c1 w [OF o1] by (simp add: handleInitialHead_def)
  next
    case (Inr head)
    let ?calc = "calculateLatestFinalized H E c head (tc_FinalityTagBypass c) w1"
    obtain r2 w2 where c2: "?calc = (r2, w2)" by (cases ?calc)
    have o2: "at_least H E n (world t) \<Longrightarrow> at_least H E n w2" for n
      using calculate_at_least [OF laws(4,3) o1, of n c head "tc_FinalityTagBypass c"] c2 by simp
    show ?thesis
    proof (cases "IsValid H head \<and> (\<exists>fin. r2 = Inr fin \<and> IsValid H fin)")
      case False
      then show ?thesis
        using c1 c2 Inr w [OF o1] w [OF o2] by (auto simp: handleInitialHead_def split: sum.splits)
    next
      case True
      then obtain fin where fin: "r2 = Inr fin" "IsValid H fin" by blast
      obtain r3 w3 where c3: "sv_Load E (BlockNum H fin) w2 = (r3, w3)" by (cases "sv_Load E (BlockNum H fin) w2")
      have o3: "at_least H E n (world t) \<Longrightarrow> at_least H E n w3" for n
        using call_at_least(1) [OF laws(4,3) o2, of n "BlockNum H fin"] c3 by simp
      have "order_inv H E (snd (handleNewHead H E head (t\<lparr>world := w3\<rparr>)))"
        using handleNewHead_order [OF laws(1-3)] w [OF o3] by blast
      moreover have "extends t (snd (handleNewHead H E head (t\<lparr>world := w3\<rparr>)))"
        using handleNewHead_extends [of "t\<lparr>world := w3\<rparr>"] by (simp add: extends_def)
      ultimately show ?thesis
        using True c1 c2 c3 Inr fin w [OF o3]
        by (auto simp: handleInitialHead_def split: sum.splits prod.splits)
    qed
  qed
qed

section \<open>The pipeline\<close>

lemma sorted_wrt_subseq: "subseq xs ys \<Longrightarrow> sorted_wrt P ys \<Longrightarrow> sorted_wrt P xs"
proof (induction rule: list_emb.induct)
  case (list_emb_Cons2 x y xs ys)
  then show ?case by (auto dest: list_emb_set)
qed auto

lemma subseq_drop: "subseq (drop k xs) xs"
  by (simp add: suffix_drop suffix_imp_subseq)

lemma broadcast_heads_simps [simp]:
  "broadcast_heads [] = []" "broadcast_heads (xs @ ys) = broadcast_heads xs @ broadcast_heads ys"
  "broadcast_heads (BroadcastNewLongestChain h # es) = broadcast_heads es"
  by (simp_all add: broadcast_heads_def)

lemma broadcast_heads_longest [simp]: "broadcast_heads (map BroadcastNewLongestChain hs) = []"
  by (induction hs) simp_all

lemma subseq_last: "xs \<noteq> [] \<Longrightarrow> subseq [last xs] xs"
  by (metis append_butlast_last_id list_emb_append2 subseq_order.order_refl)

lemma broadcast_nums_heads: "broadcast_nums H es = map (BlockNum H) (broadcast_heads es)"
  by (induction es rule: broadcast_nums.induct) (auto simp: broadcast_heads_def)

lemma mailbox_Retrieve:
  assumes "mailbox_law valid contents B" and "mb_Retrieve B m = (r, m')"
  shows "case contents m of [] \<Rightarrow> r = None \<and> contents m' = [] | x # xs \<Rightarrow> r = Some x \<and> contents m' = xs"
proof -
  have "case contents m of
      [] \<Rightarrow> fst (mb_Retrieve B m) = None \<and> contents (snd (mb_Retrieve B m)) = []
    | x # xs \<Rightarrow> fst (mb_Retrieve B m) = Some x \<and> contents (snd (mb_Retrieve B m)) = xs"
    using assms(1) by (simp add: mailbox_law_def)
  then show ?thesis by (cases "contents m") (simp_all add: assms(2))
qed

lemma mb_deliver_all_subseq:
  assumes "mailbox_law valid contents B"
  shows "subseq (contents (mb_deliver_all B hs m)) (contents m @ hs)"
proof (induction hs arbitrary: m)
  case (Cons h hs)
  obtain k where k: "contents (mb_Deliver B h m) = drop k (contents m @ [h])"
    using assms unfolding mailbox_law_def by blast
  have "subseq (contents (mb_deliver_all B (h # hs) m)) (contents (mb_Deliver B h m) @ hs)"
    using Cons [of "mb_Deliver B h m"] by (simp add: mb_deliver_all_def)
  also have "subseq \<dots> ((contents m @ [h]) @ hs)" unfolding k by (intro list_emb_append_mono subseq_drop) simp
  finally show ?case by simp
qed (simp add: mb_deliver_all_def)

definition pipe_inv :: "('m \<Rightarrow> 'h list) \<Rightarrow> ('h, 'b, 'w, 'm, 'c) head_system \<Rightarrow> bool" where
  "pipe_inv contents s \<longleftrightarrow>
     subseq (hs_relayed s @ contents (hs_mailbox s) @ contents (hs_broadcastMB s)) (broadcast_heads (tr_effects (hs_tracker s))) \<and>
     (\<forall>i. subseq (hs_given s i @ hs_seen s i) (hs_relayed s)) \<and>
     latest (hs_broadcaster s) = (if hs_relayed s = [] then None else Some (last (hs_relayed s)))"

text \<open>A step of the tracker, from a state in which the broadcast loop may have taken items out of its mailbox: what it adds
  goes to the ends of the queues.\<close>

lemma tracker_did_pipe:
  assumes law: "mailbox_law valid contents B" and inv: "pipe_inv contents s"
    and eff: "tr_effects t = tr_effects (hs_tracker s) @ es"
    and taken: "subseq (contents (hs_mailbox s) @ concat (map longest_head es) @ contents m) (contents (hs_mailbox s) @ contents (hs_broadcastMB s))"
  shows "pipe_inv contents (tracker_did B t (s\<lparr>hs_broadcastMB := m\<rparr>))"
proof -
  let ?s = "tracker_did B t (s\<lparr>hs_broadcastMB := m\<rparr>)"
  have "subseq (contents (hs_mailbox ?s)) (contents (hs_mailbox s) @ concat (map longest_head es))"
    "subseq (contents (hs_broadcastMB ?s)) (contents m @ broadcast_heads es)"
    using mb_deliver_all_subseq [OF law] eff by (simp_all add: tracker_did_def Let_def)
  then have "subseq (contents (hs_mailbox ?s) @ contents (hs_broadcastMB ?s))
      ((contents (hs_mailbox s) @ concat (map longest_head es)) @ (contents m @ broadcast_heads es))"
    by (rule list_emb_append_mono)
  also have "\<dots> = (contents (hs_mailbox s) @ concat (map longest_head es) @ contents m) @ broadcast_heads es" by simp
  also have "subseq \<dots> ((contents (hs_mailbox s) @ contents (hs_broadcastMB s)) @ broadcast_heads es)"
    by (rule list_emb_append_mono [OF taken]) simp
  finally have "subseq (hs_relayed s @ contents (hs_mailbox ?s) @ contents (hs_broadcastMB ?s))
      (hs_relayed s @ (contents (hs_mailbox s) @ contents (hs_broadcastMB s)) @ broadcast_heads es)"
    by (rule list_emb_append_mono [OF subseq_order.order_refl])
  also have "subseq \<dots> (broadcast_heads (tr_effects (hs_tracker s)) @ broadcast_heads es)"
    using inv list_emb_append_mono [of "(=)" "hs_relayed s @ contents (hs_mailbox s) @ contents (hs_broadcastMB s)" _ "broadcast_heads es"]
    by (simp add: pipe_inv_def)
  finally show ?thesis using inv eff by (simp add: pipe_inv_def tracker_did_def Let_def)
qed

lemma tracker_extends_pipe:
  assumes "mailbox_law valid contents B" and "pipe_inv contents s" and "extends (hs_tracker s) t"
  shows "pipe_inv contents (tracker_did B t s)"
proof -
  obtain es where es: "tr_effects t = tr_effects (hs_tracker s) @ es" "concat (map longest_head es) = []"
    using assms(3) unfolding extends_def by blast
  have "pipe_inv contents (tracker_did B t (s\<lparr>hs_broadcastMB := hs_broadcastMB s\<rparr>))"
    by (rule tracker_did_pipe [OF assms(1,2) es(1)]) (simp add: es(2))
  then show ?thesis by simp
qed

lemma relay_round_pipe:
  assumes "mailbox_law valid contents B" and inv: "pipe_inv contents s"
  shows "pipe_inv contents (relay_round B s)"
proof -
  obtain r m where r: "mb_Retrieve B (hs_mailbox s) = (r, m)" by (cases "mb_Retrieve B (hs_mailbox s)")
  note law = mailbox_Retrieve [OF assms(1) r]
  show ?thesis
  proof (cases r)
    case None
    then show ?thesis using inv law r by (auto simp: pipe_inv_def relay_round_def executeCallbacks_def split: list.splits)
  next
    case (Some h)
    then have c: "contents (hs_mailbox s) = h # contents m" using law by (cases "contents (hs_mailbox s)") auto
    have "subseq (hs_given s i @ hs_seen s i @ xs) (hs_relayed s @ [h])" if "xs = [] \<or> xs = [h]" for i xs
      using inv that list_emb_append_mono [of "(=)" "hs_given s i @ hs_seen s i" "hs_relayed s" xs "[h]"]
      by (auto simp: pipe_inv_def)
    then show ?thesis
      using inv Some r c
      by (auto simp: pipe_inv_def relay_round_def executeCallbacks_def split: option.splits)
  qed
qed

lemma subscriber_joins_pipe:
  assumes "pipe_inv contents s"
  shows "pipe_inv contents (subscriber_joins cb s)"
  using assms by (auto simp: pipe_inv_def subscriber_joins_def bc_Subscribe_def Let_def subseq_last)

section \<open>The invariant\<close>

definition head_inv :: "('h, 'b) head_ops \<Rightarrow> ('h, 'b, 'w) tracker_env \<Rightarrow> ('m \<Rightarrow> 'h list) \<Rightarrow> ('h, 'b, 'w, 'm, 'c) head_system \<Rightarrow> bool" where
  "head_inv H E contents s \<longleftrightarrow> order_inv H E (hs_tracker s) \<and> pipe_inv contents s"

lemma head_inv_frame:
  "head_inv H E contents s \<Longrightarrow> hs_tracker t = hs_tracker s \<Longrightarrow> pipe_inv contents t \<Longrightarrow> head_inv H E contents t"
  by (simp add: head_inv_def)

lemma broadcast_handle_order: "order_inv H E t \<Longrightarrow> order_inv H E (broadcast_handle H e t)"
  by (cases e) (auto simp: order_inv_def tr_emit_def broadcast_nums_heads)

lemma tracker_did_tracker [simp]: "hs_tracker (tracker_did B t s) = t"
  by (simp add: tracker_did_def Let_def)

lemma head_step_inv:
  assumes laws: "head_laws H" "lookup_laws H E" "saver_laws H E" "call_laws H E" and mb: "mailbox_law (IsValid H) contents B"
    and step: "head_step H E c B s s'" and inv: "head_inv H E contents s"
  shows "head_inv H E contents s'"
proof -
  have o: "order_inv H E (hs_tracker s)" and p: "pipe_inv contents s" using inv by (simp_all add: head_inv_def)
  show ?thesis
    using step
  proof (cases rule: head_step.cases)
    case closes_tracker
    obtain k where "contents (mb_Close B (hs_broadcastMB s)) = drop k (contents (hs_broadcastMB s))"
      using mb unfolding mailbox_law_def by blast
    then have "subseq (contents (hs_mailbox s) @ contents (mb_Close B (hs_broadcastMB s))) (contents (hs_mailbox s) @ contents (hs_broadcastMB s))"
      by (auto intro: list_emb_append_mono subseq_drop)
    then have "pipe_inv contents (tracker_close B s)"
      using p by (auto simp: pipe_inv_def tracker_close_def intro: subseq_order.trans list_emb_append_mono)
    then show ?thesis using closes_tracker o by (simp add: head_inv_def tracker_close_def)
  next
    case initial_head
    then show ?thesis
      using handleInitialHead_order [OF laws o] tracker_extends_pipe [OF mb p] by (simp add: head_inv_def)
  next
    case (new_head h)
    then show ?thesis
      using handleNewHead_order [OF laws(1-3) o] tracker_extends_pipe [OF mb p handleNewHead_extends] by (simp add: head_inv_def)
  next
    case (sampled item m)
    then have m: "contents m = []" "contents (hs_broadcastMB s) = [] \<longrightarrow> \<not> IsValid H item"
      "contents (hs_broadcastMB s) \<noteq> [] \<longrightarrow> item = last (contents (hs_broadcastMB s))"
      using mb unfolding mailbox_law_def by (metis fst_conv snd_conv)+
    let ?es = "if IsValid H item then [BroadcastNewLongestChain item] else []"
    have "subseq (concat (map longest_head ?es)) (contents (hs_broadcastMB s))"
      using m subseq_last [of "contents (hs_broadcastMB s)"] by auto
    then have "pipe_inv contents s'" unfolding sampled(1)
      by (intro tracker_did_pipe [OF mb p, where es = ?es]) (auto simp: tr_emit_def m intro: list_emb_append_mono)
    then show ?thesis using sampled(1) broadcast_handle_order [OF o, of "BcTick item"] by (simp add: head_inv_def)
  next
    case (broadcast_next item m)
    then have m: "contents (hs_broadcastMB s) = item # contents m"
      using mailbox_Retrieve [OF mb, of "hs_broadcastMB s"] by (cases "contents (hs_broadcastMB s)") auto
    have "pipe_inv contents s'" unfolding broadcast_next(1)
      by (rule tracker_did_pipe [OF mb p, where es = "[BroadcastNewLongestChain item]"]) (simp_all add: tr_emit_def m)
    then show ?thesis using broadcast_next(1) broadcast_handle_order [OF o, of "BcNotify [item]"] by (simp add: head_inv_def)
  next
    case (backfilled h prev)
    then show ?thesis
      using Backfill_order [OF laws(4,3) o] tracker_extends_pipe [OF mb p]
      by (cases "Backfill H E c h prev (hs_tracker s)") (fastforce simp: head_inv_def extends_def)
  next
    case relays
    then show ?thesis using relay_round_pipe [OF mb p] o by (simp add: head_inv_def relay_round_def split: prod.splits)
  next
    case (subscribes cb)
    then show ?thesis using subscriber_joins_pipe [OF p] o by (simp add: head_inv_def subscriber_joins_def split: prod.splits)
  next
    case (rest g)
    then show ?thesis using order_inv_world [OF o _ _ rest(2)] p by (simp add: head_inv_def pipe_inv_def)
  qed (use inv in \<open>auto simp: head_inv_def pipe_inv_def tracker_start_def listener_start_def broadcaster_start_def on_hs_broadcaster_def
      bc_unsubscribe_def bc_close_def\<close>)
qed

lemma reach_head_inv:
  assumes "head_laws H" and "lookup_laws H E" and "saver_laws H E" and "call_laws H E" and "mailbox_law (IsValid H) contents B"
    and "head_tracking.reach B H E c s"
  shows "head_inv H E contents s"
  using assms(6)
proof (rule head_tracking.reach_invariant)
  fix s :: "('a, 'b, 'c, 'd, 'e) head_system"
  assume "head_init B s"
  then show "head_inv H E contents s"
    using assms(5)
    by (auto simp: head_init_def NewTracker_def NewBroadcaster_def head_inv_def order_inv_def pipe_inv_def mailbox_law_def)
qed (rule head_step_inv [OF assms(1-5)])

section \<open>An instance\<close>

text \<open>A mailbox as a list with its capacity, and a run in which a subscriber sees two of three heads.\<close>

definition demo_mailbox :: "(int option, int option list \<times> nat) mailbox_ops" where
  "demo_mailbox =
     \<lparr>mb_New = (\<lambda>n. ([], n)),
      mb_Deliver = (\<lambda>h (q, n). (drop (Suc (length q) - n) (q @ [h]), n)),
      mb_Retrieve = (\<lambda>(q, n). case q of [] \<Rightarrow> (None, ([], n)) | x # xs \<Rightarrow> (Some x, (xs, n))),
      mb_RetrieveLatestAndClear = (\<lambda>(q, n). (if q = [] then None else last q, ([], n))),
      mb_Close = (\<lambda>m. m)\<rparr>"

lemma demo_mailbox_law: "mailbox_law (IsValid demo_heads) fst demo_mailbox"
  unfolding mailbox_law_def
proof (intro conjI allI)
  fix m :: "int option list \<times> nat"
  show "\<exists>k. fst (mb_Close demo_mailbox m) = drop k (fst m)" by (rule exI [of _ 0]) (simp add: demo_mailbox_def)
  fix h
  show "\<exists>k. fst (mb_Deliver demo_mailbox h m) = drop k (fst m @ [h])"
    by (rule exI [of _ "Suc (length (fst m)) - snd m"]) (simp add: demo_mailbox_def split: prod.splits)
qed (auto simp: demo_mailbox_def demo_heads_def split: list.splits)

lemma demo_call_laws: "call_laws demo_heads demo_saver"
  by (auto simp: call_laws_def progressive_def demo_saver_def)

type_synonym demo_head_system =
  "(int option, int option, int option \<times> int option list \<times> int option list, int option list \<times> nat, string) head_system"

definition demo_relayed :: demo_head_system where
  "demo_relayed =
     relay_round demo_mailbox
       (let s = tracker_did demo_mailbox
              (snd (handleNewHead demo_heads demo_saver (Some 5)
                (hs_tracker (NewTracker demo_mailbox (None, [], []) :: demo_head_system))))
              (broadcaster_start (tracker_start (listener_start (subscriber_joins ''a'' (NewTracker demo_mailbox (None, [], []))))))
        in tracker_did demo_mailbox (broadcast_handle demo_heads (BcNotify [Some 5]) (hs_tracker s))
             (s\<lparr>hs_broadcastMB := ([], HeadsBufferSize)\<rparr>))"

lemmas demo_head_defs = demo_relayed_def relay_round_def tracker_did_def subscriber_joins_def tracker_start_def listener_start_def
  broadcaster_start_def NewTracker_def NewBroadcaster_def bc_Subscribe_def executeCallbacks_def mb_deliver_all_def
  broadcast_heads_def tr_emit_def handleNewHead_def handle_saved_head_def verifyFinalizedBlockHashes_def ClearHealthCond_def
  demo_mailbox_def demo_heads_def demo_saver_def MaxInt64_def HeadsBufferSize_def wrap_signed_def Let_def

lemma reach_demo_relayed: "head_tracking.reach demo_mailbox demo_heads demo_saver demo_tracker_cfg demo_relayed"
proof -
  let ?s0 = "NewTracker demo_mailbox (None, [], []) :: demo_head_system"
  let ?s3 = "tracker_start (listener_start (subscriber_joins ''a'' ?s0))"
  let ?s4 = "broadcaster_start ?s3"
  let ?s5 = "tracker_did demo_mailbox (snd (handleNewHead demo_heads demo_saver (Some 5) (hs_tracker ?s4))) ?s4"
  let ?s6 = "tracker_did demo_mailbox (broadcast_handle demo_heads (BcNotify [Some 5]) (hs_tracker ?s5))
    (?s5\<lparr>hs_broadcastMB := ([], HeadsBufferSize)\<rparr>)"
  note next_step = head_tracking.reach_step
  have "head_tracking.reach demo_mailbox demo_heads demo_saver demo_tracker_cfg ?s0"
    by (rule head_tracking.reach_init) (auto simp: head_init_def)
  then have "head_tracking.reach demo_mailbox demo_heads demo_saver demo_tracker_cfg ?s4"
    by (intro next_step [OF next_step [OF next_step [OF next_step [OF _ subscribes] starts_listener] starts_tracker] starts_broadcaster])
  then have "head_tracking.reach demo_mailbox demo_heads demo_saver demo_tracker_cfg ?s5"
    by (rule next_step) (rule new_head, simp_all add: demo_head_defs)
  then have "head_tracking.reach demo_mailbox demo_heads demo_saver demo_tracker_cfg ?s6"
    by (rule next_step) (rule broadcast_next, simp_all add: demo_head_defs demo_tracker_cfg_def)
  then have "head_tracking.reach demo_mailbox demo_heads demo_saver demo_tracker_cfg (relay_round demo_mailbox ?s6)"
    by (rule next_step) (rule relays, simp add: demo_head_defs)
  moreover have "hs_tracker ?s4 = hs_tracker ?s0"
    by (simp add: broadcaster_start_def tracker_start_def listener_start_def subscriber_joins_def split: prod.splits)
  ultimately show ?thesis unfolding demo_relayed_def Let_def by simp
qed

section \<open>Properties\<close>

text \<open>C27. From the listener to the subscriber: whatever heads arrive and however the listener, the broadcast and backfill loops, the
  broadcaster and its subscribers are interleaved, with or without sampling and whatever the mailboxes drop, a subscriber is given
  heads of strictly increasing block number, the head returned by its \<open>Subscribe\<close> included, and only heads that the tracker had
  accepted as new highest heads.\<close>

theorem subscribers_see_increasing_heads:
  assumes "head_laws H" and "lookup_laws H E" and "saver_laws H E" and "call_laws H E" and "mailbox_law (IsValid H) contents B"
    and "head_tracking.reach B H E c s"
  shows "sorted_wrt (<) (map (BlockNum H) (hs_given s i @ hs_seen s i)) \<and>
    set (hs_given s i @ hs_seen s i) \<subseteq> set (broadcast_heads (tr_effects (hs_tracker s)))"
proof -
  have inv: "head_inv H E contents s" by (rule reach_head_inv [OF assms])
  have "subseq (hs_given s i @ hs_seen s i) (hs_relayed s)" using inv by (simp add: head_inv_def pipe_inv_def)
  also have "subseq \<dots> (hs_relayed s @ contents (hs_mailbox s) @ contents (hs_broadcastMB s))"
    by (simp add: prefix_imp_subseq)
  also have "subseq \<dots> (broadcast_heads (tr_effects (hs_tracker s)))" using inv by (simp add: head_inv_def pipe_inv_def)
  finally have sub: "subseq (hs_given s i @ hs_seen s i) (broadcast_heads (tr_effects (hs_tracker s)))" .
  have "sorted_wrt (<) (map (BlockNum H) (broadcast_heads (tr_effects (hs_tracker s))))"
    using inv by (simp add: head_inv_def order_inv_def broadcast_nums_heads)
  then have "sorted_wrt (<) (map (BlockNum H) (hs_given s i @ hs_seen s i))"
    by (rule sorted_wrt_subseq [OF subseq_map [OF sub]])
  then show ?thesis using list_emb_set [OF sub] by blast
qed

theorem subscribers_see_increasing_heads_witness:
  "hs_seen demo_relayed 1 = [Some 5] \<and>
   set (hs_given demo_relayed 1 @ hs_seen demo_relayed 1) \<subseteq> set (broadcast_heads (tr_effects (hs_tracker demo_relayed)))"
proof -
  have "hs_seen demo_relayed 1 = [Some 5]" by (simp add: demo_head_defs)
  then show ?thesis
    using subscribers_see_increasing_heads [OF demo_laws demo_call_laws demo_mailbox_law reach_demo_relayed, of 1] by simp
qed

end
