(* ===== verification/Tx_Types.thy ===== *)
theory Tx_Types
  imports Go_Prelude
begin

text \<open>
  \<open>chains/txmgr/types/tx.go\<close>, \<open>chains/txmgr/models.go\<close> and \<open>chains/txmgr/strategies.go\<close>: transactions, their
  attempts and states, and the queueing strategies. Addresses, hashes and identifiers are strings, a sequence
  is the integer its \<open>Int64\<close> returns, and \<open>'f\<close> is the chain's fee type. An attempt refers to its transaction by
  number. The marshalled metadata and checker are strings, read in \<open>Tx_Meta\<close>.
\<close>

section \<open>States\<close>

datatype tx_state =
    TxUnstarted | TxInProgress | TxFatalError | TxUnconfirmed | TxConfirmed | TxConfirmedMissingReceipt | TxFinalized

text \<open>\<open>TxAttemptState\<close> is an \<open>int8\<close>.\<close>

definition TxAttemptInProgress :: int where
  "TxAttemptInProgress = 1"

definition TxAttemptInsufficientFunds :: int where
  "TxAttemptInsufficientFunds = 2"

definition TxAttemptBroadcast :: int where
  "TxAttemptBroadcast = 3"

definition txAttemptStateCount :: int where
  "txAttemptStateCount = 4"

lemmas attempt_states =
  TxAttemptInProgress_def TxAttemptInsufficientFunds_def TxAttemptBroadcast_def txAttemptStateCount_def

definition txAttemptStateStrings :: "string list" where
  "txAttemptStateStrings = [''unknown_attempt_state'', ''in_progress'', ''insufficient_funds'', ''broadcast'']"

fun slices_Index :: "string list \<Rightarrow> string \<Rightarrow> nat option" where
  "slices_Index [] x = None"
| "slices_Index (y # ys) x = (if y = x then Some 0 else map_option Suc (slices_Index ys x))"

definition NewTxAttemptState :: "string \<Rightarrow> int" where
  "NewTxAttemptState s = (case slices_Index txAttemptStateStrings s of None \<Rightarrow> 0 | Some i \<Rightarrow> int i)"

definition TxAttemptState_String :: "int \<Rightarrow> string outcome" where
  "TxAttemptState_String s =
     (if s < txAttemptStateCount then
        if s < 0 then Panic ''index out of range'' else Ret (txAttemptStateStrings ! nat s)
      else Ret (txAttemptStateStrings ! 0))"

section \<open>Transactions\<close>

record 'f tx_attempt =
  att_ID :: int
  att_TxID :: int
  att_TxFee :: 'f
  att_ChainSpecificFeeLimit :: "64 word"
  att_Hash :: string
  att_BroadcastBeforeBlockNum :: "int option"
  att_State :: int
  att_TxType :: int
  att_IsPurgeAttempt :: bool
  att_CreatedAt :: int

record 'f tx =
  tx_ID :: int
  tx_IdempotencyKey :: "string option"
  tx_Sequence :: "int option"
  tx_FromAddress :: string
  tx_ToAddress :: string
  tx_FeeLimit :: "64 word"
  tx_Error :: "string option"
  tx_BroadcastAt :: "int option"
  tx_InitialBroadcastAt :: "int option"
  tx_CreatedAt :: int
  tx_State :: tx_state
  tx_TxAttempts :: "'f tx_attempt list"
  tx_Subject :: "string option"
  tx_PipelineTaskRunID :: "string option"
  tx_SignalCallback :: bool
  tx_CallbackCompleted :: bool
  tx_Meta :: "string option"
  tx_TransmitChecker :: "string option"

definition GetError :: "'f tx \<Rightarrow> string option" where
  "GetError e = tx_Error e"

definition GetID :: "'f tx \<Rightarrow> string" where
  "GetID e = go_itoa (tx_ID e)"

fun purge_loop :: "'f tx_attempt list \<Rightarrow> bool" where
  "purge_loop [] = False"
| "purge_loop (a # as) = (if att_IsPurgeAttempt a then True else purge_loop as)"

definition HasPurgeAttempt :: "'f tx \<Rightarrow> bool" where
  "HasPurgeAttempt e = purge_loop (tx_TxAttempts e)"

section \<open>Errors\<close>

text \<open>The errors the transaction manager tells apart, errors made on the spot (\<open>TxErr\<close>), errors wrapped with
  \<open>%w\<close> and joined errors. Of a message only the fixed text is kept.\<close>

datatype tx_error =
    ErrTxRemoved
  | ErrNoRows
  | TxFeeLimitTooLow
  | TxBumpFeeExceedsLimit
  | TxErrBump
  | TxErrConnectivity
  | ErrAlreadyStopped
  | CtxCanceled
  | CtxDeadlineExceeded
  | TxErr string
  | Wrapped string tx_error
  | Joined tx_error tx_error

fun tx_error_msg :: "tx_error \<Rightarrow> string" where
  "tx_error_msg ErrTxRemoved = ''tx removed''"
| "tx_error_msg ErrNoRows = ''sql: no rows in result set''"
| "tx_error_msg TxFeeLimitTooLow = ''provided fee limit too low''"
| "tx_error_msg TxBumpFeeExceedsLimit = ''fee bump exceeds limit''"
| "tx_error_msg TxErrBump = ''fee bump failed''"
| "tx_error_msg TxErrConnectivity = ''transaction propagation issue: transactions are not being mined''"
| "tx_error_msg ErrAlreadyStopped = ''already stopped''"
| "tx_error_msg CtxCanceled = ''context canceled''"
| "tx_error_msg CtxDeadlineExceeded = ''context deadline exceeded''"
| "tx_error_msg (TxErr m) = m"
| "tx_error_msg (Wrapped prefix e) = prefix @ '': '' @ tx_error_msg e"
| "tx_error_msg (Joined e f) = tx_error_msg e @ [char_of (10 :: nat)] @ tx_error_msg f"

text \<open>\<open>errors.Is\<close>: the error itself or one it wraps.\<close>

fun errors_Is :: "tx_error \<Rightarrow> tx_error \<Rightarrow> bool" where
  "errors_Is (Wrapped prefix e) target = (Wrapped prefix e = target \<or> errors_Is e target)"
| "errors_Is (Joined e f) target = (Joined e f = target \<or> errors_Is e target \<or> errors_Is f target)"
| "errors_Is e target = (e = target)"

abbreviation wrap_tx :: "string \<Rightarrow> tx_error \<Rightarrow> tx_error" where
  "wrap_tx \<equiv> Wrapped"

text \<open>\<open>errors.Join\<close> and \<open>multierr.Combine\<close>: nil when there is no error.\<close>

fun errors_Join :: "tx_error list \<Rightarrow> tx_error option" where
  "errors_Join [] = None"
| "errors_Join [e] = Some e"
| "errors_Join (e # es) = map_option (Joined e) (errors_Join es)"

definition tx_IsBumpErr :: "tx_error \<Rightarrow> bool" where
  "tx_IsBumpErr err \<longleftrightarrow> errors_Is err TxBumpFeeExceedsLimit \<or> errors_Is err TxErrBump \<or> errors_Is err TxErrConnectivity"

definition nil_pointer :: string where
  "nil_pointer = ''invalid memory address or nil pointer dereference''"

text \<open>A transaction and an attempt for the examples.\<close>

definition demo_attempt :: "nat \<Rightarrow> nat tx_attempt" where
  "demo_attempt fee =
     \<lparr>att_ID = 1, att_TxID = 1, att_TxFee = fee, att_ChainSpecificFeeLimit = 100, att_Hash = ''h'',
      att_BroadcastBeforeBlockNum = None, att_State = TxAttemptInProgress, att_TxType = 0, att_IsPurgeAttempt = False, att_CreatedAt = 0\<rparr>"

definition demo_tx :: "int \<Rightarrow> nat tx" where
  "demo_tx i =
     \<lparr>tx_ID = i, tx_IdempotencyKey = None, tx_Sequence = None, tx_FromAddress = ''a'', tx_ToAddress = ''b'',
      tx_FeeLimit = 100, tx_Error = None, tx_BroadcastAt = None, tx_InitialBroadcastAt = None, tx_CreatedAt = 0,
      tx_State = TxUnstarted, tx_TxAttempts = [], tx_Subject = None, tx_PipelineTaskRunID = None,
      tx_SignalCallback = False, tx_CallbackCompleted = False,
      tx_Meta = None, tx_TransmitChecker = None\<rparr>"

section \<open>Queueing strategies\<close>

datatype tx_strategy = SendEveryStrategy | DropOldestStrategy string "32 word"

definition NewQueueingTxStrategy :: "string \<Rightarrow> 32 word \<Rightarrow> tx_strategy" where
  "NewQueueingTxStrategy subject queueSize =
     (if 0 < queueSize then DropOldestStrategy subject queueSize else SendEveryStrategy)"

fun strategy_Subject :: "tx_strategy \<Rightarrow> string option" where
  "strategy_Subject SendEveryStrategy = None"
| "strategy_Subject (DropOldestStrategy subject queueSize) = Some subject"

text \<open>\<open>prune\<close> is the pruning service; \<open>queueSize-1\<close> is computed in \<open>uint32\<close>.\<close>

fun PruneQueue ::
  "(32 word \<Rightarrow> string \<Rightarrow> 'w \<Rightarrow> (tx_error + int list) \<times> 'w) \<Rightarrow> tx_strategy \<Rightarrow> 'w \<Rightarrow> (tx_error + int list) \<times> 'w" where
  "PruneQueue prune SendEveryStrategy w = (Inr [], w)"
| "PruneQueue prune (DropOldestStrategy subject queueSize) w =
     (case prune (queueSize - 1) subject w of
        (Inl err, w1) \<Rightarrow> (Inl (wrap_tx ''DropOldestStrategy#PruneQueue failed'' err), w1)
      | (Inr ids, w1) \<Rightarrow> (Inr ids, w1))"

section \<open>Lemmas\<close>

text \<open>Printing an attempt state and parsing the text gives the state back, for all four states.\<close>

lemma attempt_state_roundtrip:
  assumes "0 \<le> s" and "s < txAttemptStateCount"
  shows "\<exists>str. TxAttemptState_String s = Ret str \<and> NewTxAttemptState str = s"
proof -
  from assms have "s = 0 \<or> s = 1 \<or> s = 2 \<or> s = 3" by (auto simp: attempt_states)
  then show ?thesis
    by (auto simp: TxAttemptState_String_def NewTxAttemptState_def txAttemptStateStrings_def attempt_states)
qed

lemma attempt_state_roundtrip_witness:
  "\<exists>str. TxAttemptState_String TxAttemptBroadcast = Ret str \<and> NewTxAttemptState str = TxAttemptBroadcast"
  by (rule attempt_state_roundtrip) (simp_all add: attempt_states)

text \<open>A strategy made from a queue size never asks the pruner to keep a wrapped number of transactions.\<close>

lemma NewQueueingTxStrategy_no_wrap:
  "NewQueueingTxStrategy subject q = DropOldestStrategy subject q' \<Longrightarrow> q' = q \<and> uint (q - 1) = uint q - 1"
proof -
  assume "NewQueueingTxStrategy subject q = DropOldestStrategy subject q'"
  then have q: "0 < q" "q' = q" by (auto simp: NewQueueingTxStrategy_def split: if_splits)
  then have "1 \<le> uint q" by (simp add: word_less_def)
  moreover have "uint q < 4294967296" using uint_bounded [of q] by simp
  ultimately have "uint (q - 1) = uint q - 1" by (simp add: uint_word_ariths)
  then show ?thesis using q by simp
qed

lemma errors_Join_None [simp]: "errors_Join es = None \<longleftrightarrow> es = []"
  by (induction es rule: errors_Join.induct) auto

lemma errors_Is_refl [simp]: "errors_Is e e"
  by (cases e) auto

text \<open>Joining loses no error: what one of the errors is, the joined error is.\<close>

lemma errors_Join_Is: "errors_Join es = Some j \<Longrightarrow> e \<in> set es \<Longrightarrow> errors_Is e t \<Longrightarrow> errors_Is j t"
  by (induction es arbitrary: j rule: errors_Join.induct) auto

lemma HasPurgeAttempt_iff: "HasPurgeAttempt e \<longleftrightarrow> (\<exists>a\<in>set (tx_TxAttempts e). att_IsPurgeAttempt a)"
proof -
  have "purge_loop as \<longleftrightarrow> (\<exists>a\<in>set as. att_IsPurgeAttempt a)" for as :: "'a tx_attempt list"
    by (induction as) auto
  then show ?thesis by (simp add: HasPurgeAttempt_def)
qed

end
