(* ===== verification/Tx_Broadcaster.thy ===== *)
theory Tx_Broadcaster
  imports Tx_Types Chain_Info
begin

text \<open>
  \<open>chains/txmgr/broadcaster.go\<close>: sending the queued transactions of an address, one after the other. The
  transaction store, the client, the attempt builder, the sequence tracker, the transmit checker and the resume
  callback are interfaces whose code is elsewhere: \<open>txm_env\<close> holds their methods, acting on a world \<open>'w\<close>. The
  broadcaster's own state is the map of unknown errors; its effects record what it sent, handed over to the
  confirmer, gave up, and which sequences it reported as used. Sending again after a fee bump, and the loop over the
  queue, may go on for ever: they are partial functions with \<^term>\<open>None\<close> for that.
\<close>

section \<open>Environment and state\<close>

record ('f, 'w) txm_env =
  st_CountUnconfirmedTransactions :: "string \<Rightarrow> 'w \<Rightarrow> (tx_error + 32 word) \<times> 'w"
  st_CountUnstartedTransactions :: "string \<Rightarrow> 'w \<Rightarrow> (tx_error + 32 word) \<times> 'w"
  st_FindNextUnstartedTransactionFromAddress :: "string \<Rightarrow> 'w \<Rightarrow> (tx_error + 'f tx) \<times> 'w"
  st_GetTxInProgress :: "string \<Rightarrow> 'w \<Rightarrow> (tx_error + 'f tx option) \<times> 'w"
  st_UpdateTxUnstartedToInProgress :: "'f tx \<Rightarrow> 'f tx_attempt \<Rightarrow> 'w \<Rightarrow> (tx_error + 'f tx \<times> 'f tx_attempt) \<times> 'w"
  st_UpdateTxAttemptInProgressToBroadcast :: "'f tx \<Rightarrow> 'f tx_attempt \<Rightarrow> int \<Rightarrow> 'w \<Rightarrow> tx_error option \<times> 'w"
  st_SaveReplacementInProgressAttempt :: "'f tx_attempt \<Rightarrow> 'f tx_attempt \<Rightarrow> 'w \<Rightarrow> (tx_error + 'f tx_attempt) \<times> 'w"
  st_UpdateTxFatalErrorAndDeleteAttempts :: "'f tx \<Rightarrow> 'w \<Rightarrow> tx_error option \<times> 'w"
  st_UpdateTxCallbackCompleted :: "string \<Rightarrow> 'w \<Rightarrow> tx_error option \<times> 'w"
  cl_SendTransactionReturnCode :: "'f tx \<Rightarrow> 'f tx_attempt \<Rightarrow> 'w \<Rightarrow> (SendTxReturnCode \<times> tx_error option) \<times> 'w"
  cl_PendingSequenceAt :: "string \<Rightarrow> 'w \<Rightarrow> (tx_error + int) \<times> 'w"
  cl_SequenceAt :: "string \<Rightarrow> 'w \<Rightarrow> (tx_error + int) \<times> 'w"
  bd_NewTxAttempt :: "'f tx \<Rightarrow> 'w \<Rightarrow> (tx_error \<times> bool + 'f tx_attempt) \<times> 'w"
  bd_NewBumpTxAttempt :: "'f tx \<Rightarrow> 'f tx_attempt \<Rightarrow> 'w \<Rightarrow> (tx_error \<times> bool + 'f tx_attempt) \<times> 'w"
  bd_NewTxAttemptWithType :: "'f tx \<Rightarrow> int \<Rightarrow> 'w \<Rightarrow> (tx_error \<times> bool + 'f tx_attempt) \<times> 'w"
  sq_GetNextSequence :: "string \<Rightarrow> 'w \<Rightarrow> (tx_error + int) \<times> 'w"
  sq_GenerateNextSequence :: "string \<Rightarrow> int \<Rightarrow> 'w \<Rightarrow> 'w"
  ck_GetChecker :: "'f tx \<Rightarrow> tx_error option"
  ck_BuildChecker :: "'f tx \<Rightarrow> tx_error option"
  ck_Check :: "'f tx \<Rightarrow> 'f tx_attempt \<Rightarrow> 'w \<Rightarrow> tx_error option \<times> 'w"
  cb_resumeCallback :: "(string \<Rightarrow> string \<Rightarrow> 'w \<Rightarrow> tx_error option \<times> 'w) option"
  en_now :: "'w \<Rightarrow> int"
  en_wait :: "'w \<Rightarrow> tx_error option \<times> 'w"

record broadcaster_cfg =
  bc_chainType :: string
  bc_MaxInFlight :: "32 word"
  bc_UnknownErrorRetryTimeout :: int

definition hederaChainType :: string where
  "hederaChainType = ''hedera''"

definition maxHederaBroadcastRetries :: nat where
  "maxHederaBroadcastRetries = 3"

record unknownErrState =
  ue_txID :: int
  ue_count :: "32 word"
  ue_firstSeen :: int

datatype 'f tx_effect =
    Sent "'f tx" "'f tx_attempt"
  | HandedOver "'f tx" "'f tx_attempt"
  | FatallyErrored "'f tx"
  | SequenceUsed string int

record ('f, 'w) bcast =
  bw :: 'w
  unknownErrs :: "string \<rightharpoonup> unknownErrState"
  b_effects :: "'f tx_effect list"

definition b_emit :: "'f tx_effect list \<Rightarrow> ('f, 'w) bcast \<Rightarrow> ('f, 'w) bcast" where
  "b_emit es b = b\<lparr>b_effects := b_effects b @ es\<rparr>"

section \<open>Unknown errors\<close>

definition recordUnknownErr ::
  "broadcaster_cfg \<Rightarrow> ('f, 'w) txm_env \<Rightarrow> string \<Rightarrow> int \<Rightarrow> ('f, 'w) bcast \<Rightarrow> bool \<times> ('f, 'w) bcast" where
  "recordUnknownErr c E addr txID b =
     (let timeout = bc_UnknownErrorRetryTimeout c; now = en_now E (bw b) in
      if timeout \<le> 0 then (False, b)
      else
        let fresh = \<lparr>ue_txID = txID, ue_count = 0, ue_firstSeen = now\<rparr>;
            s = (case unknownErrs b addr of None \<Rightarrow> fresh | Some s \<Rightarrow> if ue_txID s \<noteq> txID then fresh else s);
            s1 = s\<lparr>ue_count := ue_count s + 1\<rparr>
        in (timeout \<le> now - ue_firstSeen s1, b\<lparr>unknownErrs := (unknownErrs b)(addr \<mapsto> s1)\<rparr>))"

definition clearUnknownErrState :: "string \<Rightarrow> ('f, 'w) bcast \<Rightarrow> ('f, 'w) bcast" where
  "clearUnknownErrState addr b = b\<lparr>unknownErrs := (unknownErrs b)(addr := None)\<rparr>"

section \<open>Ends of a transaction\<close>

text \<open>The callback part of \<open>saveFatallyErroredTransaction\<close>: an error stops the method.\<close>

definition resume_with_error ::
  "('f, 'w) txm_env \<Rightarrow> 'f tx \<Rightarrow> ('f, 'w) bcast \<Rightarrow> tx_error option \<times> ('f, 'w) bcast" where
  "resume_with_error E etx b =
     (case (tx_PipelineTaskRunID etx, cb_resumeCallback E, tx_Error etx) of
        (Some runID, Some callback, Some msg) \<Rightarrow>
          if tx_SignalCallback etx \<and> \<not> tx_CallbackCompleted etx then
            (case callback runID (''fatal error while sending transaction: '' @ msg) (bw b) of
               (None, w1) \<Rightarrow>
                 (case st_UpdateTxCallbackCompleted E runID w1 of (err, w2) \<Rightarrow> (err, b\<lparr>bw := w2\<rparr>))
             | (Some err, w1) \<Rightarrow>
                 if errors_Is err ErrNoRows then (None, b\<lparr>bw := w1\<rparr>)
                 else (Some (wrap_tx ''failed to resume pipeline'' err), b\<lparr>bw := w1\<rparr>))
          else (None, b)
      | _ \<Rightarrow> (None, b))"

definition saveFatallyErroredTransaction ::
  "('f, 'w) txm_env \<Rightarrow> 'f tx \<Rightarrow> ('f, 'w) bcast \<Rightarrow> tx_error option \<times> ('f, 'w) bcast" where
  "saveFatallyErroredTransaction E etx b =
     (if tx_State etx \<noteq> TxInProgress \<and> tx_State etx \<noteq> TxUnstarted
      then (Some (TxErr ''can only transition to fatal_error from in_progress or unstarted''), b)
      else if tx_Error etx = None then (Some (TxErr ''expected error field to be set''), b)
      else
        (case resume_with_error E etx b of
           (Some err, b1) \<Rightarrow> (Some err, b1)
         | (None, b1) \<Rightarrow>
             (case st_UpdateTxFatalErrorAndDeleteAttempts E etx (bw b1) of
                (Some err, w2) \<Rightarrow> (Some err, b1\<lparr>bw := w2\<rparr>)
              | (None, w2) \<Rightarrow> (None, b_emit [FatallyErrored etx] (b1\<lparr>bw := w2\<rparr>)))))"

datatype 'f round_result = Finished "tx_error option" bool | Again "'f tx_attempt" nat

text \<open>The transaction is assumed accepted: it goes to the confirmer, and its sequence is used up.\<close>

definition hand_over ::
  "('f, 'w) txm_env \<Rightarrow> 'f tx \<Rightarrow> 'f tx_attempt \<Rightarrow> ('f, 'w) bcast \<Rightarrow> ('f round_result \<times> ('f, 'w) bcast) outcome" where
  "hand_over E etx attempt b =
     (case st_UpdateTxAttemptInProgressToBroadcast E etx attempt TxAttemptBroadcast (bw b) of
        (Some err, w1) \<Rightarrow> Ret (Finished (Some err) True, b\<lparr>bw := w1\<rparr>)
      | (None, w1) \<Rightarrow>
          (case tx_Sequence etx of
             None \<Rightarrow> Panic nil_pointer
           | Some s \<Rightarrow>
               Ret (Finished None True,
                 b_emit [HandedOver etx attempt, SequenceUsed (tx_FromAddress etx) s]
                   ((clearUnknownErrState (tx_FromAddress etx) b)
                      \<lparr>bw := sq_GenerateNextSequence E (tx_FromAddress etx) s w1\<rparr>))))"

section \<open>Replacing an attempt\<close>

text \<open>Saving the replacement; \<open>Inl\<close> with the error and whether it is retryable.\<close>

definition save_replacement ::
  "('f, 'w) txm_env \<Rightarrow> 'f tx_attempt \<Rightarrow> (tx_error \<times> bool + 'f tx_attempt) \<times> 'w \<Rightarrow> ('f, 'w) bcast \<Rightarrow>
   (tx_error \<times> bool + 'f tx_attempt) \<times> ('f, 'w) bcast" where
  "save_replacement E attempt built b =
     (case built of
        (Inl (err, retryable), w1) \<Rightarrow> (Inl (err, retryable), b\<lparr>bw := w1\<rparr>)
      | (Inr newAttempt, w1) \<Rightarrow>
          (case st_SaveReplacementInProgressAttempt E attempt newAttempt w1 of
             (Inl err, w2) \<Rightarrow> (Inl (err, True), b\<lparr>bw := w2\<rparr>)
           | (Inr saved, w2) \<Rightarrow> (Inr saved, b\<lparr>bw := w2\<rparr>)))"

definition replaceAttemptWithBumpedGas ::
  "broadcaster_cfg \<Rightarrow> ('f, 'w) txm_env \<Rightarrow> tx_error option \<Rightarrow> 'f tx \<Rightarrow> 'f tx_attempt \<Rightarrow> ('f, 'w) bcast \<Rightarrow>
   ((tx_error \<times> bool + 'f tx_attempt) \<times> ('f, 'w) bcast) outcome" where
  "replaceAttemptWithBumpedGas c E txError etx attempt b =
     (if bc_chainType c \<noteq> hederaChainType \<and> txError = None then Panic nil_pointer
      else Ret (save_replacement E attempt (bd_NewBumpTxAttempt E etx attempt (bw b)) b))"

definition replaceAttemptWithNewEstimation ::
  "('f, 'w) txm_env \<Rightarrow> 'f tx \<Rightarrow> 'f tx_attempt \<Rightarrow> ('f, 'w) bcast \<Rightarrow>
   (tx_error \<times> bool + 'f tx_attempt) \<times> ('f, 'w) bcast" where
  "replaceAttemptWithNewEstimation E etx attempt b =
     save_replacement E attempt (bd_NewTxAttemptWithType E etx (att_TxType attempt) (bw b)) b"

section \<open>One send\<close>

definition validateOnChainSequence ::
  "('f, 'w) txm_env \<Rightarrow> SendTxReturnCode \<times> tx_error option \<Rightarrow> 'f tx \<Rightarrow> nat \<Rightarrow> ('f, 'w) bcast \<Rightarrow>
   ((SendTxReturnCode \<times> tx_error option) \<times> ('f, 'w) bcast) outcome" where
  "validateOnChainSequence E r etx retryCount b =
     (if fst r \<noteq> Successful then Ret (r, b)
      else
        (case tx_Sequence etx of
           None \<Rightarrow> Panic nil_pointer
         | Some txSeq \<Rightarrow>
             (case cl_SequenceAt E (tx_FromAddress etx) (bw b) of
                (Inl err, w1) \<Rightarrow> Ret ((Successful, Some err), b\<lparr>bw := w1\<rparr>)
              | (Inr nextSeqOnChain, w1) \<Rightarrow>
                  let b1 = b\<lparr>bw := w1\<rparr> in
                  if nextSeqOnChain = txSeq \<and> retryCount < maxHederaBroadcastRetries
                  then Ret ((Underpriced, None), b1)
                  else if nextSeqOnChain = txSeq
                  then Ret ((Fatal, Some (TxErr ''failed to broadcast transaction on hedera'')), b1)
                  else if nextSeqOnChain < txSeq
                  then Ret ((Fatal, Some (TxErr ''next expected sequence on-chain is less than the sequence of the broadcasted transaction'')), b1)
                  else Ret ((Successful, None), b1))))"

text \<open>The branch for \<open>Unknown\<close>, \<open>ExceedsMaxFee\<close> and every code not listed. \<open>errorf_w\<close> is \<open>fmt.Errorf\<close> with \<open>%w\<close> at its
  end; the numbers in the messages are left out.\<close>

definition errorf_w :: "string \<Rightarrow> tx_error option \<Rightarrow> tx_error" where
  "errorf_w msg err = (case err of None \<Rightarrow> TxErr (msg @ '': %!w(<nil>)'') | Some e \<Rightarrow> wrap_tx msg e)"

definition handle_unknown ::
  "broadcaster_cfg \<Rightarrow> ('f, 'w) txm_env \<Rightarrow> tx_error option \<Rightarrow> 'f tx \<Rightarrow> 'f tx_attempt \<Rightarrow> ('f, 'w) bcast \<Rightarrow>
   ('f round_result \<times> ('f, 'w) bcast) outcome" where
  "handle_unknown c E err etx attempt b =
     (case cl_PendingSequenceAt E (tx_FromAddress etx) (bw b) of
        (Inl e, w1) \<Rightarrow>
          Ret (Finished (Some (errorf_w ''failed to fetch latest pending sequence after encountering unknown RPC error while sending transaction''
                                  (errors_Join (e # (case err of None \<Rightarrow> [] | Some e1 \<Rightarrow> [e1]))))) True,
               b\<lparr>bw := w1\<rparr>)
      | (Inr nextSequence, w1) \<Rightarrow>
          (case tx_Sequence etx of
             None \<Rightarrow> Panic nil_pointer
           | Some s \<Rightarrow>
               let b1 = b\<lparr>bw := w1\<rparr> in
               if nextSequence > s then hand_over E etx attempt b1
               else
                 let (exceeded, b2) = recordUnknownErr c E (tx_FromAddress etx) (tx_ID etx) b1 in
                 if exceeded then
                   (case saveFatallyErroredTransaction E (etx\<lparr>tx_Error := Some (tx_error_msg (errorf_w ''giving up on transaction after unknown errors'' err))\<rparr>)
                           (clearUnknownErrState (tx_FromAddress etx) b2) of
                      (r, b3) \<Rightarrow> Ret (Finished r True, b3))
                 else Ret (Finished (Some (errorf_w ''retryable error while sending transaction'' err)) True, b2)))"

definition handle_code ::
  "broadcaster_cfg \<Rightarrow> ('f, 'w) txm_env \<Rightarrow> SendTxReturnCode \<Rightarrow> tx_error option \<Rightarrow> 'f tx \<Rightarrow> 'f tx_attempt \<Rightarrow> nat \<Rightarrow>
   ('f, 'w) bcast \<Rightarrow> ('f round_result \<times> ('f, 'w) bcast) outcome" where
  "handle_code c E errType err etx attempt retryCount b =
     (if errType = TransactionAlreadyKnown \<or> errType = Successful then hand_over E etx attempt b
      else if errType = Underpriced then
        outcome_bind (replaceAttemptWithBumpedGas c E err etx attempt b)
          (\<lambda>(res, b1). case res of
             Inl (replaceErr, retryable) \<Rightarrow> Ret (Finished (Some replaceErr) retryable, b1)
           | Inr bumpedAttempt \<Rightarrow> Ret (Again bumpedAttempt (retryCount + 1), b1))
      else if errType = InsufficientFunds then
        (case replaceAttemptWithNewEstimation E etx attempt b of
           (Inl (replaceErr, _), b1) \<Rightarrow> Ret (Finished (Some replaceErr) True, b1)
         | (Inr _, b1) \<Rightarrow> Ret (Finished err True, b1))
      else if errType = Retryable then Ret (Finished err True, b)
      else if errType = FeeOutOfValidRange then
        (case replaceAttemptWithNewEstimation E etx attempt b of
           (Inl (replaceErr, retryable), b1) \<Rightarrow> Ret (Finished (Some replaceErr) retryable, b1)
         | (Inr replacementAttempt, b1) \<Rightarrow> Ret (Again replacementAttempt 0, b1))
      else if errType = Unsupported then Ret (Finished err False, b)
      else handle_unknown c E err etx attempt b)"

definition send_round ::
  "broadcaster_cfg \<Rightarrow> ('f, 'w) txm_env \<Rightarrow> 'f tx \<Rightarrow> 'f tx_attempt \<Rightarrow> int \<Rightarrow> nat \<Rightarrow> ('f, 'w) bcast \<Rightarrow>
   ('f round_result \<times> ('f, 'w) bcast) outcome" where
  "send_round c E etx attempt initialBroadcastAt retryCount b =
     (if tx_State etx \<noteq> TxInProgress
      then Ret (Finished (Some (TxErr ''invariant violation: expected transaction to be in_progress'')) False, b)
      else
        let (r, w1) = cl_SendTransactionReturnCode E etx attempt (bw b); b1 = b_emit [Sent etx attempt] (b\<lparr>bw := w1\<rparr>)
        in outcome_bind (if bc_chainType c = hederaChainType then validateOnChainSequence E r etx retryCount b1 else Ret (r, b1))
             (\<lambda>((errType, err), b2).
                if errType = Fatal \<or> errType = TerminallyStuck then
                  (case err of
                     None \<Rightarrow> Panic nil_pointer
                   | Some e \<Rightarrow>
                       (case saveFatallyErroredTransaction E (etx\<lparr>tx_Error := Some (tx_error_msg e)\<rparr>)
                               (clearUnknownErrState (tx_FromAddress etx) b2) of
                          (r, b3) \<Rightarrow> Ret (Finished r True, b3)))
                else
                  handle_code c E errType err
                    (etx\<lparr>tx_InitialBroadcastAt := Some initialBroadcastAt, tx_BroadcastAt := Some initialBroadcastAt\<rparr>)
                    attempt retryCount b2))"

text \<open>The recursive call passes the transaction with the broadcast times set, as the code does.\<close>

partial_function (option) handleInProgressTx ::
  "broadcaster_cfg \<Rightarrow> ('f, 'w) txm_env \<Rightarrow> 'f tx \<Rightarrow> 'f tx_attempt \<Rightarrow> int \<Rightarrow> nat \<Rightarrow> ('f, 'w) bcast \<Rightarrow>
   ((tx_error option \<times> bool) \<times> ('f, 'w) bcast) outcome option" where
  "handleInProgressTx c E etx attempt initialBroadcastAt retryCount b =
     (case send_round c E etx attempt initialBroadcastAt retryCount b of
        Panic m \<Rightarrow> Some (Panic m)
      | Ret (res, b1) \<Rightarrow>
          (case res of
             Finished err retryable \<Rightarrow> Some (Ret ((err, retryable), b1))
           | Again attempt1 retryCount1 \<Rightarrow>
               handleInProgressTx c E
                 (etx\<lparr>tx_InitialBroadcastAt := Some initialBroadcastAt, tx_BroadcastAt := Some initialBroadcastAt\<rparr>)
                 attempt1 initialBroadcastAt retryCount1 b1))"

section \<open>The queue of an address\<close>

text \<open>A check that fails with any error but \<open>context.Canceled\<close> errors the transaction.\<close>

definition handleUnstartedTx ::
  "broadcaster_cfg \<Rightarrow> ('f, 'w) txm_env \<Rightarrow> 'f tx \<Rightarrow> ('f, 'w) bcast \<Rightarrow>
   ((tx_error option \<times> bool) \<times> ('f, 'w) bcast) outcome option" where
  "handleUnstartedTx c E etx b =
     (if tx_State etx \<noteq> TxUnstarted
      then Some (Ret ((Some (TxErr ''invariant violation: expected transaction to be unstarted''), False), b))
      else
        (case bd_NewTxAttempt E etx (bw b) of
           (Inl (err, retryable), w1) \<Rightarrow>
             let b1 = b\<lparr>bw := w1\<rparr> in
             if errors_Is err TxFeeLimitTooLow then
               (case saveFatallyErroredTransaction E (etx\<lparr>tx_Error := Some (tx_error_msg TxFeeLimitTooLow)\<rparr>) b1 of
                  (r, b2) \<Rightarrow> Some (Ret ((r, False), b2)))
             else Some (Ret ((Some (wrap_tx ''processUnstartedTxs failed on NewAttempt'' err), retryable), b1))
         | (Inr attempt, w1) \<Rightarrow>
             let b1 = b\<lparr>bw := w1\<rparr> in
             (case ck_GetChecker E etx of
                Some err \<Rightarrow> Some (Ret ((Some (wrap_tx ''parsing transmit checker'' err), False), b1))
              | None \<Rightarrow>
                  (case ck_BuildChecker E etx of
                     Some err \<Rightarrow> Some (Ret ((Some (wrap_tx ''building transmit checker'' err), False), b1))
                   | None \<Rightarrow>
                       let (checkErr, w2) = ck_Check E etx attempt w1; b2 = b\<lparr>bw := w2\<rparr> in
                       if \<exists>e\<in>set_option checkErr. \<not> errors_Is e CtxCanceled then
                         (case saveFatallyErroredTransaction E (etx\<lparr>tx_Error := map_option tx_error_msg checkErr\<rparr>) b2 of
                            (r, b3) \<Rightarrow> Some (Ret ((r, True), b3)))
                       else
                         (case st_UpdateTxUnstartedToInProgress E etx attempt w2 of
                            (Inl err, w3) \<Rightarrow>
                              Some (Ret ((if errors_Is err ErrTxRemoved then (None, False)
                                          else (Some (wrap_tx ''processUnstartedTxs failed on UpdateTxUnstartedToInProgress'' err), True)),
                                         b\<lparr>bw := w3\<rparr>))
                          | (Inr (etx1, attempt1), w3) \<Rightarrow>
                              handleInProgressTx c E etx1 attempt1 (en_now E w3) 0 (b\<lparr>bw := w3\<rparr>))))))"

definition handleAnyInProgressTx ::
  "broadcaster_cfg \<Rightarrow> ('f, 'w) txm_env \<Rightarrow> string \<Rightarrow> ('f, 'w) bcast \<Rightarrow>
   ((tx_error option \<times> bool) \<times> ('f, 'w) bcast) outcome option" where
  "handleAnyInProgressTx c E fromAddress b =
     (case st_GetTxInProgress E fromAddress (bw b) of
        (Inl err, w1) \<Rightarrow> Some (Ret ((Some (wrap_tx ''handleAnyInProgressTx failed'' err), True), b\<lparr>bw := w1\<rparr>))
      | (Inr None, w1) \<Rightarrow> Some (Ret ((None, False), b\<lparr>bw := w1\<rparr>))
      | (Inr (Some etx), w1) \<Rightarrow>
          (case tx_TxAttempts etx of
             [] \<Rightarrow> Some (Panic ''index out of range'')
           | attempt # _ \<Rightarrow>
               (case handleInProgressTx c E etx attempt (tx_CreatedAt etx) 0 (b\<lparr>bw := w1\<rparr>) of
                  None \<Rightarrow> None
                | Some (Panic m) \<Rightarrow> Some (Panic m)
                | Some (Ret ((None, _), b2)) \<Rightarrow> Some (Ret ((None, False), b2))
                | Some (Ret ((Some err, retryable), b2)) \<Rightarrow>
                    Some (Ret ((Some (wrap_tx ''handleAnyInProgressTx failed'' err), retryable), b2)))))"

definition nextUnstartedTransactionWithSequence ::
  "('f, 'w) txm_env \<Rightarrow> string \<Rightarrow> 'w \<Rightarrow> (tx_error + 'f tx option) \<times> 'w" where
  "nextUnstartedTransactionWithSequence E fromAddress w =
     (case st_FindNextUnstartedTransactionFromAddress E fromAddress w of
        (Inl err, w1) \<Rightarrow>
          (if errors_Is err ErrNoRows then Inr None
           else Inl (wrap_tx ''findNextUnstartedTransactionFromAddress failed'' err), w1)
      | (Inr etx, w1) \<Rightarrow>
          (case sq_GetNextSequence E (tx_FromAddress etx) w1 of
             (Inl err, w2) \<Rightarrow> (Inl err, w2)
           | (Inr sequence, w2) \<Rightarrow> (Inr (Some (etx\<lparr>tx_Sequence := Some sequence\<rparr>)), w2)))"

text \<open>The throttle at the top of the loop: go on, wait, or stop.\<close>

datatype throttle = Proceed | Throttled | Stop bool "tx_error option"

definition check_in_flight ::
  "broadcaster_cfg \<Rightarrow> ('f, 'w) txm_env \<Rightarrow> string \<Rightarrow> 'w \<Rightarrow> throttle \<times> 'w" where
  "check_in_flight c E fromAddress w =
     (if 0 < bc_MaxInFlight c then
        (case st_CountUnconfirmedTransactions E fromAddress w of
           (Inl err, w1) \<Rightarrow> (Stop True (Some (wrap_tx ''CountUnconfirmedTransactions failed'' err)), w1)
         | (Inr nUnconfirmed, w1) \<Rightarrow>
             if bc_MaxInFlight c \<le> nUnconfirmed then
               (case st_CountUnstartedTransactions E fromAddress w1 of
                  (Inl err, w2) \<Rightarrow> (Stop True (Some (wrap_tx ''CountUnstartedTransactions failed'' err)), w2)
                | (Inr nUnstarted, w2) \<Rightarrow>
                    (case en_wait E w2 of
                       (None, w3) \<Rightarrow> (Throttled, w3)
                     | (Some cause, w3) \<Rightarrow> (Stop False (Some cause), w3)))
             else (Proceed, w1))
      else (Proceed, w))"

datatype proc_result = ProcDone bool "tx_error option" | ProcContinue

definition process_round ::
  "broadcaster_cfg \<Rightarrow> ('f, 'w) txm_env \<Rightarrow> string \<Rightarrow> ('f, 'w) bcast \<Rightarrow> (proc_result \<times> ('f, 'w) bcast) outcome option" where
  "process_round c E fromAddress b =
     (case check_in_flight c E fromAddress (bw b) of
        (Stop retryable err, w1) \<Rightarrow> Some (Ret (ProcDone retryable err, b\<lparr>bw := w1\<rparr>))
      | (Throttled, w1) \<Rightarrow> Some (Ret (ProcContinue, b\<lparr>bw := w1\<rparr>))
      | (Proceed, w1) \<Rightarrow>
          (case nextUnstartedTransactionWithSequence E fromAddress w1 of
             (Inl err, w2) \<Rightarrow>
               Some (Ret (ProcDone True (Some (wrap_tx ''processUnstartedTxs failed on nextUnstartedTransactionWithSequence'' err)),
                          b\<lparr>bw := w2\<rparr>))
           | (Inr None, w2) \<Rightarrow> Some (Ret (ProcDone False None, b\<lparr>bw := w2\<rparr>))
           | (Inr (Some etx), w2) \<Rightarrow>
               (case handleUnstartedTx c E etx (b\<lparr>bw := w2\<rparr>) of
                  None \<Rightarrow> None
                | Some (Panic m) \<Rightarrow> Some (Panic m)
                | Some (Ret ((None, retryable), b3)) \<Rightarrow> Some (Ret (ProcContinue, b3))
                | Some (Ret ((Some err, retryable), b3)) \<Rightarrow>
                    Some (Ret (ProcDone retryable (Some (wrap_tx ''processUnstartedTxs failed on handleUnstartedTx'' err)), b3)))))"

partial_function (option) process_loop ::
  "broadcaster_cfg \<Rightarrow> ('f, 'w) txm_env \<Rightarrow> string \<Rightarrow> ('f, 'w) bcast \<Rightarrow>
   ((bool \<times> tx_error option) \<times> ('f, 'w) bcast) outcome option" where
  "process_loop c E fromAddress b =
     Option.bind (process_round c E fromAddress b)
       (\<lambda>r. case r of
          Panic m \<Rightarrow> Some (Panic m)
        | Ret (res, b1) \<Rightarrow>
            (case res of
               ProcDone retryable err \<Rightarrow> Some (Ret ((retryable, err), b1))
             | ProcContinue \<Rightarrow> process_loop c E fromAddress b1))"

definition processUnstartedTxs ::
  "broadcaster_cfg \<Rightarrow> ('f, 'w) txm_env \<Rightarrow> string \<Rightarrow> ('f, 'w) bcast \<Rightarrow>
   ((bool \<times> tx_error option) \<times> ('f, 'w) bcast) outcome option" where
  "processUnstartedTxs c E fromAddress b =
     (case handleAnyInProgressTx c E fromAddress b of
        None \<Rightarrow> None
      | Some (Panic m) \<Rightarrow> Some (Panic m)
      | Some (Ret ((Some err, retryable), b1)) \<Rightarrow>
          Some (Ret ((retryable, Some (wrap_tx ''processUnstartedTxs failed on handleAnyInProgressTx'' err)), b1))
      | Some (Ret ((None, retryable), b1)) \<Rightarrow> process_loop c E fromAddress b1)"

declare handleInProgressTx.simps [code]
declare process_loop.simps [code]

section \<open>What the interfaces promise\<close>

text \<open>\<open>nxt\<close> is the sequence tracker's next sequence per address, as a view of the world: only
  \<open>GenerateNextSequence\<close> changes it.\<close>

definition frame :: "('f, 'w) txm_env \<Rightarrow> (string \<Rightarrow> 'w \<Rightarrow> 'n) \<Rightarrow> bool" where
  "frame E nxt \<longleftrightarrow>
     (\<forall>a. (\<forall>x w. nxt a (snd (st_CountUnconfirmedTransactions E x w)) = nxt a w) \<and>
     (\<forall>x w. nxt a (snd (st_CountUnstartedTransactions E x w)) = nxt a w) \<and>
     (\<forall>x w. nxt a (snd (st_FindNextUnstartedTransactionFromAddress E x w)) = nxt a w) \<and>
     (\<forall>x y w. nxt a (snd (st_UpdateTxUnstartedToInProgress E x y w)) = nxt a w) \<and>
     (\<forall>x w. nxt a (snd (st_GetTxInProgress E x w)) = nxt a w) \<and>
     (\<forall>x y z w. nxt a (snd (st_UpdateTxAttemptInProgressToBroadcast E x y z w)) = nxt a w) \<and>
     (\<forall>x y w. nxt a (snd (st_SaveReplacementInProgressAttempt E x y w)) = nxt a w) \<and>
     (\<forall>x w. nxt a (snd (st_UpdateTxFatalErrorAndDeleteAttempts E x w)) = nxt a w) \<and>
     (\<forall>x w. nxt a (snd (st_UpdateTxCallbackCompleted E x w)) = nxt a w) \<and>
     (\<forall>x y w. nxt a (snd (cl_SendTransactionReturnCode E x y w)) = nxt a w) \<and>
     (\<forall>x w. nxt a (snd (cl_PendingSequenceAt E x w)) = nxt a w) \<and>
     (\<forall>x w. nxt a (snd (cl_SequenceAt E x w)) = nxt a w) \<and>
     (\<forall>x w. nxt a (snd (bd_NewTxAttempt E x w)) = nxt a w) \<and>
     (\<forall>x y w. nxt a (snd (bd_NewBumpTxAttempt E x y w)) = nxt a w) \<and>
     (\<forall>x y w. nxt a (snd (bd_NewTxAttemptWithType E x y w)) = nxt a w) \<and>
     (\<forall>x w. nxt a (snd (sq_GetNextSequence E x w)) = nxt a w) \<and>
     (\<forall>x y w. nxt a (snd (ck_Check E x y w)) = nxt a w) \<and>
     (\<forall>f x y w. cb_resumeCallback E = Some f \<longrightarrow> nxt a (snd (f x y w)) = nxt a w) \<and>
     (\<forall>w. nxt a (snd (en_wait E w)) = nxt a w))"

text \<open>The tracker gives out the next sequence. When a sequence is reported as used it stores another one: which one
  depends on the chain, so \<open>gen used old\<close> is any function; it is \<open>used + 1\<close> where sequences are consecutive and \<open>old\<close>
  where the method is a no-op. The store keeps sequence and sender of a transaction it moves to \<open>in_progress\<close> and finds
  transactions of the address asked for. Nothing is said of the sequence of a transaction left in progress: after a restart
  it may be the tracker's next sequence or the one before.\<close>

definition tracker_laws :: "('f, 'w) txm_env \<Rightarrow> (string \<Rightarrow> 'w \<Rightarrow> int) \<Rightarrow> (int \<Rightarrow> int \<Rightarrow> int) \<Rightarrow> bool" where
  "tracker_laws E nxt gen \<longleftrightarrow>
     frame E nxt \<and>
     (\<forall>a w s w'. sq_GetNextSequence E a w = (Inr s, w') \<longrightarrow> s = nxt a w) \<and>
     (\<forall>a s w. nxt a (sq_GenerateNextSequence E a s w) = gen s (nxt a w)) \<and>
     (\<forall>x y w x' y' w'. st_UpdateTxUnstartedToInProgress E x y w = (Inr (x', y'), w') \<longrightarrow>
        tx_Sequence x' = tx_Sequence x \<and> tx_FromAddress x' = tx_FromAddress x \<and> tx_State x' = TxInProgress) \<and>
     (\<forall>a w x w'. st_GetTxInProgress E a w = (Inr (Some x), w') \<longrightarrow> tx_FromAddress x = a \<and> tx_State x = TxInProgress) \<and>
     (\<forall>a w x w'. st_FindNextUnstartedTransactionFromAddress E a w = (Inr x, w') \<longrightarrow> tx_FromAddress x = a)"

text \<open>The client reports an error with every code but the two successful ones.\<close>

definition client_laws :: "('f, 'w) txm_env \<Rightarrow> bool" where
  "client_laws E \<longleftrightarrow>
     (\<forall>x y w r w'. cl_SendTransactionReturnCode E x y w = (r, w') \<and> snd r = None \<longrightarrow> fst r \<in> set sendTxSuccessfulCodes)"

text \<open>Bumping raises the fee, up to a cap above which the builder refuses, and the saved replacement has the fee of
  the one built; \<open>fee\<close> measures the fee of an attempt. \<open>rej\<close> is the number of times the client will still reject a fee as
  out of its valid range: such a rejection is answered with a fresh estimate, which may have any fee, and a client that goes
  on rejecting keeps the broadcaster sending.\<close>

definition bump_laws :: "('f, 'w) txm_env \<Rightarrow> ('f tx_attempt \<Rightarrow> nat) \<Rightarrow> nat \<Rightarrow> ('w \<Rightarrow> nat) \<Rightarrow> bool" where
  "bump_laws E fee cap rej \<longleftrightarrow>
     (\<forall>x a w a' w'. bd_NewBumpTxAttempt E x a w = (Inr a', w') \<longrightarrow> fee a < fee a' \<and> fee a' \<le> cap \<and> rej w' \<le> rej w) \<and>
     (\<forall>x t w a' w'. bd_NewTxAttemptWithType E x t w = (Inr a', w') \<longrightarrow> rej w' \<le> rej w) \<and>
     (\<forall>a b w b' w'. st_SaveReplacementInProgressAttempt E a b w = (Inr b', w') \<longrightarrow> fee b' = fee b \<and> rej w' \<le> rej w) \<and>
     (\<forall>a w r w'. cl_SequenceAt E a w = (r, w') \<longrightarrow> rej w' \<le> rej w) \<and>
     (\<forall>x a w r w'. cl_SendTransactionReturnCode E x a w = (r, w') \<longrightarrow>
        rej w' \<le> rej w \<and> (fst r = FeeOutOfValidRange \<longrightarrow> rej w' < rej w))"

text \<open>An instance of the interfaces: a store with the transaction left in progress and a queue per run, a tracker with one
  counter, and a client that rejects a number of fees as out of range and then finds the first price of every transaction
  too low.\<close>

record demo_world =
  dw_next :: int
  dw_left :: "nat tx option"
  dw_queue :: "nat tx list"
  dw_reject :: nat

definition demo_env :: "(nat, demo_world) txm_env" where
  "demo_env =
     \<lparr>st_CountUnconfirmedTransactions = (\<lambda>a w. (Inr 0, w)),
      st_CountUnstartedTransactions = (\<lambda>a w. (Inr 0, w)),
      st_FindNextUnstartedTransactionFromAddress = (\<lambda>a w.
        (case dw_queue w of [] \<Rightarrow> Inl ErrNoRows | x # xs \<Rightarrow> Inr (x\<lparr>tx_FromAddress := a\<rparr>), w)),
      st_GetTxInProgress = (\<lambda>a w.
        (Inr (map_option (\<lambda>x. x\<lparr>tx_FromAddress := a, tx_State := TxInProgress\<rparr>) (dw_left w)), w)),
      st_UpdateTxUnstartedToInProgress = (\<lambda>x a w. (Inr (x\<lparr>tx_State := TxInProgress\<rparr>, a), w\<lparr>dw_queue := tl (dw_queue w)\<rparr>)),
      st_UpdateTxAttemptInProgressToBroadcast = (\<lambda>x a s w. (None, w\<lparr>dw_left := None\<rparr>)),
      st_SaveReplacementInProgressAttempt = (\<lambda>old new w. (Inr new, w)),
      st_UpdateTxFatalErrorAndDeleteAttempts = (\<lambda>x w. (None, w)),
      st_UpdateTxCallbackCompleted = (\<lambda>r w. (None, w)),
      cl_SendTransactionReturnCode = (\<lambda>x a w.
        (case dw_reject w of
           Suc n \<Rightarrow> ((FeeOutOfValidRange, Some (TxErr ''fee out of range'')), w\<lparr>dw_reject := n\<rparr>)
         | 0 \<Rightarrow> (if att_TxFee a < 2 then (Underpriced, Some (TxErr ''underpriced'')) else (Successful, None), w))),
      cl_PendingSequenceAt = (\<lambda>a w. (Inr 0, w)),
      cl_SequenceAt = (\<lambda>a w. (Inr 0, w)),
      bd_NewTxAttempt = (\<lambda>x w. (Inr (demo_attempt 1), w)),
      bd_NewBumpTxAttempt = (\<lambda>x a w. (if att_TxFee a < 5 then Inr (a\<lparr>att_TxFee := att_TxFee a + 1\<rparr>) else Inl (TxErr ''cap'', True), w)),
      bd_NewTxAttemptWithType = (\<lambda>x t w. (Inr (demo_attempt 1), w)),
      sq_GetNextSequence = (\<lambda>a w. (Inr (dw_next w), w)),
      sq_GenerateNextSequence = (\<lambda>a s w. w\<lparr>dw_next := s + 1\<rparr>),
      ck_GetChecker = (\<lambda>x. None), ck_BuildChecker = (\<lambda>x. None), ck_Check = (\<lambda>x a w. (None, w)),
      cb_resumeCallback = None, en_now = (\<lambda>w. 0), en_wait = (\<lambda>w. (None, w))\<rparr>"

text \<open>After a restart: the transaction left in progress has the sequence before the tracker's next one.\<close>

definition demo_leftover :: demo_world where
  "demo_leftover =
     \<lparr>dw_next = 8, dw_left = Some ((demo_tx 0)\<lparr>tx_Sequence := Some 7, tx_TxAttempts := [demo_attempt 1]\<rparr>),
      dw_queue = [demo_tx 1, demo_tx 2], dw_reject = 1\<rparr>"

definition demo_bcfg :: broadcaster_cfg where
  "demo_bcfg = \<lparr>bc_chainType = ''evm'', bc_MaxInFlight = 16, bc_UnknownErrorRetryTimeout = 0\<rparr>"

section \<open>Lemmas\<close>

lemma demo_env_laws:
  "tracker_laws demo_env (\<lambda>a. dw_next) (\<lambda>s n. s + 1)" "client_laws demo_env" "bump_laws demo_env att_TxFee 5 dw_reject"
  by (auto simp: tracker_laws_def frame_def client_laws_def bump_laws_def demo_env_def sendTxSuccessfulCodes_def
      split: list.splits if_splits nat.splits)

lemma frame_dests:
  assumes "frame E nxt"
  shows "st_CountUnconfirmedTransactions E x w = (r1, w') \<Longrightarrow> nxt a w' = nxt a w"
    and "st_CountUnstartedTransactions E x w = (r2, w') \<Longrightarrow> nxt a w' = nxt a w"
    and "st_FindNextUnstartedTransactionFromAddress E x w = (r3, w') \<Longrightarrow> nxt a w' = nxt a w"
    and "st_UpdateTxUnstartedToInProgress E t u w = (r4, w') \<Longrightarrow> nxt a w' = nxt a w"
    and "st_UpdateTxAttemptInProgressToBroadcast E t u n w = (r5, w') \<Longrightarrow> nxt a w' = nxt a w"
    and "st_SaveReplacementInProgressAttempt E u v w = (r6, w') \<Longrightarrow> nxt a w' = nxt a w"
    and "st_UpdateTxFatalErrorAndDeleteAttempts E t w = (r7, w') \<Longrightarrow> nxt a w' = nxt a w"
    and "st_UpdateTxCallbackCompleted E x w = (r8, w') \<Longrightarrow> nxt a w' = nxt a w"
    and "cl_SendTransactionReturnCode E t u w = (r9, w') \<Longrightarrow> nxt a w' = nxt a w"
    and "cl_PendingSequenceAt E x w = (r10, w') \<Longrightarrow> nxt a w' = nxt a w"
    and "cl_SequenceAt E x w = (r11, w') \<Longrightarrow> nxt a w' = nxt a w"
    and "bd_NewTxAttempt E t w = (r12, w') \<Longrightarrow> nxt a w' = nxt a w"
    and "bd_NewBumpTxAttempt E t u w = (r13, w') \<Longrightarrow> nxt a w' = nxt a w"
    and "bd_NewTxAttemptWithType E t n w = (r14, w') \<Longrightarrow> nxt a w' = nxt a w"
    and "sq_GetNextSequence E x w = (r15, w') \<Longrightarrow> nxt a w' = nxt a w"
    and "ck_Check E t u w = (r16, w') \<Longrightarrow> nxt a w' = nxt a w"
    and "cb_resumeCallback E = Some f \<Longrightarrow> f x y w = (r17, w') \<Longrightarrow> nxt a w' = nxt a w"
    and "en_wait E w = (r18, w') \<Longrightarrow> nxt a w' = nxt a w"
    and "st_GetTxInProgress E x w = (r19, w') \<Longrightarrow> nxt a w' = nxt a w"
  using assms unfolding frame_def by (metis snd_conv)+

lemma frame_trivial: "frame E (\<lambda>a w. ())"
  by (simp add: frame_def)

text \<open>Nothing happened but changes of the world that keep the next sequences.\<close>

definition quiet :: "(string \<Rightarrow> 'w \<Rightarrow> 'n) \<Rightarrow> ('f, 'w) bcast \<Rightarrow> ('f, 'w) bcast \<Rightarrow> bool" where
  "quiet nxt b b' \<longleftrightarrow> b_effects b' = b_effects b \<and> (\<forall>a. nxt a (bw b') = nxt a (bw b))"

text \<open>How the handling of a transaction may end: with neither, with its fatal error saved, or handed over.\<close>

definition ends_as ::
  "('f, 'w) txm_env \<Rightarrow> (string \<Rightarrow> 'w \<Rightarrow> 'n) \<Rightarrow> 'f tx \<Rightarrow> 'f tx_attempt \<Rightarrow> tx_error option \<Rightarrow>
   ('f, 'w) bcast \<Rightarrow> ('f, 'w) bcast \<Rightarrow> bool" where
  "ends_as E nxt etx attempt err b b' \<longleftrightarrow>
     quiet nxt b b' \<or>
     (\<exists>x. b_effects b' = b_effects b @ [FatallyErrored x] \<and> tx_ID x = tx_ID etx \<and> err = None \<and>
        (\<forall>a. nxt a (bw b') = nxt a (bw b))) \<or>
     (\<exists>x s w1. b_effects b' = b_effects b @ [HandedOver x attempt, SequenceUsed (tx_FromAddress etx) s] \<and>
        tx_ID x = tx_ID etx \<and> tx_Sequence x = Some s \<and> tx_Sequence etx = Some s \<and> err = None \<and>
        (\<forall>a. nxt a w1 = nxt a (bw b)) \<and> bw b' = sq_GenerateNextSequence E (tx_FromAddress etx) s w1)"

lemma quiet_refl [simp]: "quiet nxt b b"
  by (simp add: quiet_def)

lemma quiet_world: "(\<And>a. nxt a w = nxt a (bw b)) \<Longrightarrow> quiet nxt b (b\<lparr>bw := w\<rparr>)"
  by (simp add: quiet_def)

lemma quiet_clear: "quiet nxt b b' \<Longrightarrow> quiet nxt b (clearUnknownErrState x b')"
  by (simp add: quiet_def clearUnknownErrState_def)

lemma quiet_ends: "quiet nxt b b1 \<Longrightarrow> ends_as E nxt etx attempt err b1 b' \<Longrightarrow> ends_as E nxt etx attempt err b b'"
  by (simp add: quiet_def ends_as_def)

lemma resume_with_error_quiet:
  assumes "frame E nxt" and "resume_with_error E etx b = (err, b')"
  shows "quiet nxt b b'"
proof (cases "(tx_PipelineTaskRunID etx, cb_resumeCallback E, tx_Error etx)")
  case (fields p q r)
  show ?thesis
  proof (cases "\<exists>runID f msg. p = Some runID \<and> q = Some f \<and> r = Some msg \<and> tx_SignalCallback etx \<and> \<not> tx_CallbackCompleted etx")
    case True
    then obtain runID f msg where s: "p = Some runID" "q = Some f" "r = Some msg"
      "tx_SignalCallback etx" "\<not> tx_CallbackCompleted etx" by blast
    obtain e w1 where f: "f runID (''fatal error while sending transaction: '' @ msg) (bw b) = (e, w1)"
      by (cases "f runID (''fatal error while sending transaction: '' @ msg) (bw b)")
    obtain e2 w2 where u: "st_UpdateTxCallbackCompleted E runID w1 = (e2, w2)" by (cases "st_UpdateTxCallbackCompleted E runID w1")
    have cb: "cb_resumeCallback E = Some f" using s(2) fields by simp
    have "nxt a w1 = nxt a (bw b)" "nxt a w2 = nxt a w1" for a
      using frame_dests(17) [OF assms(1) cb] f frame_dests(8) [OF assms(1) u] by blast+
    then show ?thesis
      using assms(2) s fields f u
      by (cases e) (auto simp: resume_with_error_def quiet_def split: if_splits)
  next
    case False
    then have "b' = b" using assms(2) fields by (auto simp: resume_with_error_def split: option.splits if_splits)
    then show ?thesis by simp
  qed
qed

lemma saveFatallyErrored_ends:
  assumes "frame E nxt" and "saveFatallyErroredTransaction E x b = (err, b')" and "tx_ID x = tx_ID etx"
  shows "ends_as E nxt etx attempt err b b' \<and> (err = None \<longrightarrow> b_effects b' \<noteq> b_effects b)"
proof -
  obtain e b1 where r: "resume_with_error E x b = (e, b1)" by (cases "resume_with_error E x b")
  obtain e2 w2 where u: "st_UpdateTxFatalErrorAndDeleteAttempts E x (bw b1) = (e2, w2)"
    by (cases "st_UpdateTxFatalErrorAndDeleteAttempts E x (bw b1)")
  have q: "quiet nxt b b1" by (rule resume_with_error_quiet [OF assms(1) r])
  have n: "nxt a w2 = nxt a (bw b1)" for a by (rule frame_dests(7) [OF assms(1) u])
  show ?thesis
    using assms(2,3) r u q n
    by (auto simp: saveFatallyErroredTransaction_def ends_as_def quiet_def b_emit_def split: if_splits option.splits)
qed

lemma save_replacement_quiet:
  assumes "frame E nxt" and "save_replacement E attempt (r, w) b = (res, b')" and "\<And>a. nxt a w = nxt a (bw b)"
  shows "quiet nxt b b'"
proof (cases r)
  case (Inl p)
  then show ?thesis using assms(2,3) by (cases p) (auto simp: save_replacement_def quiet_def)
next
  case (Inr u)
  obtain r2 w2 where s: "st_SaveReplacementInProgressAttempt E attempt u w = (r2, w2)"
    by (cases "st_SaveReplacementInProgressAttempt E attempt u w")
  have "nxt a w2 = nxt a w" for a by (rule frame_dests(6) [OF assms(1) s])
  then show ?thesis using assms(2,3) Inr s by (auto simp: save_replacement_def quiet_def split: sum.splits)
qed

lemma replace_quiet:
  assumes "frame E nxt"
  shows "replaceAttemptWithBumpedGas c E err etx attempt b = Ret (res, b') \<Longrightarrow> quiet nxt b b'"
    and "replaceAttemptWithNewEstimation E etx attempt b = (res, b') \<Longrightarrow> quiet nxt b b'"
proof -
  obtain r w where n: "bd_NewBumpTxAttempt E etx attempt (bw b) = (r, w)" by (cases "bd_NewBumpTxAttempt E etx attempt (bw b)")
  obtain r' w' where m: "bd_NewTxAttemptWithType E etx (att_TxType attempt) (bw b) = (r', w')"
    by (cases "bd_NewTxAttemptWithType E etx (att_TxType attempt) (bw b)")
  show "quiet nxt b b'" if "replaceAttemptWithBumpedGas c E err etx attempt b = Ret (res, b')"
    using that n save_replacement_quiet [OF assms _ frame_dests(13) [OF assms n]]
    by (auto simp: replaceAttemptWithBumpedGas_def split: if_splits)
  show "quiet nxt b b'" if "replaceAttemptWithNewEstimation E etx attempt b = (res, b')"
    using that m save_replacement_quiet [OF assms _ frame_dests(14) [OF assms m]]
    by (auto simp: replaceAttemptWithNewEstimation_def)
qed

lemma hand_over_ends:
  assumes "frame E nxt" and "hand_over E etx attempt b = Ret (res, b')"
  shows "\<exists>err. res = Finished err True \<and> ends_as E nxt etx attempt err b b' \<and> (err = None \<longrightarrow> b_effects b' \<noteq> b_effects b)"
proof -
  obtain e w1 where u: "st_UpdateTxAttemptInProgressToBroadcast E etx attempt TxAttemptBroadcast (bw b) = (e, w1)"
    by (cases "st_UpdateTxAttemptInProgressToBroadcast E etx attempt TxAttemptBroadcast (bw b)")
  have n: "nxt a w1 = nxt a (bw b)" for a by (rule frame_dests(5) [OF assms(1) u])
  show ?thesis
  proof (cases e)
    case None
    then obtain s where s: "tx_Sequence etx = Some s" using assms(2) u by (auto simp: hand_over_def split: option.splits)
    then show ?thesis
      using assms(2) u None n
      by (auto simp: hand_over_def ends_as_def b_emit_def clearUnknownErrState_def intro!: exI [of _ w1])
  next
    case (Some err)
    then show ?thesis using assms(2) u n by (auto simp: hand_over_def ends_as_def quiet_def)
  qed
qed

text \<open>The last conjunct of the lemmas below: with a client that reports errors, a nil error means that the transaction
  was handed over or given up.\<close>

lemma handle_unknown_ends:
  assumes "frame E nxt" and "handle_unknown c E err etx attempt b = Ret (res, b')"
  shows "\<exists>err retryable. res = Finished err retryable \<and> ends_as E nxt etx attempt err b b' \<and>
    (err = None \<longrightarrow> b_effects b' \<noteq> b_effects b)"
proof -
  obtain r w1 where p: "cl_PendingSequenceAt E (tx_FromAddress etx) (bw b) = (r, w1)"
    by (cases "cl_PendingSequenceAt E (tx_FromAddress etx) (bw b)")
  have q: "quiet nxt b (b\<lparr>bw := w1\<rparr>)" by (rule quiet_world) (rule frame_dests(10) [OF assms(1) p])
  show ?thesis
  proof (cases r)
    case (Inl e)
    then show ?thesis using assms(2) p q by (auto simp: handle_unknown_def ends_as_def)
  next
    case (Inr n)
    then obtain s where s: "tx_Sequence etx = Some s" using assms(2) p by (auto simp: handle_unknown_def split: option.splits)
    show ?thesis
    proof (cases "s < n")
      case True
      then have "hand_over E etx attempt (b\<lparr>bw := w1\<rparr>) = Ret (res, b')"
        using assms(2) p Inr s by (simp add: handle_unknown_def Let_def)
      from hand_over_ends [OF assms(1) this] show ?thesis using quiet_ends [OF q] by fastforce
    next
      case False
      obtain ex b2 where k: "recordUnknownErr c E (tx_FromAddress etx) (tx_ID etx) (b\<lparr>bw := w1\<rparr>) = (ex, b2)"
        by (cases "recordUnknownErr c E (tx_FromAddress etx) (tx_ID etx) (b\<lparr>bw := w1\<rparr>)")
      have q2: "quiet nxt b b2" using q k by (auto simp: recordUnknownErr_def Let_def quiet_def split: if_splits)
      show ?thesis
      proof (cases ex)
        case True
        let ?x = "etx\<lparr>tx_Error := Some (tx_error_msg (errorf_w ''giving up on transaction after unknown errors'' err))\<rparr>"
        obtain e3 where f: "saveFatallyErroredTransaction E ?x (clearUnknownErrState (tx_FromAddress etx) b2) = (e3, b')"
          and res: "res = Finished e3 True"
          using assms(2) p Inr s False k True by (auto simp: handle_unknown_def Let_def split: prod.splits)
        from saveFatallyErrored_ends [OF assms(1) f, of etx attempt]
        have "ends_as E nxt etx attempt e3 (clearUnknownErrState (tx_FromAddress etx) b2) b'"
          "e3 = None \<longrightarrow> b_effects b' \<noteq> b_effects b2"
          by (auto simp: clearUnknownErrState_def)
        then show ?thesis using res quiet_ends [OF quiet_clear [OF q2]] q2 by (auto simp: quiet_def)
      next
        case not_ex: False
        then show ?thesis using assms(2) p Inr s False k q2 by (auto simp: handle_unknown_def Let_def ends_as_def)
      qed
    qed
  qed
qed

lemma handle_code_result:
  assumes "frame E nxt" and "handle_code c E code err etx attempt k b = Ret (res, b')"
    and "err = None \<Longrightarrow> code \<in> set sendTxSuccessfulCodes \<or> code = Underpriced"
  shows "case res of
      Again a k' \<Rightarrow> quiet nxt b b'
    | Finished err' retryable \<Rightarrow> ends_as E nxt etx attempt err' b b' \<and> (err' = None \<longrightarrow> b_effects b' \<noteq> b_effects b)"
proof -
  consider "code = TransactionAlreadyKnown \<or> code = Successful" | "code = Underpriced" | "code = InsufficientFunds"
    | "code = Retryable" | "code = FeeOutOfValidRange" | "code = Unsupported"
    | "code \<notin> {TransactionAlreadyKnown, Successful, Underpriced, InsufficientFunds, Retryable, FeeOutOfValidRange, Unsupported}"
    by blast
  then show ?thesis
  proof cases
    case 1
    then show ?thesis using assms(2) hand_over_ends [OF assms(1), of etx attempt b res b'] by (auto simp: handle_code_def)
  next
    case 2
    then obtain r b1 where r: "replaceAttemptWithBumpedGas c E err etx attempt b = Ret (r, b1)"
      and rest: "(case r of Inl (replaceErr, retryable) \<Rightarrow> Ret (Finished (Some replaceErr) retryable, b1)
           | Inr bumpedAttempt \<Rightarrow> Ret (Again bumpedAttempt (k + 1), b1)) = Ret (res, b')"
      using assms(2) by (auto simp: handle_code_def outcome_bind_Ret_iff)
    show ?thesis using replace_quiet(1) [OF assms(1) r] rest by (auto simp: ends_as_def split: sum.splits prod.splits)
  next
    case 3
    obtain r b1 where r: "replaceAttemptWithNewEstimation E etx attempt b = (r, b1)"
      by (cases "replaceAttemptWithNewEstimation E etx attempt b")
    have "err \<noteq> None" using assms(3) 3 by (auto simp: sendTxSuccessfulCodes_def)
    then show ?thesis using replace_quiet(2) [OF assms(1) r] assms(2) 3 r
      by (auto simp: handle_code_def ends_as_def split: sum.splits prod.splits)
  next
    case 5
    obtain r b1 where r: "replaceAttemptWithNewEstimation E etx attempt b = (r, b1)"
      by (cases "replaceAttemptWithNewEstimation E etx attempt b")
    show ?thesis using replace_quiet(2) [OF assms(1) r] assms(2) 5 r
      by (auto simp: handle_code_def ends_as_def split: sum.splits prod.splits)
  next
    case 7
    then have "handle_unknown c E err etx attempt b = Ret (res, b')" using assms(2) by (simp add: handle_code_def)
    from handle_unknown_ends [OF assms(1) this] show ?thesis by auto
  qed (use assms(2,3) in \<open>cases err; auto simp: handle_code_def ends_as_def sendTxSuccessfulCodes_def\<close>)+
qed

lemma ends_as_cong:
  "tx_ID x = tx_ID etx \<Longrightarrow> tx_Sequence x = tx_Sequence etx \<Longrightarrow> tx_FromAddress x = tx_FromAddress etx \<Longrightarrow>
   ends_as E nxt x attempt err b b' \<Longrightarrow> ends_as E nxt etx attempt err b b'"
  by (simp add: ends_as_def)

lemma validate_quiet:
  assumes "frame E nxt" and "validateOnChainSequence E r etx k b = Ret ((code, err), b')"
    and "snd r = None \<Longrightarrow> fst r \<in> set sendTxSuccessfulCodes"
  shows "quiet nxt b b' \<and> (err = None \<longrightarrow> code \<in> set sendTxSuccessfulCodes \<or> code = Underpriced)"
proof (cases "fst r = Successful")
  case True
  then obtain txSeq where s: "tx_Sequence etx = Some txSeq"
    using assms(2) by (auto simp: validateOnChainSequence_def split: option.splits)
  obtain q w1 where c: "cl_SequenceAt E (tx_FromAddress etx) (bw b) = (q, w1)"
    by (cases "cl_SequenceAt E (tx_FromAddress etx) (bw b)")
  have "quiet nxt b (b\<lparr>bw := w1\<rparr>)" by (rule quiet_world) (rule frame_dests(11) [OF assms(1) c])
  then show ?thesis
    using assms(2) True s c
    by (auto simp: validateOnChainSequence_def Let_def sendTxSuccessfulCodes_def split: sum.splits if_splits)
next
  case False
  then show ?thesis using assms(2,3) by (auto simp: validateOnChainSequence_def)
qed

text \<open>One send: it is recorded, and what follows is nothing or the end of the transaction.\<close>

lemma send_round_result:
  assumes "frame E nxt" and "client_laws E" and "send_round c E etx attempt t k b = Ret (res, b')"
    and "tx_State etx = TxInProgress"
  shows "\<exists>b1. b_effects b1 = b_effects b @ [Sent etx attempt] \<and> (\<forall>a. nxt a (bw b1) = nxt a (bw b)) \<and>
    (case res of
       Again a k' \<Rightarrow> quiet nxt b1 b'
     | Finished err retryable \<Rightarrow> ends_as E nxt etx attempt err b1 b' \<and> (err = None \<longrightarrow> b_effects b' \<noteq> b_effects b1))"
proof -
  obtain r w1 where s: "cl_SendTransactionReturnCode E etx attempt (bw b) = (r, w1)"
    by (cases "cl_SendTransactionReturnCode E etx attempt (bw b)")
  define b1 where "b1 = b_emit [Sent etx attempt] (b\<lparr>bw := w1\<rparr>)"
  have e1: "b_effects b1 = b_effects b @ [Sent etx attempt]" by (simp add: b1_def b_emit_def)
  have n1: "nxt a (bw b1) = nxt a (bw b)" for a using frame_dests(9) [OF assms(1) s] by (simp add: b1_def b_emit_def)
  have ok: "snd r = None \<Longrightarrow> fst r \<in> set sendTxSuccessfulCodes" using assms(2) s unfolding client_laws_def by blast
  define etx1 where "etx1 = etx\<lparr>tx_InitialBroadcastAt := Some t, tx_BroadcastAt := Some t\<rparr>"
  have same: "tx_ID etx1 = tx_ID etx" "tx_Sequence etx1 = tx_Sequence etx" "tx_FromAddress etx1 = tx_FromAddress etx"
    by (simp_all add: etx1_def)
  let ?finish = "\<lambda>code err b2. if code = Fatal \<or> code = TerminallyStuck then
         (case err of None \<Rightarrow> Panic nil_pointer
          | Some e \<Rightarrow> (case saveFatallyErroredTransaction E (etx\<lparr>tx_Error := Some (tx_error_msg e)\<rparr>)
                 (clearUnknownErrState (tx_FromAddress etx) b2) of (r, b3) \<Rightarrow> Ret (Finished r True, b3)))
       else handle_code c E code err etx1 attempt k b2"
  have "outcome_bind (if bc_chainType c = hederaChainType then validateOnChainSequence E r etx k b1 else Ret (r, b1))
      (\<lambda>((code, err), b2). ?finish code err b2) = Ret (res, b')"
    using assms(3,4) s unfolding send_round_def b1_def etx1_def Let_def by simp
  then obtain p where v': "(if bc_chainType c = hederaChainType then validateOnChainSequence E r etx k b1 else Ret (r, b1)) = Ret p"
    and rest': "(\<lambda>((code, err), b2). ?finish code err b2) p = Ret (res, b')"
    by (rule outcome_bind_RetE)
  obtain code err b2 where p: "p = ((code, err), b2)" by (metis prod.exhaust)
  note v = v' [unfolded p]
  have rest: "?finish code err b2 = Ret (res, b')" using rest' by (simp only: p prod.case)
  have q: "quiet nxt b1 b2" and ok2: "err = None \<longrightarrow> code \<in> set sendTxSuccessfulCodes \<or> code = Underpriced"
    using v validate_quiet [OF assms(1) _ ok] ok by (auto split: if_splits)
  have "case res of
       Again a k' \<Rightarrow> quiet nxt b1 b'
     | Finished err retryable \<Rightarrow> ends_as E nxt etx attempt err b1 b' \<and> (err = None \<longrightarrow> b_effects b' \<noteq> b_effects b1)"
  proof (cases "code = Fatal \<or> code = TerminallyStuck")
    case True
    then obtain e e3 where f: "saveFatallyErroredTransaction E (etx\<lparr>tx_Error := Some (tx_error_msg e)\<rparr>)
        (clearUnknownErrState (tx_FromAddress etx) b2) = (e3, b')" and res: "res = Finished e3 True"
      using rest by (auto split: option.splits prod.splits)
    from saveFatallyErrored_ends [OF assms(1) f, of etx attempt]
    have "ends_as E nxt etx attempt e3 (clearUnknownErrState (tx_FromAddress etx) b2) b'"
      "e3 = None \<longrightarrow> b_effects b' \<noteq> b_effects b2"
      by (auto simp: clearUnknownErrState_def)
    then show ?thesis using res quiet_ends [OF quiet_clear [OF q]] q by (auto simp: quiet_def)
  next
    case False
    then have h: "handle_code c E code err etx1 attempt k b2 = Ret (res, b')" using rest by simp
    from handle_code_result [OF assms(1) h] ok2 show ?thesis
      using quiet_ends [OF q ends_as_cong [OF same]] q
      by (cases res) (auto simp: quiet_def)
  qed
  then show ?thesis using e1 n1 by blast
qed

text \<open>All the sends of a transaction, and how it ended.\<close>

definition in_progress_shape ::
  "('f, 'w) txm_env \<Rightarrow> (string \<Rightarrow> 'w \<Rightarrow> 'n) \<Rightarrow> 'f tx \<Rightarrow> tx_error option \<Rightarrow> ('f, 'w) bcast \<Rightarrow> ('f, 'w) bcast \<Rightarrow> bool" where
  "in_progress_shape E nxt etx err b b' \<longleftrightarrow>
     (\<exists>sends x attempt b1. b_effects b1 = b_effects b @ sends @ [Sent x attempt] \<and>
        (\<forall>s\<in>set (sends @ [Sent x attempt]). \<exists>y a. s = Sent y a \<and> tx_ID y = tx_ID etx) \<and>
        (\<forall>a. nxt a (bw b1) = nxt a (bw b)) \<and>
        ends_as E nxt etx attempt err b1 b' \<and> (err = None \<longrightarrow> b_effects b' \<noteq> b_effects b1))"

lemma in_progress_shape_one:
  assumes "b_effects b1 = b_effects b @ [Sent etx attempt]" and "\<forall>a. nxt a (bw b1) = nxt a (bw b)"
    and "ends_as E nxt etx attempt err b1 b'" and "err = None \<longrightarrow> b_effects b' \<noteq> b_effects b1"
  shows "in_progress_shape E nxt etx err b b'"
  unfolding in_progress_shape_def using assms by (intro exI [of _ "[]"] exI [of _ etx] exI [of _ attempt] exI [of _ b1]) auto

lemma in_progress_shape_again:
  assumes "b_effects b1 = b_effects b @ [Sent etx attempt]" and "\<forall>a. nxt a (bw b1) = nxt a (bw b)"
    and "quiet nxt b1 b2" and "in_progress_shape E nxt etx1 err b2 b'"
    and same: "tx_ID etx1 = tx_ID etx" "tx_Sequence etx1 = tx_Sequence etx" "tx_FromAddress etx1 = tx_FromAddress etx"
  shows "in_progress_shape E nxt etx err b b'"
proof -
  from assms(4) obtain sends x a b3 where i: "b_effects b3 = b_effects b2 @ sends @ [Sent x a]"
    "\<forall>s\<in>set (sends @ [Sent x a]). \<exists>y a. s = Sent y a \<and> tx_ID y = tx_ID etx1" "\<forall>a. nxt a (bw b3) = nxt a (bw b2)"
    "ends_as E nxt etx1 a err b3 b'" "err = None \<longrightarrow> b_effects b' \<noteq> b_effects b3"
    unfolding in_progress_shape_def by blast
  have "ends_as E nxt etx a err b3 b'" by (rule ends_as_cong [OF same i(4)])
  then show ?thesis
    unfolding in_progress_shape_def
    using assms(1-3) i same
    by (intro exI [of _ "Sent etx attempt # sends"] exI [of _ x] exI [of _ a] exI [of _ b3]) (auto simp: quiet_def)
qed

lemma handleInProgressTx_shape:
  "handleInProgressTx c E etx attempt t k b = Some r \<Longrightarrow> frame E nxt \<Longrightarrow> client_laws E \<Longrightarrow>
   r = Ret ((err, retryable), b') \<Longrightarrow> tx_State etx = TxInProgress \<Longrightarrow> in_progress_shape E nxt etx err b b'"
proof (induction c E etx attempt t k b r rule: handleInProgressTx.raw_induct [rotated, consumes 1, case_names step])
  case (step handle c E etx attempt t k b r)
  from step.hyps step.prems(3) obtain res b2 where round: "send_round c E etx attempt t k b = Ret (res, b2)"
    and rest: "(case res of Finished err rt \<Rightarrow> Some (Ret ((err, rt), b2))
        | Again a1 k1 \<Rightarrow> handle c E (etx\<lparr>tx_InitialBroadcastAt := Some t, tx_BroadcastAt := Some t\<rparr>) a1 t k1 b2) = Some r"
    by (auto split: outcome.splits)
  from send_round_result [OF step.prems(1,2) round step.prems(4)]
  obtain b1 where b1: "b_effects b1 = b_effects b @ [Sent etx attempt]" "\<forall>a. nxt a (bw b1) = nxt a (bw b)"
    and c: "case res of Again a k' \<Rightarrow> quiet nxt b1 b2
     | Finished err retryable \<Rightarrow> ends_as E nxt etx attempt err b1 b2 \<and> (err = None \<longrightarrow> b_effects b2 \<noteq> b_effects b1)" by blast
  show ?case
  proof (cases res)
    case (Finished e rt)
    then show ?thesis using in_progress_shape_one [OF b1] c rest step.prems(3) by auto
  next
    case (Again a1 k1)
    let ?etx = "etx\<lparr>tx_InitialBroadcastAt := Some t, tx_BroadcastAt := Some t\<rparr>"
    have "in_progress_shape E nxt ?etx err b2 b'"
      by (rule step.IH [OF _ step.prems(1,2,3)]) (use rest Again step.prems(4) in auto)
    then show ?thesis by (rule in_progress_shape_again [OF b1, rotated]) (use c Again in auto)
  qed
qed

text \<open>The sequences of the transactions handed over, and what it means that every one of them was the next sequence when
  it was used: \<open>n\<close> is the next sequence before, \<open>fold gen ss n\<close> the one after.\<close>

fun handed_seqs :: "'f tx_effect list \<Rightarrow> int option list" where
  "handed_seqs [] = []"
| "handed_seqs (HandedOver x a # es) = tx_Sequence x # handed_seqs es"
| "handed_seqs (_ # es) = handed_seqs es"

fun follows :: "(int \<Rightarrow> int \<Rightarrow> int) \<Rightarrow> int \<Rightarrow> int list \<Rightarrow> bool" where
  "follows gen n [] \<longleftrightarrow> True"
| "follows gen n (s # ss) \<longleftrightarrow> s = n \<and> follows gen (gen s n) ss"

definition advances :: "(int \<Rightarrow> int \<Rightarrow> int) \<Rightarrow> (string \<Rightarrow> 'w \<Rightarrow> int) \<Rightarrow> string \<Rightarrow> ('f, 'w) bcast \<Rightarrow> ('f, 'w) bcast \<Rightarrow> bool" where
  "advances gen nxt a b b' \<longleftrightarrow>
     (\<exists>es ss. b_effects b' = b_effects b @ es \<and> handed_seqs es = map Some ss \<and> follows gen (nxt a (bw b)) ss \<and>
        nxt a (bw b') = fold gen ss (nxt a (bw b)))"

lemma handed_seqs_append [simp]: "handed_seqs (xs @ ys) = handed_seqs xs @ handed_seqs ys"
  by (induction xs rule: handed_seqs.induct) auto

lemma handed_seqs_sent: "\<forall>s\<in>set es. \<exists>y a. s = Sent y a \<and> P y \<Longrightarrow> handed_seqs es = []"
  by (induction es rule: handed_seqs.induct) auto

lemma follows_append [simp]: "follows gen n (ss @ ts) \<longleftrightarrow> follows gen n ss \<and> follows gen (fold gen ss n) ts"
  by (induction ss arbitrary: n) auto

text \<open>With consecutive sequences: an interval that ends right before the next sequence.\<close>

lemma follows_upto:
  assumes "\<And>s n. gen s n = s + 1"
  shows "follows gen n ss \<Longrightarrow> ss = [n..fold gen ss n - 1] \<and> n \<le> fold gen ss n"
proof (induction ss arbitrary: n)
  case (Cons s ss)
  from Cons.prems have n: "s = n" "follows gen (n + 1) ss" using assms [of n n] by auto
  have "fold gen (s # ss) n = fold gen ss (n + 1)" using assms [of s n] n(1) by simp
  with Cons.IH [OF n(2)] n(1) upto_rec1 [of n "fold gen ss (n + 1) - 1"] show ?case by simp
qed simp

lemma quiet_advances: "quiet nxt b b' \<Longrightarrow> advances gen nxt a b b'"
  unfolding quiet_def advances_def by (intro exI [of _ "[]"]) simp

lemma advances_trans:
  assumes "advances gen nxt a b b1" and "advances gen nxt a b1 b'"
  shows "advances gen nxt a b b'"
proof -
  from assms obtain es1 es2 ss1 ss2 where e: "b_effects b1 = b_effects b @ es1" "b_effects b' = b_effects b1 @ es2"
    and h: "handed_seqs es1 = map Some ss1" "handed_seqs es2 = map Some ss2"
    and f: "follows gen (nxt a (bw b)) ss1" "follows gen (nxt a (bw b1)) ss2"
    and n: "nxt a (bw b1) = fold gen ss1 (nxt a (bw b))" "nxt a (bw b') = fold gen ss2 (nxt a (bw b1))"
    unfolding advances_def by blast
  then show ?thesis unfolding advances_def by (intro exI [of _ "es1 @ es2"] exI [of _ "ss1 @ ss2"]) simp
qed

text \<open>Handling a transaction in progress uses its own sequence, once, or none.\<close>

lemma in_progress_uses:
  assumes "tracker_laws E nxt gen" and "in_progress_shape E nxt etx err b b'" and "tx_FromAddress etx = a"
  obtains es ss where "b_effects b' = b_effects b @ es" and "handed_seqs es = map Some ss"
    and "ss = [] \<or> map Some ss = [tx_Sequence etx]" and "nxt a (bw b') = fold gen ss (nxt a (bw b))"
proof -
  from assms(2) obtain sends x at b1 where s: "b_effects b1 = b_effects b @ sends @ [Sent x at]"
    "\<forall>s\<in>set (sends @ [Sent x at]). \<exists>y a. s = Sent y a \<and> tx_ID y = tx_ID etx" "\<forall>a. nxt a (bw b1) = nxt a (bw b)"
    "ends_as E nxt etx at err b1 b'"
    unfolding in_progress_shape_def by blast
  have none: "handed_seqs (sends @ [Sent x at]) = []" by (rule handed_seqs_sent [OF s(2)])
  have gen: "nxt a (sq_GenerateNextSequence E a q w) = gen q (nxt a w)" for q w using assms(1) by (simp add: tracker_laws_def)
  from s(4) consider "b_effects b' = b_effects b1" "nxt a (bw b') = nxt a (bw b1)"
    | y where "b_effects b' = b_effects b1 @ [FatallyErrored y]" "nxt a (bw b') = nxt a (bw b1)"
    | y sq w1 where "b_effects b' = b_effects b1 @ [HandedOver y at, SequenceUsed (tx_FromAddress etx) sq]"
        "tx_Sequence y = Some sq" "tx_Sequence etx = Some sq" "nxt a w1 = nxt a (bw b1)"
        "bw b' = sq_GenerateNextSequence E (tx_FromAddress etx) sq w1"
    unfolding ends_as_def quiet_def by blast
  then show thesis
  proof cases
    case 1
    then show thesis using s none by (intro that [of "sends @ [Sent x at]" "[]"]) auto
  next
    case (2 y)
    then show thesis using s none by (intro that [of "sends @ [Sent x at, FatallyErrored y]" "[]"]) auto
  next
    case (3 y sq w1)
    then show thesis using s none assms(3) gen
      by (intro that [of "sends @ [Sent x at, HandedOver y at, SequenceUsed (tx_FromAddress etx) sq]" "[sq]"]) auto
  qed
qed

lemma in_progress_advances:
  assumes "tracker_laws E nxt gen" and "in_progress_shape E nxt etx err b b'"
    and "tx_Sequence etx = Some (nxt a (bw b))" and "tx_FromAddress etx = a"
  shows "advances gen nxt a b b'"
proof -
  from in_progress_uses [OF assms(1,2,4)] obtain es ss where u: "b_effects b' = b_effects b @ es"
    "handed_seqs es = map Some ss" "ss = [] \<or> map Some ss = [tx_Sequence etx]" "nxt a (bw b') = fold gen ss (nxt a (bw b))" .
  then have "follows gen (nxt a (bw b)) ss" using assms(3) by auto
  with u show ?thesis unfolding advances_def by blast
qed

lemma saveFatally_advances:
  assumes "frame E nxt" and "saveFatallyErroredTransaction E x b = (err, b')"
  shows "advances gen nxt a b b'"
proof -
  from saveFatallyErrored_ends [OF assms refl] have "ends_as E nxt x undefined err b b'" by blast
  moreover have "b_effects b' \<noteq> b_effects b @ [HandedOver y undefined, SequenceUsed z s]" for y z s
  proof -
    obtain e b1 where r: "resume_with_error E x b = (e, b1)" by (cases "resume_with_error E x b")
    have "b_effects b1 = b_effects b" using resume_with_error_quiet [OF assms(1) r] by (simp add: quiet_def)
    then show ?thesis
      using assms(2) r by (auto simp: saveFatallyErroredTransaction_def b_emit_def split: if_splits option.splits prod.splits)
  qed
  ultimately show ?thesis unfolding ends_as_def quiet_def advances_def by auto
qed

lemma handleUnstartedTx_advances:
  assumes laws: "tracker_laws E nxt gen" "client_laws E" and h: "handleUnstartedTx c E etx b = Some (Ret (r, b'))"
    and seq: "tx_Sequence etx = Some (nxt a (bw b))" and addr: "tx_FromAddress etx = a"
  shows "advances gen nxt a b b'"
proof (cases "tx_State etx = TxUnstarted")
  case False
  then show ?thesis using h by (simp add: handleUnstartedTx_def quiet_advances)
next
  case True
  have fr: "frame E nxt" using laws(1) by (simp add: tracker_laws_def)
  obtain q w1 where n: "bd_NewTxAttempt E etx (bw b) = (q, w1)" by (cases "bd_NewTxAttempt E etx (bw b)")
  have n1: "nxt x w1 = nxt x (bw b)" for x by (rule frame_dests(12) [OF fr n])
  have a1: "advances gen nxt a b (b\<lparr>bw := w1\<rparr>)" by (rule quiet_advances, rule quiet_world) (rule n1)
  show ?thesis
  proof (cases q)
    case (Inl p)
    obtain e rt where p: "p = (e, rt)" by (cases p)
    obtain e2 b2 where f: "saveFatallyErroredTransaction E (etx\<lparr>tx_Error := Some (tx_error_msg TxFeeLimitTooLow)\<rparr>) (b\<lparr>bw := w1\<rparr>) = (e2, b2)"
      by (cases "saveFatallyErroredTransaction E (etx\<lparr>tx_Error := Some (tx_error_msg TxFeeLimitTooLow)\<rparr>) (b\<lparr>bw := w1\<rparr>)")
    show ?thesis
      using h True n Inl p f a1 advances_trans [OF a1 saveFatally_advances [OF fr f]]
      by (auto simp: handleUnstartedTx_def Let_def split: if_splits)
  next
    case (Inr u)
    obtain ce w2 where ck: "ck_Check E etx u w1 = (ce, w2)" by (cases "ck_Check E etx u w1")
    have n2: "nxt x w2 = nxt x (bw b)" for x using frame_dests(16) [OF fr ck] n1 by simp
    have a2: "advances gen nxt a b (b\<lparr>bw := w2\<rparr>)" by (rule quiet_advances, rule quiet_world) (rule n2)
    obtain e2 b2 where f: "saveFatallyErroredTransaction E (etx\<lparr>tx_Error := map_option tx_error_msg ce\<rparr>) (b\<lparr>bw := w2\<rparr>) = (e2, b2)"
      by (cases "saveFatallyErroredTransaction E (etx\<lparr>tx_Error := map_option tx_error_msg ce\<rparr>) (b\<lparr>bw := w2\<rparr>)")
    obtain v w3 where up: "st_UpdateTxUnstartedToInProgress E etx u w2 = (v, w3)"
      by (cases "st_UpdateTxUnstartedToInProgress E etx u w2")
    have n3: "nxt x w3 = nxt x (bw b)" for x using frame_dests(4) [OF fr up] n2 by simp
    have a3: "advances gen nxt a b (b\<lparr>bw := w3\<rparr>)" by (rule quiet_advances, rule quiet_world) (rule n3)
    obtain ok where ok: "ok \<longleftrightarrow> ck_GetChecker E etx = None \<and> ck_BuildChecker E etx = None" by blast
    obtain bad where bad: "bad \<longleftrightarrow> (\<exists>e\<in>set_option ce. \<not> errors_Is e CtxCanceled)" by blast
    consider "\<not> ok" | "ok" "bad" | e where "ok" "\<not> bad" "v = Inl e" | x y where "ok" "\<not> bad" "v = Inr (x, y)"
      by (metis sum.exhaust surj_pair)
    then show ?thesis
    proof cases
      case 1
      then show ?thesis using h True n Inr a1 by (auto simp: ok handleUnstartedTx_def Let_def split: option.splits)
    next
      case 2
      then show ?thesis
        using h True n Inr ck f advances_trans [OF a2 saveFatally_advances [OF fr f]] by (simp add: ok bad handleUnstartedTx_def Let_def)
    next
      case 3
      then show ?thesis using h True n Inr ck up a3 by (auto simp: ok bad handleUnstartedTx_def Let_def split: if_splits)
    next
      case (4 x y)
      have x: "tx_Sequence x = tx_Sequence etx" "tx_FromAddress x = tx_FromAddress etx" "tx_State x = TxInProgress"
        using laws(1) up 4(3) unfolding tracker_laws_def by blast+
      obtain err rt where r: "r = (err, rt)" by (cases r)
      have "handleInProgressTx c E x y (en_now E w3) 0 (b\<lparr>bw := w3\<rparr>) = Some (Ret ((err, rt), b'))"
        using h True n Inr ck up 4 r by (auto simp: ok bad handleUnstartedTx_def Let_def)
      from handleInProgressTx_shape [OF this fr laws(2) refl x(3)]
      have "advances gen nxt a (b\<lparr>bw := w3\<rparr>) b'"
        by (rule in_progress_advances [OF laws(1)]) (use x seq addr n3 in auto)
      then show ?thesis by (rule advances_trans [OF a3])
    qed
  qed
qed

lemma next_with_sequence:
  assumes "tracker_laws E nxt gen" and "nextUnstartedTransactionWithSequence E a w = (r, w')"
  shows "nxt x w' = nxt x w \<and> (\<forall>etx. r = Inr (Some etx) \<longrightarrow> tx_Sequence etx = Some (nxt a w) \<and> tx_FromAddress etx = a)"
proof -
  have fr: "frame E nxt" using assms(1) by (simp add: tracker_laws_def)
  obtain q w1 where f: "st_FindNextUnstartedTransactionFromAddress E a w = (q, w1)"
    by (cases "st_FindNextUnstartedTransactionFromAddress E a w")
  have n1: "nxt y w1 = nxt y w" for y by (rule frame_dests(3) [OF fr f])
  show ?thesis
  proof (cases q)
    case (Inl e)
    then show ?thesis using assms(2) f n1 by (auto simp: nextUnstartedTransactionWithSequence_def split: if_splits)
  next
    case (Inr t)
    then have t: "tx_FromAddress t = a" using assms(1) f unfolding tracker_laws_def by blast
    obtain p w2 where g: "sq_GetNextSequence E a w1 = (p, w2)" by (cases "sq_GetNextSequence E a w1")
    have n2: "nxt y w2 = nxt y w1" for y by (rule frame_dests(15) [OF fr g])
    have "sq = nxt a w1" if "p = Inr sq" for sq using assms(1) g [unfolded that] unfolding tracker_laws_def by metis
    then show ?thesis
      using assms(2) f Inr t g n1 n2 by (auto simp: nextUnstartedTransactionWithSequence_def split: sum.splits)
  qed
qed

lemma check_in_flight_frame:
  assumes "frame E nxt" and "check_in_flight c E a w = (r, w')"
  shows "nxt x w' = nxt x w"
  using assms(2)
  by (auto simp: check_in_flight_def frame_dests [OF assms(1)] split: if_splits prod.splits sum.splits option.splits)

lemma process_round_advances:
  assumes laws: "tracker_laws E nxt gen" "client_laws E" and h: "process_round c E a b = Some (Ret (r, b'))"
  shows "advances gen nxt a b b'"
proof -
  have fr: "frame E nxt" using laws(1) by (simp add: tracker_laws_def)
  obtain th w1 where t: "check_in_flight c E a (bw b) = (th, w1)" by (cases "check_in_flight c E a (bw b)")
  have n1: "nxt x w1 = nxt x (bw b)" for x by (rule check_in_flight_frame [OF fr t])
  have a1: "advances gen nxt a b (b\<lparr>bw := w1\<rparr>)" by (rule quiet_advances, rule quiet_world) (rule n1)
  obtain q w2 where n: "nextUnstartedTransactionWithSequence E a w1 = (q, w2)"
    by (cases "nextUnstartedTransactionWithSequence E a w1")
  have n2: "nxt x w2 = nxt x (bw b)" for x using next_with_sequence [OF laws(1) n] n1 by simp
  have a2: "advances gen nxt a b (b\<lparr>bw := w2\<rparr>)" by (rule quiet_advances, rule quiet_world) (rule n2)
  show ?thesis
  proof (cases "th = Proceed \<and> (\<exists>etx. q = Inr (Some etx))")
    case True
    then obtain etx where q: "q = Inr (Some etx)" "th = Proceed" by blast
    have x: "tx_Sequence etx = Some (nxt a (bw b))" "tx_FromAddress etx = a"
      using next_with_sequence [OF laws(1) n] q n1 by auto
    obtain p b3 where u: "handleUnstartedTx c E etx (b\<lparr>bw := w2\<rparr>) = Some (Ret (p, b3))" and "b' = b3"
      using h t n q by (auto simp: process_round_def split: option.splits outcome.splits)
    have "advances gen nxt a (b\<lparr>bw := w2\<rparr>) b3"
      by (rule handleUnstartedTx_advances [OF laws u]) (use x n2 in auto)
    then show ?thesis using advances_trans [OF a2] \<open>b' = b3\<close> by simp
  next
    case False
    then show ?thesis
      using h t n a1 a2 by (auto simp: process_round_def split: throttle.splits sum.splits option.splits)
  qed
qed

lemma process_loop_advances:
  "process_loop c E a b = Some r \<Longrightarrow> tracker_laws E nxt gen \<Longrightarrow> client_laws E \<Longrightarrow> r = Ret (res, b') \<Longrightarrow> advances gen nxt a b b'"
proof (induction c E a b r rule: process_loop.raw_induct [rotated, consumes 1, case_names step])
  case (step loop c E a b r)
  from step.hyps obtain q where q: "process_round c E a b = Some q" by (cases "process_round c E a b") auto
  with step.hyps step.prems(3) obtain pr b1 where p: "q = Ret (pr, b1)" by (cases q) auto
  have adv: "advances gen nxt a b b1" by (rule process_round_advances [OF step.prems(1,2)]) (rule q [unfolded p])
  show ?case
  proof (cases pr)
    case (ProcDone rt e)
    then show ?thesis using step.hyps step.prems(3) q p adv by simp
  next
    case ProcContinue
    then have "loop c E a b1 = Some r" using step.hyps q p by simp
    from step.IH [OF this step.prems] show ?thesis by (rule advances_trans [OF adv])
  qed
qed

lemma leftover_uses:
  assumes "tracker_laws E nxt gen" and "client_laws E" and h: "handleAnyInProgressTx c E a b = Some (Ret (q, b1))"
  obtains es ss where "b_effects b1 = b_effects b @ es" and "handed_seqs es = map Some ss"
    and "nxt a (bw b1) = fold gen ss (nxt a (bw b))"
    and "ss = [] \<or> (\<exists>etx s. fst (st_GetTxInProgress E a (bw b)) = Inr (Some etx) \<and> tx_Sequence etx = Some s \<and> ss = [s])"
proof -
  have fr: "frame E nxt" using assms(1) by (simp add: tracker_laws_def)
  obtain p w1 where g: "st_GetTxInProgress E a (bw b) = (p, w1)" by (cases "st_GetTxInProgress E a (bw b)")
  have n1: "nxt x w1 = nxt x (bw b)" for x by (rule frame_dests(19) [OF fr g])
  show thesis
  proof (cases "\<exists>etx. p = Inr (Some etx)")
    case True
    then obtain etx where p: "p = Inr (Some etx)" by blast
    have x: "tx_FromAddress etx = a" "tx_State etx = TxInProgress" using assms(1) g p unfolding tracker_laws_def by blast+
    obtain at err rt where s: "handleInProgressTx c E etx at (tx_CreatedAt etx) 0 (b\<lparr>bw := w1\<rparr>) = Some (Ret ((err, rt), b1))"
      using h g p by (auto simp: handleAnyInProgressTx_def split: list.splits option.splits outcome.splits)
    from in_progress_uses [OF assms(1) handleInProgressTx_shape [OF s fr assms(2) refl x(2)] x(1)]
    obtain es ss where u: "b_effects b1 = b_effects (b\<lparr>bw := w1\<rparr>) @ es" "handed_seqs es = map Some ss"
      "ss = [] \<or> map Some ss = [tx_Sequence etx]" "nxt a (bw b1) = fold gen ss (nxt a (bw (b\<lparr>bw := w1\<rparr>)))" .
    then have "ss = [] \<or> (\<exists>etx s. fst (st_GetTxInProgress E a (bw b)) = Inr (Some etx) \<and> tx_Sequence etx = Some s \<and> ss = [s])"
      using g p by auto
    then show thesis by (intro that [of es ss]) (use u n1 in simp_all)
  next
    case False
    then have "b1 = b\<lparr>bw := w1\<rparr>" using h g by (auto simp: handleAnyInProgressTx_def split: sum.splits option.splits)
    then show thesis by (intro that [of "[]" "[]"]) (use n1 in simp_all)
  qed
qed







section \<open>Properties\<close>

text \<open>C28. With a client that reports an error with every code but the successful ones, handling a transaction in progress,
  if it returns: the transaction was sent at least once; it ends by being handed over to the confirmer with the attempt sent
  last, or by its fatal error being saved, or it stays in progress. Its sequence is reported as used exactly when it is handed
  over. The returned error is nil when it was handed over or given up, which the error does not tell apart, and not nil when it
  stays in progress.\<close>

theorem transaction_fate:
  assumes "client_laws E" and "tx_State etx = TxInProgress"
    and "handleInProgressTx c E etx attempt t k b = Some (Ret ((err, retryable), b'))"
  shows "\<exists>sends x last fate. b_effects b' = b_effects b @ sends @ [Sent x last] @ fate \<and>
    (\<forall>s\<in>set (sends @ [Sent x last]). \<exists>y a. s = Sent y a \<and> tx_ID y = tx_ID etx) \<and>
    (err = None \<longleftrightarrow> fate \<noteq> []) \<and>
    (fate = [] \<or> (\<exists>y. fate = [FatallyErrored y] \<and> tx_ID y = tx_ID etx) \<or>
     (\<exists>y s. fate = [HandedOver y last, SequenceUsed (tx_FromAddress etx) s] \<and> tx_ID y = tx_ID etx \<and>
        tx_Sequence y = Some s \<and> tx_Sequence etx = Some s))"
proof -
  from handleInProgressTx_shape [OF assms(3) frame_trivial assms(1) refl assms(2)]
  obtain sends x a b1 where s: "b_effects b1 = b_effects b @ sends @ [Sent x a]"
    "\<forall>s\<in>set (sends @ [Sent x a]). \<exists>y a. s = Sent y a \<and> tx_ID y = tx_ID etx"
    and e: "ends_as E (\<lambda>a w. ()) etx a err b1 b'" "err = None \<longrightarrow> b_effects b' \<noteq> b_effects b1"
    unfolding in_progress_shape_def by blast
  from e(1) consider "b_effects b' = b_effects b1"
    | y where "b_effects b' = b_effects b1 @ [FatallyErrored y]" "tx_ID y = tx_ID etx" "err = None"
    | y sq where "b_effects b' = b_effects b1 @ [HandedOver y a, SequenceUsed (tx_FromAddress etx) sq]"
        "tx_ID y = tx_ID etx" "tx_Sequence y = Some sq" "tx_Sequence etx = Some sq" "err = None"
    unfolding ends_as_def quiet_def by blast
  then show ?thesis
  proof cases
    case 1
    then show ?thesis using s e(2)
      by (intro exI [of _ sends] exI [of _ x] exI [of _ a] exI [of _ "[]"]) auto
  next
    case 2
    then show ?thesis using s
      by (intro exI [of _ sends] exI [of _ x] exI [of _ a] exI [of _ "[FatallyErrored y]"]) auto
  next
    case 3
    then show ?thesis using s
      by (intro exI [of _ sends] exI [of _ x] exI [of _ a]
          exI [of _ "[HandedOver y a, SequenceUsed (tx_FromAddress etx) sq]"]) auto
  qed
qed

theorem transaction_fate_witness:
  "\<exists>b'. handleInProgressTx demo_bcfg demo_env ((demo_tx 1)\<lparr>tx_State := TxInProgress, tx_Sequence := Some 7\<rparr>) (demo_attempt 1) 0 0
      \<lparr>bw = \<lparr>dw_next = 7, dw_left = None, dw_queue = [], dw_reject = 2\<rparr>, unknownErrs = Map.empty, b_effects = []\<rparr> = Some (Ret ((None, True), b')) \<and>
    b_effects b' \<noteq> []"
proof -
  let ?b = "\<lparr>bw = \<lparr>dw_next = 7, dw_left = None, dw_queue = [], dw_reject = 2\<rparr>, unknownErrs = Map.empty, b_effects = []\<rparr>"
  let ?x = "(demo_tx 1)\<lparr>tx_State := TxInProgress, tx_Sequence := Some 7\<rparr>"
  have "observe (\<lambda>b. dw_next (bw b)) (handleInProgressTx demo_bcfg demo_env ?x (demo_attempt 1) 0 0 ?b) = Some ((None, True), 8)"
    by code_simp
  then obtain b' where r: "handleInProgressTx demo_bcfg demo_env ?x (demo_attempt 1) 0 0 ?b = Some (Ret ((None, True), b'))"
    by (rule observeE)
  have "tx_State ?x = TxInProgress" by simp
  from transaction_fate [OF demo_env_laws(2) this r] r show ?thesis by auto
qed

text \<open>C1. Over a whole run of \<open>processUnstartedTxs\<close> for an address, whatever errors, fee bumps, throttling and fatally
  errored transactions occur: every transaction handed over to the confirmer carries the tracker's next sequence of that
  moment, except that a transaction left in progress from before, which comes first, carries its own; and the tracker's next
  sequence changes exactly by the reports that these sequences are used, in this order. Where the tracker counts
  (the sequence after \<open>s\<close> is \<open>s + 1\<close>) the sequences handed over are therefore consecutive and end right before the tracker's
  next sequence: none is skipped and none used twice. The tracker is any that gives out its next sequence and changes it only
  when a sequence is reported as used, in a way that depends on that sequence and the old value (a no-op included), and the
  client reports an error with every code but the successful ones.\<close>

theorem sequences_without_gap:
  assumes "tracker_laws E nxt gen" and "client_laws E" and "processUnstartedTxs c E a b = Some (Ret (r, b'))"
  shows "\<exists>es ss. b_effects b' = b_effects b @ es \<and> handed_seqs es = map Some ss \<and>
    nxt a (bw b') = fold gen ss (nxt a (bw b)) \<and>
    (follows gen (nxt a (bw b)) ss \<or>
     (\<exists>etx s rest. fst (st_GetTxInProgress E a (bw b)) = Inr (Some etx) \<and> tx_Sequence etx = Some s \<and>
        ss = s # rest \<and> follows gen (gen s (nxt a (bw b))) rest)) \<and>
    ((\<forall>s n. gen s n = s + 1) \<longrightarrow> (\<exists>first. ss = [first..nxt a (bw b') - 1]))"
proof -
  have fr: "frame E nxt" using assms(1) by (simp add: tracker_laws_def)
  obtain q b1 where h: "handleAnyInProgressTx c E a b = Some (Ret (q, b1))"
    using assms(3) by (auto simp: processUnstartedTxs_def split: option.splits outcome.splits)
  have "advances gen nxt a b1 b'"
  proof (cases "fst q")
    case None
    then have "process_loop c E a b1 = Some (Ret (r, b'))"
      using assms(3) h by (cases q) (simp add: processUnstartedTxs_def)
    then show ?thesis by (rule process_loop_advances [OF _ assms(1,2) refl])
  next
    case (Some e)
    then have "b' = b1" using assms(3) h by (cases q) (simp add: processUnstartedTxs_def)
    then show ?thesis by (simp add: quiet_advances)
  qed
  then obtain es2 ss2 where two: "b_effects b' = b_effects b1 @ es2" "handed_seqs es2 = map Some ss2"
    "follows gen (nxt a (bw b1)) ss2" "nxt a (bw b') = fold gen ss2 (nxt a (bw b1))"
    unfolding advances_def by blast
  from leftover_uses [OF assms(1,2) h] obtain es1 ss1 where one: "b_effects b1 = b_effects b @ es1"
    "handed_seqs es1 = map Some ss1" "nxt a (bw b1) = fold gen ss1 (nxt a (bw b))"
    and left: "ss1 = [] \<or> (\<exists>etx s. fst (st_GetTxInProgress E a (bw b)) = Inr (Some etx) \<and> tx_Sequence etx = Some s \<and> ss1 = [s])" .
  from two one have all: "b_effects b' = b_effects b @ es1 @ es2" "handed_seqs (es1 @ es2) = map Some (ss1 @ ss2)"
    "nxt a (bw b') = fold gen (ss1 @ ss2) (nxt a (bw b))" by auto
  moreover have "follows gen (nxt a (bw b)) (ss1 @ ss2) \<or>
     (\<exists>etx s rest. fst (st_GetTxInProgress E a (bw b)) = Inr (Some etx) \<and> tx_Sequence etx = Some s \<and>
        ss1 @ ss2 = s # rest \<and> follows gen (gen s (nxt a (bw b))) rest)"
    using left two(3) one(3) by auto
  moreover have "\<exists>first. ss1 @ ss2 = [first..nxt a (bw b') - 1]" if gen: "\<forall>s n. gen s n = s + 1"
  proof -
    have up: "ss2 = [nxt a (bw b1)..nxt a (bw b') - 1] \<and> nxt a (bw b1) \<le> nxt a (bw b')"
      using follows_upto [OF _ two(3)] gen two(4) by simp
    show ?thesis
    proof (cases ss1)
      case Nil
      then show ?thesis using up by auto
    next
      case (Cons s rest)
      then have "ss1 = [s]" "nxt a (bw b1) = s + 1" using left one(3) gen by auto
      then show ?thesis using up upto_rec1 [of s "nxt a (bw b') - 1"] by (intro exI [of _ s]) simp
    qed
  qed
  ultimately show ?thesis by blast
qed

theorem sequences_without_gap_witness:
  "\<exists>b'. processUnstartedTxs demo_bcfg demo_env ''a'' \<lparr>bw = demo_leftover, unknownErrs = Map.empty, b_effects = []\<rparr> = Some (Ret ((False, None), b')) \<and>
     handed_seqs (b_effects b') = [Some 7, Some 8, Some 9]"
proof -
  let ?b = "\<lparr>bw = demo_leftover, unknownErrs = Map.empty, b_effects = []\<rparr>"
  have ev: "observe (\<lambda>b. (dw_next (bw b), length (handed_seqs (b_effects b)))) (processUnstartedTxs demo_bcfg demo_env ''a'' ?b) = Some ((False, None), (10, 3))"
    by code_simp
  then obtain b' where r: "processUnstartedTxs demo_bcfg demo_env ''a'' ?b = Some (Ret ((False, None), b'))"
    and n: "dw_next (bw b') = 10" "length (handed_seqs (b_effects b')) = 3"
    by (rule observeE) simp
  from sequences_without_gap [OF demo_env_laws(1,2) r] n obtain first where f: "handed_seqs (b_effects b') = map Some [first..9]"
    by auto
  then have "nat (10 - first) = 3" using n(2) by simp
  then have "first = 7" by linarith
  with f have "handed_seqs (b_effects b') = [Some 7, Some 8, Some 9]" by (simp add: upto.simps)
  with r show ?thesis by blast
qed



end
