(* ===== verification/Go_Monad.thy ===== *)
theory Go_Monad
  imports Go_Prelude
begin

text \<open>
  Stateful computations of the transaction manager and of the write target: a program takes a state and may not
  end (\<^term>\<open>None\<close>), panic, or return an error or a value together with the state it leaves. With the
  combinators come the rules of a Hoare logic for what a program that returns has done (\<open>triple\<close>), and for
  returning at all (\<open>ends\<close>).
\<close>

named_theorems prog_simps \<open>unfolding of programs applied to a state\<close>

type_synonym ('s, 'e, 'a) prog = "'s \<Rightarrow> (('e + 'a) \<times> 's) outcome option"

section \<open>Combinators\<close>

definition returns :: "'a \<Rightarrow> ('s, 'e, 'a) prog" where
  "returns x s = Some (Ret (Inr x, s))"

definition raises :: "'e \<Rightarrow> ('s, 'e, 'a) prog" where
  "raises e s = Some (Ret (Inl e, s))"

definition panics :: "string \<Rightarrow> ('s, 'e, 'a) prog" where
  "panics m s = Some (Panic m)"

definition reads :: "('s \<Rightarrow> 'a) \<Rightarrow> ('s, 'e, 'a) prog" where
  "reads f s = Some (Ret (Inr (f s), s))"

definition updates :: "('s \<Rightarrow> 's) \<Rightarrow> ('s, 'e, unit) prog" where
  "updates f s = Some (Ret (Inr (), f s))"

text \<open>Go on with the value; an error ends the whole program.\<close>

definition andThen :: "('s, 'e, 'a) prog \<Rightarrow> ('a \<Rightarrow> ('s, 'e, 'b) prog) \<Rightarrow> ('s, 'e, 'b) prog" where
  "andThen m f s =
     (case m s of
        None \<Rightarrow> None
      | Some (Panic p) \<Rightarrow> Some (Panic p)
      | Some (Ret (Inl e, s1)) \<Rightarrow> Some (Ret (Inl e, s1))
      | Some (Ret (Inr x, s1)) \<Rightarrow> f x s1)"

text \<open>The result, error or value, as a value.\<close>

definition trying :: "('s, 'e, 'a) prog \<Rightarrow> ('s, 'd, 'e + 'a) prog" where
  "trying m s =
     (case m s of
        None \<Rightarrow> None
      | Some (Panic p) \<Rightarrow> Some (Panic p)
      | Some (Ret (r, s1)) \<Rightarrow> Some (Ret (Inr r, s1)))"

definition or_raise :: "('e \<Rightarrow> 'd) \<Rightarrow> ('s, 'e, 'a) prog \<Rightarrow> ('s, 'd, 'a) prog" where
  "or_raise g m = andThen (trying m) (\<lambda>r. case r of Inl e \<Rightarrow> raises (g e) | Inr x \<Rightarrow> returns x)"

text \<open>A program on a part of the state.\<close>

definition on_part :: "('t \<Rightarrow> 's) \<Rightarrow> ('s \<Rightarrow> 't \<Rightarrow> 't) \<Rightarrow> ('s, 'e, 'a) prog \<Rightarrow> ('t, 'e, 'a) prog" where
  "on_part get put m t =
     (case m (get t) of
        None \<Rightarrow> None
      | Some (Panic p) \<Rightarrow> Some (Panic p)
      | Some (Ret (r, s)) \<Rightarrow> Some (Ret (r, put s t)))"

text \<open>A loop that an error ends, and one that gathers the errors.\<close>

fun for_each :: "('a \<Rightarrow> ('s, 'e, unit) prog) \<Rightarrow> 'a list \<Rightarrow> ('s, 'e, unit) prog" where
  "for_each f [] = returns ()"
| "for_each f (x # xs) = andThen (f x) (\<lambda>_. for_each f xs)"

fun gather_errors :: "('a \<Rightarrow> ('s, 'e, unit) prog) \<Rightarrow> 'a list \<Rightarrow> ('s, 'd, 'e list) prog" where
  "gather_errors f [] = returns []"
| "gather_errors f (x # xs) =
     andThen (trying (f x)) (\<lambda>r. andThen (gather_errors f xs) (\<lambda>es.
       returns (case r of Inl e \<Rightarrow> e # es | Inr _ \<Rightarrow> es)))"

lemmas basic_prog = returns_def raises_def panics_def reads_def updates_def

section \<open>What a program that returns has done\<close>

definition triple :: "('s \<Rightarrow> bool) \<Rightarrow> ('s, 'e, 'a) prog \<Rightarrow> ('e + 'a \<Rightarrow> 's \<Rightarrow> bool) \<Rightarrow> bool" where
  "triple P m Q \<longleftrightarrow> (\<forall>s r s'. P s \<longrightarrow> m s = Some (Ret (r, s')) \<longrightarrow> Q r s')"

lemma tripleI: "(\<And>s r s'. P s \<Longrightarrow> m s = Some (Ret (r, s')) \<Longrightarrow> Q r s') \<Longrightarrow> triple P m Q"
  by (simp add: triple_def)

lemma tripleD: "triple P m Q \<Longrightarrow> m s = Some (Ret (r, s')) \<Longrightarrow> P s \<Longrightarrow> Q r s'"
  by (simp add: triple_def)

lemma triple_conseq:
  "triple P' m Q' \<Longrightarrow> (\<And>s. P s \<Longrightarrow> P' s) \<Longrightarrow> (\<And>r s. Q' r s \<Longrightarrow> Q r s) \<Longrightarrow> triple P m Q"
  unfolding triple_def by blast

lemma triple_basic:
  "(\<And>s. P s \<Longrightarrow> Q (Inr x) s) \<Longrightarrow> triple P (returns x) Q"
  "(\<And>s. P s \<Longrightarrow> Q (Inl e) s) \<Longrightarrow> triple P (raises e) Q"
  "triple P (panics p) Q"
  "(\<And>s. P s \<Longrightarrow> Q (Inr (f s)) s) \<Longrightarrow> triple P (reads f) Q"
  by (auto simp: triple_def basic_prog)

lemma triple_updates: "(\<And>s. P s \<Longrightarrow> Q (Inr ()) (g s)) \<Longrightarrow> triple P (updates g) Q"
  by (auto simp: triple_def basic_prog)

lemma andThenE:
  assumes "andThen m f s = Some (Ret (r, s'))"
  obtains (fails) e where "m s = Some (Ret (Inl e, s'))" and "r = Inl e"
    | (continues) x s1 where "m s = Some (Ret (Inr x, s1))" and "f x s1 = Some (Ret (r, s'))"
  using assms by (auto simp: andThen_def split: option.splits outcome.splits sum.splits)

lemma tryingE:
  assumes "trying m s = Some (Ret (r, s'))"
  obtains q where "m s = Some (Ret (q, s'))" and "r = Inr q"
  using assms by (auto simp: trying_def split: option.splits outcome.splits)

lemma or_raiseE:
  assumes "or_raise g m s = Some (Ret (r, s'))"
  obtains q where "m s = Some (Ret (q, s'))" and "r = map_sum g id q"
proof -
  from assms obtain q where "m s = Some (Ret (q, s'))" "r = map_sum g id q"
    unfolding or_raise_def by (elim andThenE tryingE) (auto simp: basic_prog split: sum.splits)
  then show thesis by (rule that)
qed

lemma andThen_step: "m s = Some (Ret (Inr x, s1)) \<Longrightarrow> andThen m f s = f x s1"
  by (simp add: andThen_def)

lemma andThen_returns: "andThen (returns x) f = f x"
  by (simp add: fun_eq_iff andThen_def returns_def)

lemma andThen_assoc: "andThen (andThen m f) g = andThen m (\<lambda>x. andThen (f x) g)"
  by (auto simp: fun_eq_iff andThen_def split: option.split outcome.split sum.split)

lemma andThen_InrE:
  assumes "andThen m f s = Some (Ret (Inr y, s'))"
  obtains x s1 where "m s = Some (Ret (Inr x, s1))" and "f x s1 = Some (Ret (Inr y, s'))"
  using assms by (rule andThenE) (auto intro: that)

lemma or_raise_Inr_iff: "or_raise g m s = Some (Ret (Inr x, s')) \<longleftrightarrow> m s = Some (Ret (Inr x, s'))"
proof
  assume "or_raise g m s = Some (Ret (Inr x, s'))"
  then obtain q where q: "m s = Some (Ret (q, s'))" "Inr x = map_sum g id q" by (rule or_raiseE)
  then show "m s = Some (Ret (Inr x, s'))" by (cases q) auto
qed (simp add: or_raise_def andThen_def trying_def basic_prog)

lemma triple_andThen:
  assumes "triple P m (\<lambda>r s. case r of Inl e \<Rightarrow> Q (Inl e) s | Inr x \<Rightarrow> R x s)" and "\<And>x. triple (R x) (f x) Q"
  shows "triple P (andThen m f) Q"
proof (rule tripleI)
  fix s r s' assume p: "P s" and h: "andThen m f s = Some (Ret (r, s'))"
  from h show "Q r s'"
  proof (cases rule: andThenE)
    case (fails e)
    then show ?thesis using tripleD [OF assms(1) _ p] by fastforce
  next
    case (continues x s1)
    have "R x s1" using tripleD [OF assms(1) continues(1) p] by simp
    then show ?thesis by (rule tripleD [OF assms(2) continues(2)])
  qed
qed

lemma triple_trying: "triple P m (\<lambda>r. Q (Inr r)) \<Longrightarrow> triple P (trying m) Q"
  unfolding triple_def by (auto elim!: tryingE)

lemma triple_or_raise: "triple P m (\<lambda>r. Q (map_sum g id r)) \<Longrightarrow> triple P (or_raise g m) Q"
  unfolding triple_def by (auto elim!: or_raiseE)

section \<open>Invariants\<close>

named_theorems keeps \<open>programs that keep an invariant\<close>

definition kept :: "('s \<Rightarrow> bool) \<Rightarrow> ('s, 'e, 'a) prog \<Rightarrow> bool" where
  "kept I m \<longleftrightarrow> triple I m (\<lambda>_. I)"

lemma keptI: "(\<And>s r s'. I s \<Longrightarrow> m s = Some (Ret (r, s')) \<Longrightarrow> I s') \<Longrightarrow> kept I m"
  unfolding kept_def by (rule tripleI)

lemma keptD: "kept I m \<Longrightarrow> m s = Some (Ret (r, s')) \<Longrightarrow> I s \<Longrightarrow> I s'"
  unfolding kept_def by (rule tripleD)

lemma kept_basic [keeps]: "kept I (returns x)" "kept I (raises e)" "kept I (panics p)" "kept I (reads f)"
  by (auto simp: kept_def triple_def basic_prog)

lemma kept_updates [keeps]: "(\<And>s. I s \<Longrightarrow> I (g s)) \<Longrightarrow> kept I (updates g)"
  by (auto simp: kept_def triple_def basic_prog)

lemma kept_andThen [keeps]: "kept I m \<Longrightarrow> (\<And>x. kept I (f x)) \<Longrightarrow> kept I (andThen m f)"
  by (rule keptI) (auto elim!: andThenE dest: keptD)

lemma kept_trying [keeps]: "kept I m \<Longrightarrow> kept I (trying m)"
  by (rule keptI) (auto elim!: tryingE dest: keptD)

lemma kept_or_raise [keeps]: "kept I m \<Longrightarrow> kept I (or_raise g m)"
  by (rule keptI) (auto elim!: or_raiseE dest: keptD)

lemma kept_for_each [keeps]: "(\<And>x. kept I (f x)) \<Longrightarrow> kept I (for_each f xs)"
  by (induction xs) (auto intro!: keeps)

lemma kept_gather_errors [keeps]: "(\<And>x. kept I (f x)) \<Longrightarrow> kept I (gather_errors f xs)"
  by (induction xs) (auto intro!: keeps)

section \<open>Returning at all\<close>

definition ends :: "('s, 'e, 'a) prog \<Rightarrow> 's \<Rightarrow> bool" where
  "ends m s \<longleftrightarrow> (\<exists>r. m s = Some r)"

lemma ends_basic [simp]: "ends (returns x) s" "ends (raises e) s" "ends (panics p) s" "ends (reads f) s" "ends (updates g) s"
  by (simp_all add: ends_def basic_prog)

lemma ends_andThen:
  "ends m s \<Longrightarrow> (\<And>x s1. m s = Some (Ret (Inr x, s1)) \<Longrightarrow> ends (f x) s1) \<Longrightarrow> ends (andThen m f) s"
  by (auto simp: ends_def andThen_def split: outcome.splits sum.splits)

lemma ends_trying: "ends (trying m) s \<longleftrightarrow> ends m s"
  by (auto simp: ends_def trying_def split: option.splits outcome.splits)

lemma ends_or_raise: "ends m s \<Longrightarrow> ends (or_raise g m) s"
  unfolding or_raise_def by (rule ends_andThen) (auto simp: ends_trying split: sum.splits)

lemma ends_for_each: "(\<And>x s. x \<in> set xs \<Longrightarrow> ends (f x) s) \<Longrightarrow> ends (for_each f xs) s"
  by (induction xs arbitrary: s) (auto intro!: ends_andThen)

lemma ends_gather_errors: "(\<And>x s. x \<in> set xs \<Longrightarrow> ends (f x) s) \<Longrightarrow> ends (gather_errors f xs) s"
  by (induction xs arbitrary: s) (auto intro!: ends_andThen simp: ends_trying)

end
