(* ===== verification/Tx_Confirmer.thy ===== *)
theory Tx_Confirmer
  imports Tx_Types Chain_Info Go_Monad
begin

text \<open>
  \<open>chains/txmgr/confirmer.go\<close>: what the confirmer does with every new head: mark attempts as broadcast before it,
  confirm included transactions and mark re-organised ones for rebroadcast, purge stuck ones, and bump or resend what
  is overdue. Store, client, attempt builder, stuck-transaction detector and callback are interfaces: \<open>conf_env\<close> holds
  their methods on a world \<open>'w\<close>. The effects record which calls that change the store succeeded, what was sent and what
  was measured. The goroutines that \<open>ProcessStuckTransactions\<close> and \<open>RebroadcastWhereNecessary\<close> start, one per key, touch
  different keys: each is run to its end, in an order \<open>sched\<close> that is an argument.
\<close>

section \<open>Environment and state\<close>

record ('f, 'w) conf_env =
  cs_SetBroadcastBeforeBlockNum :: "int \<Rightarrow> 'w \<Rightarrow> (tx_error + unit) \<times> 'w"
  cs_FindReorgOrIncludedTxs :: "string \<Rightarrow> int \<Rightarrow> 'w \<Rightarrow> (tx_error + 'f tx list \<times> 'f tx list) \<times> 'w"
  cs_UpdateTxsForRebroadcast :: "int list \<Rightarrow> int list \<Rightarrow> 'w \<Rightarrow> (tx_error + unit) \<times> 'w"
  cs_UpdateTxFatalError :: "int list \<Rightarrow> string \<Rightarrow> 'w \<Rightarrow> (tx_error + unit) \<times> 'w"
  cs_UpdateTxConfirmed :: "int list \<Rightarrow> 'w \<Rightarrow> (tx_error + unit) \<times> 'w"
  cs_SaveInProgressAttempt :: "'f tx_attempt \<Rightarrow> 'w \<Rightarrow> (tx_error + 'f tx_attempt) \<times> 'w"
  cs_SaveReplacementInProgressAttempt :: "'f tx_attempt \<Rightarrow> 'f tx_attempt \<Rightarrow> 'w \<Rightarrow> (tx_error + 'f tx_attempt) \<times> 'w"
  cs_SaveSentAttempt :: "'f tx_attempt \<Rightarrow> int \<Rightarrow> 'w \<Rightarrow> (tx_error + unit) \<times> 'w"
  cs_SaveConfirmedAttempt :: "'f tx_attempt \<Rightarrow> int \<Rightarrow> 'w \<Rightarrow> (tx_error + unit) \<times> 'w"
  cs_SaveInsufficientFundsAttempt :: "'f tx_attempt \<Rightarrow> int \<Rightarrow> 'w \<Rightarrow> (tx_error + unit) \<times> 'w"
  cs_DeleteInProgressAttempt :: "'f tx_attempt \<Rightarrow> 'w \<Rightarrow> (tx_error + unit) \<times> 'w"
  cs_LoadTxAttempts :: "'f tx \<Rightarrow> 'w \<Rightarrow> (tx_error + 'f tx) \<times> 'w"
  cs_GetInProgressTxAttempts :: "string \<Rightarrow> 'w \<Rightarrow> (tx_error + ('f tx \<times> 'f tx_attempt) list) \<times> 'w"
  cs_FindTxsRequiringResubmissionDueToInsufficientFunds :: "string \<Rightarrow> 'w \<Rightarrow> (tx_error + 'f tx list) \<times> 'w"
  cs_FindTxsRequiringGasBump :: "string \<Rightarrow> int \<Rightarrow> int \<Rightarrow> int \<Rightarrow> 'w \<Rightarrow> (tx_error + 'f tx list) \<times> 'w"
  cs_FindTxWithSequence :: "string \<Rightarrow> int \<Rightarrow> 'w \<Rightarrow> (tx_error + 'f tx option) \<times> 'w"
  cs_UpdateTxCallbackCompleted :: "string \<Rightarrow> 'w \<Rightarrow> (tx_error + unit) \<times> 'w"
  cc_SequenceAt :: "string \<Rightarrow> 'w \<Rightarrow> (tx_error + int) \<times> 'w"
  cc_SendTransactionReturnCode :: "'f tx \<Rightarrow> 'f tx_attempt \<Rightarrow> 'w \<Rightarrow> (SendTxReturnCode \<times> tx_error option) \<times> 'w"
  cc_SendEmptyTransaction :: "int \<Rightarrow> 64 word \<Rightarrow> 'f \<Rightarrow> string \<Rightarrow> 'w \<Rightarrow> (tx_error + string) \<times> 'w"
  ca_NewBumpTxAttempt :: "'f tx \<Rightarrow> 'f tx_attempt \<Rightarrow> 'f tx_attempt list \<Rightarrow> 'w \<Rightarrow> (tx_error + 'f tx_attempt) \<times> 'w"
  ca_NewPurgeTxAttempt :: "'f tx \<Rightarrow> 'w \<Rightarrow> (tx_error + 'f tx_attempt) \<times> 'w"
  ca_NewCustomTxAttempt :: "'f tx \<Rightarrow> 'f \<Rightarrow> 64 word \<Rightarrow> 'w \<Rightarrow> (tx_error + 'f tx_attempt) \<times> 'w"
  sd_DetectStuckTransactions :: "string list \<Rightarrow> int \<Rightarrow> 'w \<Rightarrow> (tx_error + 'f tx list) \<times> 'w"
  sd_SetPurgeBlockNum :: "string \<Rightarrow> int \<Rightarrow> 'w \<Rightarrow> 'w"
  sd_LoadPurgeBlockNumMap :: "string list \<Rightarrow> 'w \<Rightarrow> (tx_error + unit) \<times> 'w"
  sd_StuckTxFatalError :: string
  ks_EnabledAddresses :: "'w \<Rightarrow> (tx_error + string list) \<times> 'w"
  ce_resumeCallback :: "(string \<Rightarrow> string \<Rightarrow> 'w \<Rightarrow> (tx_error + unit) \<times> 'w) option"
  ce_now :: "'w \<Rightarrow> int"
  ce_ctxErr :: "'w \<Rightarrow> bool"

record conf_cfg =
  cf_BumpThreshold :: "64 word"
  cf_BumpTxDepth :: "32 word"
  cf_MaxInFlight :: "32 word"
  cf_LimitDefault :: "64 word"

datatype 'f conf_effect =
    CSent "'f tx" "'f tx_attempt"
  | CSavedSent "'f tx_attempt"
  | CSavedConfirmed "'f tx_attempt"
  | CSavedInsufficientFunds "'f tx_attempt"
  | CDeleted "'f tx_attempt"
  | CReplaced "'f tx_attempt" "'f tx_attempt"
  | CSavedInProgress "'f tx_attempt"
  | CRebroadcast "int list" "int list"
  | CFatal "int list"
  | CConfirmed "int list"
  | CPurgeBlock string int
  | CTimeUntilConfirmed int
  | CBlocksUntilConfirmed int
  | CSentEmpty int "64 word"

record ('f, 'w) conf =
  cw :: 'w
  c_enabledAddresses :: "string list option"
  c_isStarted :: bool
  c_effects :: "'f conf_effect list"

type_synonym ('f, 'w, 'a) conf_prog = "(('f, 'w) conf, tx_error, 'a) prog"

definition c_call :: "('w \<Rightarrow> (tx_error + 'a) \<times> 'w) \<Rightarrow> ('f, 'w, 'a) conf_prog" where
  "c_call f s = (case f (cw s) of (r, w) \<Rightarrow> Some (Ret (r, s\<lparr>cw := w\<rparr>)))"

definition c_emit :: "'f conf_effect list \<Rightarrow> ('f, 'w, unit) conf_prog" where
  "c_emit es = updates (\<lambda>s. s\<lparr>c_effects := c_effects s @ es\<rparr>)"

text \<open>A call that changes the store, with its effect when it succeeds.\<close>

definition c_store :: "('w \<Rightarrow> (tx_error + 'a) \<times> 'w) \<Rightarrow> ('a \<Rightarrow> 'f conf_effect) \<Rightarrow> ('f, 'w, 'a) conf_prog" where
  "c_store f e = andThen (c_call f) (\<lambda>x. andThen (c_emit [e x]) (\<lambda>_. returns x))"

section \<open>Sending an attempt\<close>

text \<open>\<open>ErrBumpFeeExceedsLimit\<close> is only counted by a metric.\<close>

definition bumpGas ::
  "('f, 'w) conf_env \<Rightarrow> 'f tx \<Rightarrow> 'f tx_attempt list \<Rightarrow> ('f, 'w, 'f tx_attempt) conf_prog" where
  "bumpGas E etx previousAttempts =
     (case previousAttempts of
        [] \<Rightarrow> panics ''index out of range''
      | previousAttempt # _ \<Rightarrow>
          or_raise (Wrapped ''error bumping gas'') (c_call (ca_NewBumpTxAttempt E etx previousAttempt previousAttempts)))"

datatype 'f attempt_next = AttemptDone | AttemptAgain "'f tx" "'f tx_attempt"

definition replace_attempt ::
  "('f, 'w) conf_env \<Rightarrow> 'f tx_attempt \<Rightarrow> 'f tx_attempt \<Rightarrow> ('f, 'w, 'f tx_attempt) conf_prog" where
  "replace_attempt E attempt newAttempt =
     or_raise (Wrapped ''saveReplacementInProgressAttempt failed'')
       (c_store (cs_SaveReplacementInProgressAttempt E attempt newAttempt) (CReplaced attempt))"

definition on_underpriced ::
  "('f, 'w) conf_env \<Rightarrow> tx_error option \<Rightarrow> 'f tx \<Rightarrow> 'f tx_attempt \<Rightarrow> ('f, 'w, 'f attempt_next) conf_prog" where
  "on_underpriced E sendError etx attempt =
     andThen (or_raise (Wrapped ''failed to load TxAttempts while bumping on terminally underpriced error'')
                (c_call (cs_LoadTxAttempts E etx)))
       (\<lambda>etx1. case tx_TxAttempts etx1 of
          [] \<Rightarrow> raises (TxErr ''expected to find at least 1 attempt'')
        | first # _ \<Rightarrow>
            if att_ID attempt \<noteq> att_ID first
            then raises (TxErr ''expected highest priced attempt to be the current in_progress attempt'')
            else
              andThen (or_raise (Wrapped ''could not bump gas for terminally underpriced transaction'')
                         (bumpGas E etx1 (tx_TxAttempts etx1)))
                (\<lambda>replacementAttempt.
                   if sendError = None then panics nil_pointer
                   else andThen (replace_attempt E attempt replacementAttempt)
                          (\<lambda>saved. returns (AttemptAgain etx1 saved))))"

definition on_terminally_stuck ::
  "('f, 'w) conf_env \<Rightarrow> tx_error option \<Rightarrow> 'f tx \<Rightarrow> 'f tx_attempt \<Rightarrow> ('f, 'w, 'f attempt_next) conf_prog" where
  "on_terminally_stuck E sendError etx attempt =
     (if sendError = None then panics nil_pointer
      else
        andThen (or_raise (Wrapped ''NewPurgeTxAttempt failed'') (c_call (ca_NewPurgeTxAttempt E etx)))
          (\<lambda>purgeAttempt. andThen (replace_attempt E attempt purgeAttempt)
             (\<lambda>saved. returns (AttemptAgain etx saved))))"

definition done_after :: "('f, 'w, unit) conf_prog \<Rightarrow> ('f, 'w, 'f attempt_next) conf_prog" where
  "done_after m = andThen m (\<lambda>_. returns AttemptDone)"

definition unexpected_error :: "tx_error option \<Rightarrow> tx_error" where
  "unexpected_error sendError =
     (case sendError of
        None \<Rightarrow> TxErr ''unexpected error sending tx''
      | Some e \<Rightarrow> Wrapped ''unexpected error sending tx'' e)"

definition on_return_code ::
  "('f, 'w) conf_env \<Rightarrow> SendTxReturnCode \<Rightarrow> tx_error option \<Rightarrow> int \<Rightarrow> 'f tx \<Rightarrow> 'f tx_attempt \<Rightarrow> ('f, 'w, 'f attempt_next) conf_prog" where
  "on_return_code E errType sendError now etx attempt =
     (if errType = Underpriced then on_underpriced E sendError etx attempt
      else if errType = ExceedsMaxFee \<or> errType = Successful
      then done_after (c_store (cs_SaveSentAttempt E attempt now) (\<lambda>_. CSavedSent attempt))
      else if errType = Fatal
      then done_after (c_store (cs_DeleteInProgressAttempt E attempt) (\<lambda>_. CDeleted attempt))
      else if errType = TerminallyStuck then on_terminally_stuck E sendError etx attempt
      else if errType = TransactionAlreadyKnown
      then done_after (c_store (cs_SaveConfirmedAttempt E attempt now) (\<lambda>_. CSavedConfirmed attempt))
      else if errType = InsufficientFunds
      then done_after (c_store (cs_SaveInsufficientFundsAttempt E attempt now) (\<lambda>_. CSavedInsufficientFunds attempt))
      else raises (unexpected_error sendError))"

text \<open>One send and what follows from its return code; the two codes that lead to another attempt ask for it.\<close>

definition attempt_round ::
  "('f, 'w) conf_env \<Rightarrow> 'f tx \<Rightarrow> 'f tx_attempt \<Rightarrow> ('f, 'w, 'f attempt_next) conf_prog" where
  "attempt_round E etx attempt =
     (if att_State attempt \<noteq> TxAttemptInProgress
      then raises (TxErr ''invariant violation: expected tx_attempt to be in_progress'')
      else
        andThen (reads (\<lambda>s. ce_now E (cw s))) (\<lambda>now.
        andThen (c_call (\<lambda>w. case cc_SendTransactionReturnCode E etx attempt w of (r, w1) \<Rightarrow> (Inr r, w1)))
          (\<lambda>(errType, sendError).
        andThen (c_emit [CSent etx attempt]) (\<lambda>_. on_return_code E errType sendError now etx attempt))))"

text \<open>The context, which \<open>ProcessHead\<close> gives a deadline of ten minutes, is not an argument: it shows in what the calls of the
  environment answer once it is done. Without such answers the recursion need not end, so it is a partial function.\<close>

partial_function (option) handleInProgressAttempt ::
  "('f, 'w) conf_env \<Rightarrow> 'f tx \<Rightarrow> 'f tx_attempt \<Rightarrow> ('f, 'w) conf \<Rightarrow> ((tx_error + unit) \<times> ('f, 'w) conf) outcome option" where
  "handleInProgressAttempt E etx attempt s =
     Option.bind (attempt_round E etx attempt s)
       (\<lambda>r. case r of
          Panic m \<Rightarrow> Some (Panic m)
        | Ret (Inl err, s1) \<Rightarrow> Some (Ret (Inl err, s1))
        | Ret (Inr AttemptDone, s1) \<Rightarrow> Some (Ret (Inr (), s1))
        | Ret (Inr (AttemptAgain etx1 attempt1), s1) \<Rightarrow> handleInProgressAttempt E etx1 attempt1 s1)"

declare handleInProgressAttempt.simps [code]

section \<open>Which transactions to send again\<close>

text \<open>The IDs of the first query are remembered, those of the second are not.\<close>

definition merge_rebroadcast :: "'f tx list \<Rightarrow> 'f tx list \<Rightarrow> 'f tx list" where
  "merge_rebroadcast etxInsufficientFunds etxBumps =
     etxInsufficientFunds @ filter (\<lambda>etx. tx_ID etx \<notin> tx_ID ` set etxInsufficientFunds) etxBumps"

text \<open>\<open>sort.Slice\<close> by sequence: with two or more elements every sequence is dereferenced. Transactions of one address
  have different sequences, so which of two equal elements comes first does not matter.\<close>

definition sort_by_sequence :: "'f tx list \<Rightarrow> 'f tx list outcome" where
  "sort_by_sequence etxs =
     (if 2 \<le> length etxs \<and> (\<exists>etx\<in>set etxs. tx_Sequence etx = None) then Panic nil_pointer
      else Ret (sort_key (\<lambda>etx. case tx_Sequence etx of None \<Rightarrow> 0 | Some n \<Rightarrow> n) etxs))"

definition limit_in_flight :: "32 word \<Rightarrow> 'f tx list \<Rightarrow> 'f tx list" where
  "limit_in_flight maxInFlightTransactions etxs =
     (if 0 < maxInFlightTransactions \<and> unat maxInFlightTransactions < length etxs
      then take (unat maxInFlightTransactions) etxs else etxs)"

definition FindTxsRequiringRebroadcast ::
  "('f, 'w) conf_env \<Rightarrow> string \<Rightarrow> int \<Rightarrow> int \<Rightarrow> int \<Rightarrow> 32 word \<Rightarrow> ('f, 'w, 'f tx list) conf_prog" where
  "FindTxsRequiringRebroadcast E address blockNum gasBumpThreshold bumpDepth maxInFlightTransactions =
     andThen (c_call (cs_FindTxsRequiringResubmissionDueToInsufficientFunds E address)) (\<lambda>etxInsufficientFunds.
     andThen (trying (c_call (cs_FindTxsRequiringGasBump E address blockNum gasBumpThreshold bumpDepth))) (\<lambda>r.
     andThen (reads (\<lambda>s. ce_ctxErr E (cw s))) (\<lambda>ctxErr.
       if ctxErr then returns []
       else
         (case r of
            Inl err \<Rightarrow> raises err
          | Inr etxBumps \<Rightarrow>
              (case sort_by_sequence (merge_rebroadcast etxInsufficientFunds etxBumps) of
                 Panic m \<Rightarrow> panics m
               | Ret etxs \<Rightarrow> returns (limit_in_flight maxInFlightTransactions etxs))))))"

definition attemptForRebroadcast ::
  "('f, 'w) conf_env \<Rightarrow> 'f tx \<Rightarrow> ('f, 'w, 'f tx_attempt) conf_prog" where
  "attemptForRebroadcast E etx =
     (case tx_TxAttempts etx of
        [] \<Rightarrow> raises (TxErr ''invariant violation: Tx was unconfirmed but didn't have any attempts'')
      | previousAttempt # _ \<Rightarrow>
          if att_State previousAttempt = TxAttemptInsufficientFunds
          then returns (previousAttempt\<lparr>att_State := TxAttemptInProgress\<rparr>)
          else
            andThen (trying (bumpGas E etx (tx_TxAttempts etx))) (\<lambda>r.
              case r of
                Inr attempt \<Rightarrow> returns attempt
              | Inl err \<Rightarrow>
                  if tx_IsBumpErr err
                  then returns (previousAttempt\<lparr>att_BroadcastBeforeBlockNum := None, att_State := TxAttemptInProgress\<rparr>)
                  else raises err))"

text \<open>The attempts left behind in progress; a cancelled context ends the loop without an error.\<close>

fun in_progress_loop ::
  "('f, 'w) conf_env \<Rightarrow> ('f tx \<times> 'f tx_attempt) list \<Rightarrow> ('f, 'w, unit) conf_prog" where
  "in_progress_loop E [] = returns ()"
| "in_progress_loop E ((etx, a) # as) =
     andThen (trying (handleInProgressAttempt E etx a)) (\<lambda>r.
     andThen (reads (\<lambda>s. ce_ctxErr E (cw s))) (\<lambda>ctxErr.
       if ctxErr then returns ()
       else
         (case r of
            Inl err \<Rightarrow> raises (Wrapped ''handleInProgressAttempt failed'' err)
          | Inr _ \<Rightarrow> in_progress_loop E as)))"

definition handleAnyInProgressAttempts :: "('f, 'w) conf_env \<Rightarrow> string \<Rightarrow> ('f, 'w, unit) conf_prog" where
  "handleAnyInProgressAttempts E address =
     andThen (trying (c_call (cs_GetInProgressTxAttempts E address))) (\<lambda>r.
     andThen (reads (\<lambda>s. ce_ctxErr E (cw s))) (\<lambda>ctxErr.
       if ctxErr then returns ()
       else
         (case r of
            Inl err \<Rightarrow> raises (Wrapped ''GetInProgressTxAttempts failed'' err)
          | Inr attempts \<Rightarrow> in_progress_loop E attempts)))"

definition rebroadcast_tx :: "('f, 'w) conf_env \<Rightarrow> 'f tx \<Rightarrow> ('f, 'w, unit) conf_prog" where
  "rebroadcast_tx E etx =
     andThen (or_raise (Wrapped ''attemptForRebroadcast failed'') (attemptForRebroadcast E etx)) (\<lambda>attempt.
     andThen (or_raise (Wrapped ''saveInProgressAttempt failed'') (c_store (cs_SaveInProgressAttempt E attempt) CSavedInProgress))
       (\<lambda>saved. or_raise (Wrapped ''handleInProgressAttempt failed'') (handleInProgressAttempt E etx saved)))"

definition rebroadcastWhereNecessary ::
  "conf_cfg \<Rightarrow> ('f, 'w) conf_env \<Rightarrow> int \<Rightarrow> string \<Rightarrow> ('f, 'w, unit) conf_prog" where
  "rebroadcastWhereNecessary c E blockHeight address =
     andThen (or_raise (Wrapped ''handleAnyInProgressAttempts failed'') (handleAnyInProgressAttempts E address)) (\<lambda>_.
     andThen (or_raise (Wrapped ''FindTxsRequiringRebroadcast failed'')
                (FindTxsRequiringRebroadcast E address blockHeight (i64 (uint (cf_BumpThreshold c)))
                   (uint (cf_BumpTxDepth c)) (cf_MaxInFlight c)))
       (\<lambda>etxs. for_each (rebroadcast_tx E) etxs))"

definition raise_joined :: "tx_error list \<Rightarrow> ('f, 'w, unit) conf_prog" where
  "raise_joined errs = (case errors_Join errs of None \<Rightarrow> returns () | Some e \<Rightarrow> raises e)"

definition enabled_list :: "('f, 'w) conf \<Rightarrow> string list" where
  "enabled_list s = (case c_enabledAddresses s of None \<Rightarrow> [] | Some as \<Rightarrow> as)"

definition RebroadcastWhereNecessary ::
  "(string list \<Rightarrow> string list) \<Rightarrow> conf_cfg \<Rightarrow> ('f, 'w) conf_env \<Rightarrow> int \<Rightarrow> ('f, 'w, unit) conf_prog" where
  "RebroadcastWhereNecessary sched c E blockHeight =
     andThen (reads enabled_list) (\<lambda>addresses.
     andThen (gather_errors (rebroadcastWhereNecessary c E blockHeight) (sched addresses)) raise_joined)"

section \<open>Confirmations and re-organisations\<close>

fun reorg_ids :: "'f tx list \<Rightarrow> tx_error + (int \<times> int) list" where
  "reorg_ids [] = Inr []"
| "reorg_ids (etx # etxs) =
     (case tx_TxAttempts etx of
        [] \<Rightarrow> Inl (TxErr ''invariant violation: expected tx to have at least one attempt'')
      | attempt # _ \<Rightarrow>
          (case reorg_ids etxs of
             Inl err \<Rightarrow> Inl err
           | Inr ids \<Rightarrow> Inr ((tx_ID etx, att_ID attempt) # ids)))"

definition ProcessReorgTxs :: "('f, 'w) conf_env \<Rightarrow> 'f tx list \<Rightarrow> ('f, 'w, unit) conf_prog" where
  "ProcessReorgTxs E reorgTxs =
     (if reorgTxs = [] then returns ()
      else
        (case reorg_ids reorgTxs of
           Inl err \<Rightarrow> raises err
         | Inr ids \<Rightarrow>
             c_store (cs_UpdateTxsForRebroadcast E (map fst ids) (map snd ids))
               (\<lambda>_. CRebroadcast (map fst ids) (map snd ids))))"

text \<open>The two measurements of a confirmed transaction; the second only when the smallest block number is positive.\<close>

fun min_broadcast_before :: "int \<Rightarrow> 'f tx_attempt list \<Rightarrow> int" where
  "min_broadcast_before m [] = m"
| "min_broadcast_before m (a # as) =
     min_broadcast_before
       (case att_BroadcastBeforeBlockNum a of None \<Rightarrow> m | Some b \<Rightarrow> if b < m then b else m) as"

definition observeUntilTxConfirmed ::
  "('f, 'w) conf_env \<Rightarrow> 'f tx \<Rightarrow> int \<Rightarrow> ('f, 'w, unit) conf_prog" where
  "observeUntilTxConfirmed E etx blockNum =
     andThen (reads (\<lambda>s. ce_now E (cw s))) (\<lambda>now.
     andThen (c_emit [CTimeUntilConfirmed (now - tx_CreatedAt etx)]) (\<lambda>_.
       let minBroadcastBefore = min_broadcast_before 0 (tx_TxAttempts etx) in
       if 0 < minBroadcastBefore then c_emit [CBlocksUntilConfirmed (i64 (blockNum - minBroadcastBefore))]
       else returns ()))"

definition observe_included ::
  "('f, 'w) conf_env \<Rightarrow> int \<Rightarrow> 'f tx \<Rightarrow> ('f, 'w, unit) conf_prog" where
  "observe_included E blockNum etx =
     (if HasPurgeAttempt etx
      then updates (\<lambda>s. s\<lparr>cw := sd_SetPurgeBlockNum E (tx_FromAddress etx) blockNum (cw s),
                          c_effects := c_effects s @ [CPurgeBlock (tx_FromAddress etx) blockNum]\<rparr>)
      else observeUntilTxConfirmed E etx blockNum)"

definition ProcessIncludedTxs :: "('f, 'w) conf_env \<Rightarrow> 'f tx list \<Rightarrow> int \<Rightarrow> ('f, 'w, unit) conf_prog" where
  "ProcessIncludedTxs E includedTxs blockNum =
     (if includedTxs = [] then returns ()
      else
        let purgeTxIDs = map tx_ID (filter HasPurgeAttempt includedTxs);
            confirmedTxIDs = map tx_ID (filter (\<lambda>etx. \<not> HasPurgeAttempt etx) includedTxs)
        in andThen (for_each (observe_included E blockNum) includedTxs) (\<lambda>_.
           andThen (or_raise (Wrapped ''failed to update terminally stuck transactions'')
                      (c_store (cs_UpdateTxFatalError E purgeTxIDs (sd_StuckTxFatalError E)) (\<lambda>_. CFatal purgeTxIDs)))
             (\<lambda>_. or_raise (Wrapped ''failed to update confirmed transactions'')
                    (c_store (cs_UpdateTxConfirmed E confirmedTxIDs) (\<lambda>_. CConfirmed confirmedTxIDs)))))"

definition check_address :: "('f, 'w) conf_env \<Rightarrow> int \<Rightarrow> string \<Rightarrow> ('f, 'w, unit) conf_prog" where
  "check_address E blockNum fromAddress =
     andThen (or_raise (Wrapped ''unable to fetch mined transaction count for address'') (c_call (cc_SequenceAt E fromAddress)))
       (\<lambda>minedTxCount.
     andThen (or_raise (Wrapped ''failed to find re-org'd or included transactions based on the mined transaction count'')
                (c_call (cs_FindReorgOrIncludedTxs E fromAddress minedTxCount)))
       (\<lambda>(reorgTxs, includedTxs).
     andThen (or_raise (Wrapped ''failed to process re-org'd transactions'') (ProcessReorgTxs E reorgTxs)) (\<lambda>_.
       or_raise (Wrapped ''failed to process confirmed transactions'') (ProcessIncludedTxs E includedTxs blockNum))))"

definition CheckForConfirmation :: "('f, 'w) conf_env \<Rightarrow> int \<Rightarrow> ('f, 'w, unit) conf_prog" where
  "CheckForConfirmation E blockNum =
     andThen (reads enabled_list) (\<lambda>addresses.
     andThen (gather_errors (check_address E blockNum) addresses) raise_joined)"

section \<open>Stuck transactions\<close>

definition resumeFailedTaskRuns :: "('f, 'w) conf_env \<Rightarrow> 'f tx \<Rightarrow> ('f, 'w, unit) conf_prog" where
  "resumeFailedTaskRuns E etx =
     (case (tx_PipelineTaskRunID etx, ce_resumeCallback E) of
        (Some runID, Some callback) \<Rightarrow>
          if tx_SignalCallback etx \<and> \<not> tx_CallbackCompleted etx then
            andThen (trying (c_call (callback runID (sd_StuckTxFatalError E)))) (\<lambda>r.
              case r of
                Inr _ \<Rightarrow> c_call (cs_UpdateTxCallbackCompleted E runID)
              | Inl err \<Rightarrow>
                  if errors_Is err ErrNoRows then returns () else raises (Wrapped ''failed to resume pipeline'' err))
          else returns ()
      | _ \<Rightarrow> returns ())"

definition purge_tx :: "('f, 'w) conf_env \<Rightarrow> 'f tx \<Rightarrow> ('f, 'w, unit) conf_prog" where
  "purge_tx E etx =
     andThen (or_raise (Wrapped ''failed to create a purge attempt'') (c_call (ca_NewPurgeTxAttempt E etx))) (\<lambda>purgeAttempt.
     andThen (or_raise (Wrapped ''failed to save purge attempt'') (c_store (cs_SaveInProgressAttempt E purgeAttempt) CSavedInProgress))
       (\<lambda>saved.
     andThen (or_raise (Wrapped ''failed to send purge attempt'') (handleInProgressAttempt E etx saved)) (\<lambda>_.
       or_raise (Wrapped ''failed to resume pending task run for transaction'') (resumeFailedTaskRuns E etx))))"

definition ProcessStuckTransactions ::
  "('f tx list \<Rightarrow> 'f tx list) \<Rightarrow> ('f, 'w) conf_env \<Rightarrow> int \<Rightarrow> ('f, 'w, unit) conf_prog" where
  "ProcessStuckTransactions sched E blockNum =
     andThen (reads enabled_list) (\<lambda>addresses.
     andThen (or_raise (Wrapped ''failed to detect stuck transactions'') (c_call (sd_DetectStuckTransactions E addresses blockNum)))
       (\<lambda>stuckTxs.
          if stuckTxs = [] then returns ()
          else andThen (gather_errors (purge_tx E) (sched stuckTxs)) raise_joined))"

section \<open>Heads and the service\<close>

definition processHead ::
  "('f tx list \<Rightarrow> 'f tx list) \<Rightarrow> (string list \<Rightarrow> string list) \<Rightarrow> conf_cfg \<Rightarrow> ('f, 'w) conf_env \<Rightarrow> int \<Rightarrow> ('f, 'w, unit) conf_prog" where
  "processHead schedTxs schedAddrs c E blockNum =
     andThen (c_call (cs_SetBroadcastBeforeBlockNum E blockNum)) (\<lambda>_.
     andThen (CheckForConfirmation E blockNum) (\<lambda>_.
     andThen (ProcessStuckTransactions schedTxs E blockNum) (\<lambda>_.
       RebroadcastWhereNecessary schedAddrs c E blockNum)))"

text \<open>The loop over the mailbox: an error is logged, a stopped context ends it.\<close>

fun conf_runLoop ::
  "('f tx list \<Rightarrow> 'f tx list) \<Rightarrow> (string list \<Rightarrow> string list) \<Rightarrow> conf_cfg \<Rightarrow> ('f, 'w) conf_env \<Rightarrow> int list \<Rightarrow> ('f, 'w, unit) conf_prog" where
  "conf_runLoop schedTxs schedAddrs c E [] = returns ()"
| "conf_runLoop schedTxs schedAddrs c E (head # heads) =
     andThen (reads (\<lambda>s. ce_ctxErr E (cw s))) (\<lambda>stopped.
       if stopped then returns ()
       else andThen (trying (processHead schedTxs schedAddrs c E head)) (\<lambda>_. conf_runLoop schedTxs schedAddrs c E heads))"

definition conf_startInternal :: "('f, 'w) conf_env \<Rightarrow> ('f, 'w, unit) conf_prog" where
  "conf_startInternal E =
     andThen (reads c_isStarted) (\<lambda>isStarted.
       if isStarted then raises (TxErr ''Confirmer is already started'')
       else
         andThen (reads c_enabledAddresses) (\<lambda>enabled.
         andThen
           (if enabled = None then
              andThen (or_raise (Wrapped ''Confirmer: failed to load EnabledAddresses'') (c_call (ks_EnabledAddresses E))) (\<lambda>as.
              andThen (updates (\<lambda>s. s\<lparr>c_enabledAddresses := Some as\<rparr>)) (\<lambda>_.
              andThen (trying (c_call (sd_LoadPurgeBlockNumMap E as))) (\<lambda>_. returns ())))
            else returns ())
           (\<lambda>_. updates (\<lambda>s. s\<lparr>c_isStarted := True\<rparr>))))"

definition conf_closeInternal :: "('f, 'w, unit) conf_prog" where
  "conf_closeInternal =
     andThen (reads c_isStarted) (\<lambda>isStarted.
       if \<not> isStarted then raises (Wrapped ''Confirmer is not started'' ErrAlreadyStopped)
       else updates (\<lambda>s. s\<lparr>c_isStarted := False, c_enabledAddresses := None\<rparr>))"

definition conf_SetEnabledAddresses :: "string list \<Rightarrow> ('f, 'w) conf \<Rightarrow> ('f, 'w) conf" where
  "conf_SetEnabledAddresses addrs s = s\<lparr>c_enabledAddresses := Some addrs\<rparr>"

section \<open>Forced rebroadcast\<close>

definition sendEmptyTransaction ::
  "conf_cfg \<Rightarrow> ('f, 'w) conf_env \<Rightarrow> string \<Rightarrow> 64 word \<Rightarrow> 'f \<Rightarrow> int \<Rightarrow> ('f, 'w, string) conf_prog" where
  "sendEmptyTransaction c E fromAddress overrideGasLimit fee seq =
     (let gasLimit = (if overrideGasLimit = 0 then cf_LimitDefault c else overrideGasLimit) in
      or_raise (Wrapped ''(Confirmer).sendEmptyTransaction failed'')
        (c_store (cc_SendEmptyTransaction E seq gasLimit fee fromAddress) (\<lambda>_. CSentEmpty seq gasLimit)))"

definition force_one ::
  "conf_cfg \<Rightarrow> ('f, 'w) conf_env \<Rightarrow> string \<Rightarrow> 64 word \<Rightarrow> 'f \<Rightarrow> int \<Rightarrow> ('f, 'w, unit) conf_prog" where
  "force_one c E address overrideGasLimit fee seq =
     andThen (or_raise (Wrapped ''ForceRebroadcast failed'') (c_call (cs_FindTxWithSequence E address seq))) (\<lambda>found.
       case found of
         None \<Rightarrow> andThen (trying (sendEmptyTransaction c E address overrideGasLimit fee seq)) (\<lambda>_. returns ())
       | Some etx \<Rightarrow>
           if tx_Sequence etx = None then panics nil_pointer else
           let etx1 = (if overrideGasLimit \<noteq> 0 then etx\<lparr>tx_FeeLimit := overrideGasLimit\<rparr> else etx) in
           andThen (trying (c_call (ca_NewCustomTxAttempt E etx1 fee (tx_FeeLimit etx1)))) (\<lambda>r.
             case r of
               Inl err \<Rightarrow> returns ()
             | Inr attempt \<Rightarrow>
                 andThen (c_call (\<lambda>w. case cc_SendTransactionReturnCode E etx1 attempt w of (q, w1) \<Rightarrow> (Inr q, w1)))
                   (\<lambda>_. c_emit [CSent etx1 attempt])))"

definition ForceRebroadcast ::
  "conf_cfg \<Rightarrow> ('f, 'w) conf_env \<Rightarrow> int list \<Rightarrow> 'f \<Rightarrow> string \<Rightarrow> 64 word \<Rightarrow> ('f, 'w, unit) conf_prog" where
  "ForceRebroadcast c E seqs fee address overrideGasLimit =
     for_each (force_one c E address overrideGasLimit fee) seqs"

section \<open>Which effects a program has\<close>

named_theorems emits \<open>programs whose effects all lie in a set\<close>

definition only_emits :: "'f conf_effect set \<Rightarrow> ('f, 'w, 'a) conf_prog \<Rightarrow> bool" where
  "only_emits S m \<longleftrightarrow> (\<forall>s r s'. m s = Some (Ret (r, s')) \<longrightarrow> (\<exists>es. c_effects s' = c_effects s @ es \<and> set es \<subseteq> S))"

lemma only_emitsI:
  "(\<And>s r s'. m s = Some (Ret (r, s')) \<Longrightarrow> \<exists>es. c_effects s' = c_effects s @ es \<and> set es \<subseteq> S) \<Longrightarrow> only_emits S m"
  by (simp add: only_emits_def)

lemma only_emitsE:
  assumes "only_emits S m" and "m s = Some (Ret (r, s'))"
  obtains es where "c_effects s' = c_effects s @ es" and "set es \<subseteq> S"
  using assms unfolding only_emits_def by blast

lemma only_emits_basic [emits]:
  "only_emits S (returns x)" "only_emits S (raises e)" "only_emits S (panics p)" "only_emits S (reads f)"
  by (auto simp: only_emits_def basic_prog)

lemma only_emits_call [emits]: "only_emits S (c_call f)"
  by (auto simp: only_emits_def c_call_def split: prod.splits)

lemma only_emits_emit [emits]: "set es \<subseteq> S \<Longrightarrow> only_emits S (c_emit es)"
  by (auto simp: only_emits_def c_emit_def basic_prog)

lemma only_emits_andThen [emits]:
  assumes "only_emits S m" and "\<And>x. only_emits S (f x)"
  shows "only_emits S (andThen m f)"
proof (rule only_emitsI)
  fix s r s' assume "andThen m f s = Some (Ret (r, s'))"
  then show "\<exists>es. c_effects s' = c_effects s @ es \<and> set es \<subseteq> S"
  proof (cases rule: andThenE)
    case (fails e)
    then show ?thesis using assms(1) unfolding only_emits_def by blast
  next
    case (continues x s1)
    from only_emitsE [OF assms(1) continues(1)] obtain es where a: "c_effects s1 = c_effects s @ es" "set es \<subseteq> S" .
    from only_emitsE [OF assms(2) continues(2)] obtain fs where b: "c_effects s' = c_effects s1 @ fs" "set fs \<subseteq> S" .
    from a b show ?thesis by (intro exI [of _ "es @ fs"]) auto
  qed
qed

lemma only_emits_trying [emits]: "only_emits S m \<Longrightarrow> only_emits S (trying m)"
  by (rule only_emitsI) (auto elim!: tryingE only_emitsE)

lemma only_emits_or_raise [emits]: "only_emits S m \<Longrightarrow> only_emits S (or_raise g m)"
  by (rule only_emitsI) (auto elim!: or_raiseE only_emitsE)

lemma only_emits_store [emits]: "(\<And>x. e x \<in> S) \<Longrightarrow> only_emits S (c_store f e)"
  unfolding c_store_def by (intro emits) auto

lemma only_emits_for_each [emits]: "(\<And>x. only_emits S (f x)) \<Longrightarrow> only_emits S (for_each f xs)"
  by (induction xs) (auto intro: emits)

lemma only_emits_gather [emits]: "(\<And>x. only_emits S (f x)) \<Longrightarrow> only_emits S (gather_errors f xs)"
  by (induction xs) (auto intro!: emits)

lemma only_emits_raise_joined [emits]: "only_emits S (raise_joined errs)"
  unfolding raise_joined_def by (cases "errors_Join errs") (auto intro: emits)

text \<open>The effects of sending an attempt.\<close>

definition sending :: "'f conf_effect set" where
  "sending = {e. \<exists>x a b. e = CSent x a \<or> e = CSavedSent a \<or> e = CSavedConfirmed a \<or> e = CSavedInsufficientFunds a \<or>
     e = CDeleted a \<or> e = CReplaced a b \<or> e = CSavedInProgress a}"

lemma sending_simps [simp]:
  "CSent x a \<in> sending" "CSavedSent a \<in> sending" "CSavedConfirmed a \<in> sending" "CSavedInsufficientFunds a \<in> sending"
  "CDeleted a \<in> sending" "CReplaced a b \<in> sending" "CSavedInProgress a \<in> sending"
  "CRebroadcast i j \<notin> sending" "CFatal i \<notin> sending" "CConfirmed i \<notin> sending" "CPurgeBlock p n \<notin> sending"
  "CTimeUntilConfirmed n \<notin> sending" "CBlocksUntilConfirmed n \<notin> sending" "CSentEmpty n g \<notin> sending"
  by (auto simp: sending_def)

lemma bumpGas_emits [emits]: "only_emits S (bumpGas E etx as)"
  unfolding bumpGas_def by (cases as) (auto intro!: emits)

lemma replace_attempt_emits [emits]: "sending \<subseteq> S \<Longrightarrow> only_emits S (replace_attempt E a b)"
  unfolding replace_attempt_def by (intro emits) auto

lemma attempt_round_emits:
  assumes "sending \<subseteq> S"
  shows "only_emits S (attempt_round E etx a)"
proof -
  have u: "only_emits S (on_underpriced E err etx a)" for err
    unfolding on_underpriced_def by (auto intro!: emits assms split: list.splits)
  have t: "only_emits S (on_terminally_stuck E err etx a)" for err
    unfolding on_terminally_stuck_def by (auto intro!: emits assms)
  show ?thesis
    unfolding attempt_round_def on_return_code_def done_after_def
    by (auto intro!: emits u t subsetD [OF assms])
qed

lemma handleInProgressAttempt_only_emits:
  "handleInProgressAttempt E etx a s = Some r \<Longrightarrow> sending \<subseteq> S \<Longrightarrow> r = Ret (q, s') \<Longrightarrow>
   \<exists>es. c_effects s' = c_effects s @ es \<and> set es \<subseteq> S"
proof (induction E etx a s r rule: handleInProgressAttempt.raw_induct [rotated, consumes 1, case_names step])
  case (step handle E etx a s r)
  from step.hyps obtain o1 where o1: "attempt_round E etx a s = Some o1" by (cases "attempt_round E etx a s") auto
  with step.hyps step.prems(2) obtain p s1 where "o1 = Ret (p, s1)" by (cases o1) auto
  note round = o1 [unfolded this]
  from only_emitsE [OF attempt_round_emits [OF step.prems(1)] round]
  obtain es where es: "c_effects s1 = c_effects s @ es" "set es \<subseteq> S" .
  show ?case
  proof (cases "\<exists>x b. p = Inr (AttemptAgain x b)")
    case True
    then obtain x b where "p = Inr (AttemptAgain x b)" by blast
    then have "handle E x b s1 = Some r" using step.hyps round by simp
    from step.IH [OF this step.prems] obtain fs where "c_effects s' = c_effects s1 @ fs" "set fs \<subseteq> S" by blast
    then show ?thesis using es by (intro exI [of _ "es @ fs"]) auto
  next
    case False
    then have "s' = s1" using step.hyps round step.prems(2) by (auto split: sum.splits attempt_next.splits)
    then show ?thesis using es by blast
  qed
qed

lemma handleInProgressAttempt_emits [emits]: "sending \<subseteq> S \<Longrightarrow> only_emits S (handleInProgressAttempt E etx a)"
  by (rule only_emitsI) (erule handleInProgressAttempt_only_emits, auto)

section \<open>Lemmas\<close>

lemma min_broadcast_before_le: "min_broadcast_before m as \<le> m"
proof (induction as arbitrary: m)
  case Nil
  show ?case by simp
next
  case (Cons a as)
  show ?case
    using Cons.IH [of m] Cons.IH [of "the (att_BroadcastBeforeBlockNum a)"]
    by (auto split: option.splits intro: order_trans [OF Cons.IH])
qed

definition no_blocks_metric :: "'f conf_effect set" where
  "no_blocks_metric = {e. \<forall>n. e \<noteq> CBlocksUntilConfirmed n}"

lemma sending_no_blocks: "sending \<subseteq> no_blocks_metric"
  by (auto simp: sending_def no_blocks_metric_def)

lemma in_no_blocks [simp]: "e \<in> no_blocks_metric \<longleftrightarrow> (\<forall>n. e \<noteq> CBlocksUntilConfirmed n)"
  by (simp add: no_blocks_metric_def)

lemma observe_included_emits [emits]: "only_emits no_blocks_metric (observe_included E n etx)"
proof -
  have "only_emits no_blocks_metric (observeUntilTxConfirmed E etx n)"
    using min_broadcast_before_le [of 0 "tx_TxAttempts etx"]
    unfolding observeUntilTxConfirmed_def Let_def by (auto intro!: emits)
  then show ?thesis by (auto simp: observe_included_def only_emits_def basic_prog)
qed

lemma CheckForConfirmation_emits [emits]: "only_emits no_blocks_metric (CheckForConfirmation E n)"
proof -
  have "only_emits no_blocks_metric (ProcessReorgTxs E txs)" for txs
    unfolding ProcessReorgTxs_def by (auto intro!: emits split: sum.splits)
  moreover have "only_emits no_blocks_metric (ProcessIncludedTxs E txs n)" for txs
    unfolding ProcessIncludedTxs_def Let_def by (auto intro!: emits)
  ultimately have "only_emits no_blocks_metric (check_address E n a)" for a
    unfolding check_address_def by (auto intro!: emits split: prod.splits)
  then show ?thesis unfolding CheckForConfirmation_def by (auto intro!: emits)
qed

lemma ProcessStuckTransactions_emits [emits]: "only_emits no_blocks_metric (ProcessStuckTransactions sched E n)"
proof -
  have "only_emits no_blocks_metric (resumeFailedTaskRuns E etx)" for etx
    unfolding resumeFailedTaskRuns_def by (auto intro!: emits split: option.splits sum.splits)
  then have "only_emits no_blocks_metric (purge_tx E etx)" for etx
    unfolding purge_tx_def by (auto intro!: emits sending_no_blocks)
  then show ?thesis unfolding ProcessStuckTransactions_def by (auto intro!: emits)
qed

lemma RebroadcastWhereNecessary_emits [emits]: "only_emits no_blocks_metric (RebroadcastWhereNecessary sched c E n)"
proof -
  have loop: "only_emits no_blocks_metric (in_progress_loop E as)" for as
    by (induction E as rule: in_progress_loop.induct) (auto intro!: emits sending_no_blocks split: sum.splits)
  have any: "only_emits no_blocks_metric (handleAnyInProgressAttempts E a)" for a
    unfolding handleAnyInProgressAttempts_def by (auto intro!: emits loop split: sum.splits)
  have find: "only_emits no_blocks_metric (FindTxsRequiringRebroadcast E a b t d m)" for a b t d m
    unfolding FindTxsRequiringRebroadcast_def by (auto intro!: emits split: sum.splits outcome.splits)
  have att: "only_emits no_blocks_metric (attemptForRebroadcast E etx)" for etx
    unfolding attemptForRebroadcast_def by (auto intro!: emits split: list.splits sum.splits)
  have "only_emits no_blocks_metric (rebroadcast_tx E etx)" for etx
    unfolding rebroadcast_tx_def by (auto intro!: emits att sending_no_blocks)
  then have "only_emits no_blocks_metric (rebroadcastWhereNecessary c E n a)" for a
    unfolding rebroadcastWhereNecessary_def by (auto intro!: emits any find)
  then show ?thesis unfolding RebroadcastWhereNecessary_def by (auto intro!: emits)
qed

lemma conf_runLoop_emits: "only_emits no_blocks_metric (conf_runLoop st sa c E heads)"
proof (induction heads)
  case Nil
  show ?case by (auto intro: emits)
next
  case (Cons h heads)
  have "only_emits no_blocks_metric (processHead st sa c E h)"
    unfolding processHead_def by (intro emits)
  then show ?case using Cons.IH by (auto intro!: emits)
qed

subsection \<open>Sending until done\<close>

text \<open>Each send but the last is followed by the replacement of the attempt it sent.\<close>

fun attempt_chain :: "'f tx_attempt \<Rightarrow> 'f conf_effect list \<Rightarrow> 'f tx_attempt \<Rightarrow> bool" where
  "attempt_chain a [] b \<longleftrightarrow> a = b"
| "attempt_chain a (CSent x a1 # CReplaced a2 a3 # es) b \<longleftrightarrow> a1 = a \<and> a2 = a \<and> attempt_chain a3 es b"
| "attempt_chain a es b \<longleftrightarrow> False"

definition saved_as :: "'f tx_attempt \<Rightarrow> 'f conf_effect set" where
  "saved_as a = {CSavedSent a, CSavedConfirmed a, CSavedInsufficientFunds a, CDeleted a}"

text \<open>The store keeps a replacement in progress.\<close>

definition replacement_in_progress :: "('f, 'w) conf_env \<Rightarrow> bool" where
  "replacement_in_progress E \<longleftrightarrow>
     (\<forall>a b w b' w'. cs_SaveReplacementInProgressAttempt E a b w = (Inr b', w') \<longrightarrow> att_State b' = TxAttemptInProgress)"

lemma c_callE:
  assumes "c_call f s = Some (Ret (r, s'))"
  obtains w where "f (cw s) = (r, w)" and "s' = s\<lparr>cw := w\<rparr>"
  using assms by (auto simp: c_call_def split: prod.splits)

lemma c_storeE:
  assumes "c_store f e s = Some (Ret (r, s'))"
  obtains (fails) err where "r = Inl err" and "c_effects s' = c_effects s"
    | (stored) x w where "r = Inr x" and "f (cw s) = (Inr x, w)" and "c_effects s' = c_effects s @ [e x]"
  using assms unfolding c_store_def
  by (elim andThenE c_callE) (auto simp: c_emit_def basic_prog)

lemma replace_attempt_result:
  assumes "replace_attempt E a b s = Some (Ret (r, s'))"
  shows "(\<exists>err. r = Inl err) \<and> c_effects s' = c_effects s \<or>
    (\<exists>saved w w'. r = Inr saved \<and> cs_SaveReplacementInProgressAttempt E a b w = (Inr saved, w') \<and>
       c_effects s' = c_effects s @ [CReplaced a saved])"
  using assms unfolding replace_attempt_def by (elim or_raiseE c_storeE) auto

text \<open>How one round may end.\<close>

definition round_effects ::
  "('f, 'w) conf_env \<Rightarrow> 'f tx_attempt \<Rightarrow> tx_error + 'f attempt_next \<Rightarrow> 'f conf_effect list \<Rightarrow> bool" where
  "round_effects E a r es \<longleftrightarrow>
     (case r of
        Inl err \<Rightarrow> es = []
      | Inr AttemptDone \<Rightarrow> (\<exists>e\<in>saved_as a. es = [e])
      | Inr (AttemptAgain x b) \<Rightarrow>
          es = [CReplaced a b] \<and> (\<exists>b0 w w'. cs_SaveReplacementInProgressAttempt E a b0 w = (Inr b, w')))"

lemma again_effects:
  assumes "andThen (replace_attempt E a b) (\<lambda>saved. returns (AttemptAgain x saved)) s = Some (Ret (r, s'))"
  shows "\<exists>es. c_effects s' = c_effects s @ es \<and> round_effects E a r es"
  using assms by (auto elim!: andThenE dest!: replace_attempt_result simp: round_effects_def basic_prog) blast

lemma no_effects: "only_emits {} m \<Longrightarrow> m s = Some (Ret (r, s')) \<Longrightarrow> c_effects s' = c_effects s"
  by (auto elim: only_emitsE)

lemma on_underpriced_effects:
  assumes "on_underpriced E err etx a s = Some (Ret (r, s'))"
  shows "\<exists>es. c_effects s' = c_effects s @ es \<and> round_effects E a r es"
proof -
  have bump: "only_emits {} (or_raise g (bumpGas E x as))" for g :: "tx_error \<Rightarrow> tx_error" and x as by (intro emits)
  have load: "only_emits {} (or_raise g (c_call (cs_LoadTxAttempts E etx)))" for g :: "tx_error \<Rightarrow> tx_error" by (intro emits)
  from assms show ?thesis
    unfolding on_underpriced_def
  proof (cases rule: andThenE)
    case (fails e)
    then show ?thesis using no_effects [OF load fails(1)] by (auto simp: round_effects_def)
  next
    case (continues x s1)
    have s1: "c_effects s1 = c_effects s" by (rule no_effects [OF load continues(1)])
    show ?thesis
    proof (cases "\<exists>b bs. tx_TxAttempts x = b # bs \<and> att_ID b = att_ID a")
      case False
      then show ?thesis
        using continues(2) s1 by (auto simp: round_effects_def basic_prog split: list.splits if_splits)
    next
      case True
      then obtain m where m: "andThen (or_raise m (bumpGas E x (tx_TxAttempts x)))
          (\<lambda>b. if err = None then panics nil_pointer
               else andThen (replace_attempt E a b) (\<lambda>saved. returns (AttemptAgain x saved))) s1 = Some (Ret (r, s'))"
        using continues(2) by auto
      from m show ?thesis
      proof (cases rule: andThenE)
        case (fails e)
        then show ?thesis using no_effects [OF bump fails(1)] s1 by (auto simp: round_effects_def)
      next
        case (continues b s2)
        have "c_effects s2 = c_effects s" using no_effects [OF bump continues(1)] s1 by simp
        moreover have "andThen (replace_attempt E a b) (\<lambda>saved. returns (AttemptAgain x saved)) s2 = Some (Ret (r, s'))"
          using continues(2) by (auto simp: panics_def split: if_splits)
        ultimately show ?thesis using again_effects by metis
      qed
    qed
  qed
qed

lemma on_terminally_stuck_effects:
  assumes "on_terminally_stuck E err etx a s = Some (Ret (r, s'))"
  shows "\<exists>es. c_effects s' = c_effects s @ es \<and> round_effects E a r es"
proof -
  have new: "only_emits {} (or_raise g (c_call (ca_NewPurgeTxAttempt E etx)))" for g :: "tx_error \<Rightarrow> tx_error" by (intro emits)
  obtain m where m: "andThen (or_raise m (c_call (ca_NewPurgeTxAttempt E etx)))
      (\<lambda>b. andThen (replace_attempt E a b) (\<lambda>saved. returns (AttemptAgain etx saved))) s = Some (Ret (r, s'))"
    using assms unfolding on_terminally_stuck_def by (auto simp: panics_def split: if_splits)
  then show ?thesis
  proof (cases rule: andThenE)
    case (fails e)
    then show ?thesis using no_effects [OF new fails(1)] by (auto simp: round_effects_def)
  next
    case (continues b s1)
    have "c_effects s1 = c_effects s" by (rule no_effects [OF new continues(1)])
    then show ?thesis using again_effects [OF continues(2)] by simp
  qed
qed

lemma done_after_effects:
  assumes "done_after (c_store f (\<lambda>_. e)) s = Some (Ret (r, s'))" and "e \<in> saved_as a"
  shows "\<exists>es. c_effects s' = c_effects s @ es \<and> round_effects E a r es"
  using assms unfolding done_after_def by (auto elim!: andThenE c_storeE simp: round_effects_def basic_prog)

lemma attempt_round_eq:
  assumes "att_State a = TxAttemptInProgress" and "cc_SendTransactionReturnCode E etx a (cw s) = ((code, err), w)"
  shows "attempt_round E etx a s =
    on_return_code E code err (ce_now E (cw s)) etx a (s\<lparr>cw := w, c_effects := c_effects s @ [CSent etx a]\<rparr>)"
  using assms by (simp add: attempt_round_def andThen_def c_call_def c_emit_def basic_prog)

lemma on_return_code_effects:
  assumes "on_return_code E code err now etx a s = Some (Ret (r, s'))"
  shows "\<exists>es. c_effects s' = c_effects s @ es \<and> round_effects E a r es"
proof -
  have in_saved: "CSavedSent a \<in> saved_as a" "CDeleted a \<in> saved_as a" "CSavedConfirmed a \<in> saved_as a"
    "CSavedInsufficientFunds a \<in> saved_as a" by (auto simp: saved_as_def)
  have raised: "\<exists>es. c_effects s' = c_effects s @ es \<and> round_effects E a r es"
    if "raises (unexpected_error err) s = Some (Ret (r, s'))"
    using that by (auto simp: raises_def round_effects_def)
  show ?thesis
    using assms unfolding on_return_code_def
    by (auto split: if_split_asm intro: raised on_underpriced_effects on_terminally_stuck_effects
        done_after_effects [OF _ in_saved(1)] done_after_effects [OF _ in_saved(2)]
        done_after_effects [OF _ in_saved(3)] done_after_effects [OF _ in_saved(4)])
qed

lemma attempt_round_effects:
  assumes "attempt_round E etx a s = Some (Ret (r, s'))" and "att_State a = TxAttemptInProgress"
  shows "\<exists>es. c_effects s' = c_effects s @ CSent etx a # es \<and> round_effects E a r es"
proof -
  obtain code err w where send: "cc_SendTransactionReturnCode E etx a (cw s) = ((code, err), w)"
    by (metis prod.exhaust)
  from on_return_code_effects [OF assms(1) [unfolded attempt_round_eq [OF assms(2) send]]] show ?thesis by simp
qed

lemma attempt_chain_Cons:
  "attempt_chain a1 es b \<Longrightarrow> attempt_chain a (CSent x a # CReplaced a a1 # es) b"
  by simp

definition attempt_shape :: "'f tx_attempt \<Rightarrow> tx_error + unit \<Rightarrow> ('f, 'w) conf \<Rightarrow> ('f, 'w) conf \<Rightarrow> bool" where
  "attempt_shape a r s s' \<longleftrightarrow>
     (\<exists>es x last fate. c_effects s' = c_effects s @ es @ CSent x last # fate \<and> attempt_chain a es last \<and>
        (case r of Inl err \<Rightarrow> fate = [] | Inr _ \<Rightarrow> \<exists>e\<in>saved_as last. fate = [e]))"

lemma handleInProgressAttempt_shape:
  "handleInProgressAttempt E etx a s = Some r \<Longrightarrow> replacement_in_progress E \<Longrightarrow> r = Ret (q, s') \<Longrightarrow>
   att_State a = TxAttemptInProgress \<Longrightarrow> attempt_shape a q s s'"
proof (induction E etx a s r rule: handleInProgressAttempt.raw_induct [rotated, consumes 1, case_names step])
  case (step handle E etx a s r)
  from step.hyps obtain o1 where o1: "attempt_round E etx a s = Some o1" by (cases "attempt_round E etx a s") auto
  with step.hyps step.prems(2) obtain p s1 where "o1 = Ret (p, s1)" by (cases o1) auto
  note round = o1 [unfolded this]
  from attempt_round_effects [OF round step.prems(3)]
  obtain es where es: "c_effects s1 = c_effects s @ CSent etx a # es" "round_effects E a p es" by blast
  show ?case
  proof (cases "\<exists>x b. p = Inr (AttemptAgain x b)")
    case True
    then obtain x b where p: "p = Inr (AttemptAgain x b)" by blast
    have b: "es = [CReplaced a b]" "att_State b = TxAttemptInProgress"
      using es(2) step.prems(1) by (auto simp: p round_effects_def replacement_in_progress_def) blast
    have "handle E x b s1 = Some r" using step.hyps round p by simp
    from step.IH [OF this step.prems(1,2) b(2)] show ?thesis
      unfolding attempt_shape_def using es(1) b(1)
      by (metis (no_types, lifting) append_Cons append_Nil append_assoc attempt_chain_Cons)
  next
    case False
    then have "s' = s1" and "case p of Inl err \<Rightarrow> q = Inl err \<and> es = [] | Inr _ \<Rightarrow> q = Inr () \<and> (\<exists>e\<in>saved_as a. es = [e])"
      using step.hyps round step.prems(2) es(2) by (auto simp: round_effects_def split: sum.splits attempt_next.splits)
    then show ?thesis
      unfolding attempt_shape_def using es(1)
      by (intro exI [of _ "[]"] exI [of _ etx] exI [of _ a] exI [of _ es]) (auto split: sum.splits)
  qed
qed

text \<open>The context of \<open>ProcessHead\<close> has a deadline, ten minutes after its start. \<open>left\<close> is the time left until then, in the unit
  that a send takes at least: no call gives time back, a send uses some, and once none is left saving a replacement fails, as
  every call of the store does whose context is done.\<close>

definition deadline_laws :: "('f, 'w) conf_env \<Rightarrow> ('w \<Rightarrow> nat) \<Rightarrow> bool" where
  "deadline_laws E left \<longleftrightarrow>
     (\<forall>x a w r w'. cc_SendTransactionReturnCode E x a w = (r, w') \<longrightarrow> left w' < left w \<or> left w' = 0) \<and>
     (\<forall>x w r w'. cs_LoadTxAttempts E x w = (r, w') \<longrightarrow> left w' \<le> left w) \<and>
     (\<forall>x a as w r w'. ca_NewBumpTxAttempt E x a as w = (r, w') \<longrightarrow> left w' \<le> left w) \<and>
     (\<forall>x w r w'. ca_NewPurgeTxAttempt E x w = (r, w') \<longrightarrow> left w' \<le> left w) \<and>
     (\<forall>a b w b' w'. cs_SaveReplacementInProgressAttempt E a b w = (Inr b', w') \<longrightarrow> 0 < left w \<and> left w' \<le> left w)"

lemma or_raise_call:
  assumes "or_raise g (c_call f) s = Some (Ret (Inr x, s'))"
  shows "f (cw s) = (Inr x, cw s')"
proof -
  from assms obtain q where q: "c_call f s = Some (Ret (q, s'))" "Inr x = map_sum g id q" by (rule or_raiseE)
  then have "q = Inr x" by (cases q) auto
  then show ?thesis using q(1) by (auto simp: c_call_def split: prod.splits)
qed

lemma bumpGas_built:
  assumes "or_raise g (bumpGas E x as) s = Some (Ret (Inr b, s'))"
  shows "\<exists>a. ca_NewBumpTxAttempt E x a as (cw s) = (Inr b, cw s')"
proof -
  from assms obtain q where q: "bumpGas E x as s = Some (Ret (q, s'))" "Inr b = map_sum g id q" by (rule or_raiseE)
  then have b: "bumpGas E x as s = Some (Ret (Inr b, s'))" by (cases q) auto
  then obtain a rest where "as = a # rest" by (cases as) (auto simp: bumpGas_def basic_prog)
  then show ?thesis using b or_raise_call unfolding bumpGas_def by fastforce
qed

text \<open>Another attempt means that time was left.\<close>

lemma again_time:
  assumes "andThen (replace_attempt E a b) (\<lambda>saved. returns (AttemptAgain x saved)) s = Some (Ret (Inr (AttemptAgain y b'), s'))"
    and "deadline_laws E left"
  shows "0 < left (cw s) \<and> left (cw s') \<le> left (cw s)"
proof -
  obtain r w where save: "cs_SaveReplacementInProgressAttempt E a b (cw s) = (r, w)"
    by (cases "cs_SaveReplacementInProgressAttempt E a b (cw s)")
  obtain d where "r = Inr d" "cw s' = w"
    using assms(1) save
    by (cases r) (auto simp: replace_attempt_def or_raise_def trying_def andThen_def c_store_def c_call_def c_emit_def basic_prog)
  then show ?thesis using assms(2) save unfolding deadline_laws_def by blast
qed

lemma on_underpriced_time:
  assumes "on_underpriced E err etx a s = Some (Ret (Inr (AttemptAgain y b'), s'))" and "deadline_laws E left"
  shows "0 < left (cw s) \<and> left (cw s') \<le> left (cw s)"
proof -
  obtain x s1 where l: "or_raise (Wrapped ''failed to load TxAttempts while bumping on terminally underpriced error'')
        (c_call (cs_LoadTxAttempts E etx)) s = Some (Ret (Inr x, s1))"
    and m: "andThen (or_raise (Wrapped ''could not bump gas for terminally underpriced transaction'') (bumpGas E x (tx_TxAttempts x)))
          (\<lambda>b. if err = None then panics nil_pointer
               else andThen (replace_attempt E a b) (\<lambda>saved. returns (AttemptAgain x saved))) s1 = Some (Ret (Inr (AttemptAgain y b'), s'))"
    using assms(1) unfolding on_underpriced_def
    by (elim andThenE) (auto simp: basic_prog split: list.splits if_splits)
  from m obtain b s2 where b: "or_raise (Wrapped ''could not bump gas for terminally underpriced transaction'') (bumpGas E x (tx_TxAttempts x)) s1 = Some (Ret (Inr b, s2))"
    and r: "andThen (replace_attempt E a b) (\<lambda>saved. returns (AttemptAgain x saved)) s2 = Some (Ret (Inr (AttemptAgain y b'), s'))"
    by (elim andThenE) (auto simp: panics_def split: if_splits)
  have "left (cw s1) \<le> left (cw s)" using or_raise_call [OF l] assms(2) unfolding deadline_laws_def by blast
  moreover have "left (cw s2) \<le> left (cw s1)" using bumpGas_built [OF b] assms(2) unfolding deadline_laws_def by blast
  ultimately show ?thesis using again_time [OF r assms(2)] by linarith
qed

lemma on_terminally_stuck_time:
  assumes "on_terminally_stuck E err etx a s = Some (Ret (Inr (AttemptAgain y b'), s'))" and "deadline_laws E left"
  shows "0 < left (cw s) \<and> left (cw s') \<le> left (cw s)"
proof -
  have "err \<noteq> None" using assms(1) by (cases err) (auto simp: on_terminally_stuck_def panics_def)
  with assms(1) have "andThen (or_raise (Wrapped ''NewPurgeTxAttempt failed'') (c_call (ca_NewPurgeTxAttempt E etx)))
      (\<lambda>b. andThen (replace_attempt E a b) (\<lambda>saved. returns (AttemptAgain etx saved))) s = Some (Ret (Inr (AttemptAgain y b'), s'))"
    by (simp add: on_terminally_stuck_def split: if_split_asm)
  then obtain b s2 where b: "or_raise (Wrapped ''NewPurgeTxAttempt failed'') (c_call (ca_NewPurgeTxAttempt E etx)) s = Some (Ret (Inr b, s2))"
    and r: "andThen (replace_attempt E a b) (\<lambda>saved. returns (AttemptAgain etx saved)) s2 = Some (Ret (Inr (AttemptAgain y b'), s'))"
    by (rule andThenE) auto
  have "left (cw s2) \<le> left (cw s)" using or_raise_call [OF b] assms(2) unfolding deadline_laws_def by blast
  then show ?thesis using again_time [OF r assms(2)] by linarith
qed

lemma attempt_round_time:
  assumes "attempt_round E etx a s = Some (Ret (Inr (AttemptAgain y b'), s'))" and laws: "deadline_laws E left"
  shows "left (cw s') < left (cw s)"
proof -
  have st: "att_State a = TxAttemptInProgress"
    using assms(1) by (cases "att_State a = TxAttemptInProgress") (auto simp: attempt_round_def raises_def)
  obtain code err w where send: "cc_SendTransactionReturnCode E etx a (cw s) = ((code, err), w)"
    by (metis prod.exhaust)
  define s0 where "s0 = s\<lparr>cw := w, c_effects := c_effects s @ [CSent etx a]\<rparr>"
  have done_not: "done_after m s0 \<noteq> Some (Ret (Inr (AttemptAgain y b'), s'))" for m
    by (auto simp: done_after_def basic_prog elim!: andThenE)
  have "on_return_code E code err (ce_now E (cw s)) etx a s0 = Some (Ret (Inr (AttemptAgain y b'), s'))"
    using assms(1) attempt_round_eq [OF st send] by (simp add: s0_def)
  then have "on_underpriced E err etx a s0 = Some (Ret (Inr (AttemptAgain y b'), s')) \<or>
      on_terminally_stuck E err etx a s0 = Some (Ret (Inr (AttemptAgain y b'), s'))"
    unfolding on_return_code_def by (simp add: done_not raises_def split: if_split_asm)
  then have "0 < left (cw s0) \<and> left (cw s') \<le> left (cw s0)"
    using on_underpriced_time [OF _ laws] on_terminally_stuck_time [OF _ laws] by blast
  then have "0 < left w \<and> left (cw s') \<le> left w" by (simp add: s0_def)
  moreover have "left w < left (cw s) \<or> left w = 0"
    using laws [unfolded deadline_laws_def, THEN conjunct1, rule_format, OF send] .
  ultimately show ?thesis by linarith
qed

lemma attempt_round_ends: "\<exists>r. attempt_round E etx a s = Some r"
proof -
  have "ends (c_call f) s" for f :: "'b \<Rightarrow> (tx_error + 'c) \<times> 'b" and s :: "('a, 'b) conf"
    by (auto simp: ends_def c_call_def split: prod.splits)
  note calls = this
  have st: "ends (c_store f e) s" for f :: "'b \<Rightarrow> (tx_error + 'c) \<times> 'b" and e and s :: "('a, 'b) conf"
    unfolding c_store_def c_emit_def by (auto intro!: ends_andThen calls)
  have rp: "ends (replace_attempt E x y) s" for x y s
    unfolding replace_attempt_def by (intro ends_or_raise st)
  have bg: "ends (bumpGas E x as) s" for x as s
    unfolding bumpGas_def by (cases as) (auto intro!: ends_or_raise calls)
  have "ends (attempt_round E etx a) s"
    unfolding attempt_round_def on_return_code_def on_underpriced_def on_terminally_stuck_def done_after_def c_emit_def
    by (auto intro!: ends_andThen ends_or_raise calls st rp bg split: list.splits)
  then show ?thesis by (simp add: ends_def)
qed

definition is_send :: "'f conf_effect \<Rightarrow> bool" where
  "is_send e \<longleftrightarrow> (\<exists>x a. e = CSent x a)"

text \<open>One round sends at most once.\<close>

lemma attempt_round_sends:
  assumes "attempt_round E etx a s = Some (Ret (r, s'))"
  shows "\<exists>es. c_effects s' = c_effects s @ es \<and> length (filter is_send es) \<le> 1"
proof (cases "att_State a = TxAttemptInProgress")
  case True
  from attempt_round_effects [OF assms True] obtain es where es: "c_effects s' = c_effects s @ CSent etx a # es" "round_effects E a r es"
    by blast
  then have "filter is_send es = []"
    by (auto simp: round_effects_def is_send_def saved_as_def split: sum.splits attempt_next.splits)
  with es show ?thesis by (auto simp: is_send_def)
next
  case False
  then show ?thesis using assms by (simp add: attempt_round_def raises_def)
qed

text \<open>A client that reports every attempt as terminally stuck while building purge attempts never fails and saving one
  fails only after the deadline; every send takes one unit of time.\<close>

definition stuck_until_deadline :: "('f, 'w) conf_env \<Rightarrow> ('w \<Rightarrow> nat) \<Rightarrow> bool" where
  "stuck_until_deadline E left \<longleftrightarrow>
     (\<forall>x a w. \<exists>e w'. cc_SendTransactionReturnCode E x a w = ((TerminallyStuck, Some e), w') \<and> left w' = left w - 1) \<and>
     (\<forall>x w. \<exists>b w'. ca_NewPurgeTxAttempt E x w = (Inr b, w') \<and> left w' = left w) \<and>
     (\<forall>a b w. 0 < left w \<longrightarrow>
        (\<exists>d w'. cs_SaveReplacementInProgressAttempt E a b w = (Inr d, w') \<and> left w' = left w \<and> att_State d = TxAttemptInProgress)) \<and>
     (\<forall>a b w. left w = 0 \<longrightarrow> (\<exists>e w'. cs_SaveReplacementInProgressAttempt E a b w = (Inl e, w')))"


section \<open>An instance\<close>

text \<open>The world counts the calls of the clock; a fee below 2 is too low, and fees above 5 are not built.\<close>

definition demo_conf_env :: "(nat, nat) conf_env" where
  "demo_conf_env =
     \<lparr>cs_SetBroadcastBeforeBlockNum = (\<lambda>n w. (Inr (), w)),
      cs_FindReorgOrIncludedTxs = (\<lambda>a n w.
        (Inr ([(demo_tx 3)\<lparr>tx_TxAttempts := [demo_attempt 1]\<rparr>],
              [(demo_tx 1)\<lparr>tx_TxAttempts := [(demo_attempt 1)\<lparr>att_BroadcastBeforeBlockNum := Some 5\<rparr>]\<rparr>,
               (demo_tx 2)\<lparr>tx_TxAttempts := [(demo_attempt 1)\<lparr>att_IsPurgeAttempt := True\<rparr>]\<rparr>]), w)),
      cs_UpdateTxsForRebroadcast = (\<lambda>i j w. (Inr (), w)),
      cs_UpdateTxFatalError = (\<lambda>i m w. (Inr (), w)),
      cs_UpdateTxConfirmed = (\<lambda>i w. (Inr (), w)),
      cs_SaveInProgressAttempt = (\<lambda>a w. (Inr a, w)),
      cs_SaveReplacementInProgressAttempt = (\<lambda>a b w.
        (if 0 \<le> att_ID a \<and> att_ID a < 5 then Inr (b\<lparr>att_ID := att_ID a + 1, att_State := TxAttemptInProgress\<rparr>) else Inl (TxErr ''cap''), w)),
      cs_SaveSentAttempt = (\<lambda>a t w. (Inr (), w)),
      cs_SaveConfirmedAttempt = (\<lambda>a t w. (Inr (), w)),
      cs_SaveInsufficientFundsAttempt = (\<lambda>a t w. (Inr (), w)),
      cs_DeleteInProgressAttempt = (\<lambda>a w. (Inr (), w)),
      cs_LoadTxAttempts = (\<lambda>x w. (Inr x, w)),
      cs_GetInProgressTxAttempts = (\<lambda>a w. (Inr [], w)),
      cs_FindTxsRequiringResubmissionDueToInsufficientFunds = (\<lambda>a w. (Inr [(demo_tx 5)\<lparr>tx_Sequence := Some 9\<rparr>], w)),
      cs_FindTxsRequiringGasBump = (\<lambda>a b t d w.
        (Inr [(demo_tx 4)\<lparr>tx_Sequence := Some 7, tx_TxAttempts := [(demo_attempt 1)\<lparr>att_State := TxAttemptBroadcast\<rparr>]\<rparr>,
              (demo_tx 5)\<lparr>tx_Sequence := Some 9\<rparr>], w)),
      cs_FindTxWithSequence = (\<lambda>a n w. (Inr None, w)),
      cs_UpdateTxCallbackCompleted = (\<lambda>r w. (Inr (), w)),
      cc_SequenceAt = (\<lambda>a w. (Inr 4, w)),
      cc_SendTransactionReturnCode = (\<lambda>x a w.
        (if att_TxFee a < 2 then (Underpriced, Some (TxErr ''underpriced'')) else (Successful, None), w + 1)),
      cc_SendEmptyTransaction = (\<lambda>n g f a w. (Inr ''h'', w)),
      ca_NewBumpTxAttempt = (\<lambda>x a as w.
        (if att_TxFee a < 5 then Inr (a\<lparr>att_TxFee := att_TxFee a + 1, att_State := TxAttemptInProgress\<rparr>) else Inl TxBumpFeeExceedsLimit, w)),
      ca_NewPurgeTxAttempt = (\<lambda>x w. (Inr ((demo_attempt 2)\<lparr>att_IsPurgeAttempt := True\<rparr>), w)),
      ca_NewCustomTxAttempt = (\<lambda>x f g w. (Inr (demo_attempt f), w)),
      sd_DetectStuckTransactions = (\<lambda>as n w. (Inr [], w)),
      sd_SetPurgeBlockNum = (\<lambda>a n w. w),
      sd_LoadPurgeBlockNumMap = (\<lambda>as w. (Inr (), w)),
      sd_StuckTxFatalError = ''stuck'',
      ks_EnabledAddresses = (\<lambda>w. (Inr [''a''], w)),
      ce_resumeCallback = None,
      ce_now = int,
      ce_ctxErr = (\<lambda>w. False)\<rparr>"

definition demo_conf :: "(nat, nat) conf" where
  "demo_conf = \<lparr>cw = 0, c_enabledAddresses = Some [''a''], c_isStarted = True, c_effects = []\<rparr>"

definition demo_conf_cfg :: conf_cfg where
  "demo_conf_cfg = \<lparr>cf_BumpThreshold = 3, cf_BumpTxDepth = 16, cf_MaxInFlight = 1, cf_LimitDefault = 100\<rparr>"

text \<open>A client that finds everything terminally stuck, in a world that is the time left, with a store that accepts every
  replacement until none is.\<close>

definition stuck_conf_env :: "(nat, nat) conf_env" where
  "stuck_conf_env = demo_conf_env
     \<lparr>cc_SendTransactionReturnCode := \<lambda>x a w. ((TerminallyStuck, Some (TxErr ''stuck'')), w - 1),
      cs_SaveReplacementInProgressAttempt := \<lambda>a b w.
        (if w = 0 then Inl CtxDeadlineExceeded else Inr (b\<lparr>att_State := TxAttemptInProgress\<rparr>), w)\<rparr>"

lemma demo_conf_laws: "replacement_in_progress demo_conf_env"
  by (auto simp: replacement_in_progress_def demo_conf_env_def split: if_splits)

lemma stuck_conf_laws: "deadline_laws stuck_conf_env id" "stuck_until_deadline stuck_conf_env id"
  by (auto simp: deadline_laws_def stuck_until_deadline_def stuck_conf_env_def demo_conf_env_def split: if_splits)

subsection \<open>Marking and selecting\<close>

definition is_mark :: "'f conf_effect \<Rightarrow> bool" where
  "is_mark e \<longleftrightarrow> (\<exists>i j. e = CRebroadcast i j \<or> e = CFatal i \<or> e = CConfirmed i)"

lemma reorg_ids_Inr:
  "reorg_ids txs = Inr ids \<Longrightarrow>
   map fst ids = map tx_ID txs \<and> map snd ids = map (\<lambda>x. att_ID (hd (tx_TxAttempts x))) txs \<and> (\<forall>x\<in>set txs. tx_TxAttempts x \<noteq> [])"
  by (induction txs arbitrary: ids rule: reorg_ids.induct) (auto split: list.splits sum.splits)

lemma c_store_Inr:
  "c_store f e s = Some (Ret (Inr x, s')) \<Longrightarrow> c_effects s' = c_effects s @ [e x]"
  by (auto elim: c_storeE)

lemma ProcessReorgTxs_marks:
  assumes "ProcessReorgTxs E txs s = Some (Ret (Inr (), s'))"
  shows "c_effects s' = c_effects s @
      (if txs = [] then [] else [CRebroadcast (map tx_ID txs) (map (\<lambda>x. att_ID (hd (tx_TxAttempts x))) txs)]) \<and>
    (\<forall>x\<in>set txs. tx_TxAttempts x \<noteq> [])"
proof (cases "txs = []")
  case True
  then show ?thesis using assms by (simp add: ProcessReorgTxs_def returns_def)
next
  case False
  then obtain ids where ids: "reorg_ids txs = Inr ids"
    using assms by (cases "reorg_ids txs") (auto simp: ProcessReorgTxs_def raises_def)
  then have "c_store (cs_UpdateTxsForRebroadcast E (map fst ids) (map snd ids)) (\<lambda>_. CRebroadcast (map fst ids) (map snd ids)) s =
      Some (Ret (Inr (), s'))"
    using assms False by (simp add: ProcessReorgTxs_def)
  from c_store_Inr [OF this] reorg_ids_Inr [OF ids] False show ?thesis by simp
qed

lemma ProcessIncludedTxs_marks:
  assumes "ProcessIncludedTxs E txs n s = Some (Ret (Inr (), s'))"
  shows "\<exists>es. c_effects s' = c_effects s @ es \<and> filter is_mark es =
    (if txs = [] then [] else [CFatal (map tx_ID (filter HasPurgeAttempt txs)),
       CConfirmed (map tx_ID (filter (\<lambda>x. \<not> HasPurgeAttempt x) txs))])"
proof (cases "txs = []")
  case True
  then show ?thesis using assms by (simp add: ProcessIncludedTxs_def returns_def)
next
  case False
  have obs: "only_emits {e. \<not> is_mark e} (for_each (observe_included E n) txs)"
  proof (intro emits)
    fix x
    have "only_emits {e. \<not> is_mark e} (observeUntilTxConfirmed E x n)"
      unfolding observeUntilTxConfirmed_def Let_def by (auto intro!: emits simp: is_mark_def)
    then show "only_emits {e. \<not> is_mark e} (observe_included E n x)"
      by (auto simp: observe_included_def only_emits_def basic_prog is_mark_def)
  qed
  from assms False obtain s1 where o: "for_each (observe_included E n) txs s = Some (Ret (Inr (), s1))"
    and c: "c_effects s' = c_effects s1 @ [CFatal (map tx_ID (filter HasPurgeAttempt txs)),
      CConfirmed (map tx_ID (filter (\<lambda>x. \<not> HasPurgeAttempt x) txs))]"
    unfolding ProcessIncludedTxs_def Let_def
    by (auto elim!: andThen_InrE dest!: c_store_Inr simp: or_raise_Inr_iff)
  from only_emitsE [OF obs o] obtain es where "c_effects s1 = c_effects s @ es" "set es \<subseteq> {e. \<not> is_mark e}" .
  then have "filter is_mark es = []" by (auto simp: filter_empty_conv)
  then show ?thesis
    using c False \<open>c_effects s1 = c_effects s @ es\<close>
    by (intro exI [of _ "es @ [CFatal (map tx_ID (filter HasPurgeAttempt txs)), CConfirmed (map tx_ID (filter (\<lambda>x. \<not> HasPurgeAttempt x) txs))]"])
      (auto simp: is_mark_def)
qed

abbreviation seq_of :: "'f tx \<Rightarrow> int" where
  "seq_of x \<equiv> (case tx_Sequence x of None \<Rightarrow> 0 | Some n \<Rightarrow> n)"

lemma limit_in_flight_sorted:
  assumes "sorted (map f xs)"
  shows "sorted (map f (limit_in_flight m xs))"
    and "set (limit_in_flight m xs) \<subseteq> set xs"
    and "m = 0 \<or> length (limit_in_flight m xs) \<le> unat m"
    and "x \<in> set xs \<Longrightarrow> x \<notin> set (limit_in_flight m xs) \<Longrightarrow>
      0 < m \<and> length (limit_in_flight m xs) = unat m \<and> (\<forall>y\<in>set (limit_in_flight m xs). f y \<le> f x)"
proof -
  show "sorted (map f (limit_in_flight m xs))"
    using assms by (auto simp: limit_in_flight_def take_map [symmetric] intro: sorted_wrt_take)
  show "set (limit_in_flight m xs) \<subseteq> set xs"
    by (auto simp: limit_in_flight_def dest: in_set_takeD)
  show "m = 0 \<or> length (limit_in_flight m xs) \<le> unat m"
    using word_gt_0 [of m] by (auto simp: limit_in_flight_def)
  show "0 < m \<and> length (limit_in_flight m xs) = unat m \<and> (\<forall>y\<in>set (limit_in_flight m xs). f y \<le> f x)"
    if "x \<in> set xs" "x \<notin> set (limit_in_flight m xs)"
  proof -
    have lim: "limit_in_flight m xs = take (unat m) xs" "unat m < length xs" "0 < m"
      using that by (auto simp: limit_in_flight_def split: if_splits)
    have "x \<in> set (drop (unat m) xs)"
      using that lim(1) by (metis Un_iff append_take_drop_id set_append)
    moreover have "sorted (map f (take (unat m) xs) @ map f (drop (unat m) xs))"
      using assms by (metis append_take_drop_id map_append)
    ultimately show ?thesis using lim by (auto simp: sorted_append)
  qed
qed

section \<open>Properties\<close>

text \<open>C7. Handling an attempt in progress, if it returns: the attempts sent form a chain in which each attempt but
  the last was replaced in the store by the next before that one was sent; the last one is then saved as sent, confirmed
  or short of funds, or deleted, exactly when no error is returned, and stays in progress otherwise.\<close>

theorem attempt_fate:
  assumes "replacement_in_progress E" and "att_State a = TxAttemptInProgress"
    and "handleInProgressAttempt E etx a s = Some (Ret (r, s'))"
  shows "\<exists>es x last fate. c_effects s' = c_effects s @ es @ CSent x last # fate \<and> attempt_chain a es last \<and>
    (r = Inr () \<longleftrightarrow> (\<exists>e\<in>saved_as last. fate = [e])) \<and> (r \<noteq> Inr () \<longleftrightarrow> fate = [])"
proof -
  from handleInProgressAttempt_shape [OF assms(3,1) refl assms(2)]
  obtain es x last fate where e: "c_effects s' = c_effects s @ es @ CSent x last # fate" "attempt_chain a es last"
    and f: "case r of Inl err \<Rightarrow> fate = [] | Inr _ \<Rightarrow> \<exists>e\<in>saved_as last. fate = [e]"
    unfolding attempt_shape_def by blast
  from f have "(r = Inr () \<longleftrightarrow> (\<exists>e\<in>saved_as last. fate = [e])) \<and> (r \<noteq> Inr () \<longleftrightarrow> fate = [])"
    by (cases r) auto
  with e show ?thesis by blast
qed

theorem attempt_fate_witness:
  "\<exists>s'. handleInProgressAttempt demo_conf_env ((demo_tx 1)\<lparr>tx_TxAttempts := [demo_attempt 1]\<rparr>) (demo_attempt 1) demo_conf =
      Some (Ret (Inr (), s')) \<and> c_effects s' \<noteq> []"
proof -
  let ?x = "(demo_tx 1)\<lparr>tx_TxAttempts := [demo_attempt 1]\<rparr>"
  have "observe cw (handleInProgressAttempt demo_conf_env ?x (demo_attempt 1) demo_conf) = Some (Inr (), 2)"
    by code_simp
  then obtain s' where r: "handleInProgressAttempt demo_conf_env ?x (demo_attempt 1) demo_conf = Some (Ret (Inr (), s'))"
    by (rule observeE)
  have "att_State (demo_attempt 1) = TxAttemptInProgress" by (simp add: demo_attempt_def)
  from attempt_fate [OF demo_conf_laws this r] r show ?thesis by auto
qed

text \<open>C13. Under a deadline handling an attempt in progress ends, whatever the client, the builder and the store answer
  before it: at most one send for every unit of time left, and one more. The deadline is that of the context of \<open>ProcessHead\<close>;
  what is used of it is that every send takes time and that no replacement can be saved after it.\<close>

theorem attempts_end:
  assumes "deadline_laws E left"
  shows "\<exists>r. handleInProgressAttempt E etx a s = Some r \<and>
    (\<forall>q s'. r = Ret (q, s') \<longrightarrow>
       (\<exists>es. c_effects s' = c_effects s @ es \<and> length (filter is_send es) \<le> left (cw s) + 1))"
proof (induction "left (cw s)" arbitrary: etx a s rule: less_induct)
  case less
  obtain r where r: "attempt_round E etx a s = Some r" using attempt_round_ends by blast
  show ?case
  proof (cases "\<exists>x b s1. r = Ret (Inr (AttemptAgain x b), s1)")
    case True
    then obtain x b s1 where r': "r = Ret (Inr (AttemptAgain x b), s1)" by blast
    have time: "left (cw s1) < left (cw s)" by (rule attempt_round_time [OF _ assms]) (use r r' in simp)
    from attempt_round_sends [OF r [unfolded r']] obtain es1
      where es1: "c_effects s1 = c_effects s @ es1" "length (filter is_send es1) \<le> 1" by blast
    from less [OF time] obtain r2 where r2: "handleInProgressAttempt E x b s1 = Some r2"
      "\<forall>q s'. r2 = Ret (q, s') \<longrightarrow> (\<exists>es. c_effects s' = c_effects s1 @ es \<and> length (filter is_send es) \<le> left (cw s1) + 1)"
      by blast
    have "handleInProgressAttempt E etx a s = Some r2"
      using r2(1) by (subst handleInProgressAttempt.simps) (simp add: r r')
    moreover have "\<exists>es. c_effects s' = c_effects s @ es \<and> length (filter is_send es) \<le> left (cw s) + 1"
      if q: "r2 = Ret (q, s')" for q s'
    proof -
      from r2(2) q obtain es where "c_effects s' = c_effects s1 @ es" "length (filter is_send es) \<le> left (cw s1) + 1" by blast
      then show ?thesis using es1 time by (intro exI [of _ "es1 @ es"]) simp
    qed
    ultimately show ?thesis by blast
  next
    case False
    have "handleInProgressAttempt E etx a s = Some (case r of Panic m \<Rightarrow> Panic m | Ret (q, s1) \<Rightarrow> Ret (map_sum id (\<lambda>_. ()) q, s1))"
      using False by (subst handleInProgressAttempt.simps) (auto simp: r split: outcome.splits sum.splits attempt_next.splits)
    moreover have "\<exists>es. c_effects s1 = c_effects s @ es \<and> length (filter is_send es) \<le> left (cw s) + 1" if "r = Ret (q, s1)" for q s1
      using attempt_round_sends [OF r [unfolded that]] by (metis le_add2 le_trans)
    ultimately show ?thesis by (auto split: outcome.splits prod.splits)
  qed
qed

theorem attempts_end_witness:
  "\<exists>r. handleInProgressAttempt stuck_conf_env (demo_tx 1) (demo_attempt 1) (demo_conf\<lparr>cw := 3\<rparr>) = Some r"
  using attempts_end [OF stuck_conf_laws(1), of "demo_tx 1" "demo_attempt 1" "demo_conf\<lparr>cw := 3\<rparr>"] by blast



text \<open>However many heads the confirmer processes and whatever the other components answer, the number of
  blocks until confirmation is never recorded: the smallest broadcast block number is searched from 0 downwards and
  used only when it is positive.\<close>

theorem blocks_until_confirmed_never_recorded:
  assumes "conf_runLoop schedTxs schedAddrs c E heads s = Some (Ret (r, s'))"
  shows "\<exists>es. c_effects s' = c_effects s @ es \<and> (\<forall>e\<in>set es. \<forall>n. e \<noteq> CBlocksUntilConfirmed n)"
  using only_emitsE [OF conf_runLoop_emits assms] by (metis in_no_blocks subsetD)

theorem blocks_until_confirmed_never_recorded_witness:
  "\<exists>s'. conf_runLoop id id demo_conf_cfg demo_conf_env [10] demo_conf = Some (Ret (Inr (), s')) \<and>
     c_effects s' \<noteq> [] \<and> (\<forall>e\<in>set (c_effects s'). \<forall>n. e \<noteq> CBlocksUntilConfirmed n)"
proof -
  have "observe (\<lambda>s. c_effects s \<noteq> []) (conf_runLoop id id demo_conf_cfg demo_conf_env [10] demo_conf) = Some (Inr (), True)"
    by code_simp
  then obtain s' where r: "conf_runLoop id id demo_conf_cfg demo_conf_env [10] demo_conf = Some (Ret (Inr (), s'))"
    and n: "(c_effects s' \<noteq> []) = True"
    by (rule observeE)
  from blocks_until_confirmed_never_recorded [OF r] r n show ?thesis by (auto simp: demo_conf_def)
qed

text \<open>C9. When the check of an address succeeds, the store was told exactly this: the re-organised transactions are to
  be sent again with their first attempt (all of them, and each has one); of the included transactions those with a purge
  attempt are fatal and all others confirmed.\<close>

theorem confirmation_marks:
  assumes "cc_SequenceAt E a (cw s) = (Inr count, w1)" and "cs_FindReorgOrIncludedTxs E a count w1 = (Inr (reorg, incl), w2)"
    and "check_address E n a s = Some (Ret (Inr (), s'))"
  shows "\<exists>es. c_effects s' = c_effects s @ es \<and> (\<forall>x\<in>set reorg. tx_TxAttempts x \<noteq> []) \<and>
    filter is_mark es =
      (if reorg = [] then [] else [CRebroadcast (map tx_ID reorg) (map (\<lambda>x. att_ID (hd (tx_TxAttempts x))) reorg)]) @
      (if incl = [] then [] else [CFatal (map tx_ID (filter HasPurgeAttempt incl)),
         CConfirmed (map tx_ID (filter (\<lambda>x. \<not> HasPurgeAttempt x) incl))])"
proof -
  let ?s = "s\<lparr>cw := w2\<rparr>"
  from assms obtain s1 where r: "ProcessReorgTxs E reorg ?s = Some (Ret (Inr (), s1))"
    and i: "ProcessIncludedTxs E incl n s1 = Some (Ret (Inr (), s'))"
    unfolding check_address_def by (auto elim!: andThen_InrE c_callE simp: or_raise_Inr_iff)
  from ProcessReorgTxs_marks [OF r] ProcessIncludedTxs_marks [OF i] show ?thesis
    by (auto simp: is_mark_def)
qed

theorem confirmation_marks_witness:
  "\<exists>s' es. check_address demo_conf_env 10 ''a'' demo_conf = Some (Ret (Inr (), s')) \<and> c_effects s' = es \<and>
     filter is_mark es = [CRebroadcast [3] [1], CFatal [2], CConfirmed [1]]"
proof -
  have "observe cw (check_address demo_conf_env 10 ''a'' demo_conf) = Some (Inr (), 0)" by code_simp
  then obtain s' where r: "check_address demo_conf_env 10 ''a'' demo_conf = Some (Ret (Inr (), s'))" by (rule observeE)
  have q: "cc_SequenceAt demo_conf_env ''a'' (cw demo_conf) = (Inr 4, 0)" by (simp add: demo_conf_env_def demo_conf_def)
  have f: "cs_FindReorgOrIncludedTxs demo_conf_env ''a'' 4 0 =
      (Inr ([(demo_tx 3)\<lparr>tx_TxAttempts := [demo_attempt 1]\<rparr>],
              [(demo_tx 1)\<lparr>tx_TxAttempts := [(demo_attempt 1)\<lparr>att_BroadcastBeforeBlockNum := Some 5\<rparr>]\<rparr>,
               (demo_tx 2)\<lparr>tx_TxAttempts := [(demo_attempt 1)\<lparr>att_IsPurgeAttempt := True\<rparr>]\<rparr>]), 0)"
    by (simp add: demo_conf_env_def)
  from confirmation_marks [OF q f r] r show ?thesis
    by (auto simp: demo_conf_def demo_tx_def demo_attempt_def HasPurgeAttempt_def)
qed

text \<open>C10. The transactions to be sent again are in ascending order of their sequences and come from the two queries, one
  that both found from the first; when neither query returns an ID twice, no ID comes twice. A positive limit bounds their number:
  then one that is left out is left out because the limit is reached, and its sequence is not below that of any transaction
  taken. With the limit 0 none is left out.\<close>

theorem rebroadcast_selection:
  assumes "cs_FindTxsRequiringResubmissionDueToInsufficientFunds E a (cw s) = (Inr ins, w1)"
    and "cs_FindTxsRequiringGasBump E a n t d w1 = (Inr bumps, w2)" and "\<not> ce_ctxErr E w2"
    and "FindTxsRequiringRebroadcast E a n t d m s = Some (Ret (Inr etxs, s'))"
  shows "sorted (map seq_of etxs) \<and>
    (\<forall>x\<in>set etxs. x \<in> set ins \<or> x \<in> set bumps \<and> tx_ID x \<notin> tx_ID ` set ins) \<and>
    (m = 0 \<or> length etxs \<le> unat m) \<and>
    (distinct (map tx_ID ins) \<and> distinct (map tx_ID bumps) \<longrightarrow> distinct (map tx_ID etxs)) \<and>
    (\<forall>x\<in>set ins \<union> set bumps. \<exists>y\<in>set ins \<union> set bumps. tx_ID y = tx_ID x \<and>
       (y \<in> set etxs \<or> 0 < m \<and> length etxs = unat m \<and> (\<forall>z\<in>set etxs. seq_of z \<le> seq_of y)))"
proof -
  let ?m = "merge_rebroadcast ins bumps" and ?k = "sort_key seq_of (merge_rebroadcast ins bumps)"
  have r: "etxs = limit_in_flight m ?k"
  proof -
    have "(case sort_by_sequence ?m of Panic p \<Rightarrow> panics p | Ret xs \<Rightarrow> returns (limit_in_flight m xs)) (s\<lparr>cw := w2\<rparr>) =
        Some (Ret (Inr etxs :: tx_error + 'a tx list, s'))"
      using assms(4)
      by (simp add: FindTxsRequiringRebroadcast_def andThen_def trying_def c_call_def basic_prog assms(1-3) cong: if_cong)
    then show ?thesis by (cases "2 \<le> length ?m \<and> (\<exists>x\<in>set ?m. tx_Sequence x = None)") (auto simp: sort_by_sequence_def basic_prog)
  qed
  have srt: "sorted (map seq_of ?k)" by simp
  have sub: "set ?m = set ins \<union> {x \<in> set bumps. tx_ID x \<notin> tx_ID ` set ins}" by (auto simp: merge_rebroadcast_def)
  have dist: "distinct (map tx_ID etxs)" if "distinct (map tx_ID ins)" "distinct (map tx_ID bumps)"
  proof -
    have "map tx_ID (filter (\<lambda>x. tx_ID x \<notin> tx_ID ` set ins) bumps) = filter (\<lambda>i. i \<notin> tx_ID ` set ins) (map tx_ID bumps)"
      by (simp add: filter_map o_def)
    then have "distinct (map tx_ID ?m)" using that by (auto simp: merge_rebroadcast_def)
    then have "distinct (map tx_ID ?k)" unfolding distinct_map by simp
    then show ?thesis unfolding r limit_in_flight_def by (auto simp: take_map [symmetric] distinct_take)
  qed
  have left: "\<exists>y\<in>set ins \<union> set bumps. tx_ID y = tx_ID x \<and>
      (y \<in> set etxs \<or> 0 < m \<and> length etxs = unat m \<and> (\<forall>z\<in>set etxs. seq_of z \<le> seq_of y))" if x: "x \<in> set ins \<union> set bumps" for x
  proof -
    obtain y where y: "y \<in> set ?m" "tx_ID y = tx_ID x"
      using x by (cases "tx_ID x \<in> tx_ID ` set ins") (auto simp: merge_rebroadcast_def)
    have "y \<in> set etxs \<or> 0 < m \<and> length etxs = unat m \<and> (\<forall>z\<in>set etxs. seq_of z \<le> seq_of y)"
      using limit_in_flight_sorted(4) [OF srt, of y m] y(1) unfolding r set_sort by blast
    then show ?thesis using y sub by blast
  qed
  note lim = limit_in_flight_sorted(1-3) [OF srt, of m, folded r]
  show ?thesis
    using lim(1,3) lim(2) [unfolded set_sort sub] dist left by blast
qed

theorem rebroadcast_selection_witness:
  "\<exists>etxs s'. FindTxsRequiringRebroadcast demo_conf_env ''a'' 10 3 16 1 demo_conf = Some (Ret (Inr etxs, s')) \<and>
     map tx_ID etxs = [4] \<and> sorted (map seq_of etxs)"
proof -
  let ?f = "FindTxsRequiringRebroadcast demo_conf_env ''a'' 10 3 16 1 demo_conf"
  have "map_option (\<lambda>r. case r of Ret (Inr xs, s) \<Rightarrow> Some (map tx_ID xs) | _ \<Rightarrow> None) ?f = Some (Some [4])" by code_simp
  then obtain etxs s' where r: "?f = Some (Ret (Inr etxs, s'))" "map tx_ID etxs = [4]"
    by (cases ?f) (auto split: outcome.split_asm prod.split_asm sum.split_asm)
  have q: "cs_FindTxsRequiringResubmissionDueToInsufficientFunds demo_conf_env ''a'' (cw demo_conf) =
      (Inr [(demo_tx 5)\<lparr>tx_Sequence := Some 9\<rparr>], 0)" by (simp add: demo_conf_env_def demo_conf_def)
  have b: "cs_FindTxsRequiringGasBump demo_conf_env ''a'' 10 3 16 0 =
      (Inr [(demo_tx 4)\<lparr>tx_Sequence := Some 7, tx_TxAttempts := [(demo_attempt 1)\<lparr>att_State := TxAttemptBroadcast\<rparr>]\<rparr>,
            (demo_tx 5)\<lparr>tx_Sequence := Some 9\<rparr>], 0)" by (simp add: demo_conf_env_def)
  have "\<not> ce_ctxErr demo_conf_env 0" by (simp add: demo_conf_env_def)
  from rebroadcast_selection [OF q b this r(1)] have "sorted (map seq_of etxs)" by (rule conjunct1)
  then show ?thesis using r by (intro exI [of _ etxs] exI [of _ s'] conjI)
qed

end
