(* ===== verification/Tx_Tracker.thy ===== *)
theory Tx_Tracker
  imports Tx_Types Go_Monad
begin

text \<open>
  \<open>chains/txmgr/tracker.go\<close>: transactions whose sender is no longer an enabled address are tracked until they are
  finished, or marked as fatal when the time to live is over. The cache from transaction ID to sender is an association
  list; a loop over a Go map visits its keys in an unspecified order, which is the argument \<open>sched\<close>. The store and the
  key store are in \<open>trk_env\<close>; \<open>sqlutil.Batch\<close> is the argument \<open>batch\<close>.
\<close>

section \<open>Environment and state\<close>

record ('f, 'w) trk_env =
  tk_EnabledAddresses :: "'w \<Rightarrow> (tx_error + string list) \<times> 'w"
  tk_GetAbandonedTransactionsByBatch :: "string list \<Rightarrow> nat \<Rightarrow> nat \<Rightarrow> 'w \<Rightarrow> (tx_error + 'f tx list) \<times> 'w"
  tk_GetTxByID :: "int \<Rightarrow> 'w \<Rightarrow> (tx_error + 'f tx option) \<times> 'w"
  tk_UpdateTxFatalErrorAndDeleteAttempts :: "'f tx \<Rightarrow> 'w \<Rightarrow> (tx_error + unit) \<times> 'w"
  tk_ctxErr :: "'w \<Rightarrow> tx_error option"

record ('f, 'w) tx_tracker =
  tr_w :: 'w
  tr_enabledAddrs :: "string list option"
  tr_txCache :: "(int \<times> string) list"
  tr_isStarted :: bool
  tr_fatal :: "'f tx list"

type_synonym ('f, 'w, 'a) trk_prog = "(('f, 'w) tx_tracker, tx_error, 'a) prog"

definition batchSize :: nat where
  "batchSize = 1000"

definition t_call :: "('w \<Rightarrow> (tx_error + 'a) \<times> 'w) \<Rightarrow> ('f, 'w, 'a) trk_prog" where
  "t_call f s = (case f (tr_w s) of (r, w) \<Rightarrow> Some (Ret (r, s\<lparr>tr_w := w\<rparr>)))"

definition cache_delete :: "int \<Rightarrow> ('f, 'w) tx_tracker \<Rightarrow> ('f, 'w) tx_tracker" where
  "cache_delete txid s = s\<lparr>tr_txCache := filter (\<lambda>(i, _). i \<noteq> txid) (tr_txCache s)\<rparr>"

definition cache_insert :: "int \<Rightarrow> string \<Rightarrow> ('f, 'w) tx_tracker \<Rightarrow> ('f, 'w) tx_tracker" where
  "cache_insert txid a s = s\<lparr>tr_txCache := (txid, a) # filter (\<lambda>(i, _). i \<noteq> txid) (tr_txCache s)\<rparr>"

definition addr_enabled :: "string \<Rightarrow> ('f, 'w) tx_tracker \<Rightarrow> bool" where
  "addr_enabled a s \<longleftrightarrow> (case tr_enabledAddrs s of None \<Rightarrow> False | Some as \<Rightarrow> a \<in> set as)"

section \<open>Addresses\<close>

definition trk_SetEnabledAddresses :: "string list \<Rightarrow> ('f, 'w) tx_tracker \<Rightarrow> ('f, 'w) tx_tracker" where
  "trk_SetEnabledAddresses enabledAddrs s = s\<lparr>tr_enabledAddrs := Some (remdups enabledAddrs)\<rparr>"

definition ensureEnabledAddresses :: "('f, 'w) trk_env \<Rightarrow> ('f, 'w, unit) trk_prog" where
  "ensureEnabledAddresses E =
     andThen (reads tr_enabledAddrs) (\<lambda>enabled.
       if enabled \<noteq> None then returns ()
       else
         andThen (or_raise (Wrapped ''failed to get enabled addresses for chain'') (t_call (tk_EnabledAddresses E)))
           (\<lambda>as. updates (trk_SetEnabledAddresses as)))"

definition GetAbandonedAddresses :: "('f, 'w) tx_tracker \<Rightarrow> string list" where
  "GetAbandonedAddresses s = map snd (tr_txCache s)"

definition AbandonedTxCount :: "('f, 'w) tx_tracker \<Rightarrow> nat" where
  "AbandonedTxCount s = length (tr_txCache s)"

definition GetEnabledAddresses :: "(string list \<Rightarrow> string list) \<Rightarrow> ('f, 'w) tx_tracker \<Rightarrow> string list" where
  "GetEnabledAddresses sched s = sched (case tr_enabledAddrs s of None \<Rightarrow> [] | Some as \<Rightarrow> as)"

section \<open>Tracking\<close>

definition insert_abandoned :: "'f tx \<Rightarrow> ('f, 'w) tx_tracker \<Rightarrow> ('f, 'w) tx_tracker" where
  "insert_abandoned etx s = (if addr_enabled (tx_FromAddress etx) s then s else cache_insert (tx_ID etx) (tx_FromAddress etx) s)"

definition track_batch ::
  "(string list \<Rightarrow> string list) \<Rightarrow> ('f, 'w) trk_env \<Rightarrow> nat \<Rightarrow> nat \<Rightarrow> ('f, 'w, nat) trk_prog" where
  "track_batch sched E offset limit =
     andThen (reads (GetEnabledAddresses sched)) (\<lambda>enabledAddrs.
     andThen (or_raise (Wrapped ''failed to get non fatal txes from txStore'')
                (t_call (tk_GetAbandonedTransactionsByBatch E enabledAddrs offset limit)))
       (\<lambda>nonFatalTxes.
     andThen (updates (fold insert_abandoned nonFatalTxes)) (\<lambda>_. returns (length nonFatalTxes))))"

type_synonym ('f, 'w) batcher = "(nat \<Rightarrow> nat \<Rightarrow> ('f, 'w, nat) trk_prog) \<Rightarrow> nat \<Rightarrow> ('f, 'w, unit) trk_prog"

definition trackAbandonedTxes ::
  "('f, 'w) batcher \<Rightarrow> (string list \<Rightarrow> string list) \<Rightarrow> ('f, 'w) trk_env \<Rightarrow> ('f, 'w, unit) trk_prog" where
  "trackAbandonedTxes batch sched E = batch (track_batch sched E) batchSize"

definition markTxFatal :: "('f, 'w) trk_env \<Rightarrow> 'f tx option \<Rightarrow> string \<Rightarrow> ('f, 'w, unit) trk_prog" where
  "markTxFatal E etx errMsg =
     (case etx of
        None \<Rightarrow> panics nil_pointer
      | Some x \<Rightarrow>
          let x1 = x\<lparr>tx_Error := Some errMsg, tx_State := TxInProgress\<rparr> in
          andThen (or_raise (Wrapped ''failed to mark tx as abandoned'') (t_call (tk_UpdateTxFatalErrorAndDeleteAttempts E x1)))
            (\<lambda>_. updates (\<lambda>s. s\<lparr>tr_fatal := tr_fatal s @ [x]\<rparr>)))"

definition handle_tx :: "('f, 'w) trk_env \<Rightarrow> int \<Rightarrow> ('f, 'w, unit) trk_prog" where
  "handle_tx E txid =
     andThen (trying (t_call (tk_GetTxByID E txid))) (\<lambda>r.
       case r of
         Inl err \<Rightarrow> returns ()
       | Inr None \<Rightarrow> updates (cache_delete txid)
       | Inr (Some etx) \<Rightarrow>
           if tx_State etx = TxInProgress \<or> tx_State etx = TxUnstarted then
             andThen (trying (markTxFatal E (Some etx)
                 ''The FromAddress for this Tx was deleted before this Tx could be broadcast to the chain.''))
               (\<lambda>q. case q of Inl err \<Rightarrow> returns () | Inr _ \<Rightarrow> updates (cache_delete txid))
           else if tx_State etx = TxFatalError then updates (cache_delete txid)
           else returns ())"

definition handle_step :: "('f, 'w) trk_env \<Rightarrow> int \<Rightarrow> ('f, 'w, unit) trk_prog" where
  "handle_step E txid =
     andThen (reads (\<lambda>s. tk_ctxErr E (tr_w s))) (\<lambda>err.
       case err of Some e \<Rightarrow> raises e | None \<Rightarrow> handle_tx E txid)"

definition handleTxesByState :: "(int list \<Rightarrow> int list) \<Rightarrow> ('f, 'w) trk_env \<Rightarrow> ('f, 'w, unit) trk_prog" where
  "handleTxesByState sched E =
     andThen (reads (\<lambda>s. sched (map fst (tr_txCache s)))) (\<lambda>ids. for_each (handle_step E) ids)"

definition ttl_message :: string where
  "ttl_message = ''tx abandoned: fromAddress for this tx was deleted and existing attempts didn't finalize onchain''"

definition fatal_step :: "('f, 'w) trk_env \<Rightarrow> int \<Rightarrow> ('f, 'w, unit) trk_prog" where
  "fatal_step E txid =
     andThen (trying (t_call (tk_GetTxByID E txid))) (\<lambda>r.
       case r of
         Inl err \<Rightarrow> updates (cache_delete txid)
       | Inr etx \<Rightarrow> andThen (trying (markTxFatal E etx ttl_message)) (\<lambda>_. updates (cache_delete txid)))"

definition markAllTxesFatal :: "(int list \<Rightarrow> int list) \<Rightarrow> ('f, 'w) trk_env \<Rightarrow> ('f, 'w, unit) trk_prog" where
  "markAllTxesFatal sched E =
     andThen (reads (\<lambda>s. sched (map fst (tr_txCache s)))) (\<lambda>ids. for_each (fatal_step E) ids)"

section \<open>The service\<close>

definition trk_startInternal :: "('f, 'w) trk_env \<Rightarrow> ('f, 'w, unit) trk_prog" where
  "trk_startInternal E =
     andThen (or_raise (Wrapped ''failed to set enabled addresses'') (ensureEnabledAddresses E))
       (\<lambda>_. updates (\<lambda>s. s\<lparr>tr_isStarted := True\<rparr>))"

definition trk_closeInternal :: "('f, 'w, unit) trk_prog" where
  "trk_closeInternal =
     andThen (reads tr_isStarted) (\<lambda>isStarted.
       if \<not> isStarted then raises (Wrapped ''tracker is not started'' ErrAlreadyStopped)
       else updates (\<lambda>s. s\<lparr>tr_isStarted := False, tr_enabledAddrs := None\<rparr>))"

text \<open>What the loop waits for: block heights as \<open>RetrieveLatestAndClear\<close> returns them after a notification, the time to
  live, or the end of the context. The loop says whether it goes on.\<close>

datatype trk_event = TrkHeights "int list" | TrkTtlExceeded | TrkDone

fun trk_heights :: "(int list \<Rightarrow> int list) \<Rightarrow> ('f, 'w) trk_env \<Rightarrow> int list \<Rightarrow> ('f, 'w, bool) trk_prog" where
  "trk_heights sched E [] = returns True"
| "trk_heights sched E (h # hs) =
     (if h = 0 then returns True
      else
        andThen (trying (handleTxesByState sched E)) (\<lambda>r.
          case r of
            Inl err \<Rightarrow> returns False
          | Inr _ \<Rightarrow>
              andThen (reads AbandonedTxCount) (\<lambda>n. if n = 0 then returns False else trk_heights sched E hs)))"

fun trk_loop :: "(int list \<Rightarrow> int list) \<Rightarrow> ('f, 'w) trk_env \<Rightarrow> trk_event list \<Rightarrow> ('f, 'w, bool) trk_prog" where
  "trk_loop sched E [] = returns True"
| "trk_loop sched E (TrkHeights hs # evs) =
     andThen (trk_heights sched E hs) (\<lambda>go. if go then trk_loop sched E evs else returns False)"
| "trk_loop sched E (TrkTtlExceeded # evs) = andThen (markAllTxesFatal sched E) (\<lambda>_. returns False)"
| "trk_loop sched E (TrkDone # evs) = returns False"

definition trk_runLoop ::
  "('f, 'w) batcher \<Rightarrow> (string list \<Rightarrow> string list) \<Rightarrow> (int list \<Rightarrow> int list) \<Rightarrow> ('f, 'w) trk_env \<Rightarrow> trk_event list \<Rightarrow>
   ('f, 'w, bool) trk_prog" where
  "trk_runLoop batch schedAddrs sched E evs =
     andThen (trying (andThen (trackAbandonedTxes batch schedAddrs E) (\<lambda>_. handleTxesByState sched E))) (\<lambda>r.
       case r of
         Inl err \<Rightarrow> returns False
       | Inr _ \<Rightarrow> andThen (reads AbandonedTxCount) (\<lambda>n. if n = 0 then returns False else trk_loop sched E evs))"

section \<open>Lemmas\<close>

text \<open>A store that holds the transactions \<open>db\<close>, takes every update, and a context that is not over.\<close>

definition store_view :: "('f, 'w) trk_env \<Rightarrow> (int \<Rightarrow> 'f tx option) \<Rightarrow> bool" where
  "store_view E db \<longleftrightarrow>
     (\<forall>i w. tk_GetTxByID E i w = (Inr (db i), w)) \<and>
     (\<forall>x w. fst (tk_UpdateTxFatalErrorAndDeleteAttempts E x w) = Inr ()) \<and>
     (\<forall>w. tk_ctxErr E w = None)"

definition never_sent :: "'f tx \<Rightarrow> bool" where
  "never_sent x \<longleftrightarrow> tx_State x = TxInProgress \<or> tx_State x = TxUnstarted"

definition finished :: "'f tx option \<Rightarrow> bool" where
  "finished t \<longleftrightarrow> (case t of None \<Rightarrow> True | Some x \<Rightarrow> never_sent x \<or> tx_State x = TxFatalError)"

fun fatal_of :: "('f tx \<Rightarrow> bool) \<Rightarrow> (int \<Rightarrow> 'f tx option) \<Rightarrow> int list \<Rightarrow> 'f tx list" where
  "fatal_of P db [] = []"
| "fatal_of P db (i # is) = (case db i of None \<Rightarrow> [] | Some x \<Rightarrow> if P x then [x] else []) @ fatal_of P db is"

lemma fatal_of_set: "x \<in> set (fatal_of P db is) \<longleftrightarrow> P x \<and> (\<exists>i\<in>set is. db i = Some x)"
  by (induction "is") (auto split: option.splits)

lemma markTxFatal_view:
  assumes "store_view E db"
  shows "\<exists>w. markTxFatal E (Some x) msg s = Some (Ret (Inr (), s\<lparr>tr_w := w, tr_fatal := tr_fatal s @ [x]\<rparr>))"
proof -
  let ?x = "x\<lparr>tx_Error := Some msg, tx_State := TxInProgress\<rparr>"
  obtain w where "tk_UpdateTxFatalErrorAndDeleteAttempts E ?x (tr_w s) = (Inr (), w)"
    using assms unfolding store_view_def by (metis prod.collapse)
  then show ?thesis
    by (simp add: markTxFatal_def Let_def or_raise_def andThen_def trying_def t_call_def basic_prog) blast
qed

lemma handle_step_view:
  assumes "store_view E db"
  shows "\<exists>s'. handle_step E i s = Some (Ret (Inr (), s')) \<and>
    tr_txCache s' = filter (\<lambda>(j, _). \<not> (j = i \<and> finished (db i))) (tr_txCache s) \<and>
    tr_fatal s' = tr_fatal s @ fatal_of never_sent db [i] \<and> tr_enabledAddrs s' = tr_enabledAddrs s"
proof -
  have get: "tk_GetTxByID E i w = (Inr (db i), w)" "tk_ctxErr E w = None" for w
    using assms by (auto simp: store_view_def)
  have keep: "filter (\<lambda>(j, _). True) xs = xs" for xs :: "(int \<times> string) list" by (simp add: split_def)
  show ?thesis
  proof (cases "\<exists>x. db i = Some x \<and> never_sent x")
    case True
    then obtain x where x: "db i = Some x" "never_sent x" by blast
    obtain w where "markTxFatal E (Some x)
        ''The FromAddress for this Tx was deleted before this Tx could be broadcast to the chain.'' s =
        Some (Ret (Inr (), s\<lparr>tr_w := w, tr_fatal := tr_fatal s @ [x]\<rparr>))"
      using markTxFatal_view [OF assms] by blast
    then show ?thesis using x get
      by (auto simp: handle_step_def handle_tx_def andThen_def trying_def t_call_def basic_prog cache_delete_def
          finished_def never_sent_def)
  next
    case False
    then show ?thesis using get
      by (auto simp: handle_step_def handle_tx_def andThen_def trying_def t_call_def basic_prog cache_delete_def
          finished_def never_sent_def keep split: option.splits)
  qed
qed

lemma handle_steps_view:
  assumes "store_view E db"
  shows "\<exists>s'. for_each (handle_step E) is s = Some (Ret (Inr (), s')) \<and>
    tr_txCache s' = filter (\<lambda>(j, _). \<not> (j \<in> set is \<and> finished (db j))) (tr_txCache s) \<and>
    tr_fatal s' = tr_fatal s @ fatal_of never_sent db is"
proof (induction "is" arbitrary: s)
  case Nil
  show ?case by (simp add: returns_def split_def)
next
  case (Cons i "is")
  from handle_step_view [OF assms, of i s] obtain s1 where s1: "handle_step E i s = Some (Ret (Inr (), s1))"
    "tr_txCache s1 = filter (\<lambda>(j, _). \<not> (j = i \<and> finished (db i))) (tr_txCache s)"
    "tr_fatal s1 = tr_fatal s @ fatal_of never_sent db [i]" by blast
  from Cons.IH [of s1] obtain s2 where s2: "for_each (handle_step E) is s1 = Some (Ret (Inr (), s2))"
    "tr_txCache s2 = filter (\<lambda>(j, _). \<not> (j \<in> set is \<and> finished (db j))) (tr_txCache s1)"
    "tr_fatal s2 = tr_fatal s1 @ fatal_of never_sent db is" by blast
  have "for_each (handle_step E) (i # is) s = Some (Ret (Inr (), s2))" using s1(1) s2(1) by (simp add: andThen_def)
  moreover have "tr_txCache s2 = filter (\<lambda>(j, _). \<not> (j \<in> set (i # is) \<and> finished (db j))) (tr_txCache s)"
    unfolding s1(2) s2(2) by (auto simp: intro!: filter_cong)
  ultimately show ?case using s1(3) s2(3) by auto
qed

lemma fatal_step_cache:
  assumes "fatal_step E i s = Some (Ret (r, s'))"
  shows "r = Inr () \<and> tr_txCache s' = filter (\<lambda>(j, _). j \<noteq> i) (tr_txCache s)"
proof -
  have call: "t_call f t = Some (Ret (q, t')) \<Longrightarrow> tr_txCache t' = tr_txCache t" for f :: "'b \<Rightarrow> (tx_error + 'c) \<times> 'b" and t t' q
    by (auto simp: t_call_def split: prod.splits)
  have mark: "markTxFatal E x m t = Some (Ret (q, t')) \<Longrightarrow> tr_txCache t' = tr_txCache t" for x m t t' q
    by (cases x) (auto simp: markTxFatal_def Let_def basic_prog elim!: andThenE or_raiseE dest!: call)
  show ?thesis
    using assms unfolding fatal_step_def
    by (elim andThenE tryingE) (auto simp: basic_prog cache_delete_def elim!: andThenE tryingE dest!: call mark split: sum.splits)
qed

lemma fatal_steps_cache:
  "for_each (fatal_step E) is s = Some (Ret (r, s')) \<Longrightarrow>
   r = Inr () \<and> tr_txCache s' = filter (\<lambda>(j, _). j \<notin> set is) (tr_txCache s)"
proof (induction "is" arbitrary: s)
  case Nil
  then show ?case by (auto simp: basic_prog split_def)
next
  case (Cons i "is")
  from Cons.prems have "andThen (fatal_step E i) (\<lambda>_. for_each (fatal_step E) is) s = Some (Ret (r, s'))" by simp
  then show ?case
  proof (cases rule: andThenE)
    case (fails e)
    then show ?thesis using fatal_step_cache [OF fails(1)] by simp
  next
    case (continues x s1)
    from fatal_step_cache [OF continues(1)] Cons.IH [OF continues(2)] show ?thesis
      by (auto intro!: filter_cong)
  qed
qed

lemma fatal_step_view:
  assumes "store_view E db" and "fatal_step E i s = Some (Ret (r, s'))"
  shows "tr_fatal s' = tr_fatal s @ fatal_of (\<lambda>_. True) db [i]"
proof -
  have get: "tk_GetTxByID E i w = (Inr (db i), w)" for w using assms(1) by (simp add: store_view_def)
  obtain x where x: "db i = Some x"
    using assms(2) get by (cases "db i") (auto simp: fatal_step_def markTxFatal_def andThen_def trying_def t_call_def basic_prog)
  obtain w where "markTxFatal E (Some x) ttl_message s = Some (Ret (Inr (), s\<lparr>tr_w := w, tr_fatal := tr_fatal s @ [x]\<rparr>))"
    using markTxFatal_view [OF assms(1)] by blast
  then show ?thesis
    using assms(2) get x by (auto simp: fatal_step_def andThen_def trying_def t_call_def basic_prog cache_delete_def)
qed

lemma fatal_steps_view:
  assumes "store_view E db"
  shows "for_each (fatal_step E) is s = Some (Ret (r, s')) \<Longrightarrow> tr_fatal s' = tr_fatal s @ fatal_of (\<lambda>_. True) db is"
proof (induction "is" arbitrary: s)
  case Nil
  then show ?case by (simp add: returns_def)
next
  case (Cons i "is")
  from Cons.prems have "andThen (fatal_step E i) (\<lambda>_. for_each (fatal_step E) is) s = Some (Ret (r, s'))" by simp
  then show ?case
  proof (cases rule: andThenE)
    case (fails e)
    then show ?thesis using fatal_step_cache [OF fails(1)] by simp
  next
    case (continues x s1)
    from fatal_step_view [OF assms continues(1)] Cons.IH [OF continues(2)] show ?thesis by simp
  qed
qed

text \<open>\<open>sqlutil.Batch\<close> does nothing but call its function.\<close>

definition batch_law :: "('f, 'w) batcher \<Rightarrow> bool" where
  "batch_law batch \<longleftrightarrow> (\<forall>I cb n. (\<forall>offset limit. kept I (cb offset limit)) \<longrightarrow> kept I (batch cb n))"

text \<open>The cache has one entry per transaction, and every entry that is not among the old ones \<open>C\<close> has a sender that is
  not enabled.\<close>

definition cache_ok :: "(int \<times> string) set \<Rightarrow> string list option \<Rightarrow> ('f, 'w) tx_tracker \<Rightarrow> bool" where
  "cache_ok C enabled s \<longleftrightarrow>
     tr_enabledAddrs s = enabled \<and> distinct (map fst (tr_txCache s)) \<and>
     (\<forall>(i, a)\<in>set (tr_txCache s) - C. \<forall>as. enabled = Some as \<longrightarrow> a \<notin> set as)"

lemma cache_ok_insert: "cache_ok C enabled s \<Longrightarrow> cache_ok C enabled (insert_abandoned x s)"
  by (auto simp: cache_ok_def insert_abandoned_def addr_enabled_def cache_insert_def distinct_map_filter split: option.splits)

lemma cache_ok_inserts: "cache_ok C enabled s \<Longrightarrow> cache_ok C enabled (fold insert_abandoned xs s)"
  by (induction xs arbitrary: s) (auto intro: cache_ok_insert)

lemma track_batch_cache_ok: "kept (cache_ok C enabled) (track_batch sched E offset limit)"
proof -
  have "kept (cache_ok C enabled) (t_call f)" for f :: "'b \<Rightarrow> (tx_error + 'c) \<times> 'b"
    by (rule keptI) (auto simp: t_call_def cache_ok_def split: prod.splits)
  then show ?thesis unfolding track_batch_def by (intro keeps cache_ok_inserts)
qed

section \<open>An instance\<close>

definition demo_db :: "int \<Rightarrow> nat tx option" where
  "demo_db i =
     (if i = 1 then Some ((demo_tx 1)\<lparr>tx_State := TxFinalized\<rparr>)
      else if i = 2 then Some (demo_tx 2)
      else None)"

definition demo_trk_env :: "(nat, 'w) trk_env" where
  "demo_trk_env =
     \<lparr>tk_EnabledAddresses = (\<lambda>w. (Inr [''b''], w)),
      tk_GetAbandonedTransactionsByBatch = (\<lambda>as off lim w. (Inr (if off = 0 then [(demo_tx 1)\<lparr>tx_State := TxFinalized\<rparr>, demo_tx 2] else []), w)),
      tk_GetTxByID = (\<lambda>i w. (Inr (demo_db i), w)),
      tk_UpdateTxFatalErrorAndDeleteAttempts = (\<lambda>x w. (Inr (), w)),
      tk_ctxErr = (\<lambda>w. None)\<rparr>"

definition demo_tracker :: "(nat, unit) tx_tracker" where
  "demo_tracker = \<lparr>tr_w = (), tr_enabledAddrs = Some [''b''], tr_txCache = [(1, ''a''), (2, ''a''), (3, ''a'')], tr_isStarted = True, tr_fatal = []\<rparr>"

text \<open>One call is a run of \<open>Batch\<close> when its result is not full.\<close>

definition demo_batch :: "('f, 'w) batcher" where
  "demo_batch cb n = andThen (cb 0 n) (\<lambda>_. returns ())"

lemma demo_store_view: "store_view demo_trk_env demo_db"
  by (simp add: store_view_def demo_trk_env_def)

lemma demo_batch_law: "batch_law demo_batch"
  unfolding batch_law_def demo_batch_def by (auto intro!: keeps)

section \<open>Properties\<close>

text \<open>One pass over the tracked transactions, with a store that answers: exactly those still in progress or
  unstarted are marked as fatal, each once, and exactly those, the ones already fatal and the ones that no longer exist are
  dropped; all others, finalized ones included, stay tracked.\<close>

theorem tracker_pass:
  assumes "store_view E db" and "set (sched (map fst (tr_txCache s))) = set (map fst (tr_txCache s))"
    and "distinct (sched (map fst (tr_txCache s)))"
  shows "\<exists>s'. handleTxesByState sched E s = Some (Ret (Inr (), s')) \<and>
    tr_txCache s' = filter (\<lambda>(i, _). \<not> finished (db i)) (tr_txCache s) \<and>
    tr_fatal s' = tr_fatal s @ fatal_of never_sent db (sched (map fst (tr_txCache s)))"
proof -
  let ?is = "sched (map fst (tr_txCache s))"
  from handle_steps_view [OF assms(1), of ?is s] obtain s' where s': "for_each (handle_step E) ?is s = Some (Ret (Inr (), s'))"
    "tr_txCache s' = filter (\<lambda>(j, _). \<not> (j \<in> set ?is \<and> finished (db j))) (tr_txCache s)"
    "tr_fatal s' = tr_fatal s @ fatal_of never_sent db ?is" by blast
  have "tr_txCache s' = filter (\<lambda>(i, _). \<not> finished (db i)) (tr_txCache s)"
    unfolding s'(2) assms(2) by (rule filter_cong) force+
  then show ?thesis using s' by (simp add: handleTxesByState_def andThen_def reads_def)
qed

theorem tracker_pass_witness:
  "\<exists>s'. handleTxesByState id demo_trk_env demo_tracker = Some (Ret (Inr (), s')) \<and> tr_txCache s' = [(1, ''a'')] \<and>
     tr_fatal s' = [demo_tx 2]"
  using tracker_pass [OF demo_store_view, of id demo_tracker]
  by (simp add: demo_tracker_def demo_db_def finished_def never_sent_def demo_tx_def)

text \<open>When the time to live is over every tracked transaction is dropped, whatever the store answers, unless the
  tracker panics on one that no longer exists; with a store that answers, all of them are marked as fatal, confirmed and
  finalized ones included.\<close>

theorem tracker_ttl:
  assumes "set (sched (map fst (tr_txCache s))) = set (map fst (tr_txCache s))"
    and "markAllTxesFatal sched E s = Some (Ret (r, s'))"
  shows "r = Inr () \<and> tr_txCache s' = [] \<and>
    (\<forall>db. store_view E db \<longrightarrow> tr_fatal s' = tr_fatal s @ fatal_of (\<lambda>_. True) db (sched (map fst (tr_txCache s))))"
proof -
  have run: "for_each (fatal_step E) (sched (map fst (tr_txCache s))) s = Some (Ret (r, s'))"
    using assms(2) by (simp add: markAllTxesFatal_def andThen_def reads_def)
  have "tr_txCache s' = []" using fatal_steps_cache [OF run] assms(1) by (force simp: filter_empty_conv)
  then show ?thesis using fatal_steps_cache [OF run] fatal_steps_view [OF _ run] by simp
qed

theorem tracker_ttl_witness:
  "\<exists>s'. markAllTxesFatal id demo_trk_env (demo_tracker\<lparr>tr_txCache := [(1, ''a''), (2, ''a'')]\<rparr>) = Some (Ret (Inr (), s')) \<and>
     tr_txCache s' = [] \<and> map tx_State (tr_fatal s') = [TxFinalized, TxUnstarted]"
proof -
  let ?s = "demo_tracker\<lparr>tr_txCache := [(1, ''a''), (2, ''a'')]\<rparr>"
  have "observe (\<lambda>s. map tx_State (tr_fatal s)) (markAllTxesFatal id demo_trk_env ?s) = Some (Inr (), [TxFinalized, TxUnstarted])"
    by code_simp
  then obtain s' where r: "markAllTxesFatal id demo_trk_env ?s = Some (Ret (Inr (), s'))"
    and f: "map tx_State (tr_fatal s') = [TxFinalized, TxUnstarted]" by (rule observeE)
  have "tr_txCache s' = []" by (rule tracker_ttl [OF _ r, THEN conjunct2, THEN conjunct1]) simp
  then show ?thesis using r f by (intro exI [of _ s'] conjI)
qed

text \<open>The cache outlives a restart: a transaction tracked as abandoned stays tracked after its sender was
  enabled again, so that the time to live still marks it as fatal.\<close>

theorem reenabled_sender_stays_tracked:
  assumes "tr_isStarted s" and "(i, a) \<in> set (tr_txCache s)" and "a \<in> set as"
  shows "\<exists>s1 s2. trk_closeInternal s = Some (Ret (Inr (), s1)) \<and>
    trk_startInternal E (trk_SetEnabledAddresses as s1) = Some (Ret (Inr (), s2)) \<and>
    addr_enabled a s2 \<and> (i, a) \<in> set (tr_txCache s2)"
  using assms
  by (auto simp: trk_closeInternal_def trk_startInternal_def ensureEnabledAddresses_def trk_SetEnabledAddresses_def or_raise_def
      andThen_def trying_def basic_prog addr_enabled_def)

theorem reenabled_sender_stays_tracked_witness:
  "\<exists>s1 s2. trk_closeInternal demo_tracker = Some (Ret (Inr (), s1)) \<and>
    trk_startInternal demo_trk_env (trk_SetEnabledAddresses [''a''] s1) = Some (Ret (Inr (), s2)) \<and>
    addr_enabled ''a'' s2 \<and> (1, ''a'') \<in> set (tr_txCache s2)"
  by (rule reenabled_sender_stays_tracked) (simp_all add: demo_tracker_def)

text \<open>Looking for abandoned transactions adds only transactions of senders that are not enabled, and keeps one
  entry per transaction.\<close>

theorem tracks_only_disabled:
  assumes "batch_law batch" and "distinct (map fst (tr_txCache s))"
    and "trackAbandonedTxes batch sched E s = Some (Ret (r, s'))"
  shows "distinct (map fst (tr_txCache s')) \<and>
    (\<forall>(i, a)\<in>set (tr_txCache s') - set (tr_txCache s). \<not> addr_enabled a s')"
proof -
  have "kept (cache_ok (set (tr_txCache s)) (tr_enabledAddrs s)) (batch (track_batch sched E) batchSize)"
    using assms(1) track_batch_cache_ok unfolding batch_law_def by blast
  from keptD [OF this] assms(2,3) show ?thesis
    by (auto simp: trackAbandonedTxes_def cache_ok_def addr_enabled_def split: option.splits)
qed

theorem tracks_only_disabled_witness:
  "\<exists>r s'. trackAbandonedTxes demo_batch id demo_trk_env (demo_tracker\<lparr>tr_txCache := []\<rparr>) = Some (Ret (r, s')) \<and>
     distinct (map fst (tr_txCache s'))"
proof -
  let ?s = "demo_tracker\<lparr>tr_txCache := []\<rparr>"
  have "observe (\<lambda>s. map fst (tr_txCache s)) (trackAbandonedTxes demo_batch id demo_trk_env ?s) = Some (Inr (), [2, 1])"
    by code_simp
  then obtain s' where r: "trackAbandonedTxes demo_batch id demo_trk_env ?s = Some (Ret (Inr (), s'))" by (rule observeE)
  have "distinct (map fst (tr_txCache ?s))" by simp
  from tracks_only_disabled [OF demo_batch_law this r] r show ?thesis by blast
qed

end
