(* ===== verification/Tx_Service.thy ===== *)
theory Tx_Service
  imports Tx_Broadcaster Tx_Confirmer Tx_Tracker
begin

text \<open>
  The services behind the transaction manager: starting, stopping and triggering the broadcaster and its monitor per
  address (\<open>chains/txmgr/broadcaster.go\<close>), and the interface \<open>resetableService\<close> (\<open>chains/txmgr/txmgr.go\<close>) that the
  broadcaster, the confirmer and the tracker implement: a locale with one interpretation for each of them.
\<close>

section \<open>The broadcaster as a service\<close>

text \<open>A trigger is a channel of capacity one, here whether a signal is in it; \<open>bs_triggers\<close> is nil before the first start.
  \<open>bs_monitors\<close> lists the addresses with a monitor goroutine.\<close>

record 'w bsvc =
  bs_w :: 'w
  bs_isStarted :: bool
  bs_enabledAddresses :: "string list option"
  bs_triggers :: "(string \<rightharpoonup> bool) option"
  bs_unknownErrs :: "string \<rightharpoonup> unknownErrState"
  bs_monitors :: "string list"

type_synonym ('w, 'a) bsvc_prog = "('w bsvc, tx_error, 'a) prog"

definition b_call :: "('w \<Rightarrow> (tx_error + 'a) \<times> 'w) \<Rightarrow> ('w, 'a) bsvc_prog" where
  "b_call f s = (case f (bs_w s) of (r, w) \<Rightarrow> Some (Ret (r, s\<lparr>bs_w := w\<rparr>)))"

definition bc_startInternal :: "('w \<Rightarrow> (tx_error + string list) \<times> 'w) \<Rightarrow> ('w, unit) bsvc_prog" where
  "bc_startInternal enabledAddresses =
     andThen (reads bs_isStarted) (\<lambda>isStarted.
       if isStarted then raises (TxErr ''Broadcaster is already started'')
       else
         andThen (reads bs_enabledAddresses) (\<lambda>enabled.
         andThen
           (if enabled = None then
              andThen (or_raise (Wrapped ''Broadcaster: failed to load EnabledAddresses'') (b_call enabledAddresses))
                (\<lambda>as. updates (\<lambda>s. s\<lparr>bs_enabledAddresses := Some as\<rparr>))
            else returns ())
           (\<lambda>_. updates (\<lambda>s. s\<lparr>bs_triggers := Some Map.empty, bs_unknownErrs := Map.empty, bs_isStarted := True\<rparr>))))"

text \<open>The goroutine that \<open>startInternal\<close> starts; \<open>load\<close> is the sequence tracker's \<open>LoadNextSequences\<close>.\<close>

definition loadAndMonitor :: "(string list \<Rightarrow> 'w \<Rightarrow> 'w) \<Rightarrow> 'w bsvc \<Rightarrow> 'w bsvc" where
  "loadAndMonitor load s =
     (let as = (case bs_enabledAddresses s of None \<Rightarrow> [] | Some as \<Rightarrow> as);
          t = (case bs_triggers s of None \<Rightarrow> Map.empty | Some t \<Rightarrow> t)
      in s\<lparr>bs_w := load as (bs_w s), bs_triggers := Some (foldl (\<lambda>t a. t(a \<mapsto> False)) t as), bs_monitors := bs_monitors s @ as\<rparr>)"

text \<open>\<open>closeInternal\<close> waits for the monitors.\<close>

definition bc_closeInternal :: "('w, unit) bsvc_prog" where
  "bc_closeInternal =
     andThen (reads bs_isStarted) (\<lambda>isStarted.
       if \<not> isStarted then raises (Wrapped ''Broadcaster is not started'' ErrAlreadyStopped)
       else updates (\<lambda>s. s\<lparr>bs_monitors := [], bs_isStarted := False, bs_enabledAddresses := None\<rparr>))"

definition bc_SetEnabledAddresses :: "string list \<Rightarrow> 'w bsvc \<Rightarrow> 'w bsvc" where
  "bc_SetEnabledAddresses addrs s = s\<lparr>bs_enabledAddresses := Some addrs\<rparr>"

text \<open>Whether the service is started is only logged.\<close>

definition bc_Trigger :: "string \<Rightarrow> 'w bsvc \<Rightarrow> 'w bsvc" where
  "bc_Trigger addr s =
     (case bs_triggers s of
        None \<Rightarrow> s
      | Some t \<Rightarrow> (case t addr of None \<Rightarrow> s | Some _ \<Rightarrow> s\<lparr>bs_triggers := Some (t(addr \<mapsto> True))\<rparr>))"

text \<open>The monitor of an address: one pass over the queue, then one event. \<open>errorRetryCh\<close> is nil, and never ready, unless
  the last pass was retryable; an event that cannot happen ends the run of the model with \<^term>\<open>None\<close>. The result says
  whether the monitor stopped.\<close>

datatype mon_event = MonStop | MonTrigger | MonPoll | MonRetry

fun monitor_loop ::
  "('s \<Rightarrow> ((bool \<times> tx_error option) \<times> 's) outcome option) \<Rightarrow> mon_event list \<Rightarrow> 's \<Rightarrow> (bool \<times> 's) outcome option" where
  "monitor_loop process [] s = Some (Ret (False, s))"
| "monitor_loop process (ev # evs) s =
     (case process s of
        None \<Rightarrow> None
      | Some (Panic m) \<Rightarrow> Some (Panic m)
      | Some (Ret ((retryable, err), s1)) \<Rightarrow>
          if ev = MonStop then Some (Ret (True, s1))
          else if ev = MonRetry \<and> \<not> retryable then None
          else monitor_loop process evs s1)"

definition monitorTxs ::
  "broadcaster_cfg \<Rightarrow> ('f, 'w) txm_env \<Rightarrow> (string \<Rightarrow> 'w \<Rightarrow> bool \<times> 'w) option \<Rightarrow> string \<Rightarrow> mon_event list \<Rightarrow> ('f, 'w) bcast \<Rightarrow>
   (bool \<times> ('f, 'w) bcast) outcome option" where
  "monitorTxs c E syncSequence addr evs b =
     (case syncSequence of
        None \<Rightarrow> monitor_loop (processUnstartedTxs c E addr) evs b
      | Some sync \<Rightarrow>
          (case sync addr (bw b) of
             (ctxErr, w) \<Rightarrow>
               if ctxErr then Some (Ret (True, b\<lparr>bw := w\<rparr>))
               else monitor_loop (processUnstartedTxs c E addr) evs (b\<lparr>bw := w\<rparr>)))"

section \<open>Services that can be reset\<close>

locale resetable_service =
  fixes start :: "('s, tx_error, unit) prog"
    and stop :: "('s, tx_error, unit) prog"
    and started :: "'s \<Rightarrow> bool"
  assumes stop_started: "started s \<Longrightarrow> \<exists>s'. stop s = Some (Ret (Inr (), s')) \<and> \<not> started s'"
    and stop_stopped: "\<not> started s \<Longrightarrow> \<exists>err. stop s = Some (Ret (Inl err, s)) \<and> errors_Is err ErrAlreadyStopped"
    and start_returns: "\<exists>r s'. start s = Some (Ret (r, s'))"
    and start_ok: "start s = Some (Ret (Inr (), s')) \<Longrightarrow> started s'"
    and start_error: "start s = Some (Ret (Inl err, s')) \<Longrightarrow> started s' = started s"

text \<open>The loop that starts a service again after a reset: an event is the end of the back-off or the end of the manager.\<close>

datatype retry_event = RetryBackoff | RetryStop

datatype retry_end = RetryStarted | RetryStopped | RetryPending

fun start_retry :: "('s, tx_error, unit) prog \<Rightarrow> retry_event list \<Rightarrow> ('s, tx_error, retry_end) prog" where
  "start_retry start [] = returns RetryPending"
| "start_retry start (RetryStop # evs) = returns RetryStopped"
| "start_retry start (RetryBackoff # evs) =
     andThen (trying start) (\<lambda>r. case r of Inl err \<Rightarrow> start_retry start evs | Inr _ \<Rightarrow> returns RetryStarted)"

context resetable_service
begin

lemma retry_result:
  "\<exists>r s'. start_retry start evs s = Some (Ret (Inr r, s')) \<and>
    (r = RetryStarted \<longrightarrow> started s') \<and> (r \<noteq> RetryStarted \<longrightarrow> started s' = started s)"
proof (induction evs arbitrary: s)
  case Nil
  show ?case by (simp add: returns_def)
next
  case (Cons ev evs)
  show ?case
  proof (cases ev)
    case RetryStop
    then show ?thesis by (simp add: returns_def)
  next
    case RetryBackoff
    obtain r s1 where r: "start s = Some (Ret (r, s1))" using start_returns by blast
    show ?thesis
    proof (cases r)
      case (Inl err)
      then have "started s1 = started s" using start_error r by blast
      then show ?thesis using Cons.IH [of s1] r Inl RetryBackoff by (simp add: andThen_def trying_def)
    next
      case (Inr u)
      then have "started s1" using start_ok [of s s1] r by simp
      then show ?thesis using r Inr RetryBackoff by (simp add: andThen_def trying_def returns_def)
    qed
  qed
qed

lemma stop_cases:
  "(started s \<and> (\<exists>s'. stop s = Some (Ret (Inr (), s')) \<and> \<not> started s')) \<or>
   (\<not> started s \<and> (\<exists>err. stop s = Some (Ret (Inl err, s))))"
  using stop_started [of s] stop_stopped [of s] by blast

end

interpretation broadcaster_service: resetable_service "bc_startInternal ks" bc_closeInternal bs_isStarted
proof
  fix s s' :: "'a bsvc" and err
  show "bs_isStarted s \<Longrightarrow> \<exists>s'. bc_closeInternal s = Some (Ret (Inr (), s')) \<and> \<not> bs_isStarted s'"
    by (simp add: bc_closeInternal_def andThen_def basic_prog)
  show "\<not> bs_isStarted s \<Longrightarrow> \<exists>err. bc_closeInternal s = Some (Ret (Inl err, s)) \<and> errors_Is err ErrAlreadyStopped"
    by (simp add: bc_closeInternal_def andThen_def basic_prog)
  obtain q w where "ks (bs_w s) = (q, w)" by (cases "ks (bs_w s)")
  note start = bc_startInternal_def or_raise_def andThen_def trying_def b_call_def basic_prog this
  show "\<exists>r s'. bc_startInternal ks s = Some (Ret (r, s'))"
    by (cases q) (auto simp: start)
  show "bc_startInternal ks s = Some (Ret (Inr (), s')) \<Longrightarrow> bs_isStarted s'"
    by (cases q) (auto simp: start split: if_splits)
  show "bc_startInternal ks s = Some (Ret (Inl err, s')) \<Longrightarrow> bs_isStarted s' = bs_isStarted s"
    by (cases q) (auto simp: start split: if_splits)
qed

interpretation confirmer_service: resetable_service "conf_startInternal E" conf_closeInternal c_isStarted
proof
  fix s s' :: "('a, 'b) conf" and err
  show "c_isStarted s \<Longrightarrow> \<exists>s'. conf_closeInternal s = Some (Ret (Inr (), s')) \<and> \<not> c_isStarted s'"
    by (simp add: conf_closeInternal_def andThen_def basic_prog)
  show "\<not> c_isStarted s \<Longrightarrow> \<exists>err. conf_closeInternal s = Some (Ret (Inl err, s)) \<and> errors_Is err ErrAlreadyStopped"
    by (simp add: conf_closeInternal_def andThen_def basic_prog)
  obtain q w where ks: "ks_EnabledAddresses E (cw s) = (q, w)" by (cases "ks_EnabledAddresses E (cw s)")
  note start = conf_startInternal_def or_raise_def andThen_def trying_def c_call_def basic_prog ks
  show "\<exists>r s'. conf_startInternal E s = Some (Ret (r, s'))"
    by (cases q) (auto simp: start split: prod.splits)
  show "conf_startInternal E s = Some (Ret (Inr (), s')) \<Longrightarrow> c_isStarted s'"
    by (cases q) (auto simp: start split: if_splits prod.splits)
  show "conf_startInternal E s = Some (Ret (Inl err, s')) \<Longrightarrow> c_isStarted s' = c_isStarted s"
    by (cases q) (auto simp: start split: if_splits prod.splits)
qed

interpretation tracker_service: resetable_service "trk_startInternal E" trk_closeInternal tr_isStarted
proof
  fix s s' :: "('a, 'b) tx_tracker" and err
  show "tr_isStarted s \<Longrightarrow> \<exists>s'. trk_closeInternal s = Some (Ret (Inr (), s')) \<and> \<not> tr_isStarted s'"
    by (simp add: trk_closeInternal_def andThen_def basic_prog)
  show "\<not> tr_isStarted s \<Longrightarrow> \<exists>err. trk_closeInternal s = Some (Ret (Inl err, s)) \<and> errors_Is err ErrAlreadyStopped"
    by (simp add: trk_closeInternal_def andThen_def basic_prog)
  obtain q w where ks: "tk_EnabledAddresses E (tr_w s) = (q, w)" by (cases "tk_EnabledAddresses E (tr_w s)")
  note start = trk_startInternal_def ensureEnabledAddresses_def or_raise_def andThen_def trying_def t_call_def basic_prog
    trk_SetEnabledAddresses_def ks
  show "\<exists>r s'. trk_startInternal E s = Some (Ret (r, s'))"
    by (cases q) (auto simp: start)
  show "trk_startInternal E s = Some (Ret (Inr (), s')) \<Longrightarrow> tr_isStarted s'"
    by (cases q) (auto simp: start split: if_splits)
  show "trk_startInternal E s = Some (Ret (Inl err, s')) \<Longrightarrow> tr_isStarted s' = tr_isStarted s"
    by (cases q) (auto simp: start split: if_splits)
qed

end
