(* ===== verification/Tx_Meta.thy ===== *)
theory Tx_Meta
  imports Tx_Types
begin

text \<open>
  \<open>chains/txmgr/types/tx.go\<close>: the metadata and the transmit checker of a transaction, which the store keeps as JSON, and the
  fields a transaction adds to a logger. The JSON codec is a parameter.
\<close>

section \<open>Metadata\<close>

record tx_meta =
  meta_JobID :: "int option"
  meta_FailOnRevert :: "bool option"
  meta_RequestID :: "string option"
  meta_RequestTxHash :: "string option"
  meta_RequestIDs :: "string list"
  meta_RequestTxHashes :: "string list"
  meta_MaxLink :: "string option"
  meta_SubID :: "64 word option"
  meta_GlobalSubID :: "string option"
  meta_MaxEth :: "string option"
  meta_UpkeepID :: "string option"
  meta_ForceFulfilled :: "bool option"
  meta_ForceFulfillmentAttempt :: "64 word option"
  meta_WorkflowExecutionID :: "string option"
  meta_FwdrDestAddress :: "string option"
  meta_MessageIDs :: "string list"
  meta_SeqNumbers :: "64 word list"
  meta_DualBroadcast :: "bool option"
  meta_DualBroadcastParams :: "string option"
  meta_TransactionLifecycleID :: "string option"

definition empty_meta :: tx_meta where
  "empty_meta =
     \<lparr>meta_JobID = None, meta_FailOnRevert = None, meta_RequestID = None, meta_RequestTxHash = None, meta_RequestIDs = [],
      meta_RequestTxHashes = [], meta_MaxLink = None, meta_SubID = None, meta_GlobalSubID = None, meta_MaxEth = None,
      meta_UpkeepID = None, meta_ForceFulfilled = None, meta_ForceFulfillmentAttempt = None, meta_WorkflowExecutionID = None,
      meta_FwdrDestAddress = None, meta_MessageIDs = [], meta_SeqNumbers = [], meta_DualBroadcast = None,
      meta_DualBroadcastParams = None, meta_TransactionLifecycleID = None\<rparr>"

record TransmitCheckerSpec =
  ts_CheckerType :: string
  ts_VRFCoordinatorAddress :: "string option"
  ts_VRFRequestBlockNumber :: "int option"

definition no_checker :: TransmitCheckerSpec where
  "no_checker = \<lparr>ts_CheckerType = [], ts_VRFCoordinatorAddress = None, ts_VRFRequestBlockNumber = None\<rparr>"

definition GetMeta :: "(string \<Rightarrow> tx_error + tx_meta) \<Rightarrow> 'f tx \<Rightarrow> tx_error + tx_meta option" where
  "GetMeta unmarshal e =
     (case tx_Meta e of
        None \<Rightarrow> Inr None
      | Some j \<Rightarrow>
          (case unmarshal j of
             Inl err \<Rightarrow> Inl (Wrapped ''unmarshalling meta'' err)
           | Inr m \<Rightarrow> Inr (Some m)))"

definition GetTransactionLifecycleID :: "(string \<Rightarrow> tx_error + tx_meta) \<Rightarrow> 'f tx \<Rightarrow> string" where
  "GetTransactionLifecycleID unmarshal e =
     (case GetMeta unmarshal e of
        Inr (Some m) \<Rightarrow> (case meta_TransactionLifecycleID m of None \<Rightarrow> [] | Some i \<Rightarrow> i)
      | _ \<Rightarrow> [])"

definition GetChecker :: "(string \<Rightarrow> tx_error + TransmitCheckerSpec) \<Rightarrow> 'f tx \<Rightarrow> tx_error + TransmitCheckerSpec" where
  "GetChecker unmarshal e =
     (case tx_TransmitChecker e of
        None \<Rightarrow> Inr no_checker
      | Some j \<Rightarrow>
          (case unmarshal j of
             Inl err \<Rightarrow> Inl (Wrapped ''unmarshalling transmit checker'' err)
           | Inr t \<Rightarrow> Inr t))"

section \<open>Logger\<close>

datatype log_value =
    LogNil
  | LogInt int
  | LogStr string
  | LogInts "int list"

type_synonym log_fields = "(string \<times> log_value) list"

fun log_opt :: "('a \<Rightarrow> log_value) \<Rightarrow> 'a option \<Rightarrow> log_value" where
  "log_opt f None = LogNil"
| "log_opt f (Some x) = f x"

text \<open>\<open>new(big.Int).SetBytes(b)\<close>.\<close>

definition SetBytes :: "string \<Rightarrow> int" where
  "SetBytes b = fold (\<lambda>c n. n * 256 + of_char c) b 0"

fun strings_Join :: "string list \<Rightarrow> string \<Rightarrow> string" where
  "strings_Join [] sep = []"
| "strings_Join [x] sep = x"
| "strings_Join (x # y # xs) sep = x @ sep @ strings_Join (y # xs) sep"

definition field_if_set :: "string \<Rightarrow> ('a \<Rightarrow> log_value) \<Rightarrow> 'a option \<Rightarrow> log_fields" where
  "field_if_set k f p = (case p of None \<Rightarrow> [] | Some x \<Rightarrow> [(k, f x)])"

definition meta_fields :: "tx_meta \<Rightarrow> log_fields" where
  "meta_fields m =
     [(''jobID'', log_opt LogInt (meta_JobID m))] @
     field_if_set ''requestTxHash'' LogStr (meta_RequestTxHash m) @
     field_if_set ''requestID'' (\<lambda>b. LogStr (go_itoa (SetBytes b))) (meta_RequestID m) @
     (if meta_RequestIDs m \<noteq> []
      then [(''requestIDs'', LogStr (strings_Join (map (\<lambda>b. go_itoa (SetBytes b)) (meta_RequestIDs m)) '',''))] else []) @
     field_if_set ''upkeepID'' LogStr (meta_UpkeepID m) @
     field_if_set ''subID'' (\<lambda>w. LogInt (uint w)) (meta_SubID m) @
     field_if_set ''maxLink'' LogStr (meta_MaxLink m) @
     field_if_set ''FwdrDestAddress'' LogStr (meta_FwdrDestAddress m) @
     map (\<lambda>i. (''messageID'', LogStr i)) (meta_MessageIDs m) @
     (if meta_SeqNumbers m \<noteq> [] then [(''SeqNumbers'', LogInts (map uint (meta_SeqNumbers m)))] else [])"

definition GetLogger :: "(string \<Rightarrow> tx_error + tx_meta) \<Rightarrow> 'f tx \<Rightarrow> log_fields \<Rightarrow> log_fields" where
  "GetLogger unmarshal e lgr =
     (let lgr1 = lgr @ [(''txID'', LogInt (tx_ID e)), (''sequence'', log_opt LogInt (tx_Sequence e)),
                        (''checker'', log_opt LogStr (tx_TransmitChecker e)), (''feeLimit'', LogInt (uint (tx_FeeLimit e)))]
      in case GetMeta unmarshal e of
           Inl err \<Rightarrow> lgr1
         | Inr None \<Rightarrow> lgr1
         | Inr (Some m) \<Rightarrow> lgr1 @ meta_fields m)"

section \<open>Lemmas\<close>

text \<open>With a codec that reads back what it wrote, the metadata of a stored transaction comes back, its life-cycle identifier
  included.\<close>

lemma stored_meta_read_back:
  assumes "unmarshal (marshal m) = Inr m" and "tx_Meta e = Some (marshal m)"
  shows "GetMeta unmarshal e = Inr (Some m)"
    and "meta_TransactionLifecycleID m = Some i \<Longrightarrow> GetTransactionLifecycleID unmarshal e = i"
  using assms by (simp_all add: GetMeta_def GetTransactionLifecycleID_def)

text \<open>A logger only gains fields, also when the metadata cannot be read.\<close>

lemma GetLogger_extends: "\<exists>fs. GetLogger unmarshal e lgr = lgr @ fs \<and> (''txID'', LogInt (tx_ID e)) \<in> set fs"
  by (auto simp: GetLogger_def Let_def split: sum.split option.split)

end
