(* ===== verification/Tx_Manager.thy ===== *)
theory Tx_Manager
  imports Tx_Service Tx_Meta "HOL-Library.List_Lexorder" "HOL-Library.Char_ord"
begin

text \<open>
  \<open>chains/txmgr/txmgr.go\<close>: the transaction manager. Creating transactions, the run loop that serves triggers, heads,
  resets and changes of the enabled keys by stopping and starting the broadcaster, the tracker and the confirmer of
  \<open>Tx_Service\<close>, and the queries for status and fee. The store, key store, forwarder manager, the second transaction
  manager and the error classifier are in \<open>txm_svc\<close>. The zero address is the empty string.
\<close>

section \<open>Requests, environment and state\<close>

record tx_request =
  rq_IdempotencyKey :: "string option"
  rq_FromAddress :: string
  rq_ToAddress :: string
  rq_EncodedPayload :: string
  rq_Value :: int
  rq_FeeLimit :: "64 word"
  rq_Meta :: "tx_meta option"
  rq_ForwarderAddress :: string
  rq_PipelineTaskRunID :: "string option"
  rq_Strategy :: tx_strategy
  rq_SignalCallback :: bool

record tx_receipt =
  rcpt_FeeUsed :: "64 word"
  rcpt_EffectiveGasPrice :: "int option"
  rcpt_L1Fee :: "int option"

record ('f, 'w) txm_svc =
  tv_FindTxWithIdempotencyKey :: "string \<Rightarrow> 'w \<Rightarrow> (tx_error + 'f tx option) \<times> 'w"
  tv_FindReceiptWithIdempotencyKey :: "string \<Rightarrow> 'w \<Rightarrow> (tx_error + tx_receipt option) \<times> 'w"
  tv_CheckEnabled :: "string \<Rightarrow> 'w \<Rightarrow> (tx_error + unit) \<times> 'w"
  tv_EnabledAddresses :: "'w \<Rightarrow> (tx_error + string list) \<times> 'w"
  tv_ConvertPayload :: "string \<Rightarrow> string \<Rightarrow> tx_error + string"
  tv_CheckTxQueueCapacity :: "string \<Rightarrow> 64 word \<Rightarrow> 'w \<Rightarrow> (tx_error + unit) \<times> 'w"
  tv_PruneUnstartedTxQueue :: "32 word \<Rightarrow> string \<Rightarrow> 'w \<Rightarrow> (tx_error + int list) \<times> 'w"
  tv_CreateTransaction :: "tx_request \<Rightarrow> 'w \<Rightarrow> (tx_error + 'f tx) \<times> 'w"
  tv_Abandon :: "string \<Rightarrow> 'w \<Rightarrow> (tx_error + unit) \<times> 'w"
  tv_v2CreateTransaction :: "(tx_request \<Rightarrow> 'w \<Rightarrow> (tx_error + 'f tx) \<times> 'w) option"
  tv_v2Reset :: "string \<Rightarrow> 'w \<Rightarrow> (tx_error + unit) \<times> 'w"
  tv_IsFatal :: "string option \<Rightarrow> bool option"
  tv_conf :: "('f, 'w) conf_env"
  tv_trk :: "('f, 'w) trk_env"
  tv_bcastKeys :: "'w \<Rightarrow> (tx_error + string list) \<times> 'w"

record txm_cfg =
  tc_ForwardersEnabled :: bool
  tc_MaxQueued :: "64 word"

datatype 'f tm_effect =
    TmPruned "int list"
  | TmCreated "'f tx"
  | TmV2Created "'f tx"
  | TmDelivered int
  | TmAbandoned string
  | TmReset
  | TmClosed

record ('f, 'w) txm =
  tm_w :: 'w
  tm_broadcaster :: "'w bsvc"
  tm_confirmer :: "('f, 'w) conf"
  tm_tracker :: "('f, 'w) tx_tracker"
  tm_enabledAddrs :: "string list"
  tm_stopped :: bool
  tm_effects :: "'f tm_effect list"

type_synonym ('f, 'w, 'a) txm_prog = "(('f, 'w) txm, tx_error, 'a) prog"

definition m_call :: "('w \<Rightarrow> (tx_error + 'a) \<times> 'w) \<Rightarrow> ('f, 'w, 'a) txm_prog" where
  "m_call f t = (case f (tm_w t) of (r, w) \<Rightarrow> Some (Ret (r, t\<lparr>tm_w := w\<rparr>)))"

definition m_emit :: "'f tm_effect \<Rightarrow> ('f, 'w, unit) txm_prog" where
  "m_emit e = updates (\<lambda>t. t\<lparr>tm_effects := tm_effects t @ [e]\<rparr>)"

definition on_broadcaster :: "('w, 'a) bsvc_prog \<Rightarrow> ('f, 'w, 'a) txm_prog" where
  "on_broadcaster = on_part tm_broadcaster (\<lambda>b t. t\<lparr>tm_broadcaster := b\<rparr>)"

definition on_confirmer :: "('f, 'w, 'a) conf_prog \<Rightarrow> ('f, 'w, 'a) txm_prog" where
  "on_confirmer = on_part tm_confirmer (\<lambda>c t. t\<lparr>tm_confirmer := c\<rparr>)"

definition on_tracker :: "('f, 'w, 'a) trk_prog \<Rightarrow> ('f, 'w, 'a) txm_prog" where
  "on_tracker = on_part tm_tracker (\<lambda>r t. t\<lparr>tm_tracker := r\<rparr>)"

section \<open>Creating transactions\<close>

definition checkEnabled :: "('f, 'w) txm_svc \<Rightarrow> string \<Rightarrow> ('f, 'w, unit) txm_prog" where
  "checkEnabled S addr = or_raise (Wrapped ''cannot send transaction'') (m_call (tv_CheckEnabled S addr))"

text \<open>Transactions pruned from the queue stay pruned when the creation fails afterwards.\<close>

definition pruneQueueAndCreateTxn :: "('f, 'w) txm_svc \<Rightarrow> tx_request \<Rightarrow> ('f, 'w, 'f tx) txm_prog" where
  "pruneQueueAndCreateTxn S txRequest =
     andThen (m_call (PruneQueue (tv_PruneUnstartedTxQueue S) (rq_Strategy txRequest))) (\<lambda>pruned.
     andThen (if pruned \<noteq> [] then m_emit (TmPruned pruned) else returns ()) (\<lambda>_.
     andThen (m_call (tv_CreateTransaction S txRequest)) (\<lambda>etx.
     andThen (m_emit (TmCreated etx)) (\<lambda>_. returns etx))))"

definition txm_trigger :: "string \<Rightarrow> ('f, 'w, unit) txm_prog" where
  "txm_trigger addr = updates (\<lambda>t. t\<lparr>tm_broadcaster := bc_Trigger addr (tm_broadcaster t)\<rparr>)"

text \<open>The request as it goes through the forwarder; a payload that cannot be converted leaves it as it is.\<close>

definition forwarded :: "txm_cfg \<Rightarrow> ('f, 'w) txm_svc \<Rightarrow> tx_request \<Rightarrow> tx_request" where
  "forwarded c S txRequest =
     (if tc_ForwardersEnabled c \<and> rq_ForwarderAddress txRequest \<noteq> '''' then
        (case tv_ConvertPayload S (rq_ToAddress txRequest) (rq_EncodedPayload txRequest) of
           Inl fwdErr \<Rightarrow> txRequest
         | Inr fwdPayload \<Rightarrow>
             txRequest\<lparr>rq_Meta :=
                 Some (case rq_Meta txRequest of
                         None \<Rightarrow> empty_meta\<lparr>meta_FwdrDestAddress := Some (rq_ToAddress txRequest)\<rparr>
                       | Some m \<Rightarrow> m\<lparr>meta_FwdrDestAddress := Some (rq_ToAddress txRequest)\<rparr>),
               rq_ToAddress := rq_ForwarderAddress txRequest, rq_EncodedPayload := fwdPayload\<rparr>)
      else txRequest)"

definition create_new :: "txm_cfg \<Rightarrow> ('f, 'w) txm_svc \<Rightarrow> tx_request \<Rightarrow> ('f, 'w, 'f tx) txm_prog" where
  "create_new c S txRequest =
     andThen (checkEnabled S (rq_FromAddress txRequest)) (\<lambda>_.
       let req = forwarded c S txRequest in
       andThen (or_raise (Wrapped ''Txm#CreateTransaction'')
                  (m_call (tv_CheckTxQueueCapacity S (rq_FromAddress req) (tc_MaxQueued c)))) (\<lambda>_.
       andThen (pruneQueueAndCreateTxn S req) (\<lambda>etx.
       andThen (txm_trigger (rq_FromAddress req)) (\<lambda>_. returns etx))))"

definition wants_dual_broadcast :: "tx_request \<Rightarrow> bool" where
  "wants_dual_broadcast txRequest \<longleftrightarrow>
     (case rq_Meta txRequest of None \<Rightarrow> False | Some m \<Rightarrow> meta_DualBroadcast m = Some True)"

definition CreateTransaction :: "txm_cfg \<Rightarrow> ('f, 'w) txm_svc \<Rightarrow> tx_request \<Rightarrow> ('f, 'w, 'f tx) txm_prog" where
  "CreateTransaction c S txRequest =
     (case (tv_v2CreateTransaction S, wants_dual_broadcast txRequest) of
        (Some v2, True) \<Rightarrow>
          andThen (m_call (v2 txRequest)) (\<lambda>etx. andThen (m_emit (TmV2Created etx)) (\<lambda>_. returns etx))
      | _ \<Rightarrow>
          (case rq_IdempotencyKey txRequest of
             None \<Rightarrow> create_new c S txRequest
           | Some key \<Rightarrow>
               andThen (or_raise (Wrapped ''failed to search for transaction with IdempotencyKey'')
                          (m_call (tv_FindTxWithIdempotencyKey S key)))
                 (\<lambda>existingTx.
                    case existingTx of Some etx \<Rightarrow> returns etx | None \<Rightarrow> create_new c S txRequest)))"

definition SendNativeToken ::
  "('f, 'w) txm_svc \<Rightarrow> string \<Rightarrow> string \<Rightarrow> int \<Rightarrow> 64 word \<Rightarrow> ('f, 'w, 'f tx) txm_prog" where
  "SendNativeToken S from to value gasLimit =
     (if to = '''' then raises (TxErr ''cannot send native token to zero address'')
      else
        andThen (or_raise (Wrapped ''SendNativeToken failed to insert tx'')
          (pruneQueueAndCreateTxn S
             \<lparr>rq_IdempotencyKey = None, rq_FromAddress = from, rq_ToAddress = to, rq_EncodedPayload = [], rq_Value = value,
              rq_FeeLimit = gasLimit, rq_Meta = None, rq_ForwarderAddress = '''', rq_PipelineTaskRunID = None,
              rq_Strategy = SendEveryStrategy, rq_SignalCallback = False\<rparr>)) (\<lambda>etx.
        andThen (txm_trigger from) (\<lambda>_. returns etx)))"

section \<open>The run loop\<close>

record reset_events =
  re_broadcaster :: "retry_event list"
  re_tracker :: "retry_event list"
  re_confirmer :: "retry_event list"

definition close_or_panic :: "string \<Rightarrow> ('f, 'w, unit) txm_prog \<Rightarrow> ('f, 'w, unit) txm_prog" where
  "close_or_panic msg m = andThen (trying m) (\<lambda>r. case r of Inl err \<Rightarrow> panics msg | Inr _ \<Rightarrow> returns ())"

text \<open>Returns whether the reset is over; it is not while a service is still waiting to be started.\<close>

definition execReset ::
  "('f, 'w) txm_svc \<Rightarrow> reset_events \<Rightarrow> ('f, 'w, unit) txm_prog \<Rightarrow> ('f, 'w, bool) txm_prog" where
  "execReset S evs f =
     andThen (close_or_panic ''Failed to Close Broadcaster'' (on_broadcaster bc_closeInternal)) (\<lambda>_.
     andThen (close_or_panic ''Failed to Close Tracker'' (on_tracker trk_closeInternal)) (\<lambda>_.
     andThen (close_or_panic ''Failed to Close Confirmer'' (on_confirmer conf_closeInternal)) (\<lambda>_.
     andThen f (\<lambda>_.
     andThen (on_broadcaster (start_retry (bc_startInternal (tv_bcastKeys S)) (re_broadcaster evs))) (\<lambda>b.
     andThen (on_tracker (start_retry (trk_startInternal (tv_trk S)) (re_tracker evs))) (\<lambda>r.
     andThen (on_confirmer (start_retry (conf_startInternal (tv_conf S)) (re_confirmer evs))) (\<lambda>c.
     andThen (updates (\<lambda>t. t\<lparr>tm_stopped := tm_stopped t \<or> RetryStopped \<in> {b, r, c}\<rparr>)) (\<lambda>_.
       returns (RetryPending \<notin> {b, r, c})))))))))"

definition setEnabled :: "string list \<Rightarrow> ('f, 'w) txm \<Rightarrow> ('f, 'w) txm" where
  "setEnabled addrs t =
     t\<lparr>tm_broadcaster := bc_SetEnabledAddresses addrs (tm_broadcaster t),
       tm_tracker := trk_SetEnabledAddresses addrs (tm_tracker t),
       tm_confirmer := conf_SetEnabledAddresses addrs (tm_confirmer t)\<rparr>"

definition abandon :: "('f, 'w) txm_svc \<Rightarrow> string \<Rightarrow> ('f, 'w, unit) txm_prog" where
  "abandon S addr =
     andThen (or_raise (Wrapped ''abandon failed to update txes for key'') (m_call (tv_Abandon S addr)))
       (\<lambda>_. m_emit (TmAbandoned addr))"

text \<open>The function a \<open>Reset\<close> sends to the loop. Its error goes to the variable \<open>err\<close> of \<open>Reset\<close>, which is assigned again
  from the channel \<open>done\<close> when that is closed.\<close>

definition reset_f :: "('f, 'w) txm_svc \<Rightarrow> string \<Rightarrow> bool \<Rightarrow> ('f, 'w, tx_error option) txm_prog" where
  "reset_f S addr abandonFlag =
     (if abandonFlag then
        andThen (trying (abandon S addr)) (\<lambda>r.
        andThen (if tv_v2CreateTransaction S \<noteq> None then andThen (trying (m_call (tv_v2Reset S addr))) (\<lambda>_. returns ()) else returns ())
          (\<lambda>_. returns (case r of Inl err \<Rightarrow> Some err | Inr _ \<Rightarrow> None)))
      else returns None)"

text \<open>Serving a reset: what the caller receives from \<open>done\<close>, and whether the loop goes on.\<close>

definition handle_reset ::
  "('f, 'w) txm_svc \<Rightarrow> string \<Rightarrow> bool \<Rightarrow> reset_events \<Rightarrow> ('f, 'w, tx_error option \<times> bool) txm_prog" where
  "handle_reset S addr abandonFlag evs =
     andThen (reads tm_stopped) (\<lambda>stopped.
       if stopped then returns (Some (TxErr ''Txm was stopped''), True)
       else
         andThen (execReset S evs (andThen (reset_f S addr abandonFlag) (\<lambda>_. m_emit TmReset)))
           (\<lambda>go. returns (None, go)))"

definition Reset ::
  "('f, 'w) txm_svc \<Rightarrow> bool \<Rightarrow> string \<Rightarrow> bool \<Rightarrow> reset_events \<Rightarrow> ('f, 'w, unit) txm_prog" where
  "Reset S started addr abandonFlag evs =
     (if \<not> started then raises (TxErr ''not started'')
      else andThen (handle_reset S addr abandonFlag evs) (\<lambda>(err, _). case err of Some e \<Rightarrow> raises e | None \<Rightarrow> returns ()))"

definition handle_poll :: "('f, 'w) txm_svc \<Rightarrow> reset_events \<Rightarrow> ('f, 'w, bool) txm_prog" where
  "handle_poll S evs =
     andThen (reads tm_stopped) (\<lambda>stopped.
       if stopped then returns True
       else
         andThen (trying (m_call (tv_EnabledAddresses S))) (\<lambda>r.
           case r of
             Inl err \<Rightarrow> returns True
           | Inr enabledAddresses \<Rightarrow>
               andThen (reads tm_enabledAddrs) (\<lambda>current.
                 if current = sort enabledAddresses then returns True
                 else execReset S evs (andThen (updates (setEnabled (sort enabledAddresses))) (\<lambda>_. m_emit TmReset)))))"

datatype txm_event =
    TmEvTrigger string
  | TmEvHead int
  | TmEvReset string bool reset_events
  | TmEvPoll reset_events
  | TmEvStop

fun txm_handle :: "('f, 'w) txm_svc \<Rightarrow> txm_event \<Rightarrow> ('f, 'w, bool) txm_prog" where
  "txm_handle S (TmEvTrigger addr) = andThen (txm_trigger addr) (\<lambda>_. returns True)"
| "txm_handle S (TmEvHead n) = andThen (m_emit (TmDelivered n)) (\<lambda>_. returns True)"
| "txm_handle S (TmEvReset addr abandonFlag evs) = andThen (handle_reset S addr abandonFlag evs) (\<lambda>(_, go). returns go)"
| "txm_handle S (TmEvPoll evs) = handle_poll S evs"
| "txm_handle S TmEvStop =
     andThen (trying (on_broadcaster bc_closeInternal)) (\<lambda>_.
     andThen (trying (on_confirmer conf_closeInternal)) (\<lambda>_.
     andThen (trying (on_tracker trk_closeInternal)) (\<lambda>_.
     andThen (m_emit TmClosed) (\<lambda>_. returns False))))"

fun txm_runLoop :: "('f, 'w) txm_svc \<Rightarrow> txm_event list \<Rightarrow> ('f, 'w, bool) txm_prog" where
  "txm_runLoop S [] = returns True"
| "txm_runLoop S (ev # evs) = andThen (txm_handle S ev) (\<lambda>go. if go then txm_runLoop S evs else returns False)"

text \<open>At the start the manager remembers the tracker's addresses.\<close>

definition remember_enabled :: "(string list \<Rightarrow> string list) \<Rightarrow> ('f, 'w) txm \<Rightarrow> ('f, 'w) txm" where
  "remember_enabled sched t = t\<lparr>tm_enabledAddrs := sort (GetEnabledAddresses sched (tm_tracker t))\<rparr>"

section \<open>Queries\<close>

datatype TransactionStatus = StUnknown | StPending | StUnconfirmed | StFinalized | StFailed | StFatal

definition GetTransactionStatus ::
  "('f, 'w) txm_svc \<Rightarrow> string \<Rightarrow> ('f, 'w, TransactionStatus \<times> string option) txm_prog" where
  "GetTransactionStatus S transactionID =
     andThen (or_raise (Wrapped ''failed to find transaction with IdempotencyKey'')
                (m_call (tv_FindTxWithIdempotencyKey S transactionID))) (\<lambda>found.
       case found of
         None \<Rightarrow> raises (TxErr ''failed to find transaction with IdempotencyKey'')
       | Some etx \<Rightarrow>
           (case tx_State etx of
              TxUnconfirmed \<Rightarrow> returns (StPending, None)
            | TxConfirmedMissingReceipt \<Rightarrow> returns (StPending, None)
            | TxConfirmed \<Rightarrow> returns (StUnconfirmed, None)
            | TxFinalized \<Rightarrow> returns (StFinalized, None)
            | TxFatalError \<Rightarrow>
                returns (if tv_IsFatal S (GetError etx) = Some True then StFatal else StFailed, GetError etx)
            | _ \<Rightarrow> returns (StUnknown, None)))"

definition txm_CalculateFee :: "64 word \<Rightarrow> int option \<Rightarrow> int option \<Rightarrow> int" where
  "txm_CalculateFee gasUsed price l1Fee =
     (let totalFee = (case price of None \<Rightarrow> 0 | Some p \<Rightarrow> uint gasUsed * p)
      in case l1Fee of None \<Rightarrow> totalFee | Some f \<Rightarrow> totalFee + f)"

definition GetTransactionReceipt :: "('f, 'w) txm_svc \<Rightarrow> string \<Rightarrow> ('f, 'w, tx_receipt) txm_prog" where
  "GetTransactionReceipt S transactionID =
     andThen (or_raise (Wrapped ''failed to find receipt with IdempotencyKey'')
                (m_call (tv_FindReceiptWithIdempotencyKey S transactionID))) (\<lambda>found.
       case found of
         None \<Rightarrow> raises (TxErr ''failed to find receipt with IdempotencyKey'')
       | Some receipt \<Rightarrow> returns receipt)"

definition GetTransactionFee :: "('f, 'w) txm_svc \<Rightarrow> string \<Rightarrow> ('f, 'w, int) txm_prog" where
  "GetTransactionFee S transactionID =
     andThen (GetTransactionReceipt S transactionID) (\<lambda>r.
       returns (txm_CalculateFee (rcpt_FeeUsed r) (rcpt_EffectiveGasPrice r) (rcpt_L1Fee r)))"

section \<open>Lemmas\<close>

definition all_started :: "('f, 'w) txm \<Rightarrow> bool" where
  "all_started t \<longleftrightarrow> bs_isStarted (tm_broadcaster t) \<and> c_isStarted (tm_confirmer t) \<and> tr_isStarted (tm_tracker t)"

lemma close_parts:
  shows "bs_isStarted (tm_broadcaster t) \<Longrightarrow> close_or_panic m1 (on_broadcaster bc_closeInternal) t =
      Some (Ret (Inr (), t\<lparr>tm_broadcaster := (tm_broadcaster t)\<lparr>bs_monitors := [], bs_isStarted := False, bs_enabledAddresses := None\<rparr>\<rparr>))"
    and "tr_isStarted (tm_tracker t) \<Longrightarrow> close_or_panic m2 (on_tracker trk_closeInternal) t =
      Some (Ret (Inr (), t\<lparr>tm_tracker := (tm_tracker t)\<lparr>tr_isStarted := False, tr_enabledAddrs := None\<rparr>\<rparr>))"
    and "c_isStarted (tm_confirmer t) \<Longrightarrow> close_or_panic m3 (on_confirmer conf_closeInternal) t =
      Some (Ret (Inr (), t\<lparr>tm_confirmer := (tm_confirmer t)\<lparr>c_isStarted := False, c_enabledAddresses := None\<rparr>\<rparr>))"
  by (simp_all add: close_or_panic_def on_broadcaster_def on_tracker_def on_confirmer_def on_part_def trying_def andThen_def
      basic_prog bc_closeInternal_def trk_closeInternal_def conf_closeInternal_def)

definition all_closed :: "('f, 'w) txm \<Rightarrow> ('f, 'w) txm" where
  "all_closed t =
     t\<lparr>tm_broadcaster := (tm_broadcaster t)\<lparr>bs_monitors := [], bs_isStarted := False, bs_enabledAddresses := None\<rparr>,
       tm_tracker := (tm_tracker t)\<lparr>tr_isStarted := False, tr_enabledAddrs := None\<rparr>,
       tm_confirmer := (tm_confirmer t)\<lparr>c_isStarted := False, c_enabledAddresses := None\<rparr>\<rparr>"

text \<open>The part of a reset after the services were stopped and the function was run.\<close>

definition restart_all :: "('f, 'w) txm_svc \<Rightarrow> reset_events \<Rightarrow> ('f, 'w, bool) txm_prog" where
  "restart_all S evs =
     andThen (on_broadcaster (start_retry (bc_startInternal (tv_bcastKeys S)) (re_broadcaster evs))) (\<lambda>b.
     andThen (on_tracker (start_retry (trk_startInternal (tv_trk S)) (re_tracker evs))) (\<lambda>r.
     andThen (on_confirmer (start_retry (conf_startInternal (tv_conf S)) (re_confirmer evs))) (\<lambda>c.
     andThen (updates (\<lambda>t. t\<lparr>tm_stopped := tm_stopped t \<or> RetryStopped \<in> {b, r, c}\<rparr>)) (\<lambda>_.
       returns (RetryPending \<notin> {b, r, c})))))"

lemma execReset_eq:
  assumes "all_started t"
  shows "execReset S evs f t = andThen f (\<lambda>_. restart_all S evs) (all_closed t)"
proof -
  have st: "bs_isStarted (tm_broadcaster t)" "tr_isStarted (tm_tracker t)" "c_isStarted (tm_confirmer t)"
    using assms by (simp_all add: all_started_def)
  show ?thesis
    unfolding execReset_def restart_all_def all_closed_def
    by (simp add: andThen_step [OF close_parts(1)] andThen_step [OF close_parts(2)] andThen_step [OF close_parts(3)] st)
qed

lemma restart_all_result:
  "\<exists>go t'. restart_all S evs t = Some (Ret (Inr go, t')) \<and>
    (go \<longrightarrow> tm_stopped t' \<or> all_started t') \<and> tm_effects t' = tm_effects t \<and> tm_enabledAddrs t' = tm_enabledAddrs t"
proof -
  obtain b bs where b: "start_retry (bc_startInternal (tv_bcastKeys S)) (re_broadcaster evs) (tm_broadcaster t) = Some (Ret (Inr b, bs))"
    "b = RetryStarted \<longrightarrow> bs_isStarted bs" using broadcaster_service.retry_result by blast
  obtain r rs where r: "start_retry (trk_startInternal (tv_trk S)) (re_tracker evs) (tm_tracker t) = Some (Ret (Inr r, rs))"
    "r = RetryStarted \<longrightarrow> tr_isStarted rs" using tracker_service.retry_result by blast
  obtain c cs where c: "start_retry (conf_startInternal (tv_conf S)) (re_confirmer evs) (tm_confirmer t) = Some (Ret (Inr c, cs))"
    "c = RetryStarted \<longrightarrow> c_isStarted cs" using confirmer_service.retry_result by blast
  show ?thesis
    using b(2) r(2) c(2)
    by (cases b; cases r; cases c)
      (auto simp: restart_all_def on_broadcaster_def on_tracker_def on_confirmer_def on_part_def andThen_def basic_prog
        b(1) r(1) c(1) all_started_def)
qed

text \<open>The functions a reset runs always return, without an error.\<close>

lemma reset_f_returns:
  "\<exists>e t'. reset_f S addr a t = Some (Ret (Inr e, t')) \<and> tm_enabledAddrs t' = tm_enabledAddrs t"
proof -
  obtain q w where q: "tv_Abandon S addr (tm_w t) = (q, w)" by (cases "tv_Abandon S addr (tm_w t)")
  obtain p v where p: "tv_v2Reset S addr w = (p, v)" by (cases "tv_v2Reset S addr w")
  show ?thesis
    by (cases q)
      (auto simp: reset_f_def abandon_def m_call_def m_emit_def or_raise_def trying_def andThen_def basic_prog q p)
qed

lemma handle_reset_result:
  assumes "tm_stopped t \<or> all_started t"
  shows "\<exists>reply go t'. handle_reset S addr a evs t = Some (Ret (Inr (reply, go), t')) \<and>
    (go \<longrightarrow> tm_stopped t' \<or> all_started t') \<and> (tm_stopped t \<or> reply = None)"
proof (cases "tm_stopped t")
  case True
  then show ?thesis by (auto simp: handle_reset_def andThen_def basic_prog)
next
  case False
  with assms have st: "all_started t" by simp
  obtain e t1 where f: "reset_f S addr a (all_closed t) = Some (Ret (Inr e, t1))" using reset_f_returns by blast
  let ?t = "t1\<lparr>tm_effects := tm_effects t1 @ [TmReset]\<rparr>"
  obtain go t' where r: "restart_all S evs ?t = Some (Ret (Inr go, t'))" "go \<longrightarrow> tm_stopped t' \<or> all_started t'"
    using restart_all_result by blast
  show ?thesis
    using False f r
    by (simp add: handle_reset_def andThen_def [of "reads f" for f] andThen_def [of "execReset a b c" for a b c]
        execReset_eq [OF st] andThen_def m_emit_def basic_prog)
qed

lemma handle_poll_result:
  assumes "tm_stopped t \<or> all_started t"
  shows "\<exists>go t'. handle_poll S evs t = Some (Ret (Inr go, t')) \<and> (go \<longrightarrow> tm_stopped t' \<or> all_started t')"
proof (cases "tm_stopped t")
  case True
  then show ?thesis by (auto simp: handle_poll_def andThen_def basic_prog)
next
  case False
  with assms have st: "all_started t" by simp
  obtain q w where q: "tv_EnabledAddresses S (tm_w t) = (q, w)" by (cases "tv_EnabledAddresses S (tm_w t)")
  have st': "all_started (t\<lparr>tm_w := w\<rparr>)" using st by (simp add: all_started_def)
  show ?thesis
  proof (cases "\<exists>ks. q = Inr ks \<and> tm_enabledAddrs t \<noteq> sort ks")
    case True
    then obtain ks where ks: "q = Inr ks" "tm_enabledAddrs t \<noteq> sort ks" by blast
    let ?t = "(setEnabled (sort ks) (all_closed (t\<lparr>tm_w := w\<rparr>)))"
    obtain go t' where r: "restart_all S evs (?t\<lparr>tm_effects := tm_effects ?t @ [TmReset]\<rparr>) = Some (Ret (Inr go, t'))"
      "go \<longrightarrow> tm_stopped t' \<or> all_started t'"
      using restart_all_result by blast
    show ?thesis
      using False q ks r
      by (simp add: handle_poll_def andThen_def [of "reads f" for f] andThen_def [of "trying a" for a] trying_def m_call_def
          execReset_eq [OF st'] andThen_def m_emit_def basic_prog)
  next
    case no: False
    then show ?thesis
      using False q st'
      by (cases q) (auto simp: handle_poll_def andThen_def trying_def m_call_def basic_prog)
  qed
qed

lemma txm_handle_result:
  assumes "tm_stopped t \<or> all_started t"
  shows "\<exists>go t'. txm_handle S ev t = Some (Ret (Inr go, t')) \<and> (go \<longrightarrow> tm_stopped t' \<or> all_started t')"
proof (cases ev)
  case (TmEvTrigger a)
  then show ?thesis
    using assms by (auto simp: txm_trigger_def andThen_def basic_prog all_started_def bc_Trigger_def split: option.splits)
next
  case (TmEvHead n)
  then show ?thesis using assms by (auto simp: m_emit_def andThen_def basic_prog all_started_def)
next
  case (TmEvReset addr a evs)
  from handle_reset_result [OF assms, of S addr a evs] show ?thesis
    by (auto simp: TmEvReset andThen_def basic_prog)
next
  case (TmEvPoll evs)
  then show ?thesis using handle_poll_result [OF assms] by simp
next
  case TmEvStop
  have "\<exists>r b. bc_closeInternal (tm_broadcaster t) = Some (Ret (r, b))"
    using broadcaster_service.stop_cases [of "tm_broadcaster t"] by blast
  moreover have "\<exists>r b. conf_closeInternal (tm_confirmer t) = Some (Ret (r, b))"
    using confirmer_service.stop_cases [of "tm_confirmer t"] by blast
  moreover have "\<exists>r b. trk_closeInternal (tm_tracker t) = Some (Ret (r, b))"
    using tracker_service.stop_cases [of "tm_tracker t"] by blast
  ultimately show ?thesis
    by (auto simp: TmEvStop on_broadcaster_def on_confirmer_def on_tracker_def on_part_def trying_def andThen_def m_emit_def basic_prog)
qed

text \<open>Every service starts at the first try.\<close>

definition started_at_once :: reset_events where
  "started_at_once = \<lparr>re_broadcaster = [RetryBackoff], re_tracker = [RetryBackoff], re_confirmer = [RetryBackoff]\<rparr>"

definition uses_keys :: "string list \<Rightarrow> ('f, 'w) txm \<Rightarrow> bool" where
  "uses_keys ks t \<longleftrightarrow>
     bs_enabledAddresses (tm_broadcaster t) = Some ks \<and> c_enabledAddresses (tm_confirmer t) = Some ks \<and>
     tr_enabledAddrs (tm_tracker t) = Some (remdups ks)"

lemma restart_with_keys:
  assumes "\<not> bs_isStarted (tm_broadcaster t)" "\<not> c_isStarted (tm_confirmer t)" and "uses_keys ks t" "\<not> tm_stopped t"
  shows "\<exists>t'. restart_all S started_at_once t = Some (Ret (Inr True, t')) \<and> all_started t' \<and> \<not> tm_stopped t' \<and>
    tm_effects t' = tm_effects t \<and> tm_enabledAddrs t' = tm_enabledAddrs t \<and> uses_keys ks t'"
  using assms
  by (simp add: restart_all_def started_at_once_def on_broadcaster_def on_tracker_def on_confirmer_def on_part_def trying_def
      andThen_def basic_prog or_raise_def bc_startInternal_def trk_startInternal_def conf_startInternal_def
      ensureEnabledAddresses_def all_started_def uses_keys_def)

lemma poll_changed_keys:
  assumes "\<And>w. fst (tv_EnabledAddresses S w) = Inr ks" and "tm_enabledAddrs t \<noteq> sort ks"
    and st: "all_started t" and "\<not> tm_stopped t"
  shows "\<exists>t'. handle_poll S started_at_once t = Some (Ret (Inr True, t')) \<and> all_started t' \<and> \<not> tm_stopped t' \<and>
    tm_effects t' = tm_effects t @ [TmReset] \<and> tm_enabledAddrs t' = tm_enabledAddrs t \<and> uses_keys (sort ks) t'"
proof -
  obtain w where q: "tv_EnabledAddresses S (tm_w t) = (Inr ks, w)" using assms(1) by (metis prod.collapse)
  have st': "all_started (t\<lparr>tm_w := w\<rparr>)" using st by (simp add: all_started_def)
  define u where "u = (setEnabled (sort ks) (all_closed (t\<lparr>tm_w := w\<rparr>)))\<lparr>tm_effects := tm_effects t @ [TmReset]\<rparr>"
  have "handle_poll S started_at_once t = restart_all S started_at_once u"
    using assms(2,4) q
    by (simp add: handle_poll_def andThen_def [of "reads f" for f] andThen_def [of "trying a" for a] trying_def m_call_def
        execReset_eq [OF st'] andThen_def m_emit_def basic_prog u_def setEnabled_def all_closed_def)
  moreover have "\<exists>t'. restart_all S started_at_once u = Some (Ret (Inr True, t')) \<and> all_started t' \<and> \<not> tm_stopped t' \<and>
      tm_effects t' = tm_effects u \<and> tm_enabledAddrs t' = tm_enabledAddrs u \<and> uses_keys (sort ks) t'"
    by (rule restart_with_keys)
      (use assms(4) in \<open>simp_all add: u_def setEnabled_def all_closed_def uses_keys_def bc_SetEnabledAddresses_def
        trk_SetEnabledAddresses_def conf_SetEnabledAddresses_def\<close>)
  ultimately show ?thesis by (simp add: u_def setEnabled_def all_closed_def)
qed

lemma forwarded_key [simp]:
  "rq_IdempotencyKey (forwarded c S req) = rq_IdempotencyKey req" "rq_FromAddress (forwarded c S req) = rq_FromAddress req"
  "rq_Strategy (forwarded c S req) = rq_Strategy req"
  by (auto simp: forwarded_def split: sum.splits)

lemma m_callE:
  assumes "m_call f t = Some (Ret (r, t'))"
  obtains w where "f (tm_w t) = (r, w)" and "t' = t\<lparr>tm_w := w\<rparr>"
  using assms by (auto simp: m_call_def split: prod.splits)

text \<open>The request passed both checks and the queue was pruned, between the worlds \<open>w\<close> and \<open>w3\<close>.\<close>

definition admitted :: "txm_cfg \<Rightarrow> ('f, 'w) txm_svc \<Rightarrow> tx_request \<Rightarrow> 'w \<Rightarrow> int list \<Rightarrow> 'w \<Rightarrow> bool" where
  "admitted c S req w pruned w3 \<longleftrightarrow>
     (\<exists>w1 w2. tv_CheckEnabled S (rq_FromAddress req) w = (Inr (), w1) \<and>
        tv_CheckTxQueueCapacity S (rq_FromAddress req) (tc_MaxQueued c) w1 = (Inr (), w2) \<and>
        PruneQueue (tv_PruneUnstartedTxQueue S) (rq_Strategy req) w2 = (Inr pruned, w3))"

text \<open>The sender is not enabled, the queue is full, or it cannot be pruned.\<close>

definition refused :: "txm_cfg \<Rightarrow> ('f, 'w) txm_svc \<Rightarrow> tx_request \<Rightarrow> 'w \<Rightarrow> 'w \<Rightarrow> bool" where
  "refused c S req w w' \<longleftrightarrow>
     (\<exists>e. tv_CheckEnabled S (rq_FromAddress req) w = (Inl e, w')) \<or>
     (\<exists>w1 e. tv_CheckEnabled S (rq_FromAddress req) w = (Inr (), w1) \<and>
        tv_CheckTxQueueCapacity S (rq_FromAddress req) (tc_MaxQueued c) w1 = (Inl e, w')) \<or>
     (\<exists>w1 w2 e. tv_CheckEnabled S (rq_FromAddress req) w = (Inr (), w1) \<and>
        tv_CheckTxQueueCapacity S (rq_FromAddress req) (tc_MaxQueued c) w1 = (Inr (), w2) \<and>
        PruneQueue (tv_PruneUnstartedTxQueue S) (rq_Strategy req) w2 = (Inl e, w'))"

definition pruning :: "int list \<Rightarrow> 'f tm_effect list" where
  "pruning pruned = (if pruned = [] then [] else [TmPruned pruned])"

lemma prune_create_cases:
  assumes "pruneQueueAndCreateTxn S x u = Some (Ret (q, u'))"
  obtains (prune_fails) err w where "PruneQueue (tv_PruneUnstartedTxQueue S) (rq_Strategy x) (tm_w u) = (Inl err, w)"
      "q = Inl err" "u' = u\<lparr>tm_w := w\<rparr>"
    | (create_fails) pruned w err w' where "PruneQueue (tv_PruneUnstartedTxQueue S) (rq_Strategy x) (tm_w u) = (Inr pruned, w)"
      "tv_CreateTransaction S x w = (Inl err, w')" "q = Inl err"
      "u' = u\<lparr>tm_w := w', tm_effects := tm_effects u @ pruning pruned\<rparr>"
    | (creates) pruned w etx w' where "PruneQueue (tv_PruneUnstartedTxQueue S) (rq_Strategy x) (tm_w u) = (Inr pruned, w)"
      "tv_CreateTransaction S x w = (Inr etx, w')" "q = Inr etx"
      "u' = u\<lparr>tm_w := w', tm_effects := tm_effects u @ pruning pruned @ [TmCreated etx]\<rparr>"
proof -
  obtain r w where p: "PruneQueue (tv_PruneUnstartedTxQueue S) (rq_Strategy x) (tm_w u) = (r, w)"
    by (cases "PruneQueue (tv_PruneUnstartedTxQueue S) (rq_Strategy x) (tm_w u)")
  obtain r' w' where c: "tv_CreateTransaction S x w = (r', w')" by (cases "tv_CreateTransaction S x w")
  show thesis
  proof (cases r)
    case (Inl err)
    then show thesis
      using assms p prune_fails by (simp add: pruneQueueAndCreateTxn_def andThen_def m_call_def)
  next
    case (Inr pruned)
    define t1 where "t1 = u\<lparr>tm_w := w', tm_effects := tm_effects u @ pruning pruned\<rparr>"
    have "pruneQueueAndCreateTxn S x u = Some (Ret (case r' of Inl err \<Rightarrow> (Inl err, t1)
        | Inr etx \<Rightarrow> (Inr etx, t1\<lparr>tm_effects := tm_effects t1 @ [TmCreated etx]\<rparr>)))"
      using p c Inr
      by (simp add: pruneQueueAndCreateTxn_def pruning_def t1_def andThen_def m_call_def m_emit_def basic_prog split: sum.split)
    with assms have q: "(q, u') = (case r' of Inl err \<Rightarrow> (Inl err, t1)
        | Inr etx \<Rightarrow> (Inr etx, t1\<lparr>tm_effects := tm_effects t1 @ [TmCreated etx]\<rparr>))" by simp
    show thesis
    proof (cases r')
      case (Inl err)
      show thesis by (rule create_fails [OF p [unfolded \<open>r = Inr pruned\<close>] c [unfolded Inl]]) (use q Inl in \<open>simp_all add: t1_def\<close>)
    next
      case (Inr etx)
      show thesis by (rule creates [OF p [unfolded \<open>r = Inr pruned\<close>] c [unfolded Inr]]) (use q Inr in \<open>simp_all add: t1_def\<close>)
    qed
  qed
qed

lemma create_new_cases:
  assumes "create_new c S req t = Some (Ret (r, t'))"
  obtains (rejected) err w where "refused c S req (tm_w t) w" "r = Inl err" "t' = t\<lparr>tm_w := w\<rparr>"
    | (create_fails) pruned w err w' where "admitted c S req (tm_w t) pruned w"
      "tv_CreateTransaction S (forwarded c S req) w = (Inl err, w')" "r = Inl err"
      "t' = t\<lparr>tm_w := w', tm_effects := tm_effects t @ pruning pruned\<rparr>"
    | (creates) pruned w etx w' where "admitted c S req (tm_w t) pruned w"
      "tv_CreateTransaction S (forwarded c S req) w = (Inr etx, w')" "r = Inr etx"
      "t' = t\<lparr>tm_w := w', tm_effects := tm_effects t @ pruning pruned @ [TmCreated etx],
               tm_broadcaster := bc_Trigger (rq_FromAddress req) (tm_broadcaster t)\<rparr>"
proof -
  obtain r1 w1 where k: "tv_CheckEnabled S (rq_FromAddress req) (tm_w t) = (r1, w1)"
    by (cases "tv_CheckEnabled S (rq_FromAddress req) (tm_w t)")
  obtain r2 w2 where q: "tv_CheckTxQueueCapacity S (rq_FromAddress req) (tc_MaxQueued c) w1 = (r2, w2)"
    by (cases "tv_CheckTxQueueCapacity S (rq_FromAddress req) (tc_MaxQueued c) w1")
  let ?req = "forwarded c S req"
  note run = create_new_def checkEnabled_def or_raise_def trying_def andThen_def m_call_def Let_def basic_prog
  show thesis
  proof (cases "r1 = Inr () \<and> r2 = Inr ()")
    case False
    show thesis
    proof (cases r1)
      case (Inl e)
      show thesis by (rule rejected [of w1 "Wrapped ''cannot send transaction'' e"])
          (use assms k Inl in \<open>simp_all add: run refused_def\<close>)
    next
      case (Inr u)
      then obtain e where "r2 = Inl e" using False by (cases r2) auto
      then show thesis using assms k q Inr by (intro rejected [of w2 "Wrapped ''Txm#CreateTransaction'' e"]) (simp_all add: run refused_def)
    qed
  next
    case True
    then have "andThen (pruneQueueAndCreateTxn S ?req) (\<lambda>etx. andThen (txm_trigger (rq_FromAddress ?req)) (\<lambda>_. returns etx))
        (t\<lparr>tm_w := w2\<rparr>) = Some (Ret (r, t'))"
      using assms k q by (simp add: run)
    then show thesis
    proof (cases rule: andThenE)
      case (fails e)
      from fails(1) show thesis
      proof (cases rule: prune_create_cases)
        case (prune_fails err w)
        then show thesis using fails(2) k q True by (intro rejected [of w err]) (auto simp: refused_def)
      next
        case (create_fails pruned w err w')
        then show thesis using fails(2) k q True
          by (intro that(2) [of pruned w err w']) (auto simp: admitted_def)
      qed (use fails in auto)
    next
      case (continues etx t1)
      from continues(1) show thesis
      proof (cases rule: prune_create_cases)
        case (creates pruned w etx' w')
        then show thesis using continues(2) k q True
          by (intro that(3) [of pruned w etx w']) (auto simp: admitted_def txm_trigger_def andThen_def basic_prog)
      qed auto
    qed
  qed
qed

lemma create_new_returns: "\<exists>r t'. create_new c S req t = Some (Ret (r, t'))"
  unfolding create_new_def pruneQueueAndCreateTxn_def checkEnabled_def txm_trigger_def or_raise_def trying_def m_call_def m_emit_def
    andThen_def Let_def basic_prog
  by (simp split: prod.split sum.split)

text \<open>What the store promises about idempotency keys: \<open>has key\<close> is the transaction stored under a key; looking it up finds it
  or fails, creating a transaction stores it under its key, and nothing else that creating one calls changes it.\<close>

definition key_store :: "('f, 'w) txm_svc \<Rightarrow> (string \<Rightarrow> 'w \<Rightarrow> 'f tx option) \<Rightarrow> bool" where
  "key_store S has \<longleftrightarrow>
     (\<forall>key w r w'. tv_FindTxWithIdempotencyKey S key w = (r, w') \<longrightarrow>
        (\<forall>k. has k w' = has k w) \<and> (\<forall>x. r = Inr x \<longrightarrow> x = has key w)) \<and>
     (\<forall>a w r w'. tv_CheckEnabled S a w = (r, w') \<longrightarrow> (\<forall>k. has k w' = has k w)) \<and>
     (\<forall>a n w r w'. tv_CheckTxQueueCapacity S a n w = (r, w') \<longrightarrow> (\<forall>k. has k w' = has k w)) \<and>
     (\<forall>x w e w'. tv_CreateTransaction S x w = (Inl e, w') \<longrightarrow> (\<forall>k. has k w' = has k w)) \<and>
     (\<forall>x w etx w'. tv_CreateTransaction S x w = (Inr etx, w') \<longrightarrow>
        (\<forall>k. has k w' = (if rq_IdempotencyKey x = Some k then Some etx else has k w)))"

text \<open>Requests that look up their key and prune nothing.\<close>

definition keyed :: "('f, 'w) txm_svc \<Rightarrow> tx_request \<Rightarrow> bool" where
  "keyed S req \<longleftrightarrow>
     rq_IdempotencyKey req \<noteq> None \<and> rq_Strategy req = SendEveryStrategy \<and>
     (tv_v2CreateTransaction S = None \<or> \<not> wants_dual_broadcast req)"

text \<open>Calls one after the other, with their results.\<close>

fun create_each :: "txm_cfg \<Rightarrow> ('f, 'w) txm_svc \<Rightarrow> tx_request list \<Rightarrow> ('f, 'w, (tx_error + 'f tx) list) txm_prog" where
  "create_each c S [] = returns []"
| "create_each c S (req # reqs) =
     andThen (trying (CreateTransaction c S req)) (\<lambda>r. andThen (create_each c S reqs) (\<lambda>rs. returns (r # rs)))"

lemma create_new_frame:
  assumes "key_store S has" and "rq_Strategy req = SendEveryStrategy" and "create_new c S req t = Some (Ret (r, t'))"
  shows "case r of
      Inl err \<Rightarrow> (\<forall>k. has k (tm_w t') = has k (tm_w t)) \<and> tm_effects t' = tm_effects t
    | Inr etx \<Rightarrow> (\<forall>k. has k (tm_w t') = (if rq_IdempotencyKey req = Some k then Some etx else has k (tm_w t))) \<and>
        tm_effects t' = tm_effects t @ [TmCreated etx]"
proof -
  have admits: "pruned = [] \<and> has k w = has k w0" if "admitted c S req w0 pruned w" for pruned w w0 k
    using that assms(1,2) unfolding admitted_def key_store_def by auto
  from assms(3) show ?thesis
  proof (cases rule: create_new_cases)
    case (rejected err w)
    from rejected(1) assms(2) consider
        e where "tv_CheckEnabled S (rq_FromAddress req) (tm_w t) = (Inl e, w)"
      | w1 e where "tv_CheckEnabled S (rq_FromAddress req) (tm_w t) = (Inr (), w1)"
          "tv_CheckTxQueueCapacity S (rq_FromAddress req) (tc_MaxQueued c) w1 = (Inl e, w)"
      unfolding refused_def by auto
    then have "\<forall>k. has k w = has k (tm_w t)" using assms(1) unfolding key_store_def by cases metis+
    with rejected show ?thesis by simp
  next
    case (create_fails pruned w err w')
    from admits [OF this(1)] have "pruned = []" "\<And>k. has k w = has k (tm_w t)" by blast+
    moreover have "has k w' = has k w" for k using assms(1) create_fails(2) unfolding key_store_def by blast
    ultimately show ?thesis using create_fails(3,4) by (simp add: pruning_def)
  next
    case (creates pruned w etx w')
    from admits [OF this(1)] have "pruned = []" "\<And>k. has k w = has k (tm_w t)" by blast+
    moreover have "has k w' = (if rq_IdempotencyKey (forwarded c S req) = Some k then Some etx else has k w)" for k
      using assms(1) creates(2) unfolding key_store_def by blast
    ultimately show ?thesis using creates(3,4) by (simp add: pruning_def)
  qed
qed

lemma create_keyed:
  assumes "key_store S has" and "keyed S req" and "rq_IdempotencyKey req = Some key"
  obtains (keeps) r t' where "CreateTransaction c S req t = Some (Ret (r, t'))" "\<And>k. has k (tm_w t') = has k (tm_w t)"
      "tm_effects t' = tm_effects t" "\<And>etx. r = Inr etx \<Longrightarrow> has key (tm_w t) = Some etx"
    | (creates) etx t' where "CreateTransaction c S req t = Some (Ret (Inr etx, t'))" "has key (tm_w t) = None"
      "\<And>k. has k (tm_w t') = (if k = key then Some etx else has k (tm_w t))" "tm_effects t' = tm_effects t @ [TmCreated etx]"
proof -
  obtain q w where f: "tv_FindTxWithIdempotencyKey S key (tm_w t) = (q, w)" by (cases "tv_FindTxWithIdempotencyKey S key (tm_w t)")
  have h: "has k w = has k (tm_w t)" "q = Inr x \<Longrightarrow> x = has key (tm_w t)" for k x
    using assms(1) f unfolding key_store_def by metis+
  have run: "CreateTransaction c S req t = (case q of
      Inl e \<Rightarrow> Some (Ret (Inl (Wrapped ''failed to search for transaction with IdempotencyKey'' e), t\<lparr>tm_w := w\<rparr>))
    | Inr (Some etx) \<Rightarrow> Some (Ret (Inr etx, t\<lparr>tm_w := w\<rparr>))
    | Inr None \<Rightarrow> create_new c S req (t\<lparr>tm_w := w\<rparr>))"
    using assms(2,3) f unfolding keyed_def
    by (auto simp: CreateTransaction_def or_raise_def trying_def andThen_def m_call_def basic_prog split: option.splits sum.splits)
  show thesis
  proof (cases "q = Inr None")
    case False
    then obtain r where r: "CreateTransaction c S req t = Some (Ret (r, t\<lparr>tm_w := w\<rparr>))" "\<And>etx. r = Inr etx \<Longrightarrow> q = Inr (Some etx)"
      using run by (auto split: sum.splits option.splits)
    show thesis by (rule keeps [OF r(1)]) (use h r(2) in auto)
  next
    case True
    then have none: "has key (tm_w t) = None" using h(2) by metis
    obtain r t' where n: "create_new c S req (t\<lparr>tm_w := w\<rparr>) = Some (Ret (r, t'))" using create_new_returns by blast
    have "rq_Strategy req = SendEveryStrategy" using assms(2) by (simp add: keyed_def)
    from create_new_frame [OF assms(1) this n] have c: "case r of
      Inl err \<Rightarrow> (\<forall>k. has k (tm_w t') = has k (tm_w t)) \<and> tm_effects t' = tm_effects t
    | Inr etx \<Rightarrow> (\<forall>k. has k (tm_w t') = (if k = key then Some etx else has k (tm_w t))) \<and> tm_effects t' = tm_effects t @ [TmCreated etx]"
      using assms(3) h(1) by (cases r) auto
    show thesis
    proof (cases r)
      case (Inl e)
      show thesis by (rule keeps [of r t']) (use run True n c Inl in auto)
    next
      case (Inr etx)
      show thesis by (rule creates [of etx t']) (use run True n none c Inr in auto)
    qed
  qed
qed

definition made_once ::
  "(string \<Rightarrow> 'w \<Rightarrow> 'f tx option) \<Rightarrow> tx_request list \<Rightarrow> ('f, 'w) txm \<Rightarrow> (tx_error + 'f tx) list \<Rightarrow> ('f, 'w) txm \<Rightarrow>
   (string \<times> 'f tx) list \<Rightarrow> bool" where
  "made_once has reqs t rs t' made \<longleftrightarrow>
     length rs = length reqs \<and>
     (\<forall>(req, r)\<in>set (zip reqs rs). \<forall>etx. r = Inr etx \<longrightarrow> has (the (rq_IdempotencyKey req)) (tm_w t') = Some etx) \<and>
     tm_effects t' = tm_effects t @ map (\<lambda>(key, etx). TmCreated etx) made \<and> distinct (map fst made) \<and>
     (\<forall>(key, etx)\<in>set made. has key (tm_w t) = None \<and> has key (tm_w t') = Some etx)"

lemma create_each_once:
  assumes "key_store S has" and "\<forall>req\<in>set reqs. keyed S req"
  shows "\<exists>rs t' made. create_each c S reqs t = Some (Ret (Inr rs, t')) \<and> made_once has reqs t rs t' made \<and>
    (\<forall>k etx. has k (tm_w t) = Some etx \<longrightarrow> has k (tm_w t') = Some etx)"
  using assms(2)
proof (induction reqs arbitrary: t)
  case Nil
  then show ?case by (auto simp: returns_def made_once_def)
next
  case (Cons req reqs)
  then obtain key where key: "keyed S req" "rq_IdempotencyKey req = Some key" by (auto simp: keyed_def)
  have rest: "\<exists>rs t' made. create_each c S reqs u = Some (Ret (Inr rs, t')) \<and> made_once has reqs u rs t' made \<and>
    (\<forall>k etx. has k (tm_w u) = Some etx \<longrightarrow> has k (tm_w t') = Some etx)" for u
    using Cons by simp
  have step: "create_each c S (req # reqs) t = Some (Ret (Inr (r # rs), t'))"
    if "CreateTransaction c S req t = Some (Ret (r, u))" "create_each c S reqs u = Some (Ret (Inr rs, t'))" for r u rs t'
    using that by (simp add: andThen_def trying_def returns_def)
  from assms(1) key show ?case
  proof (cases rule: create_keyed [where c = c and t = t])
    case (keeps r u)
    from rest [of u] obtain rs t' made where i: "create_each c S reqs u = Some (Ret (Inr rs, t'))" "made_once has reqs u rs t' made"
      "\<forall>k etx. has k (tm_w u) = Some etx \<longrightarrow> has k (tm_w t') = Some etx" by blast
    have "made_once has (req # reqs) t (r # rs) t' made" using i(2,3) keeps key(2) by (auto simp: made_once_def)
    then show ?thesis using step [OF keeps(1) i(1)] i(3) keeps(2) by auto
  next
    case (creates etx u)
    from rest [of u] obtain rs t' made where i: "create_each c S reqs u = Some (Ret (Inr rs, t'))" "made_once has reqs u rs t' made"
      "\<forall>k etx. has k (tm_w u) = Some etx \<longrightarrow> has k (tm_w t') = Some etx" by blast
    have new: "has key (tm_w t') = Some etx" using i(3) creates(3) by simp
    have older: "has k (tm_w t) = None \<and> k \<noteq> key" if "(k, x) \<in> set made" for k x
      using that i(2) creates(3) by (fastforce simp: made_once_def split: if_splits)
    then have "key \<notin> fst ` set made" by force
    with new older i(2) creates key(2) have "made_once has (req # reqs) t (Inr etx # rs) t' ((key, etx) # made)"
      by (auto simp: made_once_def)
    moreover have "\<forall>k x. has k (tm_w t) = Some x \<longrightarrow> has k (tm_w t') = Some x" using i(3) creates(2,3) by (metis option.distinct(1))
    ultimately show ?thesis using step [OF creates(1) i(1)] by blast
  qed
qed

section \<open>An instance\<close>

text \<open>The world counts the transactions created; the keys changed from \<open>a\<close> to \<open>b\<close> and \<open>a\<close>, and abandoning fails.\<close>

definition demo_svc :: "(nat, nat) txm_svc" where
  "demo_svc =
     \<lparr>tv_FindTxWithIdempotencyKey = (\<lambda>k w. (Inr (if w = 0 then None else Some (demo_tx 1)), w)),
      tv_FindReceiptWithIdempotencyKey = (\<lambda>k w. (Inr None, w)),
      tv_CheckEnabled = (\<lambda>a w. (Inr (), w)),
      tv_EnabledAddresses = (\<lambda>w. (Inr [''b'', ''a''], w)),
      tv_ConvertPayload = (\<lambda>a p. Inr p),
      tv_CheckTxQueueCapacity = (\<lambda>a n w. (Inr (), w)),
      tv_PruneUnstartedTxQueue = (\<lambda>n k w. (Inr [], w)),
      tv_CreateTransaction = (\<lambda>r w. (Inr (demo_tx 1), Suc w)),
      tv_Abandon = (\<lambda>a w. (Inl (TxErr ''database''), w)),
      tv_v2CreateTransaction = None,
      tv_v2Reset = (\<lambda>a w. (Inr (), w)),
      tv_IsFatal = (\<lambda>e. None),
      tv_conf = demo_conf_env, tv_trk = demo_trk_env, tv_bcastKeys = (\<lambda>w. (Inr [''a''], w))\<rparr>"

definition demo_txm :: "(nat, nat) txm" where
  "demo_txm =
     \<lparr>tm_w = 0,
      tm_broadcaster = \<lparr>bs_w = 0, bs_isStarted = True, bs_enabledAddresses = Some [''a''], bs_triggers = Some [''a'' \<mapsto> False],
        bs_unknownErrs = Map.empty, bs_monitors = [''a'']\<rparr>,
      tm_confirmer = demo_conf,
      tm_tracker = \<lparr>tr_w = 0, tr_enabledAddrs = Some [''a''], tr_txCache = [], tr_isStarted = True, tr_fatal = []\<rparr>,
      tm_enabledAddrs = [''a''], tm_stopped = False, tm_effects = []\<rparr>"

definition demo_key_svc :: "(nat, nat) txm_svc" where
  "demo_key_svc =
     demo_svc\<lparr>tv_FindTxWithIdempotencyKey := (\<lambda>k w. (Inr (if w \<noteq> 0 \<and> k = ''key'' then Some (demo_tx 1) else None), w)),
       tv_CreateTransaction := (\<lambda>x w. if rq_IdempotencyKey x = Some ''key'' then (Inr (demo_tx 1), Suc w) else (Inl (TxErr ''database''), w))\<rparr>"

definition demo_request :: tx_request where
  "demo_request =
     \<lparr>rq_IdempotencyKey = Some ''key'', rq_FromAddress = ''a'', rq_ToAddress = ''b'', rq_EncodedPayload = [], rq_Value = 0,
      rq_FeeLimit = 100, rq_Meta = None, rq_ForwarderAddress = [], rq_PipelineTaskRunID = None, rq_Strategy = SendEveryStrategy,
      rq_SignalCallback = False\<rparr>"

definition demo_txm_cfg :: txm_cfg where
  "demo_txm_cfg = \<lparr>tc_ForwardersEnabled = False, tc_MaxQueued = 10\<rparr>"

lemma demo_txm_started: "all_started demo_txm" "\<not> tm_stopped demo_txm"
  by (simp_all add: demo_txm_def demo_conf_def all_started_def)

lemma demo_create:
  "\<exists>t'. CreateTransaction demo_txm_cfg demo_svc demo_request demo_txm = Some (Ret (Inr (demo_tx 1), t'))"
  by (simp add: CreateTransaction_def create_new_def checkEnabled_def pruneQueueAndCreateTxn_def txm_trigger_def m_call_def
      m_emit_def or_raise_def trying_def andThen_def basic_prog demo_svc_def demo_request_def demo_txm_def forwarded_def
      demo_txm_cfg_def)

section \<open>Properties\<close>

text \<open>The run loop never panics: started with the broadcaster, the tracker and the confirmer running, it serves
  every sequence of triggers, heads, resets, key changes and failing starts; whenever it goes on, the three services are
  running again or the manager is stopping, so that each of them can be closed at the next reset.\<close>

theorem run_loop_never_panics:
  assumes "tm_stopped t \<or> all_started t"
  shows "\<exists>go t'. txm_runLoop S evs t = Some (Ret (Inr go, t')) \<and> (go \<longrightarrow> tm_stopped t' \<or> all_started t')"
  using assms
proof (induction evs arbitrary: t)
  case Nil
  then show ?case by (auto simp: returns_def)
next
  case (Cons ev evs)
  from txm_handle_result [OF Cons.prems] obtain go t1 where h: "txm_handle S ev t = Some (Ret (Inr go, t1))"
    "go \<longrightarrow> tm_stopped t1 \<or> all_started t1" by blast
  show ?case
  proof (cases go)
    case True
    then show ?thesis using Cons.IH [of t1] h by (simp add: andThen_step)
  next
    case False
    then show ?thesis using h by (auto simp: andThen_step returns_def)
  qed
qed

theorem run_loop_never_panics_witness:
  "\<exists>go t'. txm_runLoop demo_svc [TmEvHead 5, TmEvReset ''a'' True started_at_once, TmEvPoll started_at_once, TmEvStop] demo_txm =
     Some (Ret (Inr go, t')) \<and> (go \<longrightarrow> tm_stopped t' \<or> all_started t')"
  by (rule run_loop_never_panics) (simp add: demo_txm_started)

text \<open>A reset that asks to abandon the transactions of a key reports success even when abandoning them failed:
  the caller receives no error, whatever the store answered.\<close>

theorem reset_hides_abandon_error:
  assumes "all_started t" and "\<not> tm_stopped t"
  shows "\<exists>t'. Reset S True addr abandonFlag evs t = Some (Ret (Inr (), t'))"
proof -
  from handle_reset_result [of t S addr abandonFlag evs] assms obtain go t'
    where "handle_reset S addr abandonFlag evs t = Some (Ret (Inr (None, go), t'))" by auto
  then show ?thesis by (simp add: Reset_def andThen_step returns_def)
qed

theorem reset_hides_abandon_error_witness:
  "fst (tv_Abandon demo_svc ''a'' 0) = Inl (TxErr ''database'') \<and>
   (\<exists>t'. Reset demo_svc True ''a'' True started_at_once demo_txm = Some (Ret (Inr (), t')))"
  using reset_hides_abandon_error [OF demo_txm_started, of demo_svc "''a''" True started_at_once]
  by (simp add: demo_svc_def)

text \<open>C39. When the enabled keys differ from those the manager remembered at its start, every poll resets the three
  services, not only the first: each of \<open>n\<close> polls does, although after the first of them the services use the new keys.\<close>

theorem changed_keys_reset_at_every_poll:
  assumes "\<And>w. fst (tv_EnabledAddresses S w) = Inr ks" and "tm_enabledAddrs t \<noteq> sort ks"
    and "all_started t" and "\<not> tm_stopped t"
  shows "\<exists>t'. txm_runLoop S (replicate n (TmEvPoll started_at_once)) t = Some (Ret (Inr True, t')) \<and>
    tm_effects t' = tm_effects t @ replicate n TmReset \<and> (0 < n \<longrightarrow> uses_keys (sort ks) t')"
  using assms(2-4)
proof (induction n arbitrary: t)
  case 0
  then show ?case by (simp add: returns_def)
next
  case (Suc n)
  from poll_changed_keys [OF assms(1) Suc.prems] obtain t1 where t1: "handle_poll S started_at_once t = Some (Ret (Inr True, t1))"
    "all_started t1" "\<not> tm_stopped t1" "tm_effects t1 = tm_effects t @ [TmReset]" "tm_enabledAddrs t1 = tm_enabledAddrs t"
    "uses_keys (sort ks) t1" by blast
  have "tm_enabledAddrs t1 \<noteq> sort ks" using Suc.prems(1) t1(5) by simp
  from Suc.IH [OF this t1(2,3)] obtain t2 where t2: "txm_runLoop S (replicate n (TmEvPoll started_at_once)) t1 = Some (Ret (Inr True, t2))"
    "tm_effects t2 = tm_effects t1 @ replicate n TmReset" "0 < n \<longrightarrow> uses_keys (sort ks) t2" by blast
  have "uses_keys (sort ks) t2" using t1(6) t2(1,3) by (cases n) (auto simp: returns_def)
  then show ?case using t1(1,4) t2 by (simp add: andThen_step)
qed

theorem changed_keys_reset_at_every_poll_witness:
  "\<exists>t'. txm_runLoop demo_svc (replicate 3 (TmEvPoll started_at_once)) demo_txm = Some (Ret (Inr True, t')) \<and>
    tm_effects t' = [TmReset, TmReset, TmReset] \<and> uses_keys (sort [''b'', ''a'']) t'"
proof -
  have k: "fst (tv_EnabledAddresses demo_svc w) = Inr [''b'', ''a'']" for w by (simp add: demo_svc_def)
  have d: "tm_enabledAddrs demo_txm \<noteq> sort [''b'', ''a'']" by (simp add: demo_txm_def)
  from changed_keys_reset_at_every_poll [OF k d demo_txm_started, of 3] show ?thesis
    by (auto simp: demo_txm_def numeral_3_eq_3)
qed

text \<open>C8. Creating a transaction always returns. A request for dual broadcast goes to the second manager when there is one:
  its answer is returned, and neither the idempotency key nor the queue is looked at. Otherwise a transaction that already has
  the request's idempotency key is returned and nothing happens; or, when the sender is enabled and the queue has room, exactly
  one transaction is created from the request as the forwarder rewrote it, it is the one returned, and the broadcaster is
  triggered for its sender. An error creates and triggers nothing; the only thing it can leave behind are the transactions
  already pruned from the queue when the store refused the new one.\<close>

theorem create_transaction_result:
  "\<exists>r t'. CreateTransaction c S req t = Some (Ret (r, t')) \<and>
    (case (tv_v2CreateTransaction S, wants_dual_broadcast req) of
       (Some v2, True) \<Rightarrow>
         v2 req (tm_w t) = (r, tm_w t') \<and> tm_broadcaster t' = tm_broadcaster t \<and>
         tm_effects t' = tm_effects t @ (case r of Inl err \<Rightarrow> [] | Inr etx \<Rightarrow> [TmV2Created etx])
     | _ \<Rightarrow>
         (case r of
            Inl err \<Rightarrow>
              tm_broadcaster t' = tm_broadcaster t \<and>
              (tm_effects t' = tm_effects t \<and>
                 ((\<exists>key e. rq_IdempotencyKey req = Some key \<and> tv_FindTxWithIdempotencyKey S key (tm_w t) = (Inl e, tm_w t')) \<or>
                  (\<exists>w0. refused c S req w0 (tm_w t')) \<or>
                  (\<exists>w0 w. admitted c S req w0 [] w \<and> tv_CreateTransaction S (forwarded c S req) w = (Inl err, tm_w t'))) \<or>
               (\<exists>pruned w0 w. tm_effects t' = tm_effects t @ [TmPruned pruned] \<and> admitted c S req w0 pruned w \<and>
                  tv_CreateTransaction S (forwarded c S req) w = (Inl err, tm_w t')))
          | Inr etx \<Rightarrow>
              (\<exists>key w. rq_IdempotencyKey req = Some key \<and> tv_FindTxWithIdempotencyKey S key (tm_w t) = (Inr (Some etx), w) \<and>
                 tm_effects t' = tm_effects t \<and> tm_broadcaster t' = tm_broadcaster t) \<or>
              ((\<forall>key. rq_IdempotencyKey req = Some key \<longrightarrow> fst (tv_FindTxWithIdempotencyKey S key (tm_w t)) = Inr None) \<and>
               (\<exists>pruned w0 w. admitted c S req w0 pruned w \<and>
                  tv_CreateTransaction S (forwarded c S req) w = (Inr etx, tm_w t') \<and>
                  tm_effects t' = tm_effects t @ pruning pruned @ [TmCreated etx]) \<and>
               tm_broadcaster t' = bc_Trigger (rq_FromAddress req) (tm_broadcaster t))))"
  (is "\<exists>r t'. _ \<and> (case ?c of (Some v2, True) \<Rightarrow> ?dual v2 r t' | _ \<Rightarrow> ?single r t')")
proof -
  have new: "\<exists>r t'. create_new c S req u = Some (Ret (r, t')) \<and> ?single r t'"
    if "u = t\<lparr>tm_w := w\<rparr>" and "\<forall>key. rq_IdempotencyKey req = Some key \<longrightarrow> fst (tv_FindTxWithIdempotencyKey S key (tm_w t)) = Inr None"
    for u w
  proof -
    obtain r t' where run: "create_new c S req u = Some (Ret (r, t'))" using create_new_returns by blast
    then have "?single r t'"
    proof (cases rule: create_new_cases)
      case (rejected err w)
      then show ?thesis using that(1) by auto
    next
      case (create_fails pruned w err w')
      then show ?thesis using that(1) by (cases "pruned = []") (auto simp: pruning_def)
    next
      case (creates pruned w etx w')
      then show ?thesis using that by auto
    qed
    with run show ?thesis by blast
  qed
  show ?thesis
  proof (cases "\<exists>v2. ?c = (Some v2, True)")
    case True
    then obtain v2 where v2: "?c = (Some v2, True)" by blast
    obtain r w where "v2 req (tm_w t) = (r, w)" by (cases "v2 req (tm_w t)")
    then show ?thesis using v2
      by (cases r) (auto simp: CreateTransaction_def andThen_def m_call_def m_emit_def basic_prog)
  next
    case False
    have same: "(case ?c of (Some v2, True) \<Rightarrow> a v2 | _ \<Rightarrow> b) = b" for a and b :: 'z
      using False by (auto split: option.split bool.split)
    show ?thesis
    proof (cases "rq_IdempotencyKey req")
      case None
      then show ?thesis using new [of t "tm_w t"] by (simp only: same CreateTransaction_def) simp
    next
      case (Some key)
      obtain r w where f: "tv_FindTxWithIdempotencyKey S key (tm_w t) = (r, w)" by (cases "tv_FindTxWithIdempotencyKey S key (tm_w t)")
      have search: "or_raise g (m_call (tv_FindTxWithIdempotencyKey S key)) t =
          Some (Ret (map_sum g id r, t\<lparr>tm_w := w\<rparr>))" for g :: "tx_error \<Rightarrow> tx_error"
        using f by (cases r) (simp_all add: or_raise_def trying_def andThen_def m_call_def basic_prog)
      show ?thesis
      proof (cases "r = Inr None")
        case True
        then show ?thesis using new [of "t\<lparr>tm_w := w\<rparr>" w] Some f search
          by (simp only: same CreateTransaction_def) (simp add: andThen_def)
      next
        case r: False
        show ?thesis
        proof (cases r)
          case (Inl e)
          then show ?thesis using Some f search by (simp only: same CreateTransaction_def) (simp add: andThen_def)
        next
          case (Inr x)
          then obtain etx where "r = Inr (Some etx)" using r by (cases x) auto
          then show ?thesis using Some f search by (simp only: same CreateTransaction_def) (simp add: andThen_def returns_def)
        qed
      qed
    qed
  qed
qed

theorem create_transaction_result_witness:
  "\<exists>t'. CreateTransaction demo_txm_cfg demo_svc demo_request demo_txm = Some (Ret (Inr (demo_tx 1), t')) \<and>
     TmCreated (demo_tx 1) \<in> set (tm_effects t')"
proof -
  from demo_create obtain t' where run:
    "CreateTransaction demo_txm_cfg demo_svc demo_request demo_txm = Some (Ret (Inr (demo_tx 1), t'))" by blast
  have v2: "tv_v2CreateTransaction demo_svc = None" by (simp add: demo_svc_def)
  have key: "tv_FindTxWithIdempotencyKey demo_svc k (tm_w demo_txm) = (Inr None, 0)" for k
    by (simp add: demo_svc_def demo_txm_def)
  from create_transaction_result [of demo_txm_cfg demo_svc demo_request demo_txm]
  have "TmCreated (demo_tx 1) \<in> set (tm_effects t')" unfolding run v2 by (auto simp: key)
  with run show ?thesis by blast
qed

text \<open>C35. Idempotency keys over any sequence of requests for new transactions: of all the requests with one key that
  succeed, every one returns the same transaction, and no two transactions are created under one key, none under a key that had
  one before. The requests look up a key, do not go to the second manager and keep the queue (\<open>SendEveryStrategy\<close>: a
  transaction that pruning removed could be created again), and the store finds what was created under a key.\<close>

theorem keys_create_once:
  assumes "key_store S has" and "\<forall>req\<in>set reqs. keyed S req"
  shows "\<exists>rs t' made. create_each c S reqs t = Some (Ret (Inr rs, t')) \<and> length rs = length reqs \<and>
    (\<forall>(req, r)\<in>set (zip reqs rs). \<forall>etx. r = Inr etx \<longrightarrow> has (the (rq_IdempotencyKey req)) (tm_w t') = Some etx) \<and>
    tm_effects t' = tm_effects t @ map (\<lambda>(key, etx). TmCreated etx) made \<and> distinct (map fst made) \<and>
    (\<forall>(key, etx)\<in>set made. has key (tm_w t) = None \<and> has key (tm_w t') = Some etx)"
  using create_each_once [OF assms, of c t] unfolding made_once_def by blast

theorem keys_create_once_witness:
  "\<exists>rs t'. create_each demo_txm_cfg demo_key_svc [demo_request, demo_request] demo_txm = Some (Ret (Inr rs, t')) \<and> length rs = 2"
proof -
  let ?has = "\<lambda>k w. if w \<noteq> 0 \<and> k = ''key'' then Some (demo_tx 1) else None"
  have laws: "key_store demo_key_svc ?has"
    by (auto simp: key_store_def demo_key_svc_def demo_svc_def split: if_splits)
  have keyed: "\<forall>req\<in>set [demo_request, demo_request]. keyed demo_key_svc req"
    by (simp add: keyed_def demo_request_def demo_key_svc_def demo_svc_def)
  show ?thesis using keys_create_once [OF laws keyed, of demo_txm_cfg demo_txm] by fastforce
qed

end
