(* ===== verification/Tx_Maintenance.thy ===== *)
theory Tx_Maintenance
  imports Tx_Types Chain_Info Go_Monad
begin

text \<open>
  \<open>chains/txmgr/resender.go\<close> and \<open>chains/txmgr/reaper.go\<close>: the resender sends attempts again that have not been
  confirmed for a while, all addresses in one batch, and raises an alert per address at most every two minutes; the reaper
  deletes old transactions, periodically and once after the first head. Times are in nanoseconds.
\<close>

section \<open>Resender\<close>

record ('f, 'w) rsd_env =
  rs_EnabledAddresses :: "'w \<Rightarrow> (tx_error + string list) \<times> 'w"
  rs_FindTxAttemptsRequiringResend :: "int \<Rightarrow> 32 word \<Rightarrow> string \<Rightarrow> 'w \<Rightarrow> (tx_error + 'f tx_attempt list) \<times> 'w"
  rs_BatchSendTransactions :: "'f tx_attempt list \<Rightarrow> 32 word \<Rightarrow> 'w \<Rightarrow> (int \<times> int list \<times> tx_error option) \<times> 'w"
  rs_UpdateBroadcastAts :: "int \<Rightarrow> int list \<Rightarrow> 'w \<Rightarrow> (tx_error + unit) \<times> 'w"
  rs_now :: "'w \<Rightarrow> int"

record rsd_cfg =
  rc_ResendAfterThreshold :: int
  rc_MaxInFlight :: "32 word"
  rc_RPCDefaultBatchSize :: "32 word"

datatype 'f rsd_effect =
    RAlerted string int "'f tx_attempt"
  | RResent "'f tx_attempt list"
  | RUpdated int "int list"

record ('f, 'w) resender =
  rs_w :: 'w
  lastAlertTimestamps :: "string \<rightharpoonup> int"
  rs_effects :: "'f rsd_effect list"

type_synonym ('f, 'w, 'a) rsd_prog = "(('f, 'w) resender, tx_error, 'a) prog"

definition unconfirmedTxAlertLogFrequency :: int where
  "unconfirmedTxAlertLogFrequency = 2 * 60 * 1000000000"

definition NewResender :: "rsd_cfg \<Rightarrow> 'w \<Rightarrow> ('f, 'w) resender outcome" where
  "NewResender c w =
     (if rc_ResendAfterThreshold c = 0 then Panic ''Resender requires a non-zero threshold''
      else Ret \<lparr>rs_w = w, lastAlertTimestamps = Map.empty, rs_effects = []\<rparr>)"

definition r_call :: "('w \<Rightarrow> (tx_error + 'a) \<times> 'w) \<Rightarrow> ('f, 'w, 'a) rsd_prog" where
  "r_call f s = (case f (rs_w s) of (r, w) \<Rightarrow> Some (Ret (r, s\<lparr>rs_w := w\<rparr>)))"

definition r_emit :: "'f rsd_effect \<Rightarrow> ('f, 'w) resender \<Rightarrow> ('f, 'w) resender" where
  "r_emit e s = s\<lparr>rs_effects := rs_effects s @ [e]\<rparr>"

fun oldest_loop :: "'f tx_attempt \<Rightarrow> 'f tx_attempt list \<Rightarrow> 'f tx_attempt" where
  "oldest_loop oldestAttempt [] = oldestAttempt"
| "oldest_loop oldestAttempt (a # as) =
     oldest_loop (if att_CreatedAt oldestAttempt - att_CreatedAt a \<le> 0 then a else oldestAttempt) as"

definition findOldestUnconfirmedAttempt :: "'f tx_attempt list \<Rightarrow> 'f tx_attempt option" where
  "findOldestUnconfirmedAttempt attempts = (case attempts of [] \<Rightarrow> None | a # as \<Rightarrow> Some (oldest_loop a as))"

definition logStuckAttempts ::
  "rsd_cfg \<Rightarrow> ('f, 'w) rsd_env \<Rightarrow> 'f tx_attempt list \<Rightarrow> string \<Rightarrow> ('f, 'w) resender \<Rightarrow> ('f, 'w) resender" where
  "logStuckAttempts c E attempts fromAddress s =
     (let now = rs_now E (rs_w s) in
      if (case lastAlertTimestamps s fromAddress of None \<Rightarrow> True | Some t \<Rightarrow> unconfirmedTxAlertLogFrequency \<le> now - t) then
        (case findOldestUnconfirmedAttempt attempts of
           None \<Rightarrow> s
         | Some oldestAttempt \<Rightarrow>
             if rc_ResendAfterThreshold c * 2 < now - att_CreatedAt oldestAttempt
             then r_emit (RAlerted fromAddress now oldestAttempt)
                    (s\<lparr>lastAlertTimestamps := (lastAlertTimestamps s)(fromAddress \<mapsto> now)\<rparr>)
             else s)
      else s)"

fun find_attempts ::
  "rsd_cfg \<Rightarrow> ('f, 'w) rsd_env \<Rightarrow> int \<Rightarrow> string list \<Rightarrow> ('f, 'w, 'f tx_attempt list) rsd_prog" where
  "find_attempts c E olderThan [] = returns []"
| "find_attempts c E olderThan (k # ks) =
     andThen (or_raise (Wrapped ''failed to FindTxAttemptsRequiringResend'')
                (r_call (rs_FindTxAttemptsRequiringResend E olderThan (rc_MaxInFlight c) k)))
       (\<lambda>attempts. andThen (updates (logStuckAttempts c E attempts k)) (\<lambda>_.
          andThen (find_attempts c E olderThan ks) (\<lambda>rest. returns (attempts @ rest))))"

definition send_batch :: "rsd_cfg \<Rightarrow> ('f, 'w) rsd_env \<Rightarrow> 'f tx_attempt list \<Rightarrow> ('f, 'w, unit) rsd_prog" where
  "send_batch c E allAttempts =
     andThen (r_call (\<lambda>w. case rs_BatchSendTransactions E allAttempts (rc_RPCDefaultBatchSize c) w of (r, w1) \<Rightarrow> (Inr r, w1)))
       (\<lambda>(broadcastTime, txIDs, sendErr).
     andThen (updates (r_emit (RResent allAttempts))) (\<lambda>_.
     andThen
       (if txIDs = [] then returns sendErr
        else
          andThen (trying (r_call (rs_UpdateBroadcastAts E broadcastTime txIDs))) (\<lambda>r.
            case r of
              Inl updateErr \<Rightarrow>
                returns (errors_Join (case sendErr of None \<Rightarrow> [Wrapped ''failed to update broadcast time'' updateErr]
                   | Some e \<Rightarrow> [e, Wrapped ''failed to update broadcast time'' updateErr]))
            | Inr _ \<Rightarrow> andThen (updates (r_emit (RUpdated broadcastTime txIDs))) (\<lambda>_. returns sendErr)))
       (\<lambda>err. case err of
          Some e \<Rightarrow> raises (Wrapped ''failed to re-send transactions'' e)
        | None \<Rightarrow> returns ())))"

text \<open>When nothing is overdue every alert timer starts again.\<close>

definition resendUnconfirmed :: "rsd_cfg \<Rightarrow> ('f, 'w) rsd_env \<Rightarrow> ('f, 'w, unit) rsd_prog" where
  "resendUnconfirmed c E =
     andThen (or_raise (Wrapped ''resender failed getting enabled keys'') (r_call (rs_EnabledAddresses E))) (\<lambda>resendAddresses.
     andThen (reads (\<lambda>s. rs_now E (rs_w s) - rc_ResendAfterThreshold c)) (\<lambda>olderThan.
     andThen (find_attempts c E olderThan resendAddresses) (\<lambda>allAttempts.
       if allAttempts = []
       then updates (\<lambda>s. s\<lparr>lastAlertTimestamps := \<lambda>k. map_option (\<lambda>_. rs_now E (rs_w s)) (lastAlertTimestamps s k)\<rparr>)
       else send_batch c E allAttempts)))"

text \<open>The loop: once at the start and at every tick; errors are logged.\<close>

fun rsd_runLoop :: "rsd_cfg \<Rightarrow> ('f, 'w) rsd_env \<Rightarrow> nat \<Rightarrow> ('f, 'w, unit) rsd_prog" where
  "rsd_runLoop c E 0 = andThen (trying (resendUnconfirmed c E)) (\<lambda>_. returns ())"
| "rsd_runLoop c E (Suc ticks) = andThen (trying (resendUnconfirmed c E)) (\<lambda>_. rsd_runLoop c E ticks)"

section \<open>Reaper\<close>

text \<open>\<open>rp_trigger\<close> is the buffered channel of capacity one, \<open>rp_blocked\<close> says that a sender waits for room in it, and
  \<open>rp_reaped\<close> lists the times before which transactions were deleted.\<close>

record reaper =
  latestBlockNum :: int
  rp_trigger :: bool
  rp_blocked :: bool
  rp_stopped :: bool
  rp_reaped :: "int list"

definition NewReaper :: reaper where
  "NewReaper = \<lparr>latestBlockNum = -1, rp_trigger = False, rp_blocked = False, rp_stopped = False, rp_reaped = []\<rparr>"

definition SetLatestBlockNum :: "int \<Rightarrow> reaper \<Rightarrow> reaper outcome" where
  "SetLatestBlockNum n r =
     (if n < 0 then Panic ''latestBlockNum must be 0 or greater''
      else
        let was = latestBlockNum r; r1 = r\<lparr>latestBlockNum := n\<rparr> in
        if was < 0 then (if rp_trigger r then Ret (r1\<lparr>rp_blocked := True\<rparr>) else Ret (r1\<lparr>rp_trigger := True\<rparr>))
        else Ret r1)"

text \<open>\<open>reap\<close> is the store's answer to \<open>ReapTxHistory\<close>; an error is only logged.\<close>

definition ReapTxes :: "(int \<Rightarrow> tx_error option) \<Rightarrow> int \<Rightarrow> int \<Rightarrow> reaper \<Rightarrow> tx_error option \<times> reaper" where
  "ReapTxes reap threshold now r =
     (if threshold = 0 then (None, r)
      else
        let timeThreshold = now - threshold in
        (case reap timeThreshold of
           Some err \<Rightarrow> (Some err, r)
         | None \<Rightarrow> (None, r\<lparr>rp_reaped := rp_reaped r @ [timeThreshold]\<rparr>)))"

definition reaper_work :: "(int \<Rightarrow> tx_error option) \<Rightarrow> int \<Rightarrow> int \<Rightarrow> reaper \<Rightarrow> reaper" where
  "reaper_work reap threshold now r =
     (if latestBlockNum r < 0 then r else snd (ReapTxes reap threshold now r))"

text \<open>The reaper's loop interleaved with the goroutine that reports heads.\<close>

inductive reaper_step :: "reaper \<Rightarrow> reaper \<Rightarrow> bool" where
  tick: "\<not> rp_stopped r \<Longrightarrow> reaper_step r (reaper_work reap threshold now r)"
| triggered: "\<not> rp_stopped r \<Longrightarrow> rp_trigger r \<Longrightarrow>
    reaper_step r (reaper_work reap threshold now (r\<lparr>rp_trigger := False\<rparr>))"
| head: "SetLatestBlockNum n r = Ret r' \<Longrightarrow> reaper_step r r'"
| stop: "reaper_step r (r\<lparr>rp_stopped := True\<rparr>)"

inductive_cases reaper_stepE: "reaper_step r r'"

interpretation rp: transition_system "\<lambda>r. r = NewReaper" reaper_step .

section \<open>Lemmas\<close>

lemma oldest_loop_newest:
  "oldest_loop o1 as \<in> insert o1 (set as) \<and> (\<forall>a\<in>insert o1 (set as). att_CreatedAt a \<le> att_CreatedAt (oldest_loop o1 as))"
proof (induction as arbitrary: o1)
  case Nil
  show ?case by simp
next
  case (Cons a as)
  show ?case
    using Cons.IH [of a] Cons.IH [of o1] by auto
qed

text \<open>The times of the alerts raised for an address.\<close>

fun alert_times :: "string \<Rightarrow> 'f rsd_effect list \<Rightarrow> int list" where
  "alert_times a [] = []"
| "alert_times a (RAlerted b t x # es) = (if a = b then t # alert_times a es else alert_times a es)"
| "alert_times a (_ # es) = alert_times a es"

lemma alert_times_append [simp]: "alert_times a (xs @ ys) = alert_times a xs @ alert_times a ys"
  by (induction a xs rule: alert_times.induct) auto

definition clock_laws :: "('f, 'w) rsd_env \<Rightarrow> bool" where
  "clock_laws E \<longleftrightarrow>
     (\<forall>w. rs_now E w \<le> rs_now E (snd (rs_EnabledAddresses E w))) \<and>
     (\<forall>t m k w. rs_now E w \<le> rs_now E (snd (rs_FindTxAttemptsRequiringResend E t m k w))) \<and>
     (\<forall>as n w. rs_now E w \<le> rs_now E (snd (rs_BatchSendTransactions E as n w))) \<and>
     (\<forall>t is w. rs_now E w \<le> rs_now E (snd (rs_UpdateBroadcastAts E t is w)))"

definition alerts_inv :: "('f, 'w) rsd_env \<Rightarrow> ('f, 'w) resender \<Rightarrow> bool" where
  "alerts_inv E s \<longleftrightarrow>
     (\<forall>a. sorted_wrt (\<lambda>t u. t + unconfirmedTxAlertLogFrequency \<le> u) (alert_times a (rs_effects s)) \<and>
        (\<forall>t\<in>set (alert_times a (rs_effects s)). \<exists>l. lastAlertTimestamps s a = Some l \<and> t \<le> l) \<and>
        (\<forall>l. lastAlertTimestamps s a = Some l \<longrightarrow> l \<le> rs_now E (rs_w s)))"

lemma alerts_inv_log: "alerts_inv E s \<Longrightarrow> alerts_inv E (logStuckAttempts c E as k s)"
  unfolding logStuckAttempts_def Let_def alerts_inv_def
  by (auto simp: r_emit_def sorted_wrt_append split: option.splits) fastforce+

lemma alerts_inv_reset:
  assumes "alerts_inv E s"
  shows "alerts_inv E (s\<lparr>lastAlertTimestamps := \<lambda>k. map_option (\<lambda>_. rs_now E (rs_w s)) (lastAlertTimestamps s k)\<rparr>)"
proof -
  have "t \<le> rs_now E (rs_w s)" if "t \<in> set (alert_times a (rs_effects s))" for a t
    using assms that unfolding alerts_inv_def by (meson order_trans)
  then show ?thesis using assms unfolding alerts_inv_def by (auto; fastforce)
qed

lemma alerts_inv_quiet: "(\<And>b. alert_times b [e] = []) \<Longrightarrow> alerts_inv E s \<Longrightarrow> alerts_inv E (r_emit e s)"
  unfolding alerts_inv_def by (auto simp: r_emit_def)

lemma alerts_inv_call:
  assumes "\<And>w. rs_now E w \<le> rs_now E (snd (f w))"
  shows "kept (alerts_inv E) (r_call f)"
proof (rule keptI)
  fix s r s' assume i: "alerts_inv E s" and h: "r_call f s = Some (Ret (r, s'))"
  obtain w where "s' = s\<lparr>rs_w := w\<rparr>" "rs_now E (rs_w s) \<le> rs_now E w"
    using h assms [of "rs_w s"] by (auto simp: r_call_def split: prod.splits)
  then show "alerts_inv E s'" using i unfolding alerts_inv_def by fastforce
qed

lemma alerts_calls [keeps]:
  assumes "clock_laws E"
  shows "kept (alerts_inv E) (r_call (rs_EnabledAddresses E))"
    and "kept (alerts_inv E) (r_call (rs_FindTxAttemptsRequiringResend E t m k))"
    and "kept (alerts_inv E) (r_call (rs_UpdateBroadcastAts E u is))"
  using assms by (auto intro!: alerts_inv_call simp: clock_laws_def)

lemma alerts_batch_call [keeps]:
  assumes "clock_laws E"
  shows "kept (alerts_inv E) (r_call (\<lambda>w. case rs_BatchSendTransactions E as n w of (r, w1) \<Rightarrow> (Inr r, w1)))"
proof (rule alerts_inv_call)
  fix w
  show "rs_now E w \<le> rs_now E (snd (case rs_BatchSendTransactions E as n w of (r, w1) \<Rightarrow> (Inr r, w1)))"
    using assms by (cases "rs_BatchSendTransactions E as n w") (auto simp: clock_laws_def, metis snd_conv)
qed

lemma find_attempts_alerts [keeps]: "clock_laws E \<Longrightarrow> kept (alerts_inv E) (find_attempts c E t ks)"
  by (induction ks) (auto intro!: keeps alerts_inv_log)

lemma send_batch_alerts [keeps]: "clock_laws E \<Longrightarrow> kept (alerts_inv E) (send_batch c E as)"
  unfolding send_batch_def
  by (auto intro!: keeps alerts_inv_quiet split: option.split sum.split prod.split)

lemma resendUnconfirmed_alerts [keeps]: "clock_laws E \<Longrightarrow> kept (alerts_inv E) (resendUnconfirmed c E)"
  unfolding resendUnconfirmed_def by (auto intro!: keeps alerts_inv_reset)

lemma rsd_runLoop_alerts: "clock_laws E \<Longrightarrow> kept (alerts_inv E) (rsd_runLoop c E ticks)"
  by (induction ticks) (auto intro!: keeps)

section \<open>An instance\<close>

text \<open>The world is the clock; a batch takes 150 seconds.\<close>

definition demo_rsd_env :: "(nat, int) rsd_env" where
  "demo_rsd_env =
     \<lparr>rs_EnabledAddresses = (\<lambda>w. (Inr [''a''], w)),
      rs_FindTxAttemptsRequiringResend = (\<lambda>t m k w. (Inr [demo_attempt 1], w)),
      rs_BatchSendTransactions = (\<lambda>as n w. ((w, [1], None), w + 150 * 1000000000)),
      rs_UpdateBroadcastAts = (\<lambda>t is w. (Inr (), w)),
      rs_now = (\<lambda>w. w)\<rparr>"

definition demo_rsd_cfg :: rsd_cfg where
  "demo_rsd_cfg = \<lparr>rc_ResendAfterThreshold = 60 * 1000000000, rc_MaxInFlight = 16, rc_RPCDefaultBatchSize = 100\<rparr>"

lemma demo_clock_laws: "clock_laws demo_rsd_env"
  by (simp add: clock_laws_def demo_rsd_env_def)

section \<open>Properties\<close>

text \<open>The alerts for an address are at least two minutes apart, over any number of rounds and whatever the
  store and the client answer, as long as the clock does not run backwards.\<close>

theorem alerts_spaced:
  assumes "clock_laws E" and "NewResender c w = Ret s" and "rsd_runLoop c E ticks s = Some (Ret (r, s'))"
  shows "sorted_wrt (\<lambda>t u. t + unconfirmedTxAlertLogFrequency \<le> u) (alert_times a (rs_effects s'))"
proof -
  have "alerts_inv E s" using assms(2) by (auto simp: NewResender_def alerts_inv_def split: if_splits)
  from keptD [OF rsd_runLoop_alerts [OF assms(1)] assms(3) this] show ?thesis by (simp add: alerts_inv_def)
qed

theorem alerts_spaced_witness:
  "\<exists>s s'. NewResender demo_rsd_cfg (200 * 1000000000) = Ret s \<and> rsd_runLoop demo_rsd_cfg demo_rsd_env 1 s = Some (Ret (Inr (), s')) \<and>
     alert_times ''a'' (rs_effects s') = [200000000000, 350000000000] \<and>
     sorted_wrt (\<lambda>t u. t + unconfirmedTxAlertLogFrequency \<le> u) (alert_times ''a'' (rs_effects s'))"
proof -
  let ?s = "\<lparr>rs_w = 200000000000, lastAlertTimestamps = Map.empty, rs_effects = []\<rparr> :: (nat, int) resender"
  have n: "NewResender demo_rsd_cfg (200 * 1000000000) = Ret ?s" by (simp add: NewResender_def demo_rsd_cfg_def)
  have "observe (\<lambda>s. alert_times ''a'' (rs_effects s)) (rsd_runLoop demo_rsd_cfg demo_rsd_env 1 ?s) =
      Some (Inr (), [200000000000, 350000000000])" by code_simp
  then obtain s' where r: "rsd_runLoop demo_rsd_cfg demo_rsd_env 1 ?s = Some (Ret (Inr (), s'))"
    and t: "alert_times ''a'' (rs_effects s') = [200000000000, 350000000000]" by (rule observeE)
  from alerts_spaced [OF demo_clock_laws n r, of "''a''"] n r t show ?thesis
    by (intro exI [of _ ?s] exI [of _ s'] conjI)
qed

text \<open>The attempt found as the oldest unconfirmed one is the newest.\<close>

theorem oldest_is_newest:
  assumes "findOldestUnconfirmedAttempt attempts = Some a"
  shows "a \<in> set attempts \<and> (\<forall>b\<in>set attempts. att_CreatedAt b \<le> att_CreatedAt a)"
  using assms oldest_loop_newest by (auto simp: findOldestUnconfirmedAttempt_def split: list.splits)

theorem oldest_is_newest_witness:
  "findOldestUnconfirmedAttempt [(demo_attempt 1)\<lparr>att_CreatedAt := 5\<rparr>, (demo_attempt 1)\<lparr>att_CreatedAt := 9\<rparr>] =
     Some ((demo_attempt 1)\<lparr>att_CreatedAt := 9\<rparr>) \<and>
   att_CreatedAt ((demo_attempt 1)\<lparr>att_CreatedAt := 5\<rparr>) \<le> att_CreatedAt ((demo_attempt 1)\<lparr>att_CreatedAt := 9\<rparr>)"
proof -
  have "findOldestUnconfirmedAttempt [(demo_attempt 1)\<lparr>att_CreatedAt := 5\<rparr>, (demo_attempt 1)\<lparr>att_CreatedAt := 9\<rparr>] =
     Some ((demo_attempt 1)\<lparr>att_CreatedAt := 9\<rparr>)"
    by (simp add: findOldestUnconfirmedAttempt_def)
  from oldest_is_newest [OF this] this show ?thesis by simp
qed

text \<open>Reporting a head never blocks on the trigger channel, and nothing is reaped before a head was reported, in
  every interleaving of the reaper's loop with the reports.\<close>

theorem reaper_never_blocks:
  assumes "rp.reach r"
  shows "\<not> rp_blocked r \<and> (latestBlockNum r < 0 \<longrightarrow> \<not> rp_trigger r \<and> rp_reaped r = [])"
  using assms
proof (rule rp.reach_invariant)
  fix r assume "r = NewReaper"
  then show "\<not> rp_blocked r \<and> (latestBlockNum r < 0 \<longrightarrow> \<not> rp_trigger r \<and> rp_reaped r = [])" by (simp add: NewReaper_def)
next
  fix r r' assume "\<not> rp_blocked r \<and> (latestBlockNum r < 0 \<longrightarrow> \<not> rp_trigger r \<and> rp_reaped r = [])" and "reaper_step r r'"
  then show "\<not> rp_blocked r' \<and> (latestBlockNum r' < 0 \<longrightarrow> \<not> rp_trigger r' \<and> rp_reaped r' = [])"
    by (elim reaper_stepE)
      (auto simp: reaper_work_def ReapTxes_def SetLatestBlockNum_def Let_def split: option.splits if_splits)
qed

theorem reaper_never_blocks_witness:
  "\<exists>r. SetLatestBlockNum 5 NewReaper = Ret r \<and> rp.reach r \<and> rp_trigger r \<and> \<not> rp_blocked r"
proof -
  have h: "SetLatestBlockNum 5 NewReaper = Ret (NewReaper\<lparr>latestBlockNum := 5, rp_trigger := True\<rparr>)"
    by (simp add: SetLatestBlockNum_def NewReaper_def)
  have "rp.reach (NewReaper\<lparr>latestBlockNum := 5, rp_trigger := True\<rparr>)"
    by (rule rp.reach_step [OF rp.reach_init reaper_step.head [OF h]]) simp
  from reaper_never_blocks [OF this] this h show ?thesis by (intro exI) auto
qed

end
