(* ===== verification/Tx_Lifecycle.thy ===== *)
theory Tx_Lifecycle
  imports Tx_Manager Tx_Maintenance
begin

text \<open>
  \<open>chains/txmgr/txmgr.go\<close>: the life of the transaction manager around its run loop. Construction, \<open>Start\<close>, which starts
  the services one after the other and then the run loop, the reaper and the resender, \<open>Close\<close>, and the calls that reach
  the loop from outside. \<open>Start\<close> and \<open>Close\<close> are the functions given to \<open>StartOnce\<close> and \<open>StopOnce\<close>; \<open>started\<close> is the
  answer of \<open>IfStarted\<close>. \<open>services.MultiStart\<close> is a parameter, with the law \<open>multi_start_law\<close> of its documentation: a
  service that fails to start makes it close the services it has started before. A callback is named by a string.
\<close>

section \<open>State and environment\<close>

datatype txm_part = PBroadcaster | PConfirmer | PAttemptBuilder | PTracker | PFinalizer | PTxmV2 | PFwdMgr

text \<open>\<open>sy_running\<close> lists the services of other packages that run; \<open>sy_reaper\<close> is nil when reaping is disabled.\<close>

record ('f, 'w) txm_sys =
  sy_txm :: "('f, 'w) txm"
  sy_running :: "txm_part list"
  sy_runLoop :: bool
  sy_reaper :: "reaper option"
  sy_reaperRuns :: bool
  sy_resenderRuns :: bool
  sy_chStop :: bool
  sy_storeClosed :: bool
  sy_resumeCallback :: "string option"
  sy_callbacks :: "txm_part \<rightharpoonup> string"

type_synonym ('f, 'w, 'a) sys_prog = "(('f, 'w) txm_sys, tx_error, 'a) prog"

record 'w txm_parts =
  tp_start :: "txm_part \<Rightarrow> 'w \<Rightarrow> (tx_error + unit) \<times> 'w"
  tp_close :: "txm_part \<Rightarrow> 'w \<Rightarrow> (tx_error + unit) \<times> 'w"
  tp_keyOrder :: "string list \<Rightarrow> string list"
  tp_hasResender :: bool
  tp_hasFwdMgr :: bool
  tp_builderOnNewLongestChain :: "int \<Rightarrow> 'w \<Rightarrow> 'w"
  tp_ForwarderFor :: "string \<Rightarrow> 'w \<Rightarrow> (tx_error + string) \<times> 'w"
  tp_ForwarderForOCR2Feeds :: "string \<Rightarrow> string \<Rightarrow> 'w \<Rightarrow> (tx_error + string) \<times> 'w"

definition on_txm :: "('f, 'w, 'a) txm_prog \<Rightarrow> ('f, 'w, 'a) sys_prog" where
  "on_txm = on_part sy_txm (\<lambda>t s. s\<lparr>sy_txm := t\<rparr>)"

definition NewTxm :: "int \<Rightarrow> int \<Rightarrow> ('f, 'w) txm \<Rightarrow> ('f, 'w) txm_sys" where
  "NewTxm reaperThreshold reaperInterval t =
     \<lparr>sy_txm = t, sy_running = [], sy_runLoop = False,
      sy_reaper = (if 0 < reaperThreshold \<and> 0 < reaperInterval then Some NewReaper else None),
      sy_reaperRuns = False, sy_resenderRuns = False, sy_chStop = False, sy_storeClosed = False,
      sy_resumeCallback = None, sy_callbacks = Map.empty\<rparr>"

definition RegisterResumeCallback :: "string \<Rightarrow> ('f, 'w) txm_sys \<Rightarrow> ('f, 'w) txm_sys" where
  "RegisterResumeCallback fn s =
     s\<lparr>sy_resumeCallback := Some fn,
       sy_callbacks := (sy_callbacks s)(PBroadcaster \<mapsto> fn, PConfirmer \<mapsto> fn, PFinalizer \<mapsto> fn)\<rparr>"

section \<open>Starting and closing\<close>

fun start_part :: "('f, 'w) txm_svc \<Rightarrow> 'w txm_parts \<Rightarrow> txm_part \<Rightarrow> ('f, 'w, unit) sys_prog" where
  "start_part S X PBroadcaster = on_txm (on_broadcaster (bc_startInternal (tv_bcastKeys S)))"
| "start_part S X PConfirmer = on_txm (on_confirmer (conf_startInternal (tv_conf S)))"
| "start_part S X PTracker = on_txm (on_tracker (trk_startInternal (tv_trk S)))"
| "start_part S X p =
     andThen (on_txm (m_call (tp_start X p))) (\<lambda>_. updates (\<lambda>s. s\<lparr>sy_running := sy_running s @ [p]\<rparr>))"

fun close_part :: "'w txm_parts \<Rightarrow> txm_part \<Rightarrow> ('f, 'w, unit) sys_prog" where
  "close_part X PBroadcaster = on_txm (on_broadcaster bc_closeInternal)"
| "close_part X PConfirmer = on_txm (on_confirmer conf_closeInternal)"
| "close_part X PTracker = on_txm (on_tracker trk_closeInternal)"
| "close_part X p =
     andThen (on_txm (m_call (tp_close X p))) (\<lambda>_. updates (\<lambda>s. s\<lparr>sy_running := removeAll p (sy_running s)\<rparr>))"

text \<open>A call of \<open>MultiStart.Start\<close>: the services started so far, and the start of the next one.\<close>

type_synonym ('f, 'w) multi_start = "txm_part list \<Rightarrow> ('f, 'w, unit) sys_prog \<Rightarrow> ('f, 'w, unit) sys_prog"

definition multi_start_law :: "'w txm_parts \<Rightarrow> ('f, 'w) multi_start \<Rightarrow> bool" where
  "multi_start_law X ms \<longleftrightarrow>
     (\<forall>ps m s s'. ms ps m s = Some (Ret (Inr (), s')) \<longrightarrow> m s = Some (Ret (Inr (), s'))) \<and>
     (\<forall>ps m s s' e. ms ps m s = Some (Ret (Inl e, s')) \<longrightarrow>
        (\<exists>d s1 qs es. m s = Some (Ret (Inl d, s1)) \<and> set qs = set ps \<and>
           gather_errors (close_part X) qs s1 = Some (Ret (Inr es :: tx_error + tx_error list, s'))))"

text \<open>A start that returns makes \<open>MultiStart.Start\<close> return.\<close>

definition multi_start_returns :: "('f, 'w) multi_start \<Rightarrow> bool" where
  "multi_start_returns ms \<longleftrightarrow>
     (\<forall>ps m s r s1. m s = Some (Ret (r, s1)) \<longrightarrow> (\<exists>q s'. ms ps m s = Some (Ret (q, s'))))"

definition ms_Start ::
  "('f, 'w) txm_svc \<Rightarrow> 'w txm_parts \<Rightarrow> ('f, 'w) multi_start \<Rightarrow> txm_part list \<Rightarrow> string \<Rightarrow> txm_part \<Rightarrow> ('f, 'w, unit) sys_prog" where
  "ms_Start S X ms started msg p = or_raise (Wrapped msg) (ms started (start_part S X p))"

text \<open>The services that \<open>Start\<close> starts before the run loop, in their order.\<close>

definition before_loop :: "('f, 'w) txm_svc \<Rightarrow> txm_part list" where
  "before_loop S =
     [PBroadcaster, PConfirmer, PAttemptBuilder, PTracker, PFinalizer] @ (if tv_v2CreateTransaction S \<noteq> None then [PTxmV2] else [])"

definition start_services ::
  "('f, 'w) txm_svc \<Rightarrow> 'w txm_parts \<Rightarrow> ('f, 'w) multi_start \<Rightarrow> ('f, 'w, unit) sys_prog" where
  "start_services S X ms =
     andThen (ms_Start S X ms [] ''Txm: Broadcaster failed to start'' PBroadcaster) (\<lambda>_.
     andThen (ms_Start S X ms [PBroadcaster] ''Txm: Confirmer failed to start'' PConfirmer) (\<lambda>_.
     andThen (ms_Start S X ms [PBroadcaster, PConfirmer] ''Txm: Estimator failed to start'' PAttemptBuilder) (\<lambda>_.
     andThen (ms_Start S X ms [PBroadcaster, PConfirmer, PAttemptBuilder] ''Txm: Tracker failed to start'' PTracker) (\<lambda>_.
     andThen (updates (\<lambda>s. s\<lparr>sy_txm := remember_enabled (tp_keyOrder X) (sy_txm s)\<rparr>)) (\<lambda>_.
     andThen (ms_Start S X ms [PBroadcaster, PConfirmer, PAttemptBuilder, PTracker] ''Txm: Finalizer failed to start'' PFinalizer) (\<lambda>_.
       if tv_v2CreateTransaction S \<noteq> None then
         ms_Start S X ms [PBroadcaster, PConfirmer, PAttemptBuilder, PTracker, PFinalizer] ''Txm: Txmv2 failed to start'' PTxmV2
       else returns ()))))))"

definition txm_Start ::
  "('f, 'w) txm_svc \<Rightarrow> 'w txm_parts \<Rightarrow> ('f, 'w) multi_start \<Rightarrow> ('f, 'w, unit) sys_prog" where
  "txm_Start S X ms =
     andThen (start_services S X ms) (\<lambda>_.
     andThen (updates (\<lambda>s. s\<lparr>sy_runLoop := True, sy_reaperRuns := (sy_reaper s \<noteq> None), sy_resenderRuns := tp_hasResender X\<rparr>)) (\<lambda>_.
       if tp_hasFwdMgr X then ms_Start S X ms (before_loop S) ''Txm: ForwarderManager failed to start'' PFwdMgr
       else returns ()))"

text \<open>\<open>Close\<close>: the run loop may still serve the events \<open>evs\<close> before it takes the closed channel. The errors are joined into
  the named result \<open>merr\<close>, which the \<open>return\<close> of the function then assigns from \<open>StopOnce\<close>: they come here as the value
  \<open>merr\<close> beside the result.\<close>

definition txm_close_body ::
  "('f, 'w) txm_svc \<Rightarrow> 'w txm_parts \<Rightarrow> txm_event list \<Rightarrow> ('f, 'w, tx_error list) sys_prog" where
  "txm_close_body S X evs =
     andThen (updates (\<lambda>s. s\<lparr>sy_chStop := True, sy_storeClosed := True, sy_reaperRuns := False, sy_resenderRuns := False,
        sy_reaper := map_option (\<lambda>r. r\<lparr>rp_stopped := True\<rparr>) (sy_reaper s)\<rparr>)) (\<lambda>_.
     andThen (if tp_hasFwdMgr X then trying (or_raise (Wrapped ''Txm: failed to stop ForwarderManager'') (close_part X PFwdMgr))
              else returns (Inr ())) (\<lambda>r1.
     andThen (on_txm (txm_runLoop S (evs @ [TmEvStop]))) (\<lambda>_.
     andThen (updates (\<lambda>s. s\<lparr>sy_runLoop := False\<rparr>)) (\<lambda>_.
     andThen (trying (or_raise (Wrapped ''Txm: failed to close TxAttemptBuilder'') (close_part X PAttemptBuilder))) (\<lambda>r2.
       returns (concat (map (\<lambda>r. case r of Inl e \<Rightarrow> [e] | Inr _ \<Rightarrow> []) [r1, r2])))))))"

definition txm_Close :: "('f, 'w) txm_svc \<Rightarrow> 'w txm_parts \<Rightarrow> txm_event list \<Rightarrow> ('f, 'w, unit) sys_prog" where
  "txm_Close S X evs = andThen (txm_close_body S X evs) (\<lambda>merr. returns ())"

section \<open>Calls from outside\<close>

text \<open>\<open>delivered\<close>: the run loop takes the head before the context is done.\<close>

definition set_reaper_block :: "int \<Rightarrow> ('f, 'w, unit) sys_prog" where
  "set_reaper_block n s =
     (case sy_reaper s of
        None \<Rightarrow> Some (Ret (Inr (), s))
      | Some r \<Rightarrow>
          (case SetLatestBlockNum n r of
             Panic m \<Rightarrow> Some (Panic m)
           | Ret r1 \<Rightarrow> if rp_blocked r1 then None else Some (Ret (Inr (), s\<lparr>sy_reaper := Some r1\<rparr>))))"

definition txm_OnNewLongestChain ::
  "('f, 'w) txm_svc \<Rightarrow> 'w txm_parts \<Rightarrow> bool \<Rightarrow> bool \<Rightarrow> int \<Rightarrow> ('f, 'w, unit) sys_prog" where
  "txm_OnNewLongestChain S X started delivered n =
     (if \<not> started then returns ()
      else
        andThen (set_reaper_block n) (\<lambda>_.
        andThen (updates (\<lambda>s. s\<lparr>sy_txm := (sy_txm s)\<lparr>tm_w := tp_builderOnNewLongestChain X n (tm_w (sy_txm s))\<rparr>\<rparr>)) (\<lambda>_.
          if delivered then andThen (on_txm (txm_handle S (TmEvHead n))) (\<lambda>_. returns ()) else returns ())))"

text \<open>\<open>ready\<close>: the run loop waits for an event; otherwise the trigger is dropped.\<close>

definition txm_Trigger :: "('f, 'w) txm_svc \<Rightarrow> bool \<Rightarrow> string \<Rightarrow> ('f, 'w, unit) sys_prog" where
  "txm_Trigger S ready addr =
     (if ready then andThen (on_txm (txm_handle S (TmEvTrigger addr))) (\<lambda>_. returns ()) else returns ())"

definition GetForwarderForEOA :: "txm_cfg \<Rightarrow> 'w txm_parts \<Rightarrow> string \<Rightarrow> ('f, 'w, string) txm_prog" where
  "GetForwarderForEOA c X eoa =
     (if \<not> tc_ForwardersEnabled c then raises (TxErr ''forwarding is not enabled'')
      else m_call (tp_ForwarderFor X eoa))"

definition GetForwarderForEOAOCR2Feeds :: "txm_cfg \<Rightarrow> 'w txm_parts \<Rightarrow> string \<Rightarrow> string \<Rightarrow> ('f, 'w, string) txm_prog" where
  "GetForwarderForEOAOCR2Feeds c X eoa ocr2Aggregator =
     (if \<not> tc_ForwardersEnabled c then raises (TxErr ''forwarding is not enabled'')
      else m_call (tp_ForwarderForOCR2Feeds X eoa ocr2Aggregator))"

section \<open>Lemmas\<close>

fun part_started :: "txm_part \<Rightarrow> ('f, 'w) txm_sys \<Rightarrow> bool" where
  "part_started PBroadcaster s = bs_isStarted (tm_broadcaster (sy_txm s))"
| "part_started PConfirmer s = c_isStarted (tm_confirmer (sy_txm s))"
| "part_started PTracker s = tr_isStarted (tm_tracker (sy_txm s))"
| "part_started p s = (p \<in> set (sy_running s))"

text \<open>What starting and closing a service leaves alone: the loops, and what the run loop remembers.\<close>

definition same_loops :: "('f, 'w) txm_sys \<Rightarrow> ('f, 'w) txm_sys \<Rightarrow> bool" where
  "same_loops s s' \<longleftrightarrow>
     sy_runLoop s' = sy_runLoop s \<and> tm_stopped (sy_txm s') = tm_stopped (sy_txm s) \<and>
     tm_enabledAddrs (sy_txm s') = tm_enabledAddrs (sy_txm s)"

lemma same_loops_trans: "same_loops s s1 \<Longrightarrow> same_loops s1 s2 \<Longrightarrow> same_loops s s2"
  by (simp add: same_loops_def)

lemma on_partE:
  assumes "on_part get put m t = Some (Ret (r, t'))"
  obtains s where "m (get t) = Some (Ret (r, s))" and "t' = put s t"
  using assms by (auto simp: on_part_def split: option.splits outcome.splits)

lemma start_part_result:
  assumes "start_part S X p s = Some (Ret (r, s'))"
  shows "same_loops s s' \<and> (r = Inr () \<longrightarrow> part_started p s') \<and> (\<forall>q. q \<noteq> p \<longrightarrow> part_started q s' = part_started q s) \<and>
    (p \<noteq> PTracker \<longrightarrow> tm_tracker (sy_txm s') = tm_tracker (sy_txm s))"
proof -
  have others: "part_started q s' = part_started q s" if "q \<noteq> p" for q
    using assms that
    by (cases p; cases q)
      (auto simp: on_txm_def on_broadcaster_def on_confirmer_def on_tracker_def basic_prog elim!: on_partE andThenE m_callE)
  have rest: "same_loops s s' \<and> (r = Inr () \<longrightarrow> part_started p s') \<and> (p \<noteq> PTracker \<longrightarrow> tm_tracker (sy_txm s') = tm_tracker (sy_txm s))"
    using assms
    by (cases p)
      (auto simp: on_txm_def on_broadcaster_def on_confirmer_def on_tracker_def basic_prog same_loops_def
        elim!: on_partE andThenE m_callE
        intro: broadcaster_service.start_ok confirmer_service.start_ok tracker_service.start_ok)
  show ?thesis using others rest by blast
qed

lemma close_part_result:
  assumes "close_part X p s = Some (Ret (r, s'))"
  shows "same_loops s s' \<and> (p \<in> {PBroadcaster, PConfirmer, PTracker} \<longrightarrow> \<not> part_started p s') \<and>
    (\<forall>q. part_started q s' \<longrightarrow> part_started q s)"
proof -
  have others: "part_started q s' \<Longrightarrow> part_started q s" for q
    using assms
    by (cases p; cases q)
      (auto simp: on_txm_def on_broadcaster_def on_confirmer_def on_tracker_def basic_prog
        bc_closeInternal_def conf_closeInternal_def trk_closeInternal_def elim!: on_partE andThenE m_callE split: if_splits)
  have "same_loops s s' \<and> (p \<in> {PBroadcaster, PConfirmer, PTracker} \<longrightarrow> \<not> part_started p s')"
    using assms
    by (cases p)
      (auto simp: on_txm_def on_broadcaster_def on_confirmer_def on_tracker_def basic_prog same_loops_def
        bc_closeInternal_def conf_closeInternal_def trk_closeInternal_def elim!: on_partE andThenE m_callE split: if_splits)
  with others show ?thesis by blast
qed

lemma close_all_result:
  assumes "gather_errors (close_part X) qs s = Some (Ret (r :: tx_error + tx_error list, s'))"
  shows "same_loops s s' \<and> (\<forall>p\<in>set qs \<inter> {PBroadcaster, PConfirmer, PTracker}. \<not> part_started p s') \<and>
    (\<forall>q. part_started q s' \<longrightarrow> part_started q s)"
  using assms
proof (induction qs arbitrary: s r)
  case Nil
  then show ?case by (simp add: returns_def same_loops_def)
next
  case (Cons p qs)
  from Cons.prems obtain x s1 r1 where c: "close_part X p s = Some (Ret (x, s1))"
    and g: "gather_errors (close_part X) qs s1 = Some (Ret (r1 :: tx_error + tx_error list, s'))"
    by (auto simp: basic_prog elim!: andThenE tryingE)
  note p = close_part_result [OF c] and ps = Cons.IH [OF g]
  have "same_loops s s'" using p ps same_loops_trans by blast
  moreover have "\<not> part_started q s'" if "q \<in> set (p # qs) \<inter> {PBroadcaster, PConfirmer, PTracker}" for q
    using that p ps by (cases "q = p") auto
  ultimately show ?case using p ps by blast
qed

lemma multi_start_error:
  assumes "multi_start_law X ms" and "ms ps m s = Some (Ret (Inl e, s'))"
  obtains d s1 qs es where "m s = Some (Ret (Inl d, s1))" and "set qs = set ps"
    and "gather_errors (close_part X) qs s1 = Some (Ret (Inr es :: tx_error + tx_error list, s'))"
proof -
  from assms(1) have "\<forall>ps m s s' e. ms ps m s = Some (Ret (Inl e, s')) \<longrightarrow>
      (\<exists>d s1 qs es. m s = Some (Ret (Inl d, s1)) \<and> set qs = set ps \<and>
         gather_errors (close_part X) qs s1 = Some (Ret (Inr es :: tx_error + tx_error list, s')))"
    by (simp add: multi_start_law_def)
  from this [rule_format, OF assms(2)] that show thesis by blast
qed

text \<open>While the services start: whether the run loop runs, what the manager remembers of the keys once the tracker has
  started, and which services run.\<close>

definition remembers :: "'w txm_parts \<Rightarrow> ('f, 'w) txm_sys \<Rightarrow> bool" where
  "remembers X s \<longleftrightarrow> tm_enabledAddrs (sy_txm s) = sort (GetEnabledAddresses (tp_keyOrder X) (tm_tracker (sy_txm s)))"

definition upto_part :: "'w txm_parts \<Rightarrow> bool \<Rightarrow> bool \<Rightarrow> txm_part list \<Rightarrow> ('f, 'w) txm_sys \<Rightarrow> bool" where
  "upto_part X b k ps s \<longleftrightarrow>
     sy_runLoop s = b \<and> \<not> tm_stopped (sy_txm s) \<and> (k \<longrightarrow> remembers X s) \<and> (\<forall>p\<in>set ps. part_started p s)"

definition start_failed :: "'w txm_parts \<Rightarrow> bool \<Rightarrow> bool \<Rightarrow> txm_part list \<Rightarrow> ('f, 'w) txm_sys \<Rightarrow> bool" where
  "start_failed X b k ps s \<longleftrightarrow>
     sy_runLoop s = b \<and> \<not> tm_stopped (sy_txm s) \<and> (\<forall>p\<in>set ps \<inter> {PBroadcaster, PConfirmer, PTracker}. \<not> part_started p s)"

lemma ms_Start_triple:
  assumes law: "multi_start_law X ms" and "k \<longrightarrow> p \<noteq> PTracker"
  shows "triple (upto_part X b k ps) (ms_Start S X ms qs msg p)
    (\<lambda>r s. case r of Inl _ \<Rightarrow> start_failed X b k qs s | Inr _ \<Rightarrow> upto_part X b k (p # ps) s)"
proof (rule tripleI)
  fix s r s' assume pre: "upto_part X b k ps s" and run: "ms_Start S X ms qs msg p s = Some (Ret (r, s'))"
  from run obtain q where q: "ms qs (start_part S X p) s = Some (Ret (q, s'))" "r = map_sum (Wrapped msg) id q"
    unfolding ms_Start_def by (rule or_raiseE)
  show "case r of Inl _ \<Rightarrow> start_failed X b k qs s' | Inr _ \<Rightarrow> upto_part X b k (p # ps) s'"
  proof (cases q)
    case (Inl e)
    from multi_start_error [OF law q(1) [unfolded Inl]] obtain d s1 ps' es
      where m: "start_part S X p s = Some (Ret (Inl d, s1))" "set ps' = set qs"
        "gather_errors (close_part X) ps' s1 = Some (Ret (Inr es :: tx_error + tx_error list, s'))" .
    have "same_loops s s'" using start_part_result [OF m(1)] close_all_result [OF m(3)] same_loops_trans by blast
    then show ?thesis
      using close_all_result [OF m(3)] m(2) pre q(2) Inl by (simp add: start_failed_def upto_part_def same_loops_def)
  next
    case (Inr u)
    then have "start_part S X p s = Some (Ret (Inr (), s'))" using law q(1) by (simp add: multi_start_law_def)
    note p = start_part_result [OF this]
    have "part_started x s'" if "x \<in> set (p # ps)" for x using that p pre by (cases "x = p") (auto simp: upto_part_def)
    then show ?thesis
      using p pre q(2) Inr assms(2) by (auto simp: upto_part_def remembers_def same_loops_def simp del: part_started.simps)
  qed
qed

lemma then_started:
  assumes "multi_start_law X ms" and "k \<longrightarrow> p \<noteq> PTracker"
    and "triple (upto_part X b k (p # ps)) m (\<lambda>r s. case r of Inl _ \<Rightarrow> sy_runLoop s = b | Inr _ \<Rightarrow> Q s)"
  shows "triple (upto_part X b k ps) (andThen (ms_Start S X ms qs msg p) (\<lambda>_. m))
    (\<lambda>r s. case r of Inl _ \<Rightarrow> sy_runLoop s = b | Inr _ \<Rightarrow> Q s)"
  by (rule triple_andThen [OF triple_conseq [OF ms_Start_triple [OF assms(1,2)]] assms(3)])
    (auto simp: start_failed_def split: sum.splits)

lemma part_started_remember:
  "part_started p (s\<lparr>sy_txm := remember_enabled order (sy_txm s)\<rparr>) = part_started p s"
  by (cases p) (simp_all add: remember_enabled_def)

lemma upto_part_remember:
  "upto_part X b False ps s \<Longrightarrow> upto_part X b True ps (s\<lparr>sy_txm := remember_enabled (tp_keyOrder X) (sy_txm s)\<rparr>)"
  by (simp add: upto_part_def part_started_remember) (simp add: remembers_def remember_enabled_def)

lemma remember_triple:
  "triple (upto_part X b True ps) m Q \<Longrightarrow>
   triple (upto_part X b False ps) (andThen (updates (\<lambda>s. s\<lparr>sy_txm := remember_enabled (tp_keyOrder X) (sy_txm s)\<rparr>)) (\<lambda>_. m)) Q"
  by (rule triple_andThen [OF triple_updates]) (auto intro: upto_part_remember)

lemma start_services_triple:
  assumes law: "multi_start_law X ms"
  shows "triple (upto_part X b False []) (start_services S X ms)
    (\<lambda>r s. case r of Inl _ \<Rightarrow> sy_runLoop s = b | Inr _ \<Rightarrow> upto_part X b True [PTracker, PConfirmer, PBroadcaster] s)"
proof -
  let ?Q = "\<lambda>r s. case r of Inl _ \<Rightarrow> sy_runLoop s = b | Inr _ \<Rightarrow> upto_part X b True [PTracker, PConfirmer, PBroadcaster] s"
  let ?ps = "[PFinalizer, PTracker, PAttemptBuilder, PConfirmer, PBroadcaster]"
  have v2: "triple (upto_part X b True ?ps) (ms_Start S X ms qs msg PTxmV2) ?Q" for qs msg
    by (rule triple_conseq [OF ms_Start_triple [OF law, where ps = ?ps and k = True and b = b]])
      (auto simp: upto_part_def start_failed_def split: sum.splits)
  have no_v2: "triple (upto_part X b True ?ps) (returns ()) ?Q"
    by (rule triple_basic(1)) (simp add: upto_part_def)
  show ?thesis
    unfolding start_services_def by (intro then_started [OF law] remember_triple) (simp_all add: v2 no_v2)
qed

text \<open>The end of \<open>Start\<close>: when it returns an error, either the run loop was not started, or it runs on although the
  services have been closed.\<close>

lemma start_triple:
  assumes law: "multi_start_law X ms"
  shows "triple (\<lambda>s. \<not> sy_runLoop s \<and> \<not> tm_stopped (sy_txm s)) (txm_Start S X ms)
    (\<lambda>r s. case r of
        Inl _ \<Rightarrow> sy_runLoop s \<longrightarrow> start_failed X True True (before_loop S) s
      | Inr _ \<Rightarrow> upto_part X True True [PTracker, PConfirmer, PBroadcaster] s)"
proof -
  let ?Q = "\<lambda>r s. case r of Inl _ \<Rightarrow> sy_runLoop s \<longrightarrow> start_failed X True True (before_loop S) s
      | Inr _ \<Rightarrow> upto_part X True True [PTracker, PConfirmer, PBroadcaster] s"
  let ?ps = "[PTracker, PConfirmer, PBroadcaster]"
  have fwd: "triple (upto_part X True True ?ps) (ms_Start S X ms (before_loop S) msg PFwdMgr) ?Q" for msg
    by (rule triple_conseq [OF ms_Start_triple [OF law, where ps = ?ps and k = True and b = True]])
      (auto simp: upto_part_def split: sum.splits)
  have no_fwd: "triple (upto_part X True True ?ps) (returns ()) ?Q"
    by (rule triple_basic(1)) simp
  have loop: "triple (upto_part X False True ?ps) (updates (\<lambda>s. s\<lparr>sy_runLoop := True, sy_reaperRuns := (sy_reaper s \<noteq> None),
      sy_resenderRuns := tp_hasResender X\<rparr>)) (\<lambda>r s. case r of Inl e \<Rightarrow> ?Q (Inl e) s | Inr _ \<Rightarrow> upto_part X True True ?ps s)"
    by (rule triple_updates) (simp add: upto_part_def remembers_def)
  have services: "triple (\<lambda>s. \<not> sy_runLoop s \<and> \<not> tm_stopped (sy_txm s)) (start_services S X ms)
      (\<lambda>r s. case r of Inl e \<Rightarrow> ?Q (Inl e) s | Inr _ \<Rightarrow> upto_part X False True ?ps s)"
    by (rule triple_conseq [OF start_services_triple [OF law, of False]]) (auto simp: upto_part_def split: sum.splits)
  show ?thesis
    unfolding txm_Start_def by (intro triple_andThen [OF services] triple_andThen [OF loop]) (simp add: fwd no_fwd)
qed

lemma forwarder_fails:
  assumes "multi_start_law X ms" and "multi_start_returns ms" and "tp_start X PFwdMgr w = (Inl e, w1)" and "tm_w (sy_txm u) = w"
  shows "\<exists>err s'. ms_Start S X ms ps msg PFwdMgr u = Some (Ret (Inl err, s'))"
proof -
  let ?m = "start_part S X PFwdMgr"
  have start: "?m u = Some (Ret (Inl e, u\<lparr>sy_txm := (sy_txm u)\<lparr>tm_w := w1\<rparr>\<rparr>))"
    using assms(3,4) by (simp add: on_txm_def on_part_def m_call_def andThen_def)
  then obtain q s' where q: "ms ps ?m u = Some (Ret (q, s'))" using assms(2) unfolding multi_start_returns_def by blast
  have "q \<noteq> Inr ()" using assms(1) q start unfolding multi_start_law_def by fastforce
  then obtain d where "q = Inl d" by (cases q) auto
  then show ?thesis using q by (simp add: ms_Start_def or_raise_def trying_def andThen_def basic_prog)
qed

lemma poll_after_close:
  assumes "\<not> bs_isStarted (tm_broadcaster t)" and "\<not> tm_stopped t"
    and "tv_EnabledAddresses S (tm_w t) = (Inr ks, w)" and "tm_enabledAddrs t \<noteq> sort ks"
  shows "handle_poll S evs t = Some (Panic ''Failed to Close Broadcaster'')"
  using assms
  by (simp add: handle_poll_def execReset_def close_or_panic_def on_broadcaster_def on_part_def bc_closeInternal_def m_call_def
      trying_def andThen_def basic_prog)

text \<open>\<open>Close\<close> returns, and without an error whatever its services answer.\<close>

definition part_kept :: "('f, 'w) txm_sys \<Rightarrow> ('f, 'w) txm_sys \<Rightarrow> bool" where
  "part_kept s s' \<longleftrightarrow>
     all_started (sy_txm s') = all_started (sy_txm s) \<and> tm_stopped (sy_txm s') = tm_stopped (sy_txm s) \<and>
     sy_runLoop s' = sy_runLoop s \<and> sy_chStop s' = sy_chStop s \<and> sy_storeClosed s' = sy_storeClosed s"

lemma close_part_returns:
  assumes "p \<in> {PFwdMgr, PAttemptBuilder}"
  shows "\<exists>r s1. trying (or_raise g (close_part X p)) s = Some (Ret (Inr r, s1)) \<and> part_kept s s1"
proof -
  obtain q w where "tp_close X p (tm_w (sy_txm s)) = (q, w)" by (cases "tp_close X p (tm_w (sy_txm s))")
  then show ?thesis
    using assms
    by (cases q) (auto simp: on_txm_def on_part_def m_call_def or_raise_def trying_def andThen_def basic_prog part_kept_def all_started_def)
qed

lemma close_reports_no_error:
  fixes s :: "('a, 'b) txm_sys"
  assumes "tm_stopped (sy_txm s) \<or> all_started (sy_txm s)"
  shows "\<exists>s'. txm_Close S X evs s = Some (Ret (Inr (), s')) \<and> \<not> sy_runLoop s' \<and> sy_chStop s' \<and> sy_storeClosed s'"
proof -
  define u where "u = s\<lparr>sy_chStop := True, sy_storeClosed := True, sy_reaperRuns := False, sy_resenderRuns := False,
        sy_reaper := map_option (\<lambda>r. r\<lparr>rp_stopped := True\<rparr>) (sy_reaper s)\<rparr>"
  let ?fwd = "(if tp_hasFwdMgr X then trying (or_raise (Wrapped ''Txm: failed to stop ForwarderManager'') (close_part X PFwdMgr))
    else returns (Inr ())) :: ('a, 'b, tx_error + unit) sys_prog"
  have "\<exists>r v. ?fwd u = Some (Ret (Inr r, v)) \<and> part_kept u v"
  proof (cases "tp_hasFwdMgr X")
    case True
    then show ?thesis by (simp only: if_True) (rule close_part_returns, simp)
  qed (simp add: returns_def part_kept_def)
  then obtain r1 v where fwd: "?fwd u = Some (Ret (Inr r1, v))" "part_kept u v" by blast
  then have "tm_stopped (sy_txm v) \<or> all_started (sy_txm v)" using assms by (simp add: part_kept_def u_def)
  from run_loop_never_panics [OF this] obtain go t' where loop: "txm_runLoop S (evs @ [TmEvStop]) (sy_txm v) = Some (Ret (Inr go, t'))"
    by blast
  obtain r2 s2 where builder: "(trying (or_raise (Wrapped ''Txm: failed to close TxAttemptBuilder'') (close_part X PAttemptBuilder))
      :: ('a, 'b, tx_error + unit) sys_prog) (v\<lparr>sy_txm := t', sy_runLoop := False\<rparr>) = Some (Ret (Inr r2, s2))" "part_kept (v\<lparr>sy_txm := t', sy_runLoop := False\<rparr>) s2"
    using close_part_returns [of PAttemptBuilder] by blast
  have loop': "on_txm (txm_runLoop S (evs @ [TmEvStop])) v = Some (Ret (Inr go, v\<lparr>sy_txm := t'\<rparr>))"
    using loop by (simp add: on_txm_def on_part_def)
  have "txm_Close S X evs s = Some (Ret (Inr (), s2))"
    unfolding txm_Close_def txm_close_body_def andThen_assoc
    by (simp only: andThen_step [OF updates_def] u_def [symmetric] andThen_step [where m = ?fwd, OF fwd(1)]
        andThen_step [where m = "on_txm _", OF loop'] andThen_step [where m = "trying _", OF builder(1)]
        txm_sys.update_convs andThen_returns)
      (simp add: returns_def)
  then show ?thesis using fwd(2) builder(2) by (simp add: part_kept_def u_def)
qed

section \<open>An instance\<close>

text \<open>A \<open>MultiStart\<close> that closes in the reverse order; the forwarder manager starts or does not.\<close>

definition demo_parts :: "bool \<Rightarrow> nat txm_parts" where
  "demo_parts fwdStarts =
     \<lparr>tp_start = (\<lambda>p w. (if p = PFwdMgr \<and> \<not> fwdStarts then Inl (TxErr ''database'') else Inr (), w)),
      tp_close = (\<lambda>p w. (Inr (), w)), tp_keyOrder = id, tp_hasResender = True, tp_hasFwdMgr = True,
      tp_builderOnNewLongestChain = (\<lambda>n w. w), tp_ForwarderFor = (\<lambda>a w. (Inr ''f'', w)),
      tp_ForwarderForOCR2Feeds = (\<lambda>a b w. (Inr ''f'', w))\<rparr>"

definition close_on_error :: "'w txm_parts \<Rightarrow> ('f, 'w) multi_start" where
  "close_on_error X ps m =
     andThen (trying m) (\<lambda>r. case r of
         Inl e \<Rightarrow> andThen (gather_errors (close_part X) (rev ps)) (\<lambda>_ :: tx_error list. raises e)
       | Inr u \<Rightarrow> returns u)"

lemma close_on_error_law: "multi_start_law X (close_on_error X)"
proof -
  have "\<exists>d s1 qs es. m s = Some (Ret (Inl d, s1)) \<and> set qs = set ps \<and>
      gather_errors (close_part X) qs s1 = Some (Ret (Inr es :: tx_error + tx_error list, s'))"
    if run: "close_on_error X ps m s = Some (Ret (Inl e, s'))" for ps m s s' e
  proof -
    have no_error: "gather_errors (close_part X) ps' s1 \<noteq> Some (Ret (Inl x :: tx_error + tx_error list, s2))" for ps' s1 x s2
      by (induction ps' arbitrary: s1) (auto simp: returns_def elim!: andThenE tryingE)
    from run obtain d s1 es where m: "m s = Some (Ret (Inl d, s1))"
      and "gather_errors (close_part X) (rev ps) s1 = Some (Ret (Inr es :: tx_error + tx_error list, s'))"
      unfolding close_on_error_def
      by (auto simp: returns_def raises_def no_error elim!: andThenE tryingE split: sum.splits)
    with m show ?thesis by (intro exI conjI) simp_all
  qed
  moreover have "m s = Some (Ret (Inr (), s'))" if "close_on_error X ps m s = Some (Ret (Inr (), s'))" for ps m s s'
    using that unfolding close_on_error_def
    by (auto simp: returns_def raises_def elim!: andThenE tryingE split: sum.splits)
  ultimately show ?thesis unfolding multi_start_law_def by blast
qed

lemma close_on_error_returns:
  fixes X :: "'w txm_parts"
  shows "multi_start_returns (close_on_error X :: ('f, 'w) multi_start)"
proof -
  have close: "\<exists>r s1. close_part X p s = Some (Ret (r, s1))" for p and s :: "('f, 'w) txm_sys"
    by (cases p) (auto simp: on_txm_def on_broadcaster_def on_confirmer_def on_tracker_def on_part_def m_call_def andThen_def basic_prog
        bc_closeInternal_def conf_closeInternal_def trk_closeInternal_def split: prod.splits sum.splits)
  have all: "\<exists>es s1. gather_errors (close_part X) ps s = Some (Ret (Inr es :: tx_error + tx_error list, s1))"
    for ps and s :: "('f, 'w) txm_sys"
  proof (induction ps arbitrary: s)
    case (Cons p ps)
    from close obtain r s1 where "close_part X p s = Some (Ret (r, s1))" by blast
    then show ?case using Cons [of s1] by (auto simp: andThen_def trying_def returns_def)
  qed (simp add: returns_def)
  show ?thesis unfolding multi_start_returns_def
  proof (intro allI impI)
    fix ps and m :: "('f, 'w, unit) sys_prog" and s r s1
    assume m: "m s = Some (Ret (r, s1))"
    from all [of "rev ps" s1] obtain es s2 where "gather_errors (close_part X) (rev ps) s1 = Some (Ret (Inr es :: tx_error + tx_error list, s2))"
      by blast
    with m show "\<exists>q s'. close_on_error X ps m s = Some (Ret (q, s'))"
      by (cases r) (simp_all add: close_on_error_def andThen_def trying_def basic_prog)
  qed
qed

definition demo_sys :: "(nat, nat) txm_sys" where
  "demo_sys = NewTxm 1 1
     (demo_txm\<lparr>tm_broadcaster := (tm_broadcaster demo_txm)\<lparr>bs_isStarted := False\<rparr>,
        tm_confirmer := demo_conf\<lparr>c_isStarted := False\<rparr>, tm_tracker := (tm_tracker demo_txm)\<lparr>tr_isStarted := False\<rparr>\<rparr>)"

lemma demo_sys_unstarted: "\<not> sy_runLoop demo_sys" "\<not> tm_stopped (sy_txm demo_sys)"
  by (simp_all add: demo_sys_def NewTxm_def demo_txm_def)

lemmas demo_run = txm_Start_def start_services_def ms_Start_def close_on_error_def before_loop_def on_txm_def on_broadcaster_def
  on_confirmer_def on_tracker_def on_part_def or_raise_def trying_def andThen_def basic_prog m_call_def
  bc_startInternal_def conf_startInternal_def trk_startInternal_def ensureEnabledAddresses_def remember_enabled_def
  bc_closeInternal_def conf_closeInternal_def trk_closeInternal_def GetEnabledAddresses_def
  demo_sys_def NewTxm_def demo_txm_def demo_conf_def demo_parts_def demo_svc_def

lemma demo_start: "\<exists>s'. txm_Start demo_svc (demo_parts True) (close_on_error (demo_parts True)) demo_sys = Some (Ret (Inr (), s'))"
  by (simp add: demo_run)

lemma demo_start_fails:
  "\<exists>err s'. txm_Start demo_svc (demo_parts False) (close_on_error (demo_parts False)) demo_sys = Some (Ret (Inl err, s')) \<and>
     sy_runLoop s' \<and> tm_enabledAddrs (sy_txm s') = [''a'']"
  by (simp add: demo_run)

section \<open>Properties\<close>

text \<open>C6. A manager that has started never panics in its run loop. After \<open>Start\<close> returned without an error, the run
  loop runs and remembers the sorted keys of the tracker, and it serves every sequence of triggers, heads, resets, key
  changes and failing restarts; whenever it goes on, the broadcaster, the tracker and the confirmer are running again or
  the manager is stopping.\<close>

theorem started_manager_never_panics:
  assumes "multi_start_law X ms" and "\<not> sy_runLoop s" and "\<not> tm_stopped (sy_txm s)"
    and "txm_Start S X ms s = Some (Ret (Inr (), s'))"
  shows "sy_runLoop s' \<and>
    tm_enabledAddrs (sy_txm s') = sort (GetEnabledAddresses (tp_keyOrder X) (tm_tracker (sy_txm s'))) \<and>
    (\<exists>go t'. txm_runLoop S evs (sy_txm s') = Some (Ret (Inr go, t')) \<and> (go \<longrightarrow> tm_stopped t' \<or> all_started t'))"
proof -
  have "upto_part X True True [PTracker, PConfirmer, PBroadcaster] s'"
    using tripleD [OF start_triple [OF assms(1)] assms(4)] assms(2,3) by simp
  then have "sy_runLoop s'" "remembers X s'" "all_started (sy_txm s')" by (simp_all add: upto_part_def all_started_def)
  then show ?thesis using run_loop_never_panics [of "sy_txm s'" S evs] by (simp add: remembers_def)
qed

theorem started_manager_never_panics_witness:
  "\<exists>s'. txm_Start demo_svc (demo_parts True) (close_on_error (demo_parts True)) demo_sys = Some (Ret (Inr (), s')) \<and> sy_runLoop s' \<and>
     (\<exists>go t'. txm_runLoop demo_svc [TmEvHead 5, TmEvReset ''a'' True started_at_once, TmEvPoll started_at_once, TmEvStop] (sy_txm s') =
        Some (Ret (Inr go, t')))"
proof -
  from demo_start obtain s' where r: "txm_Start demo_svc (demo_parts True) (close_on_error (demo_parts True)) demo_sys = Some (Ret (Inr (), s'))"
    by blast
  from started_manager_never_panics [OF close_on_error_law demo_sys_unstarted r] r show ?thesis by blast
qed

text \<open>C21. When the services of \<open>Start\<close> have started and then the forwarder manager fails to start, \<open>Start\<close> returns an
  error and the broadcaster, the confirmer and the tracker are closed, but the run loop runs on: its next poll that finds other
  keys than the tracker had panics, since the loop cannot close the broadcaster again.\<close>

theorem failed_start_leaves_loop:
  assumes "multi_start_law X ms" and "multi_start_returns ms" and "\<not> sy_runLoop s" and "\<not> tm_stopped (sy_txm s)"
    and "start_services S X ms s = Some (Ret (Inr (), s1))"
    and "tp_hasFwdMgr X" and "tp_start X PFwdMgr (tm_w (sy_txm s1)) = (Inl e, w1)"
  shows "\<exists>err s'. txm_Start S X ms s = Some (Ret (Inl err, s')) \<and> sy_runLoop s' \<and>
    \<not> part_started PBroadcaster s' \<and> \<not> part_started PConfirmer s' \<and> \<not> part_started PTracker s' \<and>
    (\<forall>ks w evs rest. tv_EnabledAddresses S (tm_w (sy_txm s')) = (Inr ks, w) \<and> tm_enabledAddrs (sy_txm s') \<noteq> sort ks \<longrightarrow>
       txm_runLoop S (TmEvPoll evs # rest) (sy_txm s') = Some (Panic ''Failed to Close Broadcaster''))"
proof -
  let ?loops = "\<lambda>s. s\<lparr>sy_runLoop := True, sy_reaperRuns := (sy_reaper s \<noteq> None), sy_resenderRuns := tp_hasResender X\<rparr>"
  from forwarder_fails [OF assms(1,2,7), of "?loops s1" S "before_loop S" "''Txm: ForwarderManager failed to start''"]
  obtain err s' where f: "ms_Start S X ms (before_loop S) ''Txm: ForwarderManager failed to start'' PFwdMgr (?loops s1) = Some (Ret (Inl err, s'))"
    by auto
  have start: "txm_Start S X ms s = Some (Ret (Inl err, s'))"
    using assms(5,6) f by (simp add: txm_Start_def andThen_def updates_def)
  have "upto_part X False True [PTracker, PConfirmer, PBroadcaster] s1"
    using tripleD [OF start_services_triple [OF assms(1), of False] assms(5)] assms(3,4) by (simp add: upto_part_def)
  then have "upto_part X True True [PTracker, PConfirmer, PBroadcaster] (?loops s1)" by (simp add: upto_part_def remembers_def)
  then have failed: "start_failed X True True (before_loop S) s'"
    using tripleD [OF ms_Start_triple [OF assms(1), where k = True and b = True] f] by simp
  then have "txm_runLoop S (TmEvPoll evs # rest) (sy_txm s') = Some (Panic ''Failed to Close Broadcaster'')"
    if "tv_EnabledAddresses S (tm_w (sy_txm s')) = (Inr ks, w)" "tm_enabledAddrs (sy_txm s') \<noteq> sort ks" for ks w evs rest
    using poll_after_close [OF _ _ that] by (simp add: start_failed_def before_loop_def andThen_def)
  with start failed show ?thesis by (auto simp: start_failed_def before_loop_def)
qed

theorem failed_start_leaves_loop_witness:
  "\<exists>err s'. txm_Start demo_svc (demo_parts False) (close_on_error (demo_parts False)) demo_sys = Some (Ret (Inl err, s')) \<and>
     txm_runLoop demo_svc [TmEvPoll started_at_once] (sy_txm s') = Some (Panic ''Failed to Close Broadcaster'')"
proof -
  let ?X = "demo_parts False"
  from demo_start_fails obtain err s'
    where r: "txm_Start demo_svc ?X (close_on_error ?X) demo_sys = Some (Ret (Inl err, s'))" "tm_enabledAddrs (sy_txm s') = [''a'']" by blast
  have "\<exists>s1. start_services demo_svc ?X (close_on_error ?X) demo_sys = Some (Ret (Inr (), s1))" by (simp add: demo_run)
  then obtain s1 where s1: "start_services demo_svc ?X (close_on_error ?X) demo_sys = Some (Ret (Inr (), s1))" by blast
  have fwd: "tp_hasFwdMgr ?X" "tp_start ?X PFwdMgr (tm_w (sy_txm s1)) = (Inl (TxErr ''database''), tm_w (sy_txm s1))"
    by (simp_all add: demo_parts_def)
  have ks: "tv_EnabledAddresses demo_svc (tm_w (sy_txm s')) = (Inr [''b'', ''a''], tm_w (sy_txm s'))" by (simp add: demo_svc_def)
  from failed_start_leaves_loop [OF close_on_error_law close_on_error_returns demo_sys_unstarted s1 fwd] r ks
  show ?thesis by (intro exI [of _ err] exI [of _ s']) auto
qed

end
