(* ===== verification/Tx_Api.thy ===== *)
theory Tx_Api
  imports Tx_Lifecycle
begin

text \<open>
  What \<open>chains/txmgr/txmgr.go\<close> offers around the manager: the error of a key that is not enabled, the queries that go to the store,
  the health report, and \<open>NullTxManager\<close>, the manager of a chain that is switched off. The interface \<open>TxManager\<close> is a record
  of its operations.
\<close>

section \<open>The error of a disabled key\<close>

text \<open>Errors as \<open>errors.Is\<close> sees them. \<open>GoErr\<close> is any other error, with its identity, its text and the error it wraps.\<close>

datatype go_err = NotEnabledError string "go_err option" | GoErr nat string "go_err option"

fun NotEnabledError_Unwrap :: "go_err \<Rightarrow> go_err option" where
  "NotEnabledError_Unwrap (NotEnabledError addr err) = err"
| "NotEnabledError_Unwrap (GoErr i msg err) = err"

fun NotEnabledError_Error :: "go_err \<Rightarrow> string" where
  "NotEnabledError_Error (NotEnabledError addr None) = ''cannot send transaction from '' @ addr @ '': <nil>''"
| "NotEnabledError_Error (NotEnabledError addr (Some err)) =
     ''cannot send transaction from '' @ addr @ '': '' @ NotEnabledError_Error err"
| "NotEnabledError_Error (GoErr i msg err) = msg"

fun NotEnabledError_Is :: "go_err \<Rightarrow> go_err \<Rightarrow> bool" where
  "NotEnabledError_Is (NotEnabledError fromAddress e) (NotEnabledError as_FromAddress f) \<longleftrightarrow>
     as_FromAddress = '''' \<or> fromAddress = as_FromAddress"
| "NotEnabledError_Is _ _ \<longleftrightarrow> False"

text \<open>The receiver and the result.\<close>

fun NotEnabledError_As :: "go_err \<Rightarrow> go_err \<Rightarrow> go_err \<times> bool" where
  "NotEnabledError_As e (NotEnabledError as_FromAddress f) = (NotEnabledError as_FromAddress f, True)"
| "NotEnabledError_As e _ = (e, False)"

text \<open>\<open>errors.Is\<close>: along the chain of wrapped errors, the target itself or an error whose method \<open>Is\<close> accepts the target.\<close>

fun go_Is :: "go_err \<Rightarrow> go_err \<Rightarrow> bool" where
  "go_Is (NotEnabledError addr err) target =
     (NotEnabledError addr err = target \<or> NotEnabledError_Is (NotEnabledError addr err) target \<or>
      (case err of None \<Rightarrow> False | Some e \<Rightarrow> go_Is e target))"
| "go_Is (GoErr i msg err) target = (GoErr i msg err = target \<or> (case err of None \<Rightarrow> False | Some e \<Rightarrow> go_Is e target))"

text \<open>\<open>checkEnabled\<close>, with the key store's answer.\<close>

definition not_enabled :: "string \<Rightarrow> go_err option \<Rightarrow> go_err option" where
  "not_enabled addr answer = map_option (\<lambda>err. NotEnabledError addr (Some err)) answer"

section \<open>Construction\<close>

text \<open>The services as their constructors leave them, over a world \<open>w\<close>: nothing is started and no keys are
  loaded.\<close>

definition tx_NewBroadcaster :: "'w \<Rightarrow> 'w bsvc" where
  "tx_NewBroadcaster w =
     \<lparr>bs_w = w, bs_isStarted = False, bs_enabledAddresses = None, bs_triggers = None, bs_unknownErrs = Map.empty, bs_monitors = []\<rparr>"

definition NewConfirmer :: "'w \<Rightarrow> ('f, 'w) conf" where
  "NewConfirmer w = \<lparr>cw = w, c_enabledAddresses = None, c_isStarted = False, c_effects = []\<rparr>"

definition tx_NewTracker :: "'w \<Rightarrow> ('f, 'w) tx_tracker" where
  "tx_NewTracker w = \<lparr>tr_w = w, tr_enabledAddrs = None, tr_txCache = [], tr_isStarted = False, tr_fatal = []\<rparr>"

definition constructed_txm :: "'w \<Rightarrow> ('f, 'w) txm" where
  "constructed_txm w =
     \<lparr>tm_w = w, tm_broadcaster = tx_NewBroadcaster w, tm_confirmer = NewConfirmer w, tm_tracker = tx_NewTracker w,
      tm_enabledAddrs = [], tm_stopped = False, tm_effects = []\<rparr>"

section \<open>Queries\<close>

record ('f, 'w) txm_queries =
  tq_chainID :: string
  tq_FindTxesByMetaFieldAndStates :: "string \<Rightarrow> string \<Rightarrow> tx_state list \<Rightarrow> int option \<Rightarrow> 'w \<Rightarrow> (tx_error + 'f tx list) \<times> 'w"
  tq_FindTxesWithMetaFieldByStates :: "string \<Rightarrow> tx_state list \<Rightarrow> int option \<Rightarrow> 'w \<Rightarrow> (tx_error + 'f tx list) \<times> 'w"
  tq_FindTxesWithMetaFieldByReceiptBlockNum :: "string \<Rightarrow> int \<Rightarrow> int option \<Rightarrow> 'w \<Rightarrow> (tx_error + 'f tx list) \<times> 'w"
  tq_FindTxesWithAttemptsAndReceiptsByIdsAndState :: "int list \<Rightarrow> tx_state list \<Rightarrow> int option \<Rightarrow> 'w \<Rightarrow> (tx_error + 'f tx list) \<times> 'w"
  tq_FindEarliestUnconfirmedBroadcastTime :: "string \<Rightarrow> 'w \<Rightarrow> (tx_error + int option) \<times> 'w"
  tq_FindEarliestUnconfirmedTxAttemptBlock :: "string \<Rightarrow> 'w \<Rightarrow> (tx_error + int option) \<times> 'w"
  tq_CountTransactionsByState :: "tx_state \<Rightarrow> string \<Rightarrow> 'w \<Rightarrow> (tx_error + 32 word) \<times> 'w"

definition FindTxesByMetaFieldAndStates ::
  "('f, 'w) txm_queries \<Rightarrow> string \<Rightarrow> string \<Rightarrow> tx_state list \<Rightarrow> int option \<Rightarrow> ('f, 'w, 'f tx list) txm_prog" where
  "FindTxesByMetaFieldAndStates Q metaField metaValue states chainID =
     m_call (tq_FindTxesByMetaFieldAndStates Q metaField metaValue states chainID)"

definition FindTxesWithMetaFieldByStates ::
  "('f, 'w) txm_queries \<Rightarrow> string \<Rightarrow> tx_state list \<Rightarrow> int option \<Rightarrow> ('f, 'w, 'f tx list) txm_prog" where
  "FindTxesWithMetaFieldByStates Q metaField states chainID = m_call (tq_FindTxesWithMetaFieldByStates Q metaField states chainID)"

definition FindTxesWithMetaFieldByReceiptBlockNum ::
  "('f, 'w) txm_queries \<Rightarrow> string \<Rightarrow> int \<Rightarrow> int option \<Rightarrow> ('f, 'w, 'f tx list) txm_prog" where
  "FindTxesWithMetaFieldByReceiptBlockNum Q metaField blockNum chainID =
     m_call (tq_FindTxesWithMetaFieldByReceiptBlockNum Q metaField blockNum chainID)"

definition FindTxesWithAttemptsAndReceiptsByIdsAndState ::
  "('f, 'w) txm_queries \<Rightarrow> int list \<Rightarrow> tx_state list \<Rightarrow> int option \<Rightarrow> ('f, 'w, 'f tx list) txm_prog" where
  "FindTxesWithAttemptsAndReceiptsByIdsAndState Q ids states chainID =
     m_call (tq_FindTxesWithAttemptsAndReceiptsByIdsAndState Q ids states chainID)"

definition FindEarliestUnconfirmedBroadcastTime :: "('f, 'w) txm_queries \<Rightarrow> ('f, 'w, int option) txm_prog" where
  "FindEarliestUnconfirmedBroadcastTime Q = m_call (tq_FindEarliestUnconfirmedBroadcastTime Q (tq_chainID Q))"

definition FindEarliestUnconfirmedTxAttemptBlock :: "('f, 'w) txm_queries \<Rightarrow> ('f, 'w, int option) txm_prog" where
  "FindEarliestUnconfirmedTxAttemptBlock Q = m_call (tq_FindEarliestUnconfirmedTxAttemptBlock Q (tq_chainID Q))"

definition CountTransactionsByState :: "('f, 'w) txm_queries \<Rightarrow> tx_state \<Rightarrow> ('f, 'w, 32 word) txm_prog" where
  "CountTransactionsByState Q st = m_call (tq_CountTransactionsByState Q st (tq_chainID Q))"

section \<open>Health\<close>

text \<open>A report maps names to errors, with \<^term>\<open>None\<close> for a healthy service. \<open>CopyHealth\<close> comes from another package; it adds the
  second report to the first.\<close>

type_synonym health_report = "string \<rightharpoonup> string option"

definition service_HealthReport :: "string \<Rightarrow> string option \<Rightarrow> health_report" where
  "service_HealthReport name err = [name \<mapsto> err]"

record txm_health =
  th_Name :: string
  th_Healthy :: "string option"
  th_broadcaster :: health_report
  th_confirmer :: health_report
  th_txAttemptBuilder :: health_report
  th_finalizer :: health_report
  th_fwdMgr :: "health_report option"

definition txm_HealthReport ::
  "(health_report \<Rightarrow> health_report \<Rightarrow> health_report) \<Rightarrow> txm_cfg \<Rightarrow> bool \<Rightarrow> txm_health \<Rightarrow> health_report outcome" where
  "txm_HealthReport CopyHealth c started h =
     (let report = [th_Name h \<mapsto> th_Healthy h];
          report1 = (if started then
                       CopyHealth (CopyHealth (CopyHealth (CopyHealth report (th_broadcaster h)) (th_confirmer h))
                         (th_txAttemptBuilder h)) (th_finalizer h)
                     else report)
      in if tc_ForwardersEnabled c then
           (case th_fwdMgr h of None \<Rightarrow> Panic nil_pointer | Some r \<Rightarrow> Ret (CopyHealth report1 r))
         else Ret report1)"

section \<open>The interface and the null manager\<close>

record ('f, 's) tx_manager =
  im_OnNewLongestChain :: "int \<Rightarrow> ('s, tx_error, unit) prog"
  im_Start :: "('s, tx_error, unit) prog"
  im_Close :: "('s, tx_error, unit) prog"
  im_Trigger :: "string \<Rightarrow> ('s, tx_error, unit) prog"
  im_CreateTransaction :: "tx_request \<Rightarrow> ('s, tx_error, 'f tx) prog"
  im_GetForwarderForEOA :: "string \<Rightarrow> ('s, tx_error, string) prog"
  im_GetForwarderForEOAOCR2Feeds :: "string \<Rightarrow> string \<Rightarrow> ('s, tx_error, string) prog"
  im_RegisterResumeCallback :: "string \<Rightarrow> ('s, tx_error, unit) prog"
  im_SendNativeToken :: "string \<Rightarrow> string \<Rightarrow> string \<Rightarrow> int \<Rightarrow> 64 word \<Rightarrow> ('s, tx_error, 'f tx) prog"
  im_Reset :: "string \<Rightarrow> bool \<Rightarrow> ('s, tx_error, unit) prog"
  im_FindTxesByMetaFieldAndStates :: "string \<Rightarrow> string \<Rightarrow> tx_state list \<Rightarrow> int option \<Rightarrow> ('s, tx_error, 'f tx list) prog"
  im_FindTxesWithMetaFieldByStates :: "string \<Rightarrow> tx_state list \<Rightarrow> int option \<Rightarrow> ('s, tx_error, 'f tx list) prog"
  im_FindTxesWithMetaFieldByReceiptBlockNum :: "string \<Rightarrow> int \<Rightarrow> int option \<Rightarrow> ('s, tx_error, 'f tx list) prog"
  im_FindTxesWithAttemptsAndReceiptsByIdsAndState :: "int list \<Rightarrow> tx_state list \<Rightarrow> int option \<Rightarrow> ('s, tx_error, 'f tx list) prog"
  im_FindEarliestUnconfirmedBroadcastTime :: "('s, tx_error, int option) prog"
  im_FindEarliestUnconfirmedTxAttemptBlock :: "('s, tx_error, int option) prog"
  im_CountTransactionsByState :: "tx_state \<Rightarrow> ('s, tx_error, 32 word) prog"
  im_GetTransactionStatus :: "string \<Rightarrow> ('s, tx_error, TransactionStatus) prog"
  im_GetTransactionFee :: "string \<Rightarrow> ('s, tx_error, int option) prog"
  im_GetTransactionReceipt :: "string \<Rightarrow> ('s, tx_error, tx_receipt option) prog"
  im_CalculateFee :: "64 word \<Rightarrow> int option \<Rightarrow> int option \<Rightarrow> int option"
  im_SupportsDualBroadcast :: bool
  im_Ready :: "('s, tx_error, unit) prog"
  im_Name :: string
  im_HealthReport :: health_report

definition NullTxManager :: "string \<Rightarrow> ('f, 's) tx_manager" where
  "NullTxManager ErrMsg =
     \<lparr>im_OnNewLongestChain = (\<lambda>head. returns ()),
      im_Start = returns (),
      im_Close = returns (),
      im_Trigger = (\<lambda>addr. panics ErrMsg),
      im_CreateTransaction = (\<lambda>txRequest. raises (TxErr ErrMsg)),
      im_GetForwarderForEOA = (\<lambda>addr. returns ''''),
      im_GetForwarderForEOAOCR2Feeds = (\<lambda>eoa agg. returns ''''),
      im_RegisterResumeCallback = (\<lambda>fn. returns ()),
      im_SendNativeToken = (\<lambda>chainID from to value gasLimit. raises (TxErr ErrMsg)),
      im_Reset = (\<lambda>addr abandon. returns ()),
      im_FindTxesByMetaFieldAndStates = (\<lambda>f v st c. raises (TxErr ErrMsg)),
      im_FindTxesWithMetaFieldByStates = (\<lambda>f st c. raises (TxErr ErrMsg)),
      im_FindTxesWithMetaFieldByReceiptBlockNum = (\<lambda>f n c. raises (TxErr ErrMsg)),
      im_FindTxesWithAttemptsAndReceiptsByIdsAndState = (\<lambda>ids st c. raises (TxErr ErrMsg)),
      im_FindEarliestUnconfirmedBroadcastTime = raises (TxErr ErrMsg),
      im_FindEarliestUnconfirmedTxAttemptBlock = raises (TxErr ErrMsg),
      im_CountTransactionsByState = (\<lambda>st. raises (TxErr ErrMsg)),
      im_GetTransactionStatus = (\<lambda>i. returns StUnknown),
      im_GetTransactionFee = (\<lambda>i. returns None),
      im_GetTransactionReceipt = (\<lambda>i. returns None),
      im_CalculateFee = (\<lambda>gasUsed price l1Fee. None),
      im_SupportsDualBroadcast = False,
      im_Ready = returns (),
      im_Name = ''NullTxManager'',
      im_HealthReport = Map.empty\<rparr>"

section \<open>Properties\<close>

text \<open>The error of a disabled key is found through any number of wrappings, by the zero target or by its own address, and by the
  key store's error; and by another address only when the key store's error itself carries that address.\<close>

fun wrapped_in :: "(nat \<times> string) list \<Rightarrow> go_err \<Rightarrow> go_err" where
  "wrapped_in [] e = e"
| "wrapped_in ((i, msg) # ws) e = GoErr i msg (Some (wrapped_in ws e))"

lemma go_Is_wrapped: "go_Is e target \<Longrightarrow> go_Is (wrapped_in ws e) target"
  by (induction ws e rule: wrapped_in.induct) auto

lemma go_Is_wrapped_NotEnabled: "go_Is (wrapped_in ws e) (NotEnabledError a w) \<longleftrightarrow> go_Is e (NotEnabledError a w)"
  by (induction ws e rule: wrapped_in.induct) auto

lemma go_Is_refl: "go_Is e e"
  by (cases e) auto

theorem not_enabled_found:
  assumes "not_enabled addr (Some err) = Some e"
  shows "go_Is (wrapped_in ws e) err \<and>
    (go_Is (wrapped_in ws e) (NotEnabledError a w) \<longleftrightarrow> a = '''' \<or> a = addr \<or> go_Is err (NotEnabledError a w))"
proof -
  have e: "e = NotEnabledError addr (Some err)" using assms by (simp add: not_enabled_def)
  have "go_Is e err" unfolding e using go_Is_refl by (cases err) auto
  moreover have "go_Is e (NotEnabledError a w) \<longleftrightarrow> a = '''' \<or> a = addr \<or> go_Is err (NotEnabledError a w)"
    unfolding e by auto
  ultimately show ?thesis by (simp add: go_Is_wrapped go_Is_wrapped_NotEnabled)
qed

text \<open>The health report panics exactly when forwarding is enabled and the manager was built without a forwarder manager; otherwise
  it names the manager itself, on a started manager the broadcaster, confirmer, attempt builder and finalizer, and with forwarding
  the forwarder manager: never the tracker, whose state is not reported.\<close>

theorem health_report_names:
  assumes "\<And>d s. dom (CopyHealth d s) = dom d \<union> dom s"
  shows "(is_panic (txm_HealthReport CopyHealth c started h) \<longleftrightarrow> tc_ForwardersEnabled c \<and> th_fwdMgr h = None) \<and>
    (\<forall>r. txm_HealthReport CopyHealth c started h = Ret r \<longrightarrow>
       dom r = {th_Name h} \<union>
         (if started then dom (th_broadcaster h) \<union> dom (th_confirmer h) \<union> dom (th_txAttemptBuilder h) \<union> dom (th_finalizer h) else {}) \<union>
         (if tc_ForwardersEnabled c then dom (the (th_fwdMgr h)) else {}))"
  using assms by (cases "th_fwdMgr h") (auto simp: txm_HealthReport_def Let_def)

text \<open>A constructed manager has no service running, and closing its broadcaster reports that it is stopped already.\<close>

lemma constructed_unstarted:
  "\<not> all_started (constructed_txm w :: ('f, 'w) txm) \<and>
   (\<exists>err. bc_closeInternal (tx_NewBroadcaster w) = Some (Ret (Inl err, tx_NewBroadcaster w)) \<and> errors_Is err ErrAlreadyStopped)"
  using broadcaster_service.stop_stopped [of "tx_NewBroadcaster w"]
  by (simp add: all_started_def constructed_txm_def tx_NewBroadcaster_def)

text \<open>The null manager never changes anything and never fails to return; only \<open>Trigger\<close> panics.\<close>

lemma null_manager_only_trigger_panics:
  fixes s :: 's
  shows "im_Trigger (NullTxManager msg :: ('f, 's) tx_manager) addr s = Some (Panic msg)"
    and "im_CreateTransaction (NullTxManager msg :: ('f, 's) tx_manager) req s = Some (Ret (Inl (TxErr msg), s))"
    and "im_Reset (NullTxManager msg :: ('f, 's) tx_manager) addr b s = Some (Ret (Inr (), s))"
    and "im_GetTransactionReceipt (NullTxManager msg :: ('f, 's) tx_manager) key s = Some (Ret (Inr None, s))"
  by (simp_all add: NullTxManager_def basic_prog)

end
