(* ===== verification/Wt_Messages.thy ===== *)
theory Wt_Messages
  imports Go_Monad
begin

text \<open>
  The data of the write target and its monitoring messages: \<open>messages.go\<close>, \<open>report/platform/types.go\<close>,
  \<open>beholder/metadata.go\<close> and the attributes of \<open>monitoring/pb/platform/metrics.go\<close>. A byte slice is a list of
  \<^typ>\<open>8 word\<close>; the records of the common packages carry the fields that are used. A value of the request's inputs
  is represented by what \<open>UnwrapTo\<close> makes of it, and the request's configuration by the \<open>ReqConfig\<close> it unwraps to.
\<close>

type_synonym bytes = "8 word list"

section \<open>Hexadecimal text\<close>

text \<open>\<open>hex.EncodeToString\<close> and \<open>hex.DecodeString\<close>.\<close>

definition hex_digit :: "nat \<Rightarrow> char" where
  "hex_digit n = ''0123456789abcdef'' ! n"

definition hex_EncodeToString :: "bytes \<Rightarrow> string" where
  "hex_EncodeToString bs = concat (map (\<lambda>b. [hex_digit (unat b div 16), hex_digit (unat b mod 16)]) bs)"

definition hex_val :: "char \<Rightarrow> nat option" where
  "hex_val c =
     (let n = of_char c :: nat in
      if 48 \<le> n \<and> n \<le> 57 then Some (n - 48)
      else if 97 \<le> n \<and> n \<le> 102 then Some (n - 87)
      else if 65 \<le> n \<and> n \<le> 70 then Some (n - 55)
      else None)"

fun hex_DecodeString :: "string \<Rightarrow> bytes option" where
  "hex_DecodeString [] = Some []"
| "hex_DecodeString [c] = None"
| "hex_DecodeString (c # d # cs) =
     (case (hex_val c, hex_val d, hex_DecodeString cs) of
        (Some m, Some n, Some bs) \<Rightarrow> Some (of_nat (16 * m + n) # bs)
      | _ \<Rightarrow> None)"

lemma hex_val_digit: "n < 16 \<Longrightarrow> hex_val (hex_digit n) = Some n"
proof -
  assume "n < 16"
  then have "n \<in> {0, 1, 2, 3, 4, 5, 6, 7, 8, 9, 10, 11, 12, 13, 14, 15}" by (simp only: insert_iff empty_iff) presburger
  then show ?thesis by (auto simp: hex_digit_def hex_val_def)
qed

lemma hex_roundtrip: "hex_DecodeString (hex_EncodeToString bs) = Some bs"
proof (induction bs)
  case Nil
  then show ?case by (simp add: hex_EncodeToString_def)
next
  case (Cons b bs)
  have "unat b < 256" using unsigned_less [of b] by simp
  then have "hex_val (hex_digit (unat b div 16)) = Some (unat b div 16)"
    "hex_val (hex_digit (unat b mod 16)) = Some (unat b mod 16)"
    by (auto intro!: hex_val_digit)
  moreover have "of_nat (16 * (unat b div 16) + unat b mod 16) = b" by simp
  ultimately show ?case using Cons by (simp add: hex_EncodeToString_def)
qed

section \<open>Requests, reports and heads\<close>

record wt_chain_info =
  ci_FamilyName :: string
  ci_ChainID :: string
  ci_NetworkName :: string
  ci_NetworkNameFull :: string

record cap_info =
  cap_ID :: string
  cap_CapabilityType :: string

record request_metadata =
  rm_WorkflowID :: string
  rm_WorkflowOwner :: string
  rm_WorkflowExecutionID :: string
  rm_WorkflowName :: string
  rm_WorkflowDonID :: "32 word"
  rm_WorkflowDonConfigVersion :: "32 word"
  rm_ReferenceID :: string

record signed_report =
  sr_ID :: bytes
  sr_Report :: bytes
  sr_Context :: bytes
  sr_Signatures :: "bytes list"

record ReqConfig =
  rc_Address :: string
  rc_Processor :: string

text \<open>\<open>Inputs\<close> and \<open>Config\<close> are pointers: \<^term>\<open>None\<close> is nil. A key of the inputs that is present may have a nil value, or one
  that unwraps to a signed report or to an error.\<close>

record cap_request =
  cr_Metadata :: request_metadata
  cr_Inputs :: "(string \<rightharpoonup> (string + signed_report) option) option"
  cr_Config :: "ReqConfig option"

record wt_head =
  wh_Height :: string
  wh_Hash :: bytes
  wh_Timestamp :: "64 word"

definition TransmissionStateNotAttempted :: "8 word" where "TransmissionStateNotAttempted = 0"
definition TransmissionStateSucceeded :: "8 word" where "TransmissionStateSucceeded = 1"
definition TransmissionStateFailed :: "8 word" where "TransmissionStateFailed = 2"
definition TransmissionStateFatal :: "8 word" where "TransmissionStateFatal = 3"

lemmas transmission_states =
  TransmissionStateNotAttempted_def TransmissionStateSucceeded_def TransmissionStateFailed_def TransmissionStateFatal_def

record TransmissionState =
  ts_Status :: "8 word"
  ts_Transmitter :: string
  ts_Err :: "string option"

text \<open>The metadata \<open>ocr3types.Decode\<close> reads off the front of a report; of its fields the version and the two
  identifiers are used. The decoder and its inverse are parameters.\<close>

record ocr3_metadata =
  md_Version :: "32 word"
  md_ExecutionID :: string
  md_WorkflowID :: string

record Report =
  rep_Metadata :: ocr3_metadata
  rep_Data :: bytes

definition platform_Decode ::
  "(bytes \<Rightarrow> string + ocr3_metadata \<times> bytes) \<Rightarrow> bytes \<Rightarrow> string + Report" where
  "platform_Decode ocr3_Decode raw =
     (case ocr3_Decode raw of
        Inl err \<Rightarrow> Inl err
      | Inr (md, tail) \<Rightarrow>
          if md_Version md \<noteq> 1 then Inl (''unsupported version '' @ go_itoa (uint (md_Version md)))
          else Inr \<lparr>rep_Metadata = md, rep_Data = tail\<rparr>)"

definition Report_Encode :: "(ocr3_metadata \<Rightarrow> string + bytes) \<Rightarrow> Report \<Rightarrow> string + bytes" where
  "Report_Encode ocr3_Encode r =
     (case ocr3_Encode (rep_Metadata r) of
        Inl err \<Rightarrow> Inl err
      | Inr metadataBytes \<Rightarrow> Inr (metadataBytes @ rep_Data r))"

text \<open>What is relied on of the two library functions: the decoder takes the encoded metadata off the front.\<close>

definition ocr3_laws :: "(ocr3_metadata \<Rightarrow> string + bytes) \<Rightarrow> (bytes \<Rightarrow> string + ocr3_metadata \<times> bytes) \<Rightarrow> bool" where
  "ocr3_laws enc dec \<longleftrightarrow> (\<forall>md bs tail. enc md = Inr bs \<longrightarrow> dec (bs @ tail) = Inr (md, tail))"

lemma report_roundtrip:
  assumes "ocr3_laws enc dec" and "Report_Encode enc r = Inr raw"
  shows "platform_Decode dec raw =
    (if md_Version (rep_Metadata r) = 1 then Inr r
     else Inl (''unsupported version '' @ go_itoa (uint (md_Version (rep_Metadata r)))))"
proof -
  from assms(2) obtain bs where bs: "enc (rep_Metadata r) = Inr bs" "raw = bs @ rep_Data r"
    by (auto simp: Report_Encode_def split: sum.splits)
  then have "dec raw = Inr (rep_Metadata r, rep_Data r)" using assms(1) by (simp add: ocr3_laws_def)
  then show ?thesis by (simp add: platform_Decode_def)
qed

section \<open>Messages\<close>

record exec_context =
  MetaSourceId :: string
  MetaChainFamilyName :: string
  MetaChainId :: string
  MetaNetworkName :: string
  MetaNetworkNameFull :: string
  MetaWorkflowId :: string
  MetaWorkflowOwner :: string
  MetaWorkflowExecutionId :: string
  MetaWorkflowName :: string
  MetaWorkflowDonId :: "32 word"
  MetaWorkflowDonConfigVersion :: "32 word"
  MetaReferenceId :: string
  MetaCapabilityType :: string
  MetaCapabilityId :: string
  MetaCapabilityTimestampStart :: "64 word"
  MetaCapabilityTimestampEmit :: "64 word"

record block_data =
  BlockHash_hex :: string
  BlockHeight :: string
  BlockTimestamp :: "64 word"

text \<open>The fields every message of the write target has.\<close>

record msg_base =
  mb_Node :: string
  mb_Forwarder :: string
  mb_Receiver :: string
  mb_ReportId :: "32 word"
  mb_ExecutionContext :: exec_context

record write_error = msg_base +
  we_Code :: "32 word"
  we_Summary :: string
  we_Cause :: string

record write_skipped = msg_base +
  ws_Reason :: string

record write_sent = msg_base +
  wn_TxId :: string
  wn_BlockData :: block_data

record write_confirmed = msg_base +
  wc_ReportContext :: bytes
  wc_Report :: bytes
  wc_SignersNum :: "32 word"
  wc_BlockData :: block_data
  wc_Transmitter :: string
  wc_Success :: bool
  wc_MetaCapabilityProcessor :: string

record report_processed =
  pr_Receiver :: string
  pr_WorkflowExecutionId :: string
  pr_ReportId :: "32 word"
  pr_Success :: bool
  pr_BlockData :: block_data
  pr_TxSender :: string
  pr_TxReceiver :: string
  pr_ExecutionContext :: exec_context

datatype proto_msg =
    WriteInitiated msg_base
  | WriteError write_error
  | WriteSkipped write_skipped
  | WriteSent write_sent
  | WriteConfirmed write_confirmed
  | ReportProcessed report_processed

section \<open>The message builder\<close>

record reportInfo =
  ri_reportContext :: bytes
  ri_report :: bytes
  ri_signersNum :: "32 word"
  ri_reportID :: "16 word"

record requestInfo =
  qi_tsStart :: int
  qi_node :: string
  qi_forwarder :: string
  qi_receiver :: string
  qi_request :: cap_request
  qi_reportInfo :: reportInfo
  qi_reportTransmissionState :: "TransmissionState option"

record messageBuilder =
  bd_ChainInfo :: wt_chain_info
  bd_CapInfo :: cap_info

definition NewMessageBuilder :: "wt_chain_info \<Rightarrow> cap_info \<Rightarrow> messageBuilder" where
  "NewMessageBuilder chainInfo capInfo = \<lparr>bd_ChainInfo = chainInfo, bd_CapInfo = capInfo\<rparr>"

definition build_context :: "messageBuilder \<Rightarrow> requestInfo \<Rightarrow> int \<Rightarrow> exec_context" where
  "build_context m i now =
     (let md = cr_Metadata (qi_request i) in
      \<lparr>MetaSourceId = qi_node i,
       MetaChainFamilyName = ci_FamilyName (bd_ChainInfo m), MetaChainId = ci_ChainID (bd_ChainInfo m),
       MetaNetworkName = ci_NetworkName (bd_ChainInfo m), MetaNetworkNameFull = ci_NetworkNameFull (bd_ChainInfo m),
       MetaWorkflowId = rm_WorkflowID md, MetaWorkflowOwner = rm_WorkflowOwner md,
       MetaWorkflowExecutionId = rm_WorkflowExecutionID md, MetaWorkflowName = rm_WorkflowName md,
       MetaWorkflowDonId = rm_WorkflowDonID md, MetaWorkflowDonConfigVersion = rm_WorkflowDonConfigVersion md,
       MetaReferenceId = rm_ReferenceID md,
       MetaCapabilityType = cap_CapabilityType (bd_CapInfo m), MetaCapabilityId = cap_ID (bd_CapInfo m),
       MetaCapabilityTimestampStart = word_of_int (qi_tsStart i), MetaCapabilityTimestampEmit = word_of_int now\<rparr>)"

definition build_block :: "wt_head \<Rightarrow> block_data" where
  "build_block head =
     \<lparr>BlockHash_hex = hex_EncodeToString (wh_Hash head), BlockHeight = wh_Height head,
      BlockTimestamp = wh_Timestamp head * 1000\<rparr>"

definition buildWriteError :: "messageBuilder \<Rightarrow> requestInfo \<Rightarrow> int \<Rightarrow> 32 word \<Rightarrow> string \<Rightarrow> string \<Rightarrow> write_error" where
  "buildWriteError m i now c summary cause =
     \<lparr>mb_Node = qi_node i, mb_Forwarder = qi_forwarder i, mb_Receiver = qi_receiver i,
      mb_ReportId = ucast (ri_reportID (qi_reportInfo i)), mb_ExecutionContext = build_context m i now,
      we_Code = c, we_Summary = summary, we_Cause = cause\<rparr>"

definition buildWriteInitiated :: "messageBuilder \<Rightarrow> requestInfo \<Rightarrow> int \<Rightarrow> msg_base" where
  "buildWriteInitiated m i now =
     \<lparr>mb_Node = qi_node i, mb_Forwarder = qi_forwarder i, mb_Receiver = qi_receiver i,
      mb_ReportId = ucast (ri_reportID (qi_reportInfo i)), mb_ExecutionContext = build_context m i now\<rparr>"

definition buildWriteSkipped :: "messageBuilder \<Rightarrow> requestInfo \<Rightarrow> int \<Rightarrow> string \<Rightarrow> write_skipped" where
  "buildWriteSkipped m i now reason =
     \<lparr>mb_Node = qi_node i, mb_Forwarder = qi_forwarder i, mb_Receiver = qi_receiver i,
      mb_ReportId = ucast (ri_reportID (qi_reportInfo i)), mb_ExecutionContext = build_context m i now,
      ws_Reason = reason\<rparr>"

definition buildWriteSent :: "messageBuilder \<Rightarrow> requestInfo \<Rightarrow> int \<Rightarrow> wt_head \<Rightarrow> string \<Rightarrow> write_sent" where
  "buildWriteSent m i now head txID =
     \<lparr>mb_Node = qi_node i, mb_Forwarder = qi_forwarder i, mb_Receiver = qi_receiver i,
      mb_ReportId = ucast (ri_reportID (qi_reportInfo i)), mb_ExecutionContext = build_context m i now,
      wn_TxId = txID, wn_BlockData = build_block head\<rparr>"

text \<open>The transmission state is dereferenced: a builder call without one would panic.\<close>

definition buildWriteConfirmed :: "messageBuilder \<Rightarrow> requestInfo \<Rightarrow> int \<Rightarrow> wt_head \<Rightarrow> write_confirmed outcome" where
  "buildWriteConfirmed m i now head =
     (case qi_reportTransmissionState i of
        None \<Rightarrow> Panic ''invalid memory address or nil pointer dereference''
      | Some st \<Rightarrow>
          Ret \<lparr>mb_Node = qi_node i, mb_Forwarder = qi_forwarder i, mb_Receiver = qi_receiver i,
               mb_ReportId = ucast (ri_reportID (qi_reportInfo i)), mb_ExecutionContext = build_context m i now,
               wc_ReportContext = ri_reportContext (qi_reportInfo i), wc_Report = ri_report (qi_reportInfo i),
               wc_SignersNum = ri_signersNum (qi_reportInfo i), wc_BlockData = build_block head,
               wc_Transmitter = ts_Transmitter st, wc_Success = (ts_Status st = TransmissionStateSucceeded),
               wc_MetaCapabilityProcessor = (case cr_Config (qi_request i) of None \<Rightarrow> '''' | Some rcfg \<Rightarrow> rc_Processor rcfg)\<rparr>)"

section \<open>Attributes of metrics\<close>

datatype attribute = AttrString string string | AttrInt64 string int | AttrBool string bool

definition ValOrUnknown :: "string \<Rightarrow> string" where
  "ValOrUnknown val = (if val = '''' then ''unknown'' else val)"

definition ValShortOrUnknown :: "string \<Rightarrow> int \<Rightarrow> string" where
  "ValShortOrUnknown val len =
     (if val = '''' \<or> len \<le> 0 then ''unknown''
      else if int (length val) < len then val
      else take (nat len) val)"

definition decodeWorkflowName :: "string \<Rightarrow> string" where
  "decodeWorkflowName name =
     (case hex_DecodeString name of
        None \<Rightarrow> ''unknown-decode-error''
      | Some bs \<Rightarrow> map (\<lambda>b. char_of (unat b)) bs)"

text \<open>\<open>ExecutionMetadata.Attributes\<close>, on the execution context its fields are copied from.\<close>

definition context_Attributes :: "exec_context \<Rightarrow> attribute list" where
  "context_Attributes c =
     [AttrString ''source_id'' (ValOrUnknown (MetaSourceId c)),
      AttrString ''chain_family_name'' (ValOrUnknown (MetaChainFamilyName c)),
      AttrString ''chain_id'' (ValOrUnknown (MetaChainId c)),
      AttrString ''network_name'' (ValOrUnknown (MetaNetworkName c)),
      AttrString ''network_name_full'' (ValOrUnknown (MetaNetworkNameFull c)),
      AttrString ''workflow_id'' (ValOrUnknown (MetaWorkflowId c)),
      AttrString ''workflow_owner'' (ValOrUnknown (MetaWorkflowOwner c)),
      AttrString ''workflow_name'' (ValOrUnknown (decodeWorkflowName (MetaWorkflowName c))),
      AttrInt64 ''workflow_don_id'' (uint (MetaWorkflowDonId c)),
      AttrInt64 ''workflow_don_config_version'' (uint (MetaWorkflowDonConfigVersion c)),
      AttrString ''reference_id'' (ValOrUnknown (MetaReferenceId c)),
      AttrString ''capability_type'' (ValOrUnknown (MetaCapabilityType c)),
      AttrString ''capability_id'' (ValOrUnknown (MetaCapabilityId c))]"

definition base_Attributes :: "('a msg_base_scheme) \<Rightarrow> attribute list" where
  "base_Attributes m =
     [AttrString ''node'' (mb_Node m), AttrString ''forwarder'' (mb_Forwarder m),
      AttrString ''receiver'' (mb_Receiver m), AttrInt64 ''report_id'' (uint (mb_ReportId m))]"

definition WriteInitiated_Attributes :: "msg_base \<Rightarrow> attribute list" where
  "WriteInitiated_Attributes m = base_Attributes m @ context_Attributes (mb_ExecutionContext m)"

definition WriteError_Attributes :: "write_error \<Rightarrow> attribute list" where
  "WriteError_Attributes m =
     base_Attributes m @ [AttrInt64 ''code'' (uint (we_Code m)), AttrString ''summary'' (we_Summary m)] @
     context_Attributes (mb_ExecutionContext m)"

definition WriteSent_Attributes :: "write_sent \<Rightarrow> attribute list" where
  "WriteSent_Attributes m = base_Attributes m @ context_Attributes (mb_ExecutionContext m)"

definition WriteConfirmed_Attributes :: "write_confirmed \<Rightarrow> attribute list" where
  "WriteConfirmed_Attributes m =
     base_Attributes m @
     [AttrString ''transmitter'' (wc_Transmitter m), AttrBool ''success'' (wc_Success m),
      AttrBool ''observed_by_transmitter'' (wc_Transmitter m = mb_Node m)] @
     context_Attributes (mb_ExecutionContext m)"

definition ReportProcessed_Attributes :: "report_processed \<Rightarrow> attribute list" where
  "ReportProcessed_Attributes m =
     [AttrString ''tx_sender'' (pr_TxSender m), AttrString ''tx_receiver'' (pr_TxReceiver m),
      AttrString ''receiver'' (pr_Receiver m), AttrInt64 ''report_id'' (uint (pr_ReportId m)),
      AttrBool ''success'' (pr_Success m),
      AttrBool ''observed_by_transmitter'' (pr_TxSender m = MetaSourceId (pr_ExecutionContext m))] @
     context_Attributes (pr_ExecutionContext m)"

lemma ValShortOrUnknown_nonempty: "ValShortOrUnknown val len \<noteq> ''''"
  by (auto simp: ValShortOrUnknown_def)

text \<open>No text of the execution context reaches the metrics empty.\<close>

fun attr_nonempty :: "attribute \<Rightarrow> bool" where
  "attr_nonempty (AttrString k v) \<longleftrightarrow> v \<noteq> []"
| "attr_nonempty _ \<longleftrightarrow> True"

lemma ValOrUnknown_nonempty [simp]: "ValOrUnknown val \<noteq> []"
  by (simp add: ValOrUnknown_def)

lemma context_Attributes_nonempty: "list_all attr_nonempty (context_Attributes c)"
  by (simp add: context_Attributes_def)

end
