(* ===== verification/Wt_Monitor.thy ===== *)
theory Wt_Monitor
  imports Wt_Messages
begin

text \<open>
  The monitoring of the write target: \<open>write_target_monitor.go\<close> (the emitter that also processes what it
  emits), \<open>report/platform/processor/processor.go\<close>, \<open>beholder/common.go\<close> and the recording of metrics. Counters and
  gauges are effects. The processors are the two of the platform and those of products, which are outside the
  repository and act on the world only. The locale \<open>proto_emitter\<close> is what the write target relies on.
\<close>

datatype wt_error =
    WtErr string
  | WtWrapped string wt_error
  | WtJoined "wt_error list"
  | WtMsg write_error

datatype wt_effect =
    Emitted proto_msg
  | Counted string "attribute list"
  | Gauged string int "attribute list"
  | GotState "TransmissionState option"
  | GotStatus int
  | Transmitted bytes bytes "bytes list"

record 'w wt =
  wt_w :: 'w
  wt_effects :: "wt_effect list"

type_synonym ('w, 'a) wt_prog = "('w wt, wt_error, 'a) prog"

definition wt_emits :: "wt_effect list \<Rightarrow> ('w wt, 'e, unit) prog" where
  "wt_emits es = updates (\<lambda>s. s\<lparr>wt_effects := wt_effects s @ es\<rparr>)"

definition wt_call :: "('w \<Rightarrow> ('e + 'a) \<times> 'w) \<Rightarrow> ('w wt, 'e, 'a) prog" where
  "wt_call f s = (case f (wt_w s) of (r, w) \<Rightarrow> Some (Ret (r, s\<lparr>wt_w := w\<rparr>)))"

section \<open>Metrics\<close>

definition platform_ns :: "string \<Rightarrow> string" where
  "platform_ns name = ''platform_write_target_'' @ name"

definition forwarder_ns :: "string \<Rightarrow> string" where
  "forwarder_ns name = ''platform_on_chain_forwarder_'' @ name"

definition RecordEmit :: "string \<Rightarrow> 64 word \<Rightarrow> 64 word \<Rightarrow> attribute list \<Rightarrow> ('w, unit) wt_prog" where
  "RecordEmit metricPrefix tsStart tsEmit attrs =
     wt_emits
       [Counted (metricPrefix @ ''_count'') attrs,
        Gauged (metricPrefix @ ''_cap_timestamp_start'') (sint tsStart) attrs,
        Gauged (metricPrefix @ ''_cap_timestamp_emit'') (sint tsEmit) attrs,
        Gauged (metricPrefix @ ''_cap_duration'') (sint (tsEmit - tsStart)) attrs]"

text \<open>The difference of the two unsigned timestamps, read as signed, is the true difference, negative when the clock went
  backwards.\<close>

lemma duration_exact:
  fixes a b :: "64 word"
  assumes "- (2 ^ 63) \<le> uint a - uint b" and "uint a - uint b < 2 ^ 63"
  shows "sint (a - b) = uint a - uint b"
proof -
  have "sint (word_of_int x :: 64 word) = signed_take_bit 63 x" for x by (simp add: signed_of_int)
  from this [of "uint a - uint b"] have "sint (a - b) = signed_take_bit 63 (uint a - uint b)" by simp
  then show ?thesis using assms by (simp add: signed_take_bit_int_eq_self)
qed

text \<open>\<open>strconv.ParseInt(s, 10, 64)\<close>.\<close>

fun digits_value :: "int \<Rightarrow> string \<Rightarrow> int option" where
  "digits_value acc [] = Some acc"
| "digits_value acc (c # cs) =
     (let n = of_char c :: nat in
      if 48 \<le> n \<and> n \<le> 57 then digits_value (10 * acc + (int n - 48)) cs else None)"

definition in_int64 :: "int \<Rightarrow> bool" where
  "in_int64 x \<longleftrightarrow> - (2 ^ 63) \<le> x \<and> x < 2 ^ 63"

definition ParseInt64 :: "string \<Rightarrow> string + int" where
  "ParseInt64 s =
     (let (neg, ds) = (case s of [] \<Rightarrow> (False, []) | c # cs \<Rightarrow>
                         if c = CHR ''-'' then (True, cs) else if c = CHR ''+'' then (False, cs) else (False, s))
      in if ds = [] then Inl ''invalid syntax''
         else
           (case digits_value 0 ds of
              None \<Rightarrow> Inl ''invalid syntax''
            | Some v \<Rightarrow> if in_int64 (if neg then - v else v) then Inr (if neg then - v else v)
                        else Inl ''value out of range''))"

definition record_block :: "string \<Rightarrow> block_data \<Rightarrow> attribute list \<Rightarrow> ('w, unit) wt_prog" where
  "record_block prefix b attrs =
     andThen (wt_emits [Gauged (prefix @ ''_block_timestamp'') (sint (BlockTimestamp b)) attrs]) (\<lambda>_.
       case ParseInt64 (BlockHeight b) of
         Inl err \<Rightarrow> raises (WtWrapped ''failed to parse block height'' (WtErr err))
       | Inr h \<Rightarrow> wt_emits [Gauged (prefix @ ''_block_number'') h attrs])"

definition OnWriteInitiated :: "msg_base \<Rightarrow> ('w, unit) wt_prog" where
  "OnWriteInitiated msg =
     RecordEmit (platform_ns ''write_initiated'') (MetaCapabilityTimestampStart (mb_ExecutionContext msg))
       (MetaCapabilityTimestampEmit (mb_ExecutionContext msg)) (WriteInitiated_Attributes msg)"

definition OnWriteError :: "write_error \<Rightarrow> ('w, unit) wt_prog" where
  "OnWriteError msg =
     RecordEmit (platform_ns ''write_error'') (MetaCapabilityTimestampStart (mb_ExecutionContext msg))
       (MetaCapabilityTimestampEmit (mb_ExecutionContext msg)) (WriteError_Attributes msg)"

definition OnWriteSent :: "write_sent \<Rightarrow> ('w, unit) wt_prog" where
  "OnWriteSent msg =
     andThen (RecordEmit (platform_ns ''write_sent'') (MetaCapabilityTimestampStart (mb_ExecutionContext msg))
                (MetaCapabilityTimestampEmit (mb_ExecutionContext msg)) (WriteSent_Attributes msg))
       (\<lambda>_. record_block (platform_ns ''write_sent'') (wn_BlockData msg) (WriteSent_Attributes msg))"

definition OnWriteConfirmed :: "write_confirmed \<Rightarrow> ('w, unit) wt_prog" where
  "OnWriteConfirmed msg =
     andThen (RecordEmit (platform_ns ''write_confirmed'') (MetaCapabilityTimestampStart (mb_ExecutionContext msg))
                (MetaCapabilityTimestampEmit (mb_ExecutionContext msg)) (WriteConfirmed_Attributes msg))
       (\<lambda>_. andThen (wt_emits [Gauged (platform_ns ''write_confirmed_signers_number'') (uint (wc_SignersNum msg))
                                 (WriteConfirmed_Attributes msg)])
       (\<lambda>_. record_block (platform_ns ''write_confirmed'') (wc_BlockData msg) (WriteConfirmed_Attributes msg)))"

definition OnReportProcessed :: "report_processed \<Rightarrow> ('w, unit) wt_prog" where
  "OnReportProcessed msg =
     andThen (RecordEmit (forwarder_ns ''report_processed'') (MetaCapabilityTimestampStart (pr_ExecutionContext msg))
                (MetaCapabilityTimestampEmit (pr_ExecutionContext msg)) (ReportProcessed_Attributes msg))
       (\<lambda>_. record_block (forwarder_ns ''report_processed'') (pr_BlockData msg) (ReportProcessed_Attributes msg))"

section \<open>Processors\<close>

type_synonym 'w base_emitter = "proto_msg \<Rightarrow> 'w \<Rightarrow> (wt_error + unit) \<times> 'w"

definition base_emit :: "'w base_emitter \<Rightarrow> proto_msg \<Rightarrow> ('w, unit) wt_prog" where
  "base_emit f m = andThen (wt_emits [Emitted m]) (\<lambda>_. wt_call (f m))"

datatype 'w processor =
    WtProcessor
  | KeystoneProcessor "'w base_emitter"
  | ProductProcessor "proto_msg \<Rightarrow> 'w \<Rightarrow> (wt_error + unit) \<times> 'w"

definition DecodeAsReportProcessed ::
  "(bytes \<Rightarrow> string + ocr3_metadata \<times> bytes) \<Rightarrow> write_confirmed \<Rightarrow> wt_error + report_processed" where
  "DecodeAsReportProcessed dec m =
     (case platform_Decode dec (wc_Report m) of
        Inl err \<Rightarrow> Inl (WtWrapped ''failed to decode report'' (WtErr err))
      | Inr r \<Rightarrow>
          Inr \<lparr>pr_Receiver = mb_Receiver m, pr_WorkflowExecutionId = md_ExecutionID (rep_Metadata r),
               pr_ReportId = mb_ReportId m, pr_Success = wc_Success m, pr_BlockData = wc_BlockData m,
               pr_TxSender = wc_Transmitter m, pr_TxReceiver = mb_Forwarder m,
               pr_ExecutionContext = mb_ExecutionContext m\<rparr>)"

fun wt_Process :: "proto_msg \<Rightarrow> ('w, unit) wt_prog" where
  "wt_Process (WriteInitiated msg) =
     or_raise (WtWrapped ''failed to publish write initiated metrics'') (OnWriteInitiated msg)"
| "wt_Process (WriteError msg) = or_raise (WtWrapped ''failed to publish write error metrics'') (OnWriteError msg)"
| "wt_Process (WriteSent msg) = or_raise (WtWrapped ''failed to publish write sent metrics'') (OnWriteSent msg)"
| "wt_Process (WriteConfirmed msg) =
     or_raise (WtWrapped ''failed to publish write confirmed metrics'') (OnWriteConfirmed msg)"
| "wt_Process m = returns ()"

fun keystone_Process ::
  "(bytes \<Rightarrow> string + ocr3_metadata \<times> bytes) \<Rightarrow> 'w base_emitter \<Rightarrow> proto_msg \<Rightarrow> ('w, unit) wt_prog" where
  "keystone_Process dec emitter (WriteConfirmed msg) =
     (case DecodeAsReportProcessed dec msg of
        Inl err \<Rightarrow> raises (WtWrapped (''failed to decode as '' @ [CHR 0x27] @ ''platform.forwarder.ReportProcessed'' @ [CHR 0x27]) err)
      | Inr reportProcessed \<Rightarrow>
          andThen (or_raise (WtWrapped ''failed to emit with log'') (base_emit emitter (ReportProcessed reportProcessed)))
            (\<lambda>_. or_raise (WtWrapped ''failed to publish report processed metrics'') (OnReportProcessed reportProcessed)))"
| "keystone_Process dec emitter m = returns ()"

fun processor_Process ::
  "(bytes \<Rightarrow> string + ocr3_metadata \<times> bytes) \<Rightarrow> 'w processor \<Rightarrow> proto_msg \<Rightarrow> ('w, unit) wt_prog" where
  "processor_Process dec WtProcessor m = wt_Process m"
| "processor_Process dec (KeystoneProcessor emitter) m = keystone_Process dec emitter m"
| "processor_Process dec (ProductProcessor f) m = wt_call (f m)"

text \<open>\<open>NewPlatformProcessors\<close>, given the errors of creating the two sets of metrics.\<close>

definition NewPlatformProcessors ::
  "wt_error option \<Rightarrow> wt_error option \<Rightarrow> 'w base_emitter \<Rightarrow> wt_error + (string \<rightharpoonup> 'w processor)" where
  "NewPlatformProcessors forwarderErr wtErr emitter =
     (case forwarderErr of
        Some err \<Rightarrow> Inl (WtWrapped ''failed to create new forwarder metrics'' err)
      | None \<Rightarrow>
          (case wtErr of
             Some err \<Rightarrow> Inl (WtWrapped ''failed to create new write target metrics'' err)
           | None \<Rightarrow> Inr [''keystone'' \<mapsto> KeystoneProcessor emitter, ''writetarget'' \<mapsto> WtProcessor]))"

section \<open>The emitter\<close>

record 'w protoEmitter =
  pe_Emit :: "'w base_emitter"
  pe_EmitWithLog :: "'w base_emitter"
  pe_processors :: "string \<rightharpoonup> 'w processor"
  pe_enabledProcessors :: "string list"

text \<open>The loop over the enabled processors; the value says whether it got to its regular end.\<close>

fun process_enabled ::
  "(bytes \<Rightarrow> string + ocr3_metadata \<times> bytes) \<Rightarrow> (string \<rightharpoonup> 'w processor) \<Rightarrow> string list \<Rightarrow> proto_msg \<Rightarrow> ('w, bool) wt_prog" where
  "process_enabled dec procs [] m = returns True"
| "process_enabled dec procs (n # ns) m =
     (case procs n of
        None \<Rightarrow> process_enabled dec procs ns m
      | Some p \<Rightarrow>
          andThen (trying (processor_Process dec p m))
            (\<lambda>r. case r of Inl err \<Rightarrow> returns False | Inr _ \<Rightarrow> process_enabled dec procs ns m))"

definition process_product ::
  "(bytes \<Rightarrow> string + ocr3_metadata \<times> bytes) \<Rightarrow> (string \<rightharpoonup> 'w processor) \<Rightarrow> proto_msg \<Rightarrow> ('w, unit) wt_prog" where
  "process_product dec procs m =
     (case m of
        WriteConfirmed msg \<Rightarrow>
          if wc_MetaCapabilityProcessor msg = '''' then returns ()
          else
            (case procs (wc_MetaCapabilityProcessor msg) of
               None \<Rightarrow> returns ()
             | Some p \<Rightarrow> andThen (trying (processor_Process dec p m)) (\<lambda>_. returns ()))
      | _ \<Rightarrow> returns ())"

definition emitter_Process ::
  "(bytes \<Rightarrow> string + ocr3_metadata \<times> bytes) \<Rightarrow> 'w protoEmitter \<Rightarrow> proto_msg \<Rightarrow> ('w, unit) wt_prog" where
  "emitter_Process dec e m =
     andThen (process_enabled dec (pe_processors e) (pe_enabledProcessors e) m)
       (\<lambda>completed. if completed then process_product dec (pe_processors e) m else returns ())"

definition emitter_Emit ::
  "(bytes \<Rightarrow> string + ocr3_metadata \<times> bytes) \<Rightarrow> 'w protoEmitter \<Rightarrow> proto_msg \<Rightarrow> ('w, unit) wt_prog" where
  "emitter_Emit dec e m =
     andThen (or_raise (WtWrapped ''failed to emit'') (base_emit (pe_Emit e) m)) (\<lambda>_. emitter_Process dec e m)"

definition emitter_EmitWithLog ::
  "(bytes \<Rightarrow> string + ocr3_metadata \<times> bytes) \<Rightarrow> 'w protoEmitter \<Rightarrow> proto_msg \<Rightarrow> ('w, unit) wt_prog" where
  "emitter_EmitWithLog dec e m =
     andThen (or_raise (WtWrapped ''failed to emit with log'') (base_emit (pe_EmitWithLog e) m)) (\<lambda>_. emitter_Process dec e m)"

section \<open>The contract of an emitter\<close>

text \<open>What monitoring may add besides the message itself: metrics, and the message derived from a confirmed write.\<close>

fun quiet :: "wt_effect \<Rightarrow> bool" where
  "quiet (Counted n as) = True"
| "quiet (Gauged n x as) = True"
| "quiet (Emitted (ReportProcessed r)) = True"
| "quiet _ = False"

definition quietly :: "('w wt, 'e, 'a) prog \<Rightarrow> bool" where
  "quietly m \<longleftrightarrow> (\<forall>s. \<exists>r s' es. m s = Some (Ret (r, s')) \<and> wt_effects s' = wt_effects s @ es \<and> list_all quiet es)"

named_theorems quiets \<open>programs that only add metrics\<close>

lemma quietlyI:
  assumes "\<And>s. \<exists>r s' es. m s = Some (Ret (r, s')) \<and> wt_effects s' = wt_effects s @ es \<and> list_all quiet es"
  shows "quietly m"
  using assms by (auto simp: quietly_def)

lemma quietlyE:
  assumes "quietly m"
  obtains r s' es where "m s = Some (Ret (r, s'))" and "wt_effects s' = wt_effects s @ es" and "list_all quiet es"
  using assms unfolding quietly_def by blast

lemma quietly_basic [quiets]: "quietly (returns x)" "quietly (raises e)"
  by (auto simp: quietly_def basic_prog)

lemma quietly_wt_emits [quiets]: "list_all quiet es \<Longrightarrow> quietly (wt_emits es)"
  by (auto simp: quietly_def wt_emits_def basic_prog)

lemma quietly_wt_call [quiets]: "quietly (wt_call f)"
proof (rule quietlyI)
  fix s :: "'a wt"
  show "\<exists>r s' es. wt_call f s = Some (Ret (r, s')) \<and> wt_effects s' = wt_effects s @ es \<and> list_all quiet es"
    by (cases "f (wt_w s)") (simp add: wt_call_def)
qed

lemma quietly_andThen [quiets]:
  assumes "quietly m" and "\<And>x. quietly (f x)"
  shows "quietly (andThen m f)"
proof (rule quietlyI)
  fix s
  obtain r s1 es where m: "m s = Some (Ret (r, s1))" "wt_effects s1 = wt_effects s @ es" "list_all quiet es"
    using assms(1) by (rule quietlyE)
  show "\<exists>r s' es. andThen m f s = Some (Ret (r, s')) \<and> wt_effects s' = wt_effects s @ es \<and> list_all quiet es"
  proof (cases r)
    case (Inl e)
    then show ?thesis using m by (simp add: andThen_def)
  next
    case (Inr x)
    obtain r' s2 es' where "f x s1 = Some (Ret (r', s2))" "wt_effects s2 = wt_effects s1 @ es'" "list_all quiet es'"
      using assms(2) by (rule quietlyE)
    then show ?thesis using m Inr by (auto simp: andThen_def)
  qed
qed

lemma quietly_trying [quiets]:
  assumes "quietly m"
  shows "quietly (trying m)"
proof (rule quietlyI)
  fix s
  obtain r s1 es where "m s = Some (Ret (r, s1))" "wt_effects s1 = wt_effects s @ es" "list_all quiet es"
    using assms by (rule quietlyE)
  then show "\<exists>r s' es. trying m s = Some (Ret (r, s')) \<and> wt_effects s' = wt_effects s @ es \<and> list_all quiet es"
    by (simp add: trying_def)
qed

lemma quietly_or_raise [quiets]: "quietly m \<Longrightarrow> quietly (or_raise g m)"
  unfolding or_raise_def by (auto intro!: quiets split: sum.splits)

lemma quietly_metrics [quiets]:
  "quietly (RecordEmit p a b as)" "quietly (record_block p bd as)"
  by (auto simp: RecordEmit_def record_block_def intro!: quiets split: sum.splits)

lemma quietly_handlers [quiets]:
  "quietly (OnWriteInitiated b)" "quietly (OnWriteError e)" "quietly (OnWriteSent t)" "quietly (OnWriteConfirmed c)"
  "quietly (OnReportProcessed r)"
  by (auto simp: OnWriteInitiated_def OnWriteError_def OnWriteSent_def OnWriteConfirmed_def OnReportProcessed_def intro!: quiets)

lemma quietly_processors [quiets]: "quietly (processor_Process dec p m)"
proof (cases p)
  case WtProcessor
  then show ?thesis by (cases m) (auto intro!: quiets)
next
  case (KeystoneProcessor em)
  then show ?thesis by (cases m) (auto simp: base_emit_def intro!: quiets split: sum.splits)
next
  case (ProductProcessor f)
  then show ?thesis by (auto intro!: quiets)
qed

lemma quietly_enabled [quiets]: "quietly (process_enabled dec procs ns m)"
  by (induction ns) (auto intro!: quiets split: option.splits sum.splits)

lemma quietly_Process [quiets]: "quietly (emitter_Process dec e m)"
  by (auto simp: emitter_Process_def process_product_def intro!: quiets split: proto_msg.splits option.splits)

text \<open>The write target relies on this: emitting returns, hands over the message once and does nothing else the target
  itself does. Whether it reports an error is not relied on.\<close>

locale proto_emitter =
  fixes EmitWithLog :: "proto_msg \<Rightarrow> ('w, unit) wt_prog"
  assumes emits_once: "\<exists>r s' es. EmitWithLog m s = Some (Ret (r, s')) \<and>
    wt_effects s' = wt_effects s @ Emitted m # es \<and> list_all quiet es"

lemma emitter_emits_once:
  "\<exists>r s' es. emitter_EmitWithLog dec e m s = Some (Ret (r, s')) \<and>
    wt_effects s' = wt_effects s @ Emitted m # es \<and> list_all quiet es"
proof -
  let ?s = "s\<lparr>wt_effects := wt_effects s @ [Emitted m]\<rparr>"
  let ?rest = "andThen (or_raise (WtWrapped ''failed to emit with log'') (wt_call (pe_EmitWithLog e m)))
    (\<lambda>_. emitter_Process dec e m)"
  have eq: "emitter_EmitWithLog dec e m s = ?rest ?s"
    by (simp add: emitter_EmitWithLog_def base_emit_def wt_emits_def or_raise_def andThen_def trying_def basic_prog)
  have "quietly ?rest" by (intro quiets)
  then obtain r s' es where "?rest ?s = Some (Ret (r, s'))" "wt_effects s' = wt_effects ?s @ es" "list_all quiet es"
    by (rule quietlyE)
  then show ?thesis by (auto simp: eq)
qed

interpretation monitor: proto_emitter "emitter_EmitWithLog dec e" for dec e
  by unfold_locales (rule emitter_emits_once)

section \<open>Properties\<close>

lemma process_enabled_append:
  "process_enabled dec procs (pre @ post) m =
     andThen (process_enabled dec procs pre m) (\<lambda>completed. if completed then process_enabled dec procs post m else returns False)"
proof (induction pre)
  case (Cons n pre)
  let ?g = "\<lambda>completed. if completed then process_enabled dec procs post m else returns False"
  have "(\<lambda>r :: wt_error + unit. andThen (case r of Inl _ \<Rightarrow> returns False | Inr _ \<Rightarrow> process_enabled dec procs pre m) ?g) =
      (\<lambda>r. case r of Inl _ \<Rightarrow> returns False | Inr _ \<Rightarrow> andThen (process_enabled dec procs pre m) ?g)"
    by (auto simp: fun_eq_iff andThen_returns split: sum.split)
  then show ?case using Cons by (simp add: andThen_assoc split: option.split)
qed (simp add: andThen_returns)

text \<open>An error of an enabled processor ends all processing of the message: the enabled processors after it and the
  product's own processor do not run, whatever they would do, although the error is swallowed so as not to block them.\<close>

theorem failed_processor_ends_processing:
  assumes "pe_enabledProcessors e = pre @ n # post" and "pe_processors e n = Some p"
    and "process_enabled dec (pe_processors e) pre m s = Some (Ret (Inr True, s0))"
    and "processor_Process dec p m s0 = Some (Ret (Inl err, s1))"
  shows "emitter_Process dec e m s = Some (Ret (Inr (), s1))"
  using assms
  by (simp add: emitter_Process_def process_enabled_append) (simp add: andThen_def trying_def basic_prog)

definition demo_context :: exec_context where
  "demo_context =
     \<lparr>MetaSourceId = ''n'', MetaChainFamilyName = ''evm'', MetaChainId = ''1'', MetaNetworkName = '''', MetaNetworkNameFull = '''',
      MetaWorkflowId = ''w'', MetaWorkflowOwner = ''o'', MetaWorkflowExecutionId = ''x'', MetaWorkflowName = ''6162'',
      MetaWorkflowDonId = 1, MetaWorkflowDonConfigVersion = 1, MetaReferenceId = '''', MetaCapabilityType = ''target'',
      MetaCapabilityId = ''c'', MetaCapabilityTimestampStart = 5, MetaCapabilityTimestampEmit = 7\<rparr>"

definition demo_confirmed :: write_confirmed where
  "demo_confirmed =
     \<lparr>mb_Node = ''n'', mb_Forwarder = ''f'', mb_Receiver = ''r'', mb_ReportId = 1, mb_ExecutionContext = demo_context,
      wc_ReportContext = [], wc_Report = [1], wc_SignersNum = 1,
      wc_BlockData = \<lparr>BlockHash_hex = '''', BlockHeight = ''10'', BlockTimestamp = 0\<rparr>,
      wc_Transmitter = ''n'', wc_Success = True, wc_MetaCapabilityProcessor = ''product''\<rparr>"

text \<open>A product processor that counts its calls behind a keystone processor that cannot decode the report.\<close>

definition demo_emitter :: "nat protoEmitter" where
  "demo_emitter =
     \<lparr>pe_Emit = (\<lambda>m w. (Inr (), w)), pe_EmitWithLog = (\<lambda>m w. (Inr (), w)),
      pe_processors = [''keystone'' \<mapsto> KeystoneProcessor (\<lambda>m w. (Inr (), w)), ''product'' \<mapsto> ProductProcessor (\<lambda>m w. (Inr (), Suc w))],
      pe_enabledProcessors = [''keystone'']\<rparr>"

theorem failed_processor_ends_processing_witness:
  "emitter_Process (\<lambda>raw. Inl ''decode'') demo_emitter (WriteConfirmed demo_confirmed) \<lparr>wt_w = 0, wt_effects = []\<rparr> =
     Some (Ret (Inr (), \<lparr>wt_w = 0, wt_effects = []\<rparr>)) \<and>
   processor_Process (\<lambda>raw. Inl ''decode'') (ProductProcessor (\<lambda>m w. (Inr (), Suc w))) (WriteConfirmed demo_confirmed)
     \<lparr>wt_w = 0, wt_effects = []\<rparr> = Some (Ret (Inr (), \<lparr>wt_w = 1, wt_effects = []\<rparr>))"
  using failed_processor_ends_processing [where e = demo_emitter and pre = "[]" and post = "[]" and n = "''keystone''"
      and p = "KeystoneProcessor (\<lambda>m w. (Inr (), w))" and dec = "\<lambda>raw. Inl ''decode''" and m = "WriteConfirmed demo_confirmed"
      and s = "\<lparr>wt_w = 0, wt_effects = []\<rparr>" and ?s0.0 = "\<lparr>wt_w = 0, wt_effects = []\<rparr>" and ?s1.0 = "\<lparr>wt_w = 0, wt_effects = []\<rparr>"]
  by (simp add: demo_emitter_def demo_confirmed_def DecodeAsReportProcessed_def platform_Decode_def basic_prog wt_call_def)

end
