(* ===== verification/Write_Target.thy ===== *)
theory Write_Target
  imports Wt_Monitor
begin

text \<open>
  The write target capability: \<open>write_target.go\<close>, its \<open>retry/retry.go\<close> and \<open>config.go\<close>. The chain-specific strategy, the chain
  service, the report decoder, the clock and the choices of \<open>select\<close> between \<open>ctx.Done()\<close> and a timer are the fields of
  an environment; the emitter is a parameter under the contract \<open>proto_emitter\<close>. A loop that waits has no value when it
  never ends. An inductive protocol says which sequences of messages, queries and transmissions a request may lead to.
\<close>

section \<open>Retrying\<close>

definition retry_error :: "string \<Rightarrow> int \<Rightarrow> string \<Rightarrow> string" where
  "retry_error retryID numRetries ctxErr =
     ''context done while executing function {retryID='' @ retryID @ '', numRetries='' @ go_itoa numRetries @ ''}: '' @ ctxErr"

text \<open>\<open>WithStrategy\<close>: the wait of the backoff and the context's end compete in \<open>sel\<close>.\<close>

partial_function (option) WithStrategy ::
  "('s \<Rightarrow> bool \<times> 's) \<Rightarrow> ('s \<Rightarrow> string) \<Rightarrow> ('s \<Rightarrow> ((string + 'r) \<times> 's) outcome option) \<Rightarrow> string \<Rightarrow> int \<Rightarrow> 's \<Rightarrow>
   ((string + 'r) \<times> 's) outcome option" where
  "WithStrategy sel ctxErr fn retryID numRetries s =
     Option.bind (fn s)
       (\<lambda>r. case r of
          Panic m \<Rightarrow> Some (Panic m)
        | Ret (Inr result, s1) \<Rightarrow> Some (Ret (Inr result, s1))
        | Ret (Inl err, s1) \<Rightarrow>
            (case sel s1 of (ctxDone, s2) \<Rightarrow>
               if ctxDone then Some (Ret (Inl (retry_error retryID numRetries (ctxErr s2)), s2))
               else WithStrategy sel ctxErr fn retryID (i64 (numRetries + 1)) s2))"

declare WithStrategy.simps [code]

text \<open>\<open>With\<close>, on a context with or without a tracing ID; the default strategy has made no attempt yet.\<close>

definition retry_With ::
  "('s \<Rightarrow> bool \<times> 's) \<Rightarrow> ('s \<Rightarrow> string) \<Rightarrow> string option \<Rightarrow> string \<Rightarrow> ('s, string, 'r) prog \<Rightarrow> ('s, string, 'r) prog" where
  "retry_With sel ctxErr ctxID fresh fn =
     WithStrategy sel ctxErr fn (case ctxID of None \<Rightarrow> fresh | Some retryID \<Rightarrow> retryID) 0"

text \<open>The loop \<open>for \<open>select\<close> { <-ctx.Done(): ...; <-ticker.C: ... }\<close> both waits of the write target are: a round returns
  \<^term>\<open>None\<close> to go on.\<close>

partial_function (option) poll_until ::
  "('s \<Rightarrow> bool \<times> 's) \<Rightarrow> ('s \<Rightarrow> (('e + 'a) \<times> 's) outcome option) \<Rightarrow> ('s \<Rightarrow> (('e + 'a option) \<times> 's) outcome option) \<Rightarrow> 's \<Rightarrow>
   (('e + 'a) \<times> 's) outcome option" where
  "poll_until sel timeout round s =
     (case sel s of (ctxDone, s1) \<Rightarrow>
        if ctxDone then timeout s1
        else
          Option.bind (round s1)
            (\<lambda>r. case r of
               Panic m \<Rightarrow> Some (Panic m)
             | Ret (Inl e, s2) \<Rightarrow> Some (Ret (Inl e, s2))
             | Ret (Inr (Some x), s2) \<Rightarrow> Some (Ret (Inr x, s2))
             | Ret (Inr None, s2) \<Rightarrow> poll_until sel timeout round s2))"

declare poll_until.simps [code]

section \<open>The capability\<close>

record 'w wt_env =
  wv_select :: "'w \<Rightarrow> bool \<times> 'w"
  wv_ctxErr :: "'w \<Rightarrow> string"
  wv_now :: "'w \<Rightarrow> int"
  wv_LatestHead :: "'w \<Rightarrow> (string + wt_head) \<times> 'w"
  wv_QueryTransmissionState :: "16 word \<Rightarrow> cap_request \<Rightarrow> 'w \<Rightarrow> (string + TransmissionState option) \<times> 'w"
  wv_TransmitReport :: "bytes \<Rightarrow> bytes \<Rightarrow> bytes list \<Rightarrow> cap_request \<Rightarrow> 'w \<Rightarrow> (string + string) \<times> 'w"
  wv_GetTransactionStatus :: "string \<Rightarrow> 'w \<Rightarrow> (string + int) \<times> 'w"
  wv_GetTransactionFee :: "string \<Rightarrow> 'w \<Rightarrow> (string + string) \<times> 'w"
  wv_ocr3_Decode :: "bytes \<Rightarrow> string + ocr3_metadata \<times> bytes"
  wv_Finalized :: int
  wv_Failed :: int
  wv_Fatal :: int

record writeTarget =
  wg_CapabilityInfo :: cap_info
  wg_PollPeriod :: int
  wg_AcceptanceTimeout :: int
  wg_chainInfo :: wt_chain_info
  wg_configValidateFn :: "cap_request \<Rightarrow> string + string"
  wg_nodeAddress :: string
  wg_forwarderAddress :: string
  wg_writeAcceptanceState :: int

definition CapabilityName :: string where "CapabilityName = ''write''"

definition KeySignedReport :: string where "KeySignedReport = ''signed_report''"

definition DefaultPollPeriod :: int where "DefaultPollPeriod = 1000000000"

definition DefaultAcceptanceTimeout :: int where "DefaultAcceptanceTimeout = 10000000000"

definition NewWriteTargetID :: "string \<Rightarrow> string \<Rightarrow> string \<Rightarrow> string \<Rightarrow> string + string" where
  "NewWriteTargetID chainFamilyName networkName chainID version =
     (if version = '''' then Inl ''version must not be empty''
      else if networkName = '''' \<and> chainID = '''' then Inl ''invalid input: networkName or chainID must not be empty''
      else
        let networkID = (if networkName = '''' \<or> networkName = ''unknown'' then chainID else networkName) in
        if chainFamilyName = '''' then Inr (CapabilityName @ ''_'' @ networkID @ ''@'' @ version)
        else Inr (CapabilityName @ ''_'' @ chainFamilyName @ ''-'' @ networkID @ ''@'' @ version))"

text \<open>\<open>NewWriteTarget\<close>: the options are the fields of the target, with the identifier in place of the capability's
  information, which the library builds or refuses with a panic.\<close>

definition NewWriteTarget :: "'w wt_env \<Rightarrow> (string \<Rightarrow> cap_info outcome) \<Rightarrow> string \<Rightarrow> writeTarget \<Rightarrow> writeTarget outcome" where
  "NewWriteTarget E MustNewCapabilityInfo i opts =
     outcome_bind (MustNewCapabilityInfo i) (\<lambda>capInfo.
       Ret (opts\<lparr>wg_CapabilityInfo := capInfo,
                 wg_writeAcceptanceState := (if wg_writeAcceptanceState opts = 0 then wv_Finalized E else wg_writeAcceptanceState opts)\<rparr>))"

type_synonym 'w emit = "proto_msg \<Rightarrow> ('w, unit) wt_prog"

text \<open>A response is its list of metering details: spend unit and value.\<close>

type_synonym cap_response = "(string \<times> string) list"

definition success :: cap_response where "success = []"

definition asEmittedError :: "'w emit \<Rightarrow> write_error \<Rightarrow> ('w, 'a) wt_prog" where
  "asEmittedError emit e =
     andThen (trying (emit (WriteError e)))
       (\<lambda>r. case r of
          Inl err \<Rightarrow> raises (WtJoined [WtWrapped ''failed to emit error'' err, WtMsg e])
        | Inr _ \<Rightarrow> raises (WtMsg e))"

text \<open>Building a write error and returning it as an emitted one.\<close>

definition write_fails :: "'w wt_env \<Rightarrow> 'w emit \<Rightarrow> messageBuilder \<Rightarrow> requestInfo \<Rightarrow> string \<Rightarrow> string \<Rightarrow> ('w, 'a) wt_prog" where
  "write_fails E emit builder info summary cause =
     andThen (reads (\<lambda>s. wv_now E (wt_w s))) (\<lambda>now. asEmittedError emit (buildWriteError builder info now 0 summary cause))"

text \<open>Emitting a message whose emission error is only logged.\<close>

definition emit_logged :: "'w emit \<Rightarrow> proto_msg \<Rightarrow> ('w, unit) wt_prog" where
  "emit_logged emit m = andThen (trying (emit m)) (\<lambda>_. returns ())"

definition emit_confirmed :: "'w wt_env \<Rightarrow> 'w emit \<Rightarrow> messageBuilder \<Rightarrow> requestInfo \<Rightarrow> wt_head \<Rightarrow> ('w, unit) wt_prog" where
  "emit_confirmed E emit builder info head =
     andThen (reads (\<lambda>s. wv_now E (wt_w s))) (\<lambda>now.
       case buildWriteConfirmed builder info now head of
         Panic m \<Rightarrow> panics m
       | Ret msg \<Rightarrow> emit_logged emit (WriteConfirmed msg))"

definition wt_select :: "'w wt_env \<Rightarrow> 'w wt \<Rightarrow> bool \<times> 'w wt" where
  "wt_select E s = (case wv_select E (wt_w s) of (b, w) \<Rightarrow> (b, s\<lparr>wt_w := w\<rparr>))"

definition query_state :: "'w wt_env \<Rightarrow> 16 word \<Rightarrow> cap_request \<Rightarrow> ('w wt, string, TransmissionState option) prog" where
  "query_state E reportID request =
     andThen (wt_call (wv_QueryTransmissionState E reportID request)) (\<lambda>st.
       andThen (wt_emits [GotState st]) (\<lambda>_. returns st))"

definition status_round :: "'w wt_env \<Rightarrow> writeTarget \<Rightarrow> string \<Rightarrow> ('w wt, string, bool option) prog" where
  "status_round E c txID =
     andThen (trying (wt_call (wv_GetTransactionStatus E txID))) (\<lambda>r.
       case r of
         Inl err \<Rightarrow> returns None
       | Inr status \<Rightarrow>
           andThen (wt_emits [GotStatus status]) (\<lambda>_.
             if status = wv_Failed E \<or> status = wv_Fatal E then returns (Some False)
             else if wg_writeAcceptanceState c \<le> status then returns (Some True)
             else returns None))"

definition waitTxReachesTerminalStatus :: "'w wt_env \<Rightarrow> writeTarget \<Rightarrow> string \<Rightarrow> ('w wt, string, bool) prog" where
  "waitTxReachesTerminalStatus E c txID =
     (if wg_PollPeriod c \<le> 0 then panics ''non-positive interval for NewTicker''
      else poll_until (wt_select E) (\<lambda>s. raises (wv_ctxErr E (wt_w s)) s) (status_round E c txID))"

definition confirm_round :: "'w wt_env \<Rightarrow> 'w emit \<Rightarrow> messageBuilder \<Rightarrow> requestInfo \<Rightarrow> ('w, unit option) wt_prog" where
  "confirm_round E emit builder info =
     andThen (trying (wt_call (wv_LatestHead E))) (\<lambda>r.
       case r of
         Inl err \<Rightarrow> returns None
       | Inr head \<Rightarrow>
           andThen (trying (query_state E (ri_reportID (qi_reportInfo info)) (qi_request info))) (\<lambda>q.
             case q of
               Inl err \<Rightarrow> returns None
             | Inr None \<Rightarrow> returns None
             | Inr (Some state) \<Rightarrow>
                 if ts_Status state = TransmissionStateNotAttempted then returns None
                 else andThen (emit_confirmed E emit builder (info\<lparr>qi_reportTransmissionState := Some state\<rparr>) head)
                        (\<lambda>_. returns (Some ()))))"

definition confirm_timeout :: "'w wt_env \<Rightarrow> 'w emit \<Rightarrow> messageBuilder \<Rightarrow> requestInfo \<Rightarrow> bool \<Rightarrow> ('w, unit) wt_prog" where
  "confirm_timeout E emit builder info txAccepted =
     write_fails E emit builder info ''write confirmation - failed''
       (if \<not> txAccepted then ''transaction failed and no other node managed to get report on chain before timeout''
        else ''transaction was finalized, but report was not observed on chain before timeout'')"

definition acceptAndConfirmWrite :: "'w wt_env \<Rightarrow> 'w emit \<Rightarrow> writeTarget \<Rightarrow> requestInfo \<Rightarrow> string \<Rightarrow> ('w, unit) wt_prog" where
  "acceptAndConfirmWrite E emit c info txID =
     (let builder = NewMessageBuilder (wg_chainInfo c) (wg_CapabilityInfo c) in
      andThen (trying (waitTxReachesTerminalStatus E c txID)) (\<lambda>r.
        case r of
          Inl err \<Rightarrow> write_fails E emit builder info ''failed to wait until tx gets finalized'' err
        | Inr txAccepted \<Rightarrow>
            poll_until (wt_select E) (confirm_timeout E emit builder info txAccepted) (confirm_round E emit builder info)))"

text \<open>The stages of \<open>Execute\<close>, from the last to the first: the transmission and what follows it, the check of the state on
  chain, the checks of the report, and those of the request.\<close>

definition exec_transmit ::
  "'w wt_env \<Rightarrow> 'w emit \<Rightarrow> writeTarget \<Rightarrow> messageBuilder \<Rightarrow> requestInfo \<Rightarrow> signed_report \<Rightarrow> wt_head \<Rightarrow> ('w, cap_response) wt_prog" where
  "exec_transmit E emit c builder info inputs head =
     andThen (wt_emits [Transmitted (sr_Report inputs) (sr_Context inputs) (sr_Signatures inputs)]) (\<lambda>_.
     andThen (trying (wt_call (wv_TransmitReport E (sr_Report inputs) (sr_Context inputs) (sr_Signatures inputs) (qi_request info))))
       (\<lambda>r. case r of
          Inl err \<Rightarrow> write_fails E emit builder info ''failed to transmit the report'' err
        | Inr txID \<Rightarrow>
            andThen (reads (\<lambda>s. wv_now E (wt_w s))) (\<lambda>now.
            andThen (emit_logged emit (WriteSent (buildWriteSent builder info now head txID))) (\<lambda>_.
            andThen (acceptAndConfirmWrite E emit c info txID) (\<lambda>_.
            andThen (trying (wt_call (wv_GetTransactionFee E txID))) (\<lambda>f.
              case f of
                Inl err \<Rightarrow> returns []
              | Inr fee \<Rightarrow> returns [(''GAS.'' @ ci_ChainID (wg_chainInfo c), fee)]))))))"

definition exec_state ::
  "'w wt_env \<Rightarrow> 'w emit \<Rightarrow> writeTarget \<Rightarrow> messageBuilder \<Rightarrow> requestInfo \<Rightarrow> signed_report \<Rightarrow> wt_head \<Rightarrow> ('w, cap_response) wt_prog" where
  "exec_state E emit c builder info inputs head =
     andThen (trying (query_state E (ri_reportID (qi_reportInfo info)) (qi_request info))) (\<lambda>r.
       case r of
         Inl err \<Rightarrow> write_fails E emit builder info ''failed to fetch [TransmissionState]'' err
       | Inr None \<Rightarrow> panics ''invalid memory address or nil pointer dereference''
       | Inr (Some state) \<Rightarrow>
           if ts_Status state = TransmissionStateFatal then
             (case ts_Err state of
                None \<Rightarrow> panics ''invalid memory address or nil pointer dereference''
              | Some err \<Rightarrow> write_fails E emit builder info ''Transmission attempt fatal'' err)
           else if ts_Status state = TransmissionStateSucceeded then
             andThen (emit_confirmed E emit builder (info\<lparr>qi_reportTransmissionState := Some state\<rparr>) head) (\<lambda>_. returns success)
           else exec_transmit E emit c builder info inputs head)"

definition exec_checked ::
  "'w wt_env \<Rightarrow> 'w emit \<Rightarrow> writeTarget \<Rightarrow> messageBuilder \<Rightarrow> requestInfo \<Rightarrow> signed_report \<Rightarrow> ('w, cap_response) wt_prog" where
  "exec_checked E emit c builder info inputs =
     (let md = cr_Metadata (qi_request info) in
      case platform_Decode (wv_ocr3_Decode E) (sr_Report inputs) of
        Inl err \<Rightarrow> write_fails E emit builder info ''failed to decode the report'' err
      | Inr rep \<Rightarrow>
          if md_ExecutionID (rep_Metadata rep) \<noteq> rm_WorkflowExecutionID md
          then write_fails E emit builder info ''decoded report execution ID does not match the request'' ''''
          else if md_WorkflowID (rep_Metadata rep) \<noteq> rm_WorkflowID md
          then write_fails E emit builder info ''decoded report workflow ID does not match the request'' ''''
          else
            andThen (trying (retry_With (wt_select E) (\<lambda>s. wv_ctxErr E (wt_w s)) (Some (rm_WorkflowExecutionID md)) ''''
                               (wt_call (wv_LatestHead E)))) (\<lambda>r.
              case r of
                Inl err \<Rightarrow> write_fails E emit builder info ''failed to fetch the latest head'' err
              | Inr head \<Rightarrow> exec_state E emit c builder info inputs head))"

text \<open>\<open>binary.BigEndian.Uint16\<close>.\<close>

definition BigEndian_Uint16 :: "bytes \<Rightarrow> 16 word outcome" where
  "BigEndian_Uint16 b =
     (case b of
        hi # lo # _ \<Rightarrow> Ret (ucast hi * 256 + ucast lo)
      | _ \<Rightarrow> Panic ''index out of range'')"

definition exec_report ::
  "'w wt_env \<Rightarrow> 'w emit \<Rightarrow> writeTarget \<Rightarrow> messageBuilder \<Rightarrow> requestInfo \<Rightarrow> signed_report \<Rightarrow> ('w, cap_response) wt_prog" where
  "exec_report E emit c builder info inputs =
     (case BigEndian_Uint16 (sr_ID inputs) of
        Panic m \<Rightarrow> panics m
      | Ret reportID \<Rightarrow>
          let info1 = info\<lparr>qi_reportInfo := (qi_reportInfo info)\<lparr>ri_reportID := reportID\<rparr>\<rparr> in
          andThen (reads (\<lambda>s. wv_now E (wt_w s))) (\<lambda>now.
          andThen (emit_logged emit (WriteInitiated (buildWriteInitiated builder info1 now))) (\<lambda>_.
            if sr_Report inputs = [] then
              andThen (reads (\<lambda>s. wv_now E (wt_w s))) (\<lambda>now.
              andThen (emit_logged emit (WriteSkipped (buildWriteSkipped builder info1 now ''empty report''))) (\<lambda>_. returns success))
            else
              exec_checked E emit c builder
                (info1\<lparr>qi_reportInfo :=
                   \<lparr>ri_reportContext = sr_Context inputs, ri_report = sr_Report inputs,
                    ri_signersNum = of_nat (length (sr_Signatures inputs)), ri_reportID = reportID\<rparr>\<rparr>) inputs)))"

definition Execute :: "'w wt_env \<Rightarrow> 'w emit \<Rightarrow> writeTarget \<Rightarrow> cap_request \<Rightarrow> ('w, cap_response) wt_prog" where
  "Execute E emit c request =
     andThen (reads (\<lambda>s. wv_now E (wt_w s))) (\<lambda>tsStart.
       let builder = NewMessageBuilder (wg_chainInfo c) (wg_CapabilityInfo c);
           info = \<lparr>qi_tsStart = tsStart, qi_node = wg_nodeAddress c, qi_forwarder = wg_forwarderAddress c, qi_receiver = ''N/A'',
                   qi_request = request,
                   qi_reportInfo = \<lparr>ri_reportContext = [], ri_report = [], ri_signersNum = 0, ri_reportID = 0\<rparr>,
                   qi_reportTransmissionState = None\<rparr>
       in case wg_configValidateFn c request of
            Inl err \<Rightarrow> write_fails E emit builder info ''failed to validate config'' err
          | Inr receiver \<Rightarrow>
              let info1 = info\<lparr>qi_receiver := receiver\<rparr> in
              (case cr_Inputs request of
                 None \<Rightarrow> panics ''invalid memory address or nil pointer dereference''
               | Some underlying \<Rightarrow>
                   (case underlying KeySignedReport of
                      None \<Rightarrow> write_fails E emit builder info1 ''failed to source the signed report''
                                (''input missing required field: '' @ [CHR 0x27] @ KeySignedReport @ [CHR 0x27])
                    | Some None \<Rightarrow> panics ''invalid memory address or nil pointer dereference''
                    | Some (Some (Inl err)) \<Rightarrow> write_fails E emit builder info1 ''failed to parse signed report'' err
                    | Some (Some (Inr inputs)) \<Rightarrow> exec_report E emit c builder info1 inputs)))"

section \<open>What a program may add\<close>

text \<open>\<open>runs m P N\<close>: when \<open>m\<close> returns \<open>r\<close> having added the effects \<open>T\<close>, monitoring aside, then \<open>P r T\<close>; and it panics only if
  \<open>N\<close>. The rules compute the weakest such condition.\<close>

definition adds :: "'w wt \<Rightarrow> 'w wt \<Rightarrow> wt_effect list \<Rightarrow> bool" where
  "adds s s' T \<longleftrightarrow> (\<exists>es. wt_effects s' = wt_effects s @ es \<and> filter (\<lambda>e. \<not> quiet e) es = T)"

lemma adds_refl [simp]: "adds s s []" "adds s (s\<lparr>wt_w := w\<rparr>) []"
  by (auto simp: adds_def)

lemma adds_trans: "adds s s1 T \<Longrightarrow> adds s1 s2 U \<Longrightarrow> adds s s2 (T @ U)"
  by (auto simp: adds_def)

lemma quiet_filter: "list_all quiet es \<Longrightarrow> filter (\<lambda>e. \<not> quiet e) es = []"
  by (auto simp: filter_empty_conv list_all_iff)

definition runs :: "('w wt, 'e, 'a) prog \<Rightarrow> ('e + 'a \<Rightarrow> wt_effect list \<Rightarrow> bool) \<Rightarrow> bool \<Rightarrow> bool" where
  "runs m P N \<longleftrightarrow>
     (\<forall>s res. m s = Some res \<longrightarrow> (case res of Panic p \<Rightarrow> N | Ret (r, s') \<Rightarrow> \<exists>T. adds s s' T \<and> P r T))"

named_theorems run_rules \<open>weakest conditions of programs\<close>

lemma runsI:
  assumes "\<And>s p. m s = Some (Panic p) \<Longrightarrow> N"
    and "\<And>s r s'. m s = Some (Ret (r, s')) \<Longrightarrow> \<exists>T. adds s s' T \<and> P r T"
  shows "runs m P N"
  using assms by (auto simp: runs_def split: outcome.splits)

lemma runsD:
  "runs m P N \<Longrightarrow> m s = Some (Ret (r, s')) \<Longrightarrow> \<exists>T. adds s s' T \<and> P r T"
  "runs m P N \<Longrightarrow> m s = Some (Panic p) \<Longrightarrow> N"
  unfolding runs_def by fastforce+

lemma runs_conseq: "runs m P N \<Longrightarrow> (\<And>r T. P r T \<Longrightarrow> Q r T) \<Longrightarrow> runs m Q N"
  unfolding runs_def by (fastforce split: outcome.splits)

lemma runs_basic [run_rules]:
  "P (Inr x) [] \<Longrightarrow> runs (returns x) P N"
  "P (Inl e) [] \<Longrightarrow> runs (raises e) P N"
  "N \<Longrightarrow> runs (panics p) P N"
  "(\<And>s. P (Inr (f s)) []) \<Longrightarrow> runs (reads f) P N"
  by (auto simp: runs_def basic_prog intro: adds_refl)

lemma runs_wt_emits [run_rules]: "P (Inr ()) (filter (\<lambda>e. \<not> quiet e) es) \<Longrightarrow> runs (wt_emits es) P N"
  by (auto simp: runs_def wt_emits_def basic_prog adds_def)

lemma runs_wt_call [run_rules]: "(\<And>w r w'. f w = (r, w') \<Longrightarrow> P r []) \<Longrightarrow> runs (wt_call f) P N"
  by (auto simp: runs_def wt_call_def split: prod.splits intro!: exI [of _ "[]"])

lemma runs_trying [run_rules]: "runs m (\<lambda>r. P (Inr r)) N \<Longrightarrow> runs (trying m) P N"
  by (rule runsI) (auto simp: trying_def split: option.splits outcome.splits dest: runsD)

lemma runs_andThen [run_rules]:
  assumes "runs m (\<lambda>r T. case r of Inl e \<Rightarrow> P (Inl e) T | Inr x \<Rightarrow> runs (f x) (\<lambda>r U. P r (T @ U)) N) N"
  shows "runs (andThen m f) P N"
proof (rule runsI)
  fix s p assume "andThen m f s = Some (Panic p)"
  then consider "m s = Some (Panic p)" | x s1 where "m s = Some (Ret (Inr x, s1))" "f x s1 = Some (Panic p)"
    by (auto simp: andThen_def split: option.splits outcome.splits sum.splits)
  then show N
  proof cases
    case 1
    then show ?thesis by (rule runsD(2) [OF assms])
  next
    case 2
    then show ?thesis using runsD(1) [OF assms 2(1)] runsD(2) by fastforce
  qed
next
  fix s r s' assume "andThen m f s = Some (Ret (r, s'))"
  then show "\<exists>T. adds s s' T \<and> P r T"
  proof (cases rule: andThenE)
    case (fails e)
    then show ?thesis using runsD(1) [OF assms fails(1)] by auto
  next
    case (continues x s1)
    from runsD(1) [OF assms continues(1)] obtain T where T: "adds s s1 T" "runs (f x) (\<lambda>r U. P r (T @ U)) N" by auto
    from runsD(1) [OF T(2) continues(2)] T(1) show ?thesis by (auto intro: adds_trans)
  qed
qed

text \<open>The two loops. A loop's rule takes an invariant of the effects added so far.\<close>

definition silent_select :: "('w wt \<Rightarrow> bool \<times> 'w wt) \<Rightarrow> bool" where
  "silent_select sel \<longleftrightarrow> (\<forall>s. adds s (snd (sel s)) [])"

lemma silent_wt_select [simp]: "silent_select (wt_select E)"
  by (auto simp: silent_select_def wt_select_def split: prod.splits)

lemma poll_until_result:
  assumes "poll_until sel timeout round s = Some res" and "silent_select sel" and "J T0" and "adds s0 s T0"
    and tm: "\<And>T. J T \<Longrightarrow> runs timeout (\<lambda>r U. P r (T @ U)) N"
    and rd: "\<And>T. J T \<Longrightarrow> runs round (\<lambda>r U. case r of Inl e \<Rightarrow> P (Inl e) (T @ U) | Inr (Some x) \<Rightarrow> P (Inr x) (T @ U)
        | Inr None \<Rightarrow> J (T @ U)) N"
  shows "case res of Panic p \<Rightarrow> N | Ret (r, s') \<Rightarrow> \<exists>T. adds s0 s' T \<and> P r T"
  using assms(1-6)
proof (induction sel timeout round s res arbitrary: T0 rule: poll_until.raw_induct [rotated, consumes 1, case_names step])
  case (step loop sel timeout round s res)
  obtain d s1 where d: "sel s = (d, s1)" by fastforce
  then have a: "adds s0 s1 T0" using step.prems(1,3) adds_trans [of s0 s T0 s1 "[]"] unfolding silent_select_def by (metis append_Nil2 snd_conv)
  show ?case
  proof (cases d)
    case True
    then have t: "timeout s1 = Some res" using step.hyps d by simp
    show ?thesis
    proof (cases res)
      case (Panic p)
      then show ?thesis using runsD(2) [OF step.prems(4) [OF step.prems(2)]] t by auto
    next
      case (Ret q)
      then obtain r s' where q: "res = Ret (r, s')" by (cases q) auto
      from runsD(1) [OF step.prems(4) [OF step.prems(2)] t [unfolded q]] obtain U where "adds s1 s' U" "P r (T0 @ U)" by blast
      then show ?thesis using q a by (auto intro: adds_trans)
    qed
  next
    case False
    then obtain q where q: "round s1 = Some q" using step.hyps d by (cases "round s1") auto
    note rn = step.prems(5) [OF step.prems(2)]
    show ?thesis
    proof (cases q)
      case (Panic p)
      then show ?thesis using step.hyps d False q runsD(2) [OF rn] by auto
    next
      case (Ret y)
      then obtain r s2 where y: "q = Ret (r, s2)" by (cases y) auto
      from runsD(1) [OF rn q [unfolded y]] obtain U where U: "adds s1 s2 U"
        "case r of Inl e \<Rightarrow> P (Inl e) (T0 @ U) | Inr (Some x) \<Rightarrow> P (Inr x) (T0 @ U) | Inr None \<Rightarrow> J (T0 @ U)" by blast
      have a2: "adds s0 s2 (T0 @ U)" using a U(1) by (rule adds_trans)
      consider e where "r = Inl e" | x where "r = Inr (Some x)" | "r = Inr None" by (metis not_None_eq sum.exhaust)
      then show ?thesis
      proof cases
        case 3
        then have "loop sel timeout round s2 = Some res" using step.hyps d False q y by simp
        from step.IH [OF this step.prems(1) _ a2 step.prems(4,5)] U(2) 3 show ?thesis by simp
      qed (use step.hyps d False q y U(2) a2 in auto)
    qed
  qed
qed

lemma runs_poll_until:
  assumes "J []" and "silent_select sel"
    and "\<And>T. J T \<Longrightarrow> runs timeout (\<lambda>r U. P r (T @ U)) N"
    and "\<And>T. J T \<Longrightarrow> runs round (\<lambda>r U. case r of Inl e \<Rightarrow> P (Inl e) (T @ U) | Inr (Some x) \<Rightarrow> P (Inr x) (T @ U)
        | Inr None \<Rightarrow> J (T @ U)) N"
  shows "runs (poll_until sel timeout round) P N"
  unfolding runs_def by (intro allI impI) (rule poll_until_result [OF _ assms(2,1) adds_refl(1) assms(3,4)])

lemma WithStrategy_result:
  assumes "WithStrategy sel ctxErr fn i n s = Some res" and "silent_select sel" and "runs fn (\<lambda>r T. T = []) N" and "adds s0 s []"
  shows "case res of Panic p \<Rightarrow> N | Ret (r, s') \<Rightarrow> adds s0 s' []"
  using assms
proof (induction sel ctxErr fn i n s res rule: WithStrategy.raw_induct [rotated, consumes 1, case_names step])
  case (step loop sel ctxErr fn i n s res)
  obtain q where q: "fn s = Some q" using step.hyps by (cases "fn s") auto
  show ?case
  proof (cases q)
    case (Panic p)
    then show ?thesis using step.hyps q runsD(2) [OF step.prems(2)] by auto
  next
    case (Ret y)
    then obtain r s1 where y: "q = Ret (r, s1)" by (cases y) auto
    have a: "adds s0 s1 []" using runsD(1) [OF step.prems(2) q [unfolded y]] adds_trans [OF step.prems(3)] by fastforce
    show ?thesis
    proof (cases r)
      case (Inl err)
      obtain d s2 where d: "sel s1 = (d, s2)" by fastforce
      have a2: "adds s0 s2 []" using adds_trans [OF a, of s2 "[]"] step.prems(1) d unfolding silent_select_def by (metis append_Nil2 snd_conv)
      show ?thesis
      proof (cases d)
        case True
        then show ?thesis using step.hyps q y Inl d a2 by auto
      next
        case False
        then have "loop sel ctxErr fn i (i64 (n + 1)) s2 = Some res" using step.hyps q y Inl d by simp
        from step.IH [OF this step.prems(1,2) a2] show ?thesis .
      qed
    next
      case (Inr x)
      then show ?thesis using step.hyps q y a by auto
    qed
  qed
qed

lemma runs_retry_With:
  assumes "silent_select sel" and "runs fn (\<lambda>r T. T = []) N" and "\<And>r. P r []"
  shows "runs (retry_With sel ctxErr ctxID fresh fn) P N"
  unfolding runs_def retry_With_def
  using WithStrategy_result [OF _ assms(1,2) adds_refl(1)] assms(3) by (fastforce split: outcome.splits)

section \<open>The protocol of a write\<close>

text \<open>The signed report of a request, and what has to hold of it before it is sent.\<close>

definition carries :: "cap_request \<Rightarrow> signed_report \<Rightarrow> bool" where
  "carries request inputs \<longleftrightarrow> (\<exists>u. cr_Inputs request = Some u \<and> u KeySignedReport = Some (Some (Inr inputs)))"

definition sendable :: "'w wt_env \<Rightarrow> cap_request \<Rightarrow> signed_report \<Rightarrow> bool" where
  "sendable E request inputs \<longleftrightarrow>
     carries request inputs \<and> sr_Report inputs \<noteq> [] \<and>
     (\<exists>md tail. wv_ocr3_Decode E (sr_Report inputs) = Inr (md, tail) \<and> md_Version md = 1 \<and>
        md_ExecutionID md = rm_WorkflowExecutionID (cr_Metadata request) \<and> md_WorkflowID md = rm_WorkflowID (cr_Metadata request))"

definition may_send :: "TransmissionState \<Rightarrow> bool" where
  "may_send st \<longleftrightarrow> ts_Status st \<noteq> TransmissionStateSucceeded \<and> ts_Status st \<noteq> TransmissionStateFatal"

definition settled :: "'w wt_env \<Rightarrow> writeTarget \<Rightarrow> int \<Rightarrow> bool" where
  "settled E c x \<longleftrightarrow> x = wv_Failed E \<or> x = wv_Fatal E \<or> wg_writeAcceptanceState c \<le> x"

fun waiting :: "'w wt_env \<Rightarrow> writeTarget \<Rightarrow> wt_effect \<Rightarrow> bool" where
  "waiting E c (GotStatus x) \<longleftrightarrow> \<not> settled E c x"
| "waiting E c _ \<longleftrightarrow> False"

fun invisible :: "wt_effect \<Rightarrow> bool" where
  "invisible (GotState None) \<longleftrightarrow> True"
| "invisible (GotState (Some st)) \<longleftrightarrow> ts_Status st = TransmissionStateNotAttempted"
| "invisible _ \<longleftrightarrow> False"

text \<open>A returned error contains the message that was emitted for it.\<close>

definition reported :: "wt_error \<Rightarrow> write_error \<Rightarrow> bool" where
  "reported err e \<longleftrightarrow> err = WtMsg e \<or> (\<exists>x. err = WtJoined [x, WtMsg e])"

definition sends :: "signed_report \<Rightarrow> wt_effect" where
  "sends inputs = Transmitted (sr_Report inputs) (sr_Context inputs) (sr_Signatures inputs)"

text \<open>The wait after a transmission: statuses until one settles the transaction, then queries until the report is
  visible on chain.\<close>

inductive accept_protocol :: "'w wt_env \<Rightarrow> writeTarget \<Rightarrow> wt_error + unit \<Rightarrow> wt_effect list \<Rightarrow> bool" for E c where
  not_settled: "list_all (waiting E c) ps \<Longrightarrow> reported err e \<Longrightarrow> accept_protocol E c (Inl err) (ps @ [Emitted (WriteError e)])"
| not_seen: "list_all (waiting E c) ps \<Longrightarrow> settled E c x \<Longrightarrow> list_all invisible qs \<Longrightarrow> reported err e \<Longrightarrow>
    accept_protocol E c (Inl err) (ps @ GotStatus x # qs @ [Emitted (WriteError e)])"
| seen: "list_all (waiting E c) ps \<Longrightarrow> settled E c x \<Longrightarrow> list_all invisible qs \<Longrightarrow>
    ts_Status st \<noteq> TransmissionStateNotAttempted \<Longrightarrow> wc_Success m = (ts_Status st = TransmissionStateSucceeded) \<Longrightarrow>
    accept_protocol E c (Inr ()) (ps @ GotStatus x # qs @ [GotState (Some st), Emitted (WriteConfirmed m)])"

inductive write_protocol :: "'w wt_env \<Rightarrow> writeTarget \<Rightarrow> cap_request \<Rightarrow> wt_error + cap_response \<Rightarrow> wt_effect list \<Rightarrow> bool"
  for E c request where
  rejected: "reported err e \<Longrightarrow> write_protocol E c request (Inl err) [Emitted (WriteError e)]"
| skipped: "carries request inputs \<Longrightarrow> sr_Report inputs = [] \<Longrightarrow>
    write_protocol E c request (Inr success) [Emitted (WriteInitiated i), Emitted (WriteSkipped k)]"
| refused: "reported err e \<Longrightarrow> write_protocol E c request (Inl err) [Emitted (WriteInitiated i), Emitted (WriteError e)]"
| fatal: "ts_Status st = TransmissionStateFatal \<Longrightarrow> reported err e \<Longrightarrow>
    write_protocol E c request (Inl err) [Emitted (WriteInitiated i), GotState (Some st), Emitted (WriteError e)]"
| already_written: "sendable E request inputs \<Longrightarrow> ts_Status st = TransmissionStateSucceeded \<Longrightarrow> wc_Success m \<Longrightarrow>
    write_protocol E c request (Inr success) [Emitted (WriteInitiated i), GotState (Some st), Emitted (WriteConfirmed m)]"
| not_sent: "sendable E request inputs \<Longrightarrow> may_send st \<Longrightarrow> reported err e \<Longrightarrow>
    write_protocol E c request (Inl err)
      [Emitted (WriteInitiated i), GotState (Some st), sends inputs, Emitted (WriteError e)]"
| sent: "sendable E request inputs \<Longrightarrow> may_send st \<Longrightarrow> accept_protocol E c (map_sum id (\<lambda>_. ()) r) T \<Longrightarrow>
    write_protocol E c request r
      ([Emitted (WriteInitiated i), GotState (Some st), sends inputs, Emitted (WriteSent m)] @ T)"

text \<open>When a request can make the target panic.\<close>

definition faulty :: "'w wt_env \<Rightarrow> writeTarget \<Rightarrow> cap_request \<Rightarrow> bool" where
  "faulty E c request \<longleftrightarrow>
     cr_Inputs request = None \<or> (\<exists>u. cr_Inputs request = Some u \<and> u KeySignedReport = Some None) \<or>
     (\<exists>inputs. carries request inputs \<and> length (sr_ID inputs) < 2) \<or> wg_PollPeriod c \<le> 0 \<or>
     (\<exists>i w. fst (wv_QueryTransmissionState E i request w) = Inr None) \<or>
     (\<exists>i w st. fst (wv_QueryTransmissionState E i request w) = Inr (Some st) \<and> ts_Status st = TransmissionStateFatal \<and> ts_Err st = None)"

lemma faultyI:
  "cr_Inputs request = None \<Longrightarrow> faulty E c request"
  "cr_Inputs request = Some u \<Longrightarrow> u KeySignedReport = Some None \<Longrightarrow> faulty E c request"
  "carries request inputs \<Longrightarrow> length (sr_ID inputs) < 2 \<Longrightarrow> faulty E c request"
  "wg_PollPeriod c \<le> 0 \<Longrightarrow> faulty E c request"
  "fst (wv_QueryTransmissionState E i request w) = Inr None \<Longrightarrow> faulty E c request"
  "fst (wv_QueryTransmissionState E i request w) = Inr (Some st) \<Longrightarrow> ts_Status st = TransmissionStateFatal \<Longrightarrow> ts_Err st = None \<Longrightarrow>
   faulty E c request"
  unfolding faulty_def by blast+

context proto_emitter
begin

lemma runs_emit_logged:
  assumes "P (Inr ()) (filter (\<lambda>e. \<not> quiet e) [Emitted m])"
  shows "runs (emit_logged EmitWithLog m) P N"
proof (rule runsI)
  fix s r s' assume h: "emit_logged EmitWithLog m s = Some (Ret (r, s'))"
  obtain q s1 es where "EmitWithLog m s = Some (Ret (q, s1))" "wt_effects s1 = wt_effects s @ Emitted m # es" "list_all quiet es"
    using emits_once by blast
  with h assms show "\<exists>T. adds s s' T \<and> P r T"
    by (auto simp: emit_logged_def andThen_def trying_def basic_prog adds_def quiet_filter)
next
  fix s p assume "emit_logged EmitWithLog m s = Some (Panic p)"
  moreover obtain q s1 where "EmitWithLog m s = Some (Ret (q, s1))" using emits_once by blast
  ultimately show N by (simp add: emit_logged_def andThen_def trying_def basic_prog)
qed

lemma runs_write_fails:
  assumes "\<And>err e. reported err e \<Longrightarrow> P (Inl err) [Emitted (WriteError e)]"
  shows "runs (write_fails E EmitWithLog b info summary cause :: ('w, 'c) wt_prog) P N"
proof (rule runsI)
  fix s s' and r :: "wt_error + 'c" assume h: "write_fails E EmitWithLog b info summary cause s = Some (Ret (r, s'))"
  let ?e = "buildWriteError b info (wv_now E (wt_w s)) 0 summary cause"
  obtain q s1 es where m: "EmitWithLog (WriteError ?e) s = Some (Ret (q, s1))"
    "wt_effects s1 = wt_effects s @ Emitted (WriteError ?e) # es" "list_all quiet es"
    using emits_once by blast
  then have "adds s s1 [Emitted (WriteError ?e)]" by (auto simp: adds_def quiet_filter)
  moreover have "s' = s1 \<and> (\<exists>err. r = Inl err \<and> reported err ?e)"
    using h m(1)
    by (auto simp: write_fails_def asEmittedError_def andThen_def trying_def basic_prog reported_def split: sum.splits)
  ultimately show "\<exists>T. adds s s' T \<and> P r T" using assms by auto
next
  fix s p assume h: "(write_fails E EmitWithLog b info summary cause :: ('w, 'c) wt_prog) s = Some (Panic p)"
  obtain q s1 where "EmitWithLog (WriteError (buildWriteError b info (wv_now E (wt_w s)) 0 summary cause)) s = Some (Ret (q, s1))"
    using emits_once by blast
  then show N using h
    by (auto simp: write_fails_def asEmittedError_def andThen_def trying_def basic_prog split: sum.splits)
qed

lemma runs_emit_confirmed:
  assumes "\<And>m. wc_Success m = (ts_Status st = TransmissionStateSucceeded) \<Longrightarrow> P (Inr ()) [Emitted (WriteConfirmed m)]"
  shows "runs (emit_confirmed E EmitWithLog b (info\<lparr>qi_reportTransmissionState := Some st\<rparr>) head) P N"
  unfolding emit_confirmed_def buildWriteConfirmed_def
  by (rule run_rules)+ (auto intro!: runs_emit_logged assms)

lemmas emit_runs = runs_emit_logged runs_write_fails runs_emit_confirmed

lemma runs_query_state:
  assumes "\<And>err. P (Inl err) []"
    and "\<And>st w. fst (wv_QueryTransmissionState E i request w) = Inr st \<Longrightarrow> P (Inr st) [GotState st]"
  shows "runs (query_state E i request) P N"
  unfolding query_state_def using assms
  by (auto intro!: run_rules split: sum.splits) (metis fst_conv)

lemma runs_waitTx:
  assumes "\<And>err ps. list_all (waiting E c) ps \<Longrightarrow> P (Inl err) ps"
    and "\<And>b ps x. list_all (waiting E c) ps \<Longrightarrow> settled E c x \<Longrightarrow> P (Inr b) (ps @ [GotStatus x])"
    and "wg_PollPeriod c \<le> 0 \<Longrightarrow> N"
  shows "runs (waitTxReachesTerminalStatus E c txID) P N"
proof (cases "wg_PollPeriod c \<le> 0")
  case False
  have "runs (poll_until (wt_select E) (\<lambda>s. raises (wv_ctxErr E (wt_w s)) s) (status_round E c txID)) P N"
  proof (rule runs_poll_until [where J = "list_all (waiting E c)"])
    fix T assume T: "list_all (waiting E c) T"
    show "runs (\<lambda>s. raises (wv_ctxErr E (wt_w s)) s) (\<lambda>r U. P r (T @ U)) N"
      using assms(1) [OF T] by (auto simp: runs_def basic_prog intro!: exI [of _ "[]"])
    show "runs (status_round E c txID)
        (\<lambda>r U. case r of Inl e \<Rightarrow> P (Inl e) (T @ U) | Inr None \<Rightarrow> list_all (waiting E c) (T @ U) | Inr (Some x) \<Rightarrow> P (Inr x) (T @ U)) N"
      unfolding status_round_def using T assms(2) [OF T]
      by (auto intro!: run_rules simp: settled_def split: sum.splits)
  qed simp_all
  then show ?thesis using False by (simp add: waitTxReachesTerminalStatus_def)
qed (auto simp: waitTxReachesTerminalStatus_def intro!: run_rules assms(3))

lemma runs_confirm_round:
  assumes "P (Inr None) []" and "\<And>q. invisible (GotState q) \<Longrightarrow> P (Inr None) [GotState q]"
    and "\<And>st m. ts_Status st \<noteq> TransmissionStateNotAttempted \<Longrightarrow> wc_Success m = (ts_Status st = TransmissionStateSucceeded) \<Longrightarrow>
      P (Inr (Some ())) [GotState (Some st), Emitted (WriteConfirmed m)]"
  shows "runs (confirm_round E EmitWithLog b info) P N"
  unfolding confirm_round_def using assms
  by (auto intro!: run_rules emit_runs runs_query_state split: sum.splits option.splits)

lemma runs_accept:
  assumes "\<And>r T. accept_protocol E c r T \<Longrightarrow> P r T" and "wg_PollPeriod c \<le> 0 \<Longrightarrow> N"
  shows "runs (acceptAndConfirmWrite E EmitWithLog c info txID) P N"
  unfolding acceptAndConfirmWrite_def Let_def
proof (rule runs_andThen, rule runs_trying, rule runs_waitTx [OF _ _ assms(2)], goal_cases)
  case (1 err ps)
  then show ?case by (auto intro!: emit_runs assms(1) accept_protocol.not_settled)
next
  case (2 accepted ps x)
  let ?b = "NewMessageBuilder (wg_chainInfo c) (wg_CapabilityInfo c)"
  have "runs (poll_until (wt_select E) (confirm_timeout E EmitWithLog ?b info accepted) (confirm_round E EmitWithLog ?b info))
      (\<lambda>r U. P r ((ps @ [GotStatus x]) @ U)) N"
  proof (rule runs_poll_until [where J = "list_all invisible"])
    fix T assume T: "list_all invisible T"
    show "runs (confirm_timeout E EmitWithLog ?b info accepted) (\<lambda>r U. P r ((ps @ [GotStatus x]) @ T @ U)) N"
      unfolding confirm_timeout_def using accept_protocol.not_seen [OF 2 T] by (auto intro!: emit_runs assms(1))
    show "runs (confirm_round E EmitWithLog ?b info)
        (\<lambda>r U. case r of Inl e \<Rightarrow> P (Inl e) ((ps @ [GotStatus x]) @ T @ U) | Inr None \<Rightarrow> list_all invisible (T @ U)
          | Inr (Some y) \<Rightarrow> P (Inr y) ((ps @ [GotStatus x]) @ T @ U)) N"
      using T accept_protocol.seen [OF 2 T] by (intro runs_confirm_round) (auto intro!: assms(1))
  qed simp_all
  then show ?case by simp
qed

lemma sends_loud [simp]: "quiet (sends inputs) \<longleftrightarrow> False"
  by (simp add: sends_def)

lemma runs_transmit:
  assumes "sendable E (qi_request info) inputs" and "may_send st" and "wg_PollPeriod c \<le> 0 \<Longrightarrow> N"
    and "\<And>r T. write_protocol E c (qi_request info) r (Emitted (WriteInitiated i) # GotState (Some st) # T) \<Longrightarrow> P r T"
  shows "runs (exec_transmit E EmitWithLog c b info inputs head) P N"
proof -
  have fails: "P (Inl err) [sends inputs, Emitted (WriteError e)]" if "reported err e" for err e
    using write_protocol.not_sent [OF assms(1,2) that] by (auto intro: assms(4))
  have after: "P r (sends inputs # Emitted (WriteSent m) # T)" if "accept_protocol E c (map_sum id (\<lambda>_. ()) r) T" for r m T
    using write_protocol.sent [OF assms(1,2) that] by (auto intro: assms(4))
  have acc: "runs (acceptAndConfirmWrite E EmitWithLog c info txID)
      (\<lambda>r U. case r of Inl e \<Rightarrow> P (Inl e) (sends inputs # Emitted (WriteSent m) # U)
         | Inr _ \<Rightarrow> \<forall>y. P (Inr y) (sends inputs # Emitted (WriteSent m) # U)) N" for m txID
    using after assms(3) by (intro runs_accept) (auto split: sum.splits)
  show ?thesis
    unfolding exec_transmit_def sends_def [symmetric]
    by (auto intro!: run_rules emit_runs fails runs_conseq [OF acc] split: sum.splits) blast+
qed

lemma exec_transmit_runs: "runs (exec_transmit E EmitWithLog c b info inputs head) (\<lambda>r T. True) (wg_PollPeriod c \<le> 0)"
  unfolding exec_transmit_def
  by (auto intro!: run_rules emit_runs runs_conseq [OF runs_accept [where P = "\<lambda>r T. True"]] split: sum.splits)

lemma runs_exec_state:
  assumes "sendable E (qi_request info) inputs" and "faulty E c (qi_request info) \<Longrightarrow> N"
    and "\<And>r T. write_protocol E c (qi_request info) r (Emitted (WriteInitiated i) # T) \<Longrightarrow> P r T"
  shows "runs (exec_state E EmitWithLog c b info inputs head) P N"
  unfolding exec_state_def
proof (rule runs_andThen, rule runs_trying, rule runs_query_state, goal_cases)
  case (1 err)
  then show ?case by (auto intro!: emit_runs assms(3) write_protocol.refused)
next
  case (2 st w)
  show ?case
  proof (cases st)
    case None
    then show ?thesis using 2 by (auto intro!: run_rules assms(2) intro: faultyI)
  next
    case (Some state)
    consider (fatal) "ts_Status state = TransmissionStateFatal" | (written) "ts_Status state = TransmissionStateSucceeded"
      | (send) "may_send state" by (auto simp: may_send_def)
    then show ?thesis
    proof cases
      case fatal
      then show ?thesis
      proof (cases "ts_Err state")
        case None
        then have "faulty E c (qi_request info)" using 2 Some fatal by (auto intro: faultyI)
        then show ?thesis using Some fatal None by (auto intro!: run_rules assms(2))
      next
        case err: (Some err)
        then show ?thesis using Some fatal by (auto intro!: emit_runs assms(3) write_protocol.fatal)
      qed
    next
      case written
      then show ?thesis
        using Some assms(1)
        by (auto simp: transmission_states intro!: run_rules emit_runs assms(3) write_protocol.already_written)
    next
      case send
      have "runs (exec_transmit E EmitWithLog c b info inputs head) (\<lambda>r U. P r ([GotState (Some state)] @ U)) N"
        by (rule runs_transmit [OF assms(1) send]) (auto intro: assms(2,3) faultyI)
      then show ?thesis using Some send by (auto simp: may_send_def)
    qed
  qed
qed

lemma runs_exec_checked:
  assumes "carries (qi_request info) inputs" and "sr_Report inputs \<noteq> []" and "faulty E c (qi_request info) \<Longrightarrow> N"
    and "\<And>r T. write_protocol E c (qi_request info) r (Emitted (WriteInitiated i) # T) \<Longrightarrow> P r T"
  shows "runs (exec_checked E EmitWithLog c b info inputs) P N"
proof -
  let ?md = "cr_Metadata (qi_request info)"
  have fails: "runs (write_fails E EmitWithLog b info summary cause) P N" for summary cause
    by (auto intro!: emit_runs assms(4) write_protocol.refused)
  show ?thesis
  proof (cases "platform_Decode (wv_ocr3_Decode E) (sr_Report inputs)")
    case (Inl err)
    then show ?thesis by (simp add: exec_checked_def fails)
  next
    case (Inr rep)
    show ?thesis
    proof (cases "md_ExecutionID (rep_Metadata rep) = rm_WorkflowExecutionID ?md \<and> md_WorkflowID (rep_Metadata rep) = rm_WorkflowID ?md")
      case True
      have ok: "sendable E (qi_request info) inputs"
        using Inr True assms(1,2) by (auto simp: sendable_def platform_Decode_def split: sum.splits if_splits)
      have "runs (exec_state E EmitWithLog c b info inputs head) P N" for head
        by (rule runs_exec_state [OF ok assms(3,4)])
      then show ?thesis
        using Inr True fails
        by (auto simp: exec_checked_def Let_def intro!: run_rules runs_retry_With split: sum.splits)
    qed (use Inr fails in \<open>auto simp: exec_checked_def Let_def\<close>)
  qed
qed

lemma runs_exec_report:
  assumes "carries (qi_request info) inputs" and "faulty E c (qi_request info) \<Longrightarrow> N"
    and "\<And>r T. write_protocol E c (qi_request info) r T \<Longrightarrow> P r T"
  shows "runs (exec_report E EmitWithLog c b info inputs) P N"
proof (cases "BigEndian_Uint16 (sr_ID inputs)")
  case (Panic m)
  then have "length (sr_ID inputs) < 2"
    by (auto simp: BigEndian_Uint16_def numeral_2_eq_2 split: list.splits)
  then show ?thesis using Panic assms(2) faultyI(3) [OF assms(1)] by (auto simp: exec_report_def intro!: run_rules)
next
  case (Ret reportID)
  let ?info = "info\<lparr>qi_reportInfo := \<lparr>ri_reportContext = sr_Context inputs, ri_report = sr_Report inputs,
      ri_signersNum = of_nat (length (sr_Signatures inputs)), ri_reportID = reportID\<rparr>\<rparr>"
  have checked: "runs (exec_checked E EmitWithLog c b ?info inputs) (\<lambda>r U. P r (Emitted (WriteInitiated i) # U)) N"
    if "sr_Report inputs \<noteq> []" for i
    by (rule runs_exec_checked [OF _ that]) (use assms in auto)
  show ?thesis
    using Ret checked assms(1)
    by (auto simp: exec_report_def Let_def intro!: run_rules emit_runs assms(3) write_protocol.skipped)
qed

lemma Execute_runs: "runs (Execute E EmitWithLog c request) (write_protocol E c request) (faulty E c request)"
  unfolding Execute_def Let_def
  by (auto simp: carries_def split: sum.splits option.splits
      intro!: run_rules emit_runs runs_exec_report write_protocol.rejected intro: faultyI(1,2))

end

section \<open>Ending\<close>

text \<open>What ends the waits: the context is done after finitely many ticks, and the calls of a round do not put that off.\<close>

definition deadline :: "'w wt_env \<Rightarrow> ('w \<Rightarrow> nat) \<Rightarrow> bool" where
  "deadline E rank \<longleftrightarrow>
     (\<forall>w w'. wv_select E w = (False, w') \<longrightarrow> rank w' < rank w) \<and>
     (\<forall>w. rank (snd (wv_LatestHead E w)) \<le> rank w) \<and>
     (\<forall>i request w. rank (snd (wv_QueryTransmissionState E i request w)) \<le> rank w) \<and>
     (\<forall>txID w. rank (snd (wv_GetTransactionStatus E txID w)) \<le> rank w)"

lemma ends_poll_until:
  fixes rank :: "'w \<Rightarrow> nat"
  assumes "deadline E rank" and "\<And>s. ends timeout s" and "\<And>s. ends round s"
    and "\<And>s s'. round s = Some (Ret (Inr None, s')) \<Longrightarrow> rank (wt_w s') \<le> rank (wt_w s)"
  shows "ends (poll_until (wt_select E) timeout round) s"
proof (induction "rank (wt_w s)" arbitrary: s rule: less_induct)
  case less
  obtain d w where d: "wv_select E (wt_w s) = (d, w)" by fastforce
  let ?s = "s\<lparr>wt_w := w\<rparr>"
  have sel: "wt_select E s = (d, ?s)" using d by (simp add: wt_select_def)
  show ?case
  proof (cases d)
    case True
    then show ?thesis using assms(2) [of ?s] sel by (simp add: ends_def poll_until.simps)
  next
    case False
    obtain q where q: "round ?s = Some q" using assms(3) by (auto simp: ends_def)
    show ?thesis
    proof (cases "\<exists>s2. q = Ret (Inr None, s2)")
      case True
      then obtain s2 where s2: "q = Ret (Inr None, s2)" by blast
      have "rank w < rank (wt_w s)" using assms(1) d False by (auto simp: deadline_def)
      then have "rank (wt_w s2) < rank (wt_w s)" using assms(4) [of ?s s2] q s2 by simp
      from less [OF this] show ?thesis using sel False q s2 by (simp add: ends_def poll_until.simps)
    next
      case no: False
      then show ?thesis using sel False q
        by (auto simp: ends_def poll_until.simps split: outcome.splits sum.splits option.splits)
    qed
  qed
qed

lemma ends_WithStrategy:
  fixes rank :: "'w \<Rightarrow> nat"
  assumes "deadline E rank" and "\<And>s. ends fn s"
    and "\<And>s err s'. fn s = Some (Ret (Inl err, s')) \<Longrightarrow> rank (wt_w s') \<le> rank (wt_w s)"
  shows "ends (WithStrategy (wt_select E) ctxErr fn i n) s"
proof (induction "rank (wt_w s)" arbitrary: s n rule: less_induct)
  case less
  obtain q where q: "fn s = Some q" using assms(2) by (auto simp: ends_def)
  show ?case
  proof (cases "\<exists>err s1. q = Ret (Inl err, s1)")
    case True
    then obtain err s1 where s1: "q = Ret (Inl err, s1)" by blast
    obtain d w where d: "wv_select E (wt_w s1) = (d, w)" by fastforce
    have sel: "wt_select E s1 = (d, s1\<lparr>wt_w := w\<rparr>)" using d by (simp add: wt_select_def)
    show ?thesis
    proof (cases d)
      case True
      then show ?thesis using q s1 sel by (simp add: ends_def WithStrategy.simps)
    next
      case False
      have "rank w < rank (wt_w s1)" using assms(1) d False by (auto simp: deadline_def)
      then have "rank (wt_w (s1\<lparr>wt_w := w\<rparr>)) < rank (wt_w s)" using assms(3) [of s err s1] q s1 by simp
      from less [OF this] show ?thesis using q s1 sel False by (simp add: ends_def WithStrategy.simps)
    qed
  next
    case False
    then show ?thesis using q by (auto simp: ends_def WithStrategy.simps split: outcome.splits sum.splits)
  qed
qed

lemma ends_calls [simp]: "ends (wt_call f) s" "ends (wt_emits es) s" "ends (query_state E i request) s"
  by (auto simp: ends_def wt_call_def wt_emits_def query_state_def andThen_def basic_prog split: prod.splits sum.splits)

lemma status_round_rank:
  assumes "deadline E rank" and "status_round E c txID s = Some (Ret (r, s'))"
  shows "rank (wt_w s') \<le> rank (wt_w s)"
proof -
  have "rank (snd (wv_GetTransactionStatus E txID (wt_w s))) \<le> rank (wt_w s)" using assms(1) by (simp add: deadline_def)
  then show ?thesis
    using assms(2)
    by (auto simp: status_round_def andThen_def trying_def wt_call_def wt_emits_def basic_prog split: prod.splits sum.splits if_splits)
qed

lemma not_None_after: "andThen m (\<lambda>_. returns (Some ())) s \<noteq> Some (Ret (Inr None, s'))"
  by (auto simp: andThen_def basic_prog split: option.splits outcome.splits sum.splits)

lemma confirm_round_rank:
  assumes "deadline E rank" and "confirm_round E emit b info s = Some (Ret (Inr None, s'))"
  shows "rank (wt_w s') \<le> rank (wt_w s)"
proof -
  obtain h w1 where h: "wv_LatestHead E (wt_w s) = (h, w1)" by fastforce
  obtain q w2 where q: "wv_QueryTransmissionState E (ri_reportID (qi_reportInfo info)) (qi_request info) w1 = (q, w2)" by fastforce
  have "rank (snd (wv_LatestHead E (wt_w s))) \<le> rank (wt_w s)"
    "rank (snd (wv_QueryTransmissionState E (ri_reportID (qi_reportInfo info)) (qi_request info) w1)) \<le> rank w1"
    using assms(1) unfolding deadline_def by blast+
  then have "rank w1 \<le> rank (wt_w s)" "rank w2 \<le> rank w1" using h q by simp_all
  moreover have "wt_w s' = w1 \<or> wt_w s' = w2"
    using assms(2)
    by (auto simp: confirm_round_def query_state_def andThen_def trying_def wt_call_def wt_emits_def basic_prog h q
        not_None_after [unfolded andThen_def basic_prog] split: sum.splits option.splits if_splits outcome.splits)
  ultimately show ?thesis by auto
qed

context proto_emitter
begin

lemma ends_emit: "ends (EmitWithLog m) s"
  using emits_once [of m s] by (auto simp: ends_def)

lemma ends_emits [simp]:
  "ends (emit_logged EmitWithLog m) s" "ends (write_fails E EmitWithLog b info summary cause) s"
  "ends (emit_confirmed E EmitWithLog b info head) s"
  by (auto simp: emit_logged_def write_fails_def asEmittedError_def emit_confirmed_def ends_trying ends_emit
      intro!: ends_andThen split: sum.splits outcome.splits)

lemma ends_accept:
  assumes "deadline E rank"
  shows "ends (acceptAndConfirmWrite E EmitWithLog c info txID) s"
proof -
  have "ends (waitTxReachesTerminalStatus E c txID) s" for s
  proof (cases "wg_PollPeriod c \<le> 0")
    case False
    have "ends (poll_until (wt_select E) (\<lambda>s. raises (wv_ctxErr E (wt_w s)) s) (status_round E c txID)) s"
    proof (rule ends_poll_until [OF assms])
      show "ends (\<lambda>s. raises (wv_ctxErr E (wt_w s)) s) s" for s by (simp add: ends_def basic_prog)
      show "ends (status_round E c txID) s" for s
        by (auto simp: status_round_def ends_trying intro!: ends_andThen split: sum.splits)
    qed (rule status_round_rank [OF assms])
    then show ?thesis using False by (simp add: waitTxReachesTerminalStatus_def)
  qed (simp add: waitTxReachesTerminalStatus_def)
  moreover have "ends (poll_until (wt_select E) (confirm_timeout E EmitWithLog b info acc) (confirm_round E EmitWithLog b info)) s"
    for b acc s
    by (rule ends_poll_until [OF assms])
      (auto simp: confirm_timeout_def confirm_round_def ends_trying intro!: ends_andThen split: sum.splits option.splits
        dest: confirm_round_rank [OF assms, unfolded confirm_round_def])
  ultimately show ?thesis
    by (auto simp: acceptAndConfirmWrite_def Let_def ends_trying intro!: ends_andThen split: sum.splits)
qed

lemma ends_retry:
  assumes "deadline E rank"
  shows "ends (retry_With (wt_select E) ctxErr ctxID fresh (wt_call (wv_LatestHead E))) s"
  unfolding retry_With_def
proof (rule ends_WithStrategy [OF assms])
  fix s err s' assume "wt_call (wv_LatestHead E) s = Some (Ret (Inl err, s'))"
  moreover have "rank (snd (wv_LatestHead E (wt_w s))) \<le> rank (wt_w s)" using assms by (simp add: deadline_def)
  ultimately show "rank (wt_w s') \<le> rank (wt_w s)" by (auto simp: wt_call_def split: prod.splits)
qed simp

lemma Execute_ends:
  assumes "deadline E rank"
  shows "ends (Execute E EmitWithLog c request) s"
proof -
  have "ends (exec_transmit E EmitWithLog c b info inputs head) s" for b info inputs head s
    by (auto simp: exec_transmit_def ends_trying intro!: ends_andThen ends_accept [OF assms] split: sum.splits)
  then have "ends (exec_state E EmitWithLog c b info inputs head) s" for b info inputs head s
    by (auto simp: exec_state_def ends_trying intro!: ends_andThen split: sum.splits option.splits)
  then have "ends (exec_checked E EmitWithLog c b info inputs) s" for b info inputs s
    by (auto simp: exec_checked_def Let_def ends_trying intro!: ends_andThen ends_retry [OF assms] split: sum.splits)
  then have "ends (exec_report E EmitWithLog c b info inputs) s" for b info inputs s
    by (auto simp: exec_report_def Let_def intro!: ends_andThen split: outcome.splits)
  then show ?thesis
    by (auto simp: Execute_def Let_def intro!: ends_andThen split: sum.splits option.splits)
qed

end

section \<open>Consequences of the protocol\<close>

fun is_transmission :: "wt_effect \<Rightarrow> bool" where
  "is_transmission (Transmitted r c ss) = True"
| "is_transmission _ = False"

fun is_write_error :: "wt_effect \<Rightarrow> bool" where
  "is_write_error (Emitted (WriteError e)) = True"
| "is_write_error _ = False"

lemma polls_are_silent:
  "list_all (waiting E c) ps \<Longrightarrow> filter is_transmission ps = [] \<and> filter is_write_error ps = []"
  "list_all invisible qs \<Longrightarrow> filter is_transmission qs = [] \<and> filter is_write_error qs = []"
proof -
  have "\<not> is_transmission x \<and> \<not> is_write_error x" if "waiting E c x" for x using that by (cases x) auto
  then show "list_all (waiting E c) ps \<Longrightarrow> filter is_transmission ps = [] \<and> filter is_write_error ps = []"
    by (auto simp: filter_empty_conv list_all_iff)
  have "\<not> is_transmission x \<and> \<not> is_write_error x" if "invisible x" for x using that by (cases x) auto
  then show "list_all invisible qs \<Longrightarrow> filter is_transmission qs = [] \<and> filter is_write_error qs = []"
    by (auto simp: filter_empty_conv list_all_iff)
qed

lemma accept_protocol_messages:
  assumes "accept_protocol E c r T"
  shows "filter is_transmission T = []"
    and "case r of Inl err \<Rightarrow> \<exists>e. reported err e \<and> filter is_write_error T = [Emitted (WriteError e)]
       | Inr _ \<Rightarrow> filter is_write_error T = [] \<and> (\<exists>m. last T = Emitted (WriteConfirmed m))"
  using assms polls_are_silent by (induction rule: accept_protocol.induct) auto

lemma accept_protocol_nonempty: "accept_protocol E c r T \<Longrightarrow> T \<noteq> []"
  by (auto elim: accept_protocol.cases)

text \<open>Quiet effects are neither, so that a statement on the effects that matter is one on all of them.\<close>

lemma quiet_filters:
  "filter (\<lambda>e. \<not> quiet e \<and> is_transmission e) es = filter is_transmission es"
  "filter (\<lambda>e. \<not> quiet e \<and> is_write_error e) es = filter is_write_error es"
proof -
  have "\<not> quiet x" if "is_transmission x \<or> is_write_error x" for x using that by (cases x rule: quiet.cases) auto
  then show "filter (\<lambda>e. \<not> quiet e \<and> is_transmission e) es = filter is_transmission es"
    "filter (\<lambda>e. \<not> quiet e \<and> is_write_error e) es = filter is_write_error es"
    by (auto intro!: filter_cong)
qed

lemma write_protocol_sends:
  assumes "write_protocol E c request r T"
  shows "filter is_transmission T = [] \<or>
    (\<exists>inputs st U V. T = U @ [GotState (Some st), sends inputs] @ V \<and> filter is_transmission (U @ V) = [] \<and>
       sendable E request inputs \<and> may_send st)"
  using assms
proof (cases rule: write_protocol.cases)
  case (not_sent inputs st err e i)
  then show ?thesis
    by (intro disjI2 exI [of _ inputs] exI [of _ st] exI [of _ "[Emitted (WriteInitiated i)]"] exI [of _ "[Emitted (WriteError e)]"]) simp
next
  case (sent inputs st U i m)
  then show ?thesis using accept_protocol_messages(1) [OF sent(4)]
    by (intro disjI2 exI [of _ inputs] exI [of _ st] exI [of _ "[Emitted (WriteInitiated i)]"] exI [of _ "Emitted (WriteSent m) # U"]) simp
qed auto

text \<open>Two neighbours among the selected elements, with what lies around and between them.\<close>

lemma filter_append_split:
  "filter P xs = us @ vs \<Longrightarrow> \<exists>as bs. xs = as @ bs \<and> filter P as = us \<and> filter P bs = vs"
proof (induction us arbitrary: xs)
  case (Cons u us)
  then obtain as1 r where r: "xs = as1 @ u # r" "\<forall>x\<in>set as1. \<not> P x" "P u" "filter P r = us @ vs"
    by (auto simp: filter_eq_Cons_iff)
  from Cons.IH [OF r(4)] obtain as bs where "r = as @ bs" "filter P as = us" "filter P bs = vs" by blast
  then show ?case using r by (intro exI [of _ "as1 @ u # as"] exI [of _ bs]) (auto simp: filter_empty_conv)
next
  case Nil
  then show ?case by (intro exI [of _ "[]"] exI [of _ xs]) simp
qed

lemma filter_neighbours:
  "filter P xs = us @ [x, y] @ vs \<Longrightarrow>
   \<exists>as bs cs. xs = as @ x # bs @ y # cs \<and> filter P as = us \<and> filter P bs = [] \<and> filter P cs = vs"
proof -
  assume "filter P xs = us @ [x, y] @ vs"
  then obtain as1 r1 where 1: "xs = as1 @ r1" "filter P as1 = us" "filter P r1 = x # y # vs"
    using filter_append_split by (metis append_Cons append_Nil)
  from filter_eq_ConsD [OF 1(3)] obtain a2 r2 where 2: "r1 = a2 @ x # r2" "\<forall>u\<in>set a2. \<not> P u" "y # vs = filter P r2" by blast
  from filter_eq_ConsD [OF 2(3) [symmetric]] obtain bs cs
    where 3: "r2 = bs @ y # cs" "\<forall>u\<in>set bs. \<not> P u" "vs = filter P cs" by blast
  show ?thesis
    using 1(1,2) 2(1,2) 3 by (intro exI [of _ "as1 @ a2"] exI [of _ bs] exI [of _ cs]) (simp add: filter_empty_conv)
qed

lemma write_protocol_reports:
  assumes "write_protocol E c request r T"
  shows "case r of Inl err \<Rightarrow> \<exists>e. reported err e \<and> filter is_write_error T = [Emitted (WriteError e)]
     | Inr _ \<Rightarrow> filter is_write_error T = [] \<and>
         ((\<exists>m. last T = Emitted (WriteConfirmed m)) \<or> (\<exists>k. last T = Emitted (WriteSkipped k)))"
  using assms
proof (cases rule: write_protocol.cases)
  case (sent inputs st U i m)
  then show ?thesis using accept_protocol_messages(2) [OF sent(4)] accept_protocol_nonempty [OF sent(4)]
    by (cases r) (auto simp: sends_def)
qed (auto simp: sends_def)

section \<open>A target for the witnesses\<close>

text \<open>The world counts the ticks; the report becomes visible after the third, and the context ends after ten.\<close>

definition demo_wt_env :: "nat wt_env" where
  "demo_wt_env =
     \<lparr>wv_select = (\<lambda>w. if 10 \<le> w then (True, w) else (False, Suc w)), wv_ctxErr = (\<lambda>w. ''deadline exceeded''), wv_now = int,
      wv_LatestHead = (\<lambda>w. (Inr \<lparr>wh_Height = ''100'', wh_Hash = [], wh_Timestamp = 1\<rparr>, w)),
      wv_QueryTransmissionState = (\<lambda>i request w.
        (Inr (Some \<lparr>ts_Status = (if w < 3 then TransmissionStateNotAttempted else TransmissionStateFailed), ts_Transmitter = ''n'',
                    ts_Err = None\<rparr>), w)),
      wv_TransmitReport = (\<lambda>r c ss request w. (Inr ''tx'', w)), wv_GetTransactionStatus = (\<lambda>txID w. (Inr 3, w)),
      wv_GetTransactionFee = (\<lambda>txID w. (Inr ''5'', w)),
      wv_ocr3_Decode = (\<lambda>raw. Inr (\<lparr>md_Version = 1, md_ExecutionID = ''x'', md_WorkflowID = ''w''\<rparr>, [])),
      wv_Finalized = 3, wv_Failed = 4, wv_Fatal = 5\<rparr>"

definition demo_target :: writeTarget where
  "demo_target =
     \<lparr>wg_CapabilityInfo = \<lparr>cap_ID = ''write_1@1.0.0'', cap_CapabilityType = ''target''\<rparr>, wg_PollPeriod = 1, wg_AcceptanceTimeout = 10,
      wg_chainInfo = \<lparr>ci_FamilyName = ''evm'', ci_ChainID = ''1'', ci_NetworkName = '''', ci_NetworkNameFull = ''''\<rparr>,
      wg_configValidateFn = (\<lambda>request. Inr ''r''), wg_nodeAddress = ''n'', wg_forwarderAddress = ''f'', wg_writeAcceptanceState = 3\<rparr>"

definition demo_signed :: "bytes \<Rightarrow> bytes \<Rightarrow> signed_report" where
  "demo_signed i raw = \<lparr>sr_ID = i, sr_Report = raw, sr_Context = [42], sr_Signatures = [[1, 2, 3]]\<rparr>"

definition demo_cap_request :: "signed_report \<Rightarrow> cap_request" where
  "demo_cap_request inputs =
     \<lparr>cr_Metadata = \<lparr>rm_WorkflowID = ''w'', rm_WorkflowOwner = ''o'', rm_WorkflowExecutionID = ''x'', rm_WorkflowName = ''6162'',
                     rm_WorkflowDonID = 1, rm_WorkflowDonConfigVersion = 1, rm_ReferenceID = ''''\<rparr>,
      cr_Inputs = Some [KeySignedReport \<mapsto> Some (Inr inputs)], cr_Config = None\<rparr>"

definition plain_emitter :: "nat protoEmitter" where
  "plain_emitter =
     \<lparr>pe_Emit = (\<lambda>m w. (Inr (), w)), pe_EmitWithLog = (\<lambda>m w. (Inr (), w)), pe_processors = Map.empty, pe_enabledProcessors = []\<rparr>"

definition demo_wt :: "nat wt" where
  "demo_wt = \<lparr>wt_w = 0, wt_effects = []\<rparr>"

abbreviation demo_write :: "bytes \<Rightarrow> bytes \<Rightarrow> (nat, cap_response) wt_prog" where
  "demo_write i raw \<equiv> Execute demo_wt_env (emitter_EmitWithLog (wv_ocr3_Decode demo_wt_env) plain_emitter) demo_target
     (demo_cap_request (demo_signed i raw))"

lemma demo_write_run: "\<exists>s'. demo_write [0, 1] [7] demo_wt = Some (Ret (Inr [(''GAS.1'', ''5'')], s'))"
proof -
  have "observe wt_w (demo_write [0, 1] [7] demo_wt) = Some (Inr [(''GAS.1'', ''5'')], 3)" by code_simp
  then show ?thesis by (rule observeE) blast
qed

lemma demo_deadline: "deadline demo_wt_env (\<lambda>w. 10 - w)"
  by (auto simp: deadline_def demo_wt_env_def split: if_splits)

lemma demo_faulty: "\<not> faulty demo_wt_env demo_target (demo_cap_request (demo_signed [0, 1] [7]))"
  by (auto simp: faulty_def demo_wt_env_def demo_target_def demo_cap_request_def demo_signed_def carries_def transmission_states)

section \<open>Properties\<close>

text \<open>C11. Every run of \<open>Execute\<close> that returns is a run of the protocol: the messages, queries and transmissions come in one of
  the orders it allows, the monitoring's own metrics and messages aside, and the result is the one of that order.\<close>

theorem execute_refines_protocol:
  assumes "Execute E (emitter_EmitWithLog dec em) c request s = Some (Ret (r, s'))"
  shows "\<exists>es. wt_effects s' = wt_effects s @ es \<and> write_protocol E c request r (filter (\<lambda>e. \<not> quiet e) es)"
  using runsD(1) [OF monitor.Execute_runs assms] by (auto simp: adds_def)

theorem execute_refines_protocol_witness:
  "\<exists>s' es. demo_write [0, 1] [7] demo_wt = Some (Ret (Inr [(''GAS.1'', ''5'')], s')) \<and> wt_effects s' = es \<and>
     write_protocol demo_wt_env demo_target (demo_cap_request (demo_signed [0, 1] [7])) (Inr [(''GAS.1'', ''5'')])
       (filter (\<lambda>e. \<not> quiet e) es)"
proof -
  from demo_write_run obtain s' where r: "demo_write [0, 1] [7] demo_wt = Some (Ret (Inr [(''GAS.1'', ''5'')], s'))" by blast
  from execute_refines_protocol [OF r] r show ?thesis by (auto simp: demo_wt_def)
qed

text \<open>C12. A run of \<open>Execute\<close> that returns transmits at most once, and only a report that the request carries, that is not
  empty, decodes with version 1 and names the request's execution and workflow; and just before the transmission, monitoring
  aside, the chain was asked for the state of the transmission and showed neither a success nor a fatal failure. With a positive
  poll period the stage that starts with the transmission does not panic, so that a run that panics has transmitted nothing.\<close>

theorem transmits_at_most_once:
  "(Execute E (emitter_EmitWithLog dec em) c request s = Some (Ret (r, s')) \<longrightarrow>
     (\<exists>es. wt_effects s' = wt_effects s @ es \<and>
       (filter is_transmission es = [] \<or>
        (\<exists>inputs st as bs cs. es = as @ GotState (Some st) # bs @ sends inputs # cs \<and> list_all quiet bs \<and>
           filter is_transmission (as @ bs @ cs) = [] \<and> sendable E request inputs \<and> may_send st)))) \<and>
   (0 < wg_PollPeriod c \<longrightarrow> exec_transmit E (emitter_EmitWithLog dec em) c builder info inputs head s \<noteq> Some (Panic p))"
proof (intro conjI impI)
  assume "Execute E (emitter_EmitWithLog dec em) c request s = Some (Ret (r, s'))"
  from runsD(1) [OF monitor.Execute_runs this] obtain es where es: "wt_effects s' = wt_effects s @ es"
    "write_protocol E c request r (filter (\<lambda>e. \<not> quiet e) es)" by (auto simp: adds_def)
  have "filter is_transmission es = [] \<or>
        (\<exists>inputs st as bs cs. es = as @ GotState (Some st) # bs @ sends inputs # cs \<and> list_all quiet bs \<and>
           filter is_transmission (as @ bs @ cs) = [] \<and> sendable E request inputs \<and> may_send st)"
    using write_protocol_sends [OF es(2)]
  proof (elim disjE exE conjE)
    assume "filter is_transmission (filter (\<lambda>e. \<not> quiet e) es) = []"
    then show ?thesis by (simp add: quiet_filters)
  next
    fix inputs st U V
    assume f: "filter (\<lambda>e. \<not> quiet e) es = U @ [GotState (Some st), sends inputs] @ V" "filter is_transmission (U @ V) = []"
      "sendable E request inputs" "may_send st"
    from filter_neighbours [OF f(1)] obtain as bs cs where abc: "es = as @ GotState (Some st) # bs @ sends inputs # cs"
      "filter (\<lambda>e. \<not> quiet e) as = U" "filter (\<lambda>e. \<not> quiet e) bs = []" "filter (\<lambda>e. \<not> quiet e) cs = V" by blast
    have "filter is_transmission (as @ bs @ cs) = filter is_transmission (filter (\<lambda>e. \<not> quiet e) (as @ bs @ cs))"
      by (simp add: quiet_filters)
    also have "\<dots> = []" using f(2) abc(2-4) by simp
    finally have "filter is_transmission (as @ bs @ cs) = []" .
    moreover have "list_all quiet bs" using abc(3) by (simp add: list_all_iff filter_empty_conv)
    ultimately show ?thesis using abc(1) f(3,4) by blast
  qed
  then show "\<exists>es. wt_effects s' = wt_effects s @ es \<and>
       (filter is_transmission es = [] \<or>
        (\<exists>inputs st as bs cs. es = as @ GotState (Some st) # bs @ sends inputs # cs \<and> list_all quiet bs \<and>
           filter is_transmission (as @ bs @ cs) = [] \<and> sendable E request inputs \<and> may_send st))"
    using es(1) by blast
next
  assume "0 < wg_PollPeriod c"
  then show "exec_transmit E (emitter_EmitWithLog dec em) c builder info inputs head s \<noteq> Some (Panic p)"
    using runsD(2) [OF monitor.exec_transmit_runs] by fastforce
qed

theorem transmits_at_most_once_witness:
  "\<exists>s' es. demo_write [0, 1] [7] demo_wt = Some (Ret (Inr [(''GAS.1'', ''5'')], s')) \<and> wt_effects s' = es \<and>
     (filter is_transmission es = [] \<or> (\<exists>inputs st as bs cs. es = as @ GotState (Some st) # bs @ sends inputs # cs \<and> may_send st))"
proof -
  from demo_write_run obtain s' where r: "demo_write [0, 1] [7] demo_wt = Some (Ret (Inr [(''GAS.1'', ''5'')], s'))" by blast
  note once = transmits_at_most_once [THEN conjunct1, rule_format, OF r]
  then show ?thesis using r by (auto simp: demo_wt_def) blast+
qed

text \<open>Every outcome is reported once: an error is returned exactly with the one write error that was emitted, and a
  success without any, after a confirmation or a skip.\<close>

theorem outcome_reported_once:
  assumes "Execute E (emitter_EmitWithLog dec em) c request s = Some (Ret (r, s'))"
  shows "\<exists>es. wt_effects s' = wt_effects s @ es \<and>
    (case r of Inl err \<Rightarrow> \<exists>e. reported err e \<and> filter is_write_error es = [Emitted (WriteError e)]
     | Inr _ \<Rightarrow> filter is_write_error es = [] \<and>
         ((\<exists>m. Emitted (WriteConfirmed m) \<in> set es) \<or> (\<exists>k. Emitted (WriteSkipped k) \<in> set es)))"
proof -
  from runsD(1) [OF monitor.Execute_runs assms] obtain es where es: "wt_effects s' = wt_effects s @ es"
    "write_protocol E c request r (filter (\<lambda>e. \<not> quiet e) es)" by (auto simp: adds_def)
  let ?T = "filter (\<lambda>e. \<not> quiet e) es"
  have "?T \<noteq> []" using es(2) by (auto elim: write_protocol.cases)
  then have "last ?T \<in> set es" using last_in_set [of ?T] by auto
  with write_protocol_reports [OF es(2)] show ?thesis
    using es(1) by (intro exI [of _ es]) (auto simp: quiet_filters split: sum.splits)
qed

theorem outcome_reported_once_witness:
  "\<exists>s' m. demo_write [0, 1] [] demo_wt = Some (Ret (Inr [], s')) \<and> filter is_write_error (wt_effects s') = [] \<and>
     (Emitted (WriteConfirmed m) \<in> set (wt_effects s') \<or> (\<exists>k. Emitted (WriteSkipped k) \<in> set (wt_effects s')))"
proof -
  have "observe wt_w (demo_write [0, 1] [] demo_wt) = Some (Inr [], 0)" by code_simp
  then obtain s' where r: "demo_write [0, 1] [] demo_wt = Some (Ret (Inr [], s'))" by (rule observeE)
  from outcome_reported_once [OF r] r show ?thesis by (auto simp: demo_wt_def)
qed

text \<open>C33. \<open>Execute\<close> panics only on a faulty request, strategy or configuration: no inputs, a nil value in the place of the
  signed report, a report identifier of less than two bytes, a strategy that can answer with a nil transmission state or a fatal
  one without an error, or a poll period that is not positive. On the first three it does panic, when the configuration of the
  request is valid.\<close>

theorem execute_panics:
  "(\<not> faulty E c request \<longrightarrow> Execute E (emitter_EmitWithLog dec em) c request s \<noteq> Some (Panic p)) \<and>
   (wg_configValidateFn c request = Inr receiver \<longrightarrow>
      (cr_Inputs request = None \<or> (\<exists>u. cr_Inputs request = Some u \<and> u KeySignedReport = Some None) \<longrightarrow>
         Execute E (emitter_EmitWithLog dec em) c request s = Some (Panic ''invalid memory address or nil pointer dereference'')) \<and>
      (carries request inputs \<and> length (sr_ID inputs) < 2 \<longrightarrow>
         Execute E (emitter_EmitWithLog dec em) c request s = Some (Panic ''index out of range'')))"
proof (intro conjI impI)
  assume "\<not> faulty E c request"
  then show "Execute E (emitter_EmitWithLog dec em) c request s \<noteq> Some (Panic p)" using runsD(2) [OF monitor.Execute_runs] by blast
next
  assume "wg_configValidateFn c request = Inr receiver"
    and "cr_Inputs request = None \<or> (\<exists>u. cr_Inputs request = Some u \<and> u KeySignedReport = Some None)"
  then show "Execute E (emitter_EmitWithLog dec em) c request s = Some (Panic ''invalid memory address or nil pointer dereference'')"
    by (auto simp: Execute_def Let_def andThen_def basic_prog)
next
  assume v: "wg_configValidateFn c request = Inr receiver" and a: "carries request inputs \<and> length (sr_ID inputs) < 2"
  have "BigEndian_Uint16 (sr_ID inputs) = Panic ''index out of range''"
    using a by (auto simp: BigEndian_Uint16_def split: list.splits)
  then show "Execute E (emitter_EmitWithLog dec em) c request s = Some (Panic ''index out of range'')"
    using v a by (auto simp: Execute_def Let_def carries_def exec_report_def andThen_def basic_prog)
qed

theorem execute_panics_witness:
  "demo_write [0, 1] [7] demo_wt \<noteq> Some (Panic []) \<and> demo_write [1] [7] demo_wt = Some (Panic ''index out of range'')"
proof
  show "demo_write [0, 1] [7] demo_wt \<noteq> Some (Panic [])" using execute_panics demo_faulty by blast
  have "wg_configValidateFn demo_target (demo_cap_request (demo_signed [1] [7])) = Inr ''r''"
    "carries (demo_cap_request (demo_signed [1] [7])) (demo_signed [1] [7]) \<and> length (sr_ID (demo_signed [1] [7])) < 2"
    by (auto simp: demo_target_def demo_cap_request_def demo_signed_def carries_def)
  then show "demo_write [1] [7] demo_wt = Some (Panic ''index out of range'')" using execute_panics by blast
qed

text \<open>C32. When the context is done after finitely many ticks, a run of \<open>Execute\<close> comes to an end, whatever the chain answers:
  it returns, or it panics as it may on a faulty request, strategy or configuration; on others it returns.\<close>

theorem execute_ends:
  assumes "deadline E rank"
  shows "if faulty E c request then \<exists>res. Execute E (emitter_EmitWithLog dec em) c request s = Some res
    else \<exists>r s'. Execute E (emitter_EmitWithLog dec em) c request s = Some (Ret (r, s'))"
proof -
  obtain res where res: "Execute E (emitter_EmitWithLog dec em) c request s = Some res"
    using monitor.Execute_ends [OF assms] unfolding ends_def by blast
  have "\<not> is_panic res" if "\<not> faulty E c request"
    using res that runsD(2) [OF monitor.Execute_runs] by (cases res) (simp_all, blast)
  with res show ?thesis by (cases res) auto
qed

theorem execute_ends_witness:
  "\<exists>r s'. demo_write [0, 1] [7] demo_wt = Some (Ret (r, s'))"
  using execute_ends [OF demo_deadline, of demo_target "demo_cap_request (demo_signed [0, 1] [7])"] demo_faulty by simp

text \<open>C34. The wait for the confirmation takes any visible transmission state for a success: one that says that the transmission
  failed, fatally or not, ends it without an error, with a confirmation message that says so.\<close>

theorem visible_failure_confirms:
  assumes "wv_LatestHead E (wt_w s) = (Inr head, w1)"
    and "wv_QueryTransmissionState E (ri_reportID (qi_reportInfo info)) (qi_request info) w1 = (Inr (Some st), w2)"
    and "ts_Status st \<in> {TransmissionStateFailed, TransmissionStateFatal}"
  shows "\<exists>s' m es. confirm_round E (emitter_EmitWithLog dec em) b info s = Some (Ret (Inr (Some ()), s')) \<and>
    \<not> wc_Success m \<and> wt_effects s' = wt_effects s @ GotState (Some st) # Emitted (WriteConfirmed m) # es"
proof -
  let ?s = "s\<lparr>wt_w := w2, wt_effects := wt_effects s @ [GotState (Some st)]\<rparr>"
  obtain m where m: "buildWriteConfirmed b (info\<lparr>qi_reportTransmissionState := Some st\<rparr>) (wv_now E w2) head = Ret m"
    by (simp add: buildWriteConfirmed_def)
  have "\<not> wc_Success m" using m assms(3) by (auto simp: buildWriteConfirmed_def transmission_states)
  moreover obtain q s' es where em: "emitter_EmitWithLog dec em (WriteConfirmed m) ?s = Some (Ret (q, s'))"
    "wt_effects s' = wt_effects ?s @ Emitted (WriteConfirmed m) # es" using emitter_emits_once by blast
  moreover have "ts_Status st \<noteq> TransmissionStateNotAttempted" using assms(3) by (auto simp: transmission_states)
  then have "confirm_round E (emitter_EmitWithLog dec em) b info s = Some (Ret (Inr (Some ()), s'))"
    using m em(1) assms(1,2)
    by (simp add: confirm_round_def query_state_def emit_confirmed_def emit_logged_def andThen_def trying_def wt_call_def
        wt_emits_def basic_prog)
  ultimately show ?thesis by auto
qed

definition demo_info :: requestInfo where
  "demo_info =
     \<lparr>qi_tsStart = 0, qi_node = ''n'', qi_forwarder = ''f'', qi_receiver = ''r'', qi_request = demo_cap_request (demo_signed [0, 1] [7]),
      qi_reportInfo = \<lparr>ri_reportContext = [42], ri_report = [7], ri_signersNum = 1, ri_reportID = 1\<rparr>,
      qi_reportTransmissionState = None\<rparr>"

theorem visible_failure_confirms_witness:
  "\<exists>s' m es. confirm_round demo_wt_env (emitter_EmitWithLog (wv_ocr3_Decode demo_wt_env) plain_emitter)
       (NewMessageBuilder (wg_chainInfo demo_target) (wg_CapabilityInfo demo_target)) demo_info (demo_wt\<lparr>wt_w := 3\<rparr>) =
       Some (Ret (Inr (Some ()), s')) \<and>
     \<not> wc_Success m \<and>
     wt_effects s' = GotState (Some \<lparr>ts_Status = 2, ts_Transmitter = ''n'', ts_Err = None\<rparr>) # Emitted (WriteConfirmed m) # es"
proof -
  have h: "wv_LatestHead demo_wt_env (wt_w (demo_wt\<lparr>wt_w := 3\<rparr>)) = (Inr \<lparr>wh_Height = ''100'', wh_Hash = [], wh_Timestamp = 1\<rparr>, 3)"
    and q: "wv_QueryTransmissionState demo_wt_env (ri_reportID (qi_reportInfo demo_info)) (qi_request demo_info) 3 =
      (Inr (Some \<lparr>ts_Status = 2, ts_Transmitter = ''n'', ts_Err = None\<rparr>), 3)"
    by (simp_all add: demo_wt_env_def transmission_states)
  from visible_failure_confirms [OF h q, of "wv_ocr3_Decode demo_wt_env" plain_emitter
      "NewMessageBuilder (wg_chainInfo demo_target) (wg_CapabilityInfo demo_target)"]
  show ?thesis by (simp add: transmission_states demo_wt_def)
qed

end
