(* ===== verification/Poller.thy ===== *)
theory Poller
  imports Go_Prelude
begin

text \<open>
  \<open>multinode/poller.go\<close>: the poller that \<open>RPCClientBase\<close> uses as a subscription. Its goroutine, the receiver of its channel
  and \<open>Close\<close> are interleaved in \<open>poller_step\<close>. The service engine comes from another package: \<open>waits\<close> says that its \<open>Close\<close>
  waits for the goroutines it has started before it calls the hook \<open>close\<close>, as documented; \<open>StopOnce\<close> lets the hook run once.
\<close>

section \<open>The poller and its steps\<close>

datatype 'a poller_pc = PollWaiting | PollCalling | PollSending 'a | PollEnded

text \<open>\<open>pl_results\<close> lists what the polling function returned without an error, \<open>pl_delivered\<close> what went through the channel.\<close>

record 'a poller =
  pl_pc :: "'a poller_pc"
  pl_ctxDone :: bool
  pl_channelClosed :: bool
  pl_errChClosed :: bool
  pl_results :: "'a list"
  pl_delivered :: "'a list"
  pl_panicked :: bool

definition NewPoller :: "'a poller" where
  "NewPoller = \<lparr>pl_pc = PollEnded, pl_ctxDone = False, pl_channelClosed = False, pl_errChClosed = False,
     pl_results = [], pl_delivered = [], pl_panicked = False\<rparr>"

definition poller_start :: "'a poller \<Rightarrow> 'a poller" where
  "poller_start p = p\<lparr>pl_pc := PollWaiting\<rparr>"

definition poller_close :: "'a poller \<Rightarrow> 'a poller" where
  "poller_close p =
     (if pl_errChClosed p \<or> pl_channelClosed p then p\<lparr>pl_panicked := True\<rparr>
      else p\<lparr>pl_errChClosed := True, pl_channelClosed := True\<rparr>)"

text \<open>The answer of the polling function.\<close>

fun poll_answer :: "('e + 'a) \<Rightarrow> 'a poller \<Rightarrow> 'a poller" where
  "poll_answer (Inl err) p = p\<lparr>pl_pc := PollWaiting\<rparr>"
| "poll_answer (Inr result) p = p\<lparr>pl_pc := PollSending result, pl_results := pl_results p @ [result]\<rparr>"

definition poll_send :: "'a \<Rightarrow> 'a poller \<Rightarrow> 'a poller" where
  "poll_send result p =
     (if pl_channelClosed p then p\<lparr>pl_panicked := True, pl_pc := PollEnded\<rparr>
      else p\<lparr>pl_pc := PollWaiting, pl_delivered := pl_delivered p @ [result]\<rparr>)"

inductive poller_step :: "bool \<Rightarrow> 'a poller \<Rightarrow> 'a poller \<Rightarrow> bool" for waits where
  ticker: "pl_pc p = PollWaiting \<Longrightarrow> poller_step waits p (p\<lparr>pl_pc := PollCalling\<rparr>)"
| polled: "pl_pc p = PollCalling \<Longrightarrow> poller_step waits p (poll_answer (answer :: string + 'a) p)"
| sent: "pl_pc p = PollSending result \<Longrightarrow> poller_step waits p (poll_send result p)"
| stopped: "pl_ctxDone p \<Longrightarrow> pl_pc p = PollWaiting \<or> pl_pc p = PollSending result \<Longrightarrow> poller_step waits p (p\<lparr>pl_pc := PollEnded\<rparr>)"
| close_begins: "\<not> pl_ctxDone p \<Longrightarrow> poller_step waits p (p\<lparr>pl_ctxDone := True\<rparr>)"
| close_hook: "pl_ctxDone p \<Longrightarrow> \<not> pl_channelClosed p \<Longrightarrow> waits \<longrightarrow> pl_pc p = PollEnded \<Longrightarrow> poller_step waits p (poller_close p)"

inductive_cases poller_stepE: "poller_step waits p p'"

definition poller_init :: "'a poller \<Rightarrow> bool" where
  "poller_init p \<longleftrightarrow> p = poller_start NewPoller"

interpretation poller: transition_system poller_init "poller_step waits" for waits .

section \<open>Lemmas\<close>

definition in_flight :: "'a poller_pc \<Rightarrow> 'a list \<Rightarrow> 'a list \<Rightarrow> bool" where
  "in_flight pc results delivered \<longleftrightarrow>
     (case pc of
        PollSending r \<Rightarrow> results = delivered @ [r]
      | PollEnded \<Rightarrow> results = delivered \<or> (\<exists>r. results = delivered @ [r])
      | _ \<Rightarrow> results = delivered)"

definition poller_inv :: "'a poller \<Rightarrow> bool" where
  "poller_inv p \<longleftrightarrow>
     \<not> pl_panicked p \<and> pl_errChClosed p = pl_channelClosed p \<and> (pl_channelClosed p \<longrightarrow> pl_pc p = PollEnded \<and> pl_ctxDone p) \<and>
     in_flight (pl_pc p) (pl_results p) (pl_delivered p)"

lemma poller_step_inv:
  assumes "poller_step True p p'" and "poller_inv p"
  shows "poller_inv p'"
  using assms
proof (cases rule: poller_step.cases)
  case (polled answer)
  then show ?thesis using assms(2) by (cases answer) (auto simp: poller_inv_def in_flight_def)
qed (auto simp: poller_inv_def in_flight_def poll_send_def poller_close_def)

lemma poller_init_inv: "poller_init p \<Longrightarrow> poller_inv p"
  by (simp add: poller_init_def poller_start_def NewPoller_def poller_inv_def in_flight_def)

lemma reach_poller_inv: "poller.reach True p \<Longrightarrow> poller_inv p"
  by (erule poller.reach_invariant) (auto intro: poller_init_inv poller_step_inv)

text \<open>If the engine did not wait, the hook could close the channel under a send.\<close>

lemma close_under_send:
  "\<exists>p :: nat poller. poller.reach False p \<and> pl_panicked p"
proof -
  let ?p0 = "poller_start NewPoller :: nat poller"
  let ?p1 = "?p0\<lparr>pl_pc := PollCalling\<rparr>"
  let ?p2 = "poll_answer (Inr 5 :: string + nat) ?p1"
  let ?p3 = "?p2\<lparr>pl_ctxDone := True\<rparr>"
  have "poller.reach False ?p0" by (rule poller.reach_init) (simp add: poller_init_def)
  then have "poller.reach False ?p1" by (rule poller.reach_step) (rule ticker, simp add: poller_start_def)
  then have "poller.reach False ?p2" by (rule poller.reach_step) (rule polled, simp)
  then have "poller.reach False ?p3"
    by (rule poller.reach_step) (rule close_begins, simp add: poller_start_def NewPoller_def)
  then have "poller.reach False (poller_close ?p3)"
    by (rule poller.reach_step) (rule close_hook, simp_all add: poller_start_def NewPoller_def)
  then have "poller.reach False (poll_send 5 (poller_close ?p3))"
    by (rule poller.reach_step) (rule sent, simp add: poller_start_def NewPoller_def poller_close_def)
  moreover have "pl_panicked (poll_send 5 (poller_close ?p3))"
    by (simp add: poller_start_def NewPoller_def poller_close_def poll_send_def)
  ultimately show ?thesis by blast
qed

section \<open>Properties\<close>

text \<open>C25. A poller delivers what it polled: in every interleaving of polls, the receiver and \<open>Close\<close>, the results go
  through the channel in their order and without loss, but for the one that \<open>Close\<close> may catch in flight; nothing is sent on
  the closed channel and no channel is closed twice, and the channel is closed only after the goroutine has ended.\<close>

theorem poller_delivers:
  assumes "poller.reach True p"
  shows "\<not> pl_panicked p \<and>
    (pl_results p = pl_delivered p \<or> (\<exists>r. pl_results p = pl_delivered p @ [r] \<and> pl_pc p \<in> {PollSending r, PollEnded})) \<and>
    (pl_channelClosed p \<longrightarrow> pl_pc p = PollEnded)"
  using reach_poller_inv [OF assms] by (auto simp: poller_inv_def in_flight_def split: poller_pc.splits)

definition demo_poller :: "nat poller" where
  "demo_poller = poll_send 7 (poll_answer (Inr 7 :: string + nat) ((poller_start NewPoller)\<lparr>pl_pc := PollCalling\<rparr>))"

theorem poller_delivers_witness: "\<not> pl_panicked demo_poller \<and> pl_delivered demo_poller = [7] \<and> pl_results demo_poller = [7]"
proof -
  let ?p0 = "poller_start NewPoller :: nat poller"
  have "poller.reach True ?p0" by (rule poller.reach_init) (simp add: poller_init_def)
  then have "poller.reach True (?p0\<lparr>pl_pc := PollCalling\<rparr>)" by (rule poller.reach_step) (rule ticker, simp add: poller_start_def)
  then have "poller.reach True (poll_answer (Inr 7 :: string + nat) (?p0\<lparr>pl_pc := PollCalling\<rparr>))"
    by (rule poller.reach_step) (rule polled, simp)
  then have "poller.reach True demo_poller" unfolding demo_poller_def by (rule poller.reach_step) (rule sent, simp)
  from poller_delivers [OF this] show ?thesis by (simp add: demo_poller_def poller_start_def NewPoller_def poll_send_def)
qed

end
