(* ===== verification/Multinode_Config.thy ===== *)
theory Multinode_Config
  imports Go_Prelude
begin

text \<open>
  \<open>multinode/config/config.go\<close>, \<open>multinode/utils.go\<close> and \<open>multinode/ctx.go\<close>: the configuration of a pool, read from files
  that are laid over each other with \<open>SetFrom\<close>, and the helpers for identifiers and contexts. A pointer is an option, and
  dereferencing nil panics; a duration is in nanoseconds.
\<close>

section \<open>Configuration\<close>

record MultiNodeConfig =
  mc_Enabled :: "bool option"
  mc_PollFailureThreshold :: "32 word option"
  mc_PollInterval :: "int option"
  mc_SelectionMode :: "string option"
  mc_SyncThreshold :: "32 word option"
  mc_NodeIsSyncingEnabled :: "bool option"
  mc_LeaseDuration :: "int option"
  mc_NewHeadsPollInterval :: "int option"
  mc_FinalizedBlockPollInterval :: "int option"
  mc_EnforceRepeatableRead :: "bool option"
  mc_DeathDeclarationDelay :: "int option"
  mc_VerifyChainID :: "bool option"
  mc_NodeNoNewHeadsThreshold :: "int option"
  mc_NoNewFinalizedHeadsThreshold :: "int option"
  mc_FinalityDepth :: "32 word option"
  mc_FinalityTagEnabled :: "bool option"
  mc_FinalizedBlockOffset :: "32 word option"

definition deref :: "'a option \<Rightarrow> 'a outcome" where
  "deref p = (case p of None \<Rightarrow> Panic ''invalid memory address or nil pointer dereference'' | Some x \<Rightarrow> Ret x)"

definition cfg_Enabled :: "MultiNodeConfig \<Rightarrow> bool" where
  "cfg_Enabled c \<longleftrightarrow> mc_Enabled c = Some True"

definition cfg_PollSuccessThreshold :: "MultiNodeConfig \<Rightarrow> 32 word" where
  "cfg_PollSuccessThreshold c = 0"

definition cfg_PollFailureThreshold :: "MultiNodeConfig \<Rightarrow> (32 word) outcome" where
  "cfg_PollFailureThreshold c = deref (mc_PollFailureThreshold c)"

definition cfg_PollInterval :: "MultiNodeConfig \<Rightarrow> int outcome" where
  "cfg_PollInterval c = deref (mc_PollInterval c)"

definition cfg_SelectionMode :: "MultiNodeConfig \<Rightarrow> string outcome" where
  "cfg_SelectionMode c = deref (mc_SelectionMode c)"

definition cfg_SyncThreshold :: "MultiNodeConfig \<Rightarrow> (32 word) outcome" where
  "cfg_SyncThreshold c = deref (mc_SyncThreshold c)"

definition cfg_NodeIsSyncingEnabled :: "MultiNodeConfig \<Rightarrow> bool outcome" where
  "cfg_NodeIsSyncingEnabled c = deref (mc_NodeIsSyncingEnabled c)"

definition cfg_LeaseDuration :: "MultiNodeConfig \<Rightarrow> int outcome" where
  "cfg_LeaseDuration c = deref (mc_LeaseDuration c)"

definition cfg_NewHeadsPollInterval :: "MultiNodeConfig \<Rightarrow> int outcome" where
  "cfg_NewHeadsPollInterval c = deref (mc_NewHeadsPollInterval c)"

definition cfg_FinalizedBlockPollInterval :: "MultiNodeConfig \<Rightarrow> int outcome" where
  "cfg_FinalizedBlockPollInterval c = deref (mc_FinalizedBlockPollInterval c)"

definition cfg_EnforceRepeatableRead :: "MultiNodeConfig \<Rightarrow> bool outcome" where
  "cfg_EnforceRepeatableRead c = deref (mc_EnforceRepeatableRead c)"

definition cfg_DeathDeclarationDelay :: "MultiNodeConfig \<Rightarrow> int outcome" where
  "cfg_DeathDeclarationDelay c = deref (mc_DeathDeclarationDelay c)"

definition cfg_VerifyChainID :: "MultiNodeConfig \<Rightarrow> bool outcome" where
  "cfg_VerifyChainID c = deref (mc_VerifyChainID c)"

definition cfg_NodeNoNewHeadsThreshold :: "MultiNodeConfig \<Rightarrow> int outcome" where
  "cfg_NodeNoNewHeadsThreshold c = deref (mc_NodeNoNewHeadsThreshold c)"

definition cfg_NoNewFinalizedHeadsThreshold :: "MultiNodeConfig \<Rightarrow> int outcome" where
  "cfg_NoNewFinalizedHeadsThreshold c = deref (mc_NoNewFinalizedHeadsThreshold c)"

definition cfg_FinalityDepth :: "MultiNodeConfig \<Rightarrow> (32 word) outcome" where
  "cfg_FinalityDepth c = deref (mc_FinalityDepth c)"

definition cfg_FinalityTagEnabled :: "MultiNodeConfig \<Rightarrow> bool outcome" where
  "cfg_FinalityTagEnabled c = deref (mc_FinalityTagEnabled c)"

definition cfg_FinalizedBlockOffset :: "MultiNodeConfig \<Rightarrow> (32 word) outcome" where
  "cfg_FinalizedBlockOffset c = deref (mc_FinalizedBlockOffset c)"

definition set_from :: "'a option \<Rightarrow> 'a option \<Rightarrow> 'a option" where
  "set_from f c = (if f \<noteq> None then f else c)"

definition SetFrom :: "MultiNodeConfig \<Rightarrow> MultiNodeConfig \<Rightarrow> MultiNodeConfig" where
  "SetFrom c f =
     c\<lparr>mc_Enabled := set_from (mc_Enabled f) (mc_Enabled c),
       mc_PollFailureThreshold := set_from (mc_PollFailureThreshold f) (mc_PollFailureThreshold c),
       mc_PollInterval := set_from (mc_PollInterval f) (mc_PollInterval c),
       mc_SelectionMode := set_from (mc_SelectionMode f) (mc_SelectionMode c),
       mc_SyncThreshold := set_from (mc_SyncThreshold f) (mc_SyncThreshold c),
       mc_NodeIsSyncingEnabled := set_from (mc_NodeIsSyncingEnabled f) (mc_NodeIsSyncingEnabled c),
       mc_LeaseDuration := set_from (mc_LeaseDuration f) (mc_LeaseDuration c),
       mc_NewHeadsPollInterval := set_from (mc_NewHeadsPollInterval f) (mc_NewHeadsPollInterval c),
       mc_FinalizedBlockPollInterval := set_from (mc_FinalizedBlockPollInterval f) (mc_FinalizedBlockPollInterval c),
       mc_EnforceRepeatableRead := set_from (mc_EnforceRepeatableRead f) (mc_EnforceRepeatableRead c),
       mc_DeathDeclarationDelay := set_from (mc_DeathDeclarationDelay f) (mc_DeathDeclarationDelay c),
       mc_VerifyChainID := set_from (mc_VerifyChainID f) (mc_VerifyChainID c),
       mc_NodeNoNewHeadsThreshold := set_from (mc_NodeNoNewHeadsThreshold f) (mc_NodeNoNewHeadsThreshold c),
       mc_NoNewFinalizedHeadsThreshold := set_from (mc_NoNewFinalizedHeadsThreshold f) (mc_NoNewFinalizedHeadsThreshold c),
       mc_FinalityDepth := set_from (mc_FinalityDepth f) (mc_FinalityDepth c),
       mc_FinalityTagEnabled := set_from (mc_FinalityTagEnabled f) (mc_FinalityTagEnabled c),
       mc_FinalizedBlockOffset := set_from (mc_FinalizedBlockOffset f) (mc_FinalizedBlockOffset c)\<rparr>"

section \<open>Helpers\<close>

text \<open>An \<open>ID\<close> is a \<open>*big.Int\<close>; \<open>int63n\<close> is the random source, whose result is below its argument. A context is the list of
  its keys.\<close>

definition RandomID :: "(int \<Rightarrow> int) \<Rightarrow> int option" where
  "RandomID int63n = Some (i64 (int63n (2 ^ 31 - 1) + 10000))"

definition NewIDFromInt :: "int \<Rightarrow> int option" where
  "NewIDFromInt n = Some n"

datatype ctx_key = contextKeyHeathCheckRequest | OtherKey nat

definition CtxAddHealthCheckFlag :: "ctx_key list \<Rightarrow> ctx_key list" where
  "CtxAddHealthCheckFlag ctx = contextKeyHeathCheckRequest # ctx"

definition CtxIsHealthCheckRequest :: "ctx_key list \<Rightarrow> bool" where
  "CtxIsHealthCheckRequest ctx \<longleftrightarrow> contextKeyHeathCheckRequest \<in> set ctx"

section \<open>Lemmas\<close>

definition fully_set :: "MultiNodeConfig \<Rightarrow> bool" where
  "fully_set c \<longleftrightarrow>
     mc_PollFailureThreshold c \<noteq> None \<and> mc_PollInterval c \<noteq> None \<and> mc_SelectionMode c \<noteq> None \<and> mc_SyncThreshold c \<noteq> None \<and> mc_NodeIsSyncingEnabled c \<noteq> None \<and> mc_LeaseDuration c \<noteq> None \<and> mc_NewHeadsPollInterval c \<noteq> None \<and> mc_FinalizedBlockPollInterval c \<noteq> None \<and> mc_EnforceRepeatableRead c \<noteq> None \<and> mc_DeathDeclarationDelay c \<noteq> None \<and> mc_VerifyChainID c \<noteq> None \<and> mc_NodeNoNewHeadsThreshold c \<noteq> None \<and> mc_NoNewFinalizedHeadsThreshold c \<noteq> None \<and> mc_FinalityDepth c \<noteq> None \<and> mc_FinalityTagEnabled c \<noteq> None \<and> mc_FinalizedBlockOffset c \<noteq> None"

text \<open>Whether any getter panics.\<close>

definition some_getter_panics :: "MultiNodeConfig \<Rightarrow> bool" where
  "some_getter_panics c \<longleftrightarrow>
     is_panic (cfg_PollFailureThreshold c) \<or> is_panic (cfg_PollInterval c) \<or> is_panic (cfg_SelectionMode c) \<or> is_panic (cfg_SyncThreshold c) \<or> is_panic (cfg_NodeIsSyncingEnabled c) \<or> is_panic (cfg_LeaseDuration c) \<or> is_panic (cfg_NewHeadsPollInterval c) \<or> is_panic (cfg_FinalizedBlockPollInterval c) \<or> is_panic (cfg_EnforceRepeatableRead c) \<or> is_panic (cfg_DeathDeclarationDelay c) \<or> is_panic (cfg_VerifyChainID c) \<or> is_panic (cfg_NodeNoNewHeadsThreshold c) \<or> is_panic (cfg_NoNewFinalizedHeadsThreshold c) \<or> is_panic (cfg_FinalityDepth c) \<or> is_panic (cfg_FinalityTagEnabled c) \<or> is_panic (cfg_FinalizedBlockOffset c)"

lemma is_panic_deref [simp]: "is_panic (deref p) = (p = None)"
  by (cases p) (simp_all add: deref_def)

lemmas getter_defs = cfg_PollFailureThreshold_def cfg_PollInterval_def cfg_SelectionMode_def cfg_SyncThreshold_def cfg_NodeIsSyncingEnabled_def cfg_LeaseDuration_def cfg_NewHeadsPollInterval_def cfg_FinalizedBlockPollInterval_def cfg_EnforceRepeatableRead_def cfg_DeathDeclarationDelay_def cfg_VerifyChainID_def cfg_NodeNoNewHeadsThreshold_def cfg_NoNewFinalizedHeadsThreshold_def cfg_FinalityDepth_def cfg_FinalityTagEnabled_def cfg_FinalizedBlockOffset_def

lemma getters_ok_iff: "\<not> some_getter_panics c \<longleftrightarrow> fully_set c"
  by (simp only: some_getter_panics_def fully_set_def getter_defs is_panic_deref de_Morgan_disj)

lemma set_from_None [simp]: "set_from None c = c"
  by (simp add: set_from_def)

lemma set_from_Some [simp]: "set_from (Some x) c = Some x"
  by (simp add: set_from_def)

lemma set_from_assoc: "set_from h (set_from f c) = set_from (set_from h f) c"
  by (cases h) simp_all

lemma set_from_None_iff: "set_from f c = None \<longleftrightarrow> f = None \<and> c = None"
  by (cases f) simp_all

lemma SetFrom_assoc: "SetFrom (SetFrom c f) h = SetFrom c (SetFrom f h)"
  by (simp add: SetFrom_def set_from_assoc)

lemma SetFrom_idem: "SetFrom (SetFrom c f) f = SetFrom c f"
  by (simp add: SetFrom_def set_from_def)

lemma RandomID_range:
  assumes "\<And>n. 0 < n \<Longrightarrow> 0 \<le> int63n n \<and> int63n n < n"
  shows "\<exists>n. RandomID int63n = Some n \<and> 10000 \<le> n \<and> n < 2 ^ 31 + 9999"
proof -
  have "0 \<le> int63n (2 ^ 31 - 1) \<and> int63n (2 ^ 31 - 1) < 2 ^ 31 - 1" by (rule assms) simp
  then show ?thesis by (simp add: RandomID_def in_range_def)
qed

text \<open>Files laid over each other: the value of a setting is the one of the last file that has it.\<close>

lemma layers_field:
  assumes "\<And>c f. get (SetFrom c f) = set_from (get f) (get c)"
  shows "get (foldl SetFrom c fs) = (case filter (\<lambda>p. p \<noteq> None) (map get (rev fs)) of [] \<Rightarrow> get c | p # _ \<Rightarrow> p)"
proof (induction fs rule: rev_induct)
  case (snoc f fs)
  then show ?case by (auto simp: assms set_from_def)
qed simp

lemma SetFrom_fully_set: "fully_set c \<or> fully_set f \<Longrightarrow> fully_set (SetFrom c f)"
  by (elim disjE) (simp_all add: fully_set_def SetFrom_def set_from_None_iff)

lemma layers_fully_set: "fully_set c \<Longrightarrow> fully_set (foldl SetFrom c fs)"
  by (induction fs arbitrary: c) (auto intro: SetFrom_fully_set)

text \<open>Over a default file that has every setting, no getter panics, whatever files are laid over it.\<close>

lemma defaults_make_getters_safe: "fully_set c \<Longrightarrow> \<not> some_getter_panics (foldl SetFrom c fs)"
  using layers_fully_set getters_ok_iff by blast

lemma SelectionMode_of_layers:
  "mc_SelectionMode (foldl SetFrom c fs) =
     (case filter (\<lambda>p. p \<noteq> None) (map mc_SelectionMode (rev fs)) of [] \<Rightarrow> mc_SelectionMode c | p # _ \<Rightarrow> p)"
  by (rule layers_field) (simp add: SetFrom_def)

end
