(* ===== verification/Rpc_Sanitize.thy ===== *)
theory Rpc_Sanitize
  imports Go_Prelude
begin

text \<open>
  \<open>multinode/sanitize_error.go\<close>: the redaction of URLs in the errors of RPC calls. A string is its bytes. The regular
  expression \<open>(?i)(?:https?|wss?)://[^\s"']+\<close> is written out: under \<open>(?i)\<close> the letter \<open>s\<close> also stands for the long s, the
  bytes C5 BF, and no other letter of the expression has a partner outside ASCII. An error is its message, what it wraps and
  whether it is the sanitized one.
\<close>

section \<open>Matching\<close>

definition is_stop :: "char \<Rightarrow> bool" where
  "is_stop c \<longleftrightarrow> c \<in> {CHR 0x09, CHR 0x0A, CHR 0x0C, CHR 0x0D, CHR '' '', CHR 0x22, CHR 0x27}"

definition to_lower :: "char \<Rightarrow> char" where
  "to_lower c = (if of_char c \<in> {65..90 :: nat} then char_of (of_char c + 32 :: nat) else c)"

definition long_s :: string where
  "long_s = [CHR 0xC5, CHR 0xBF]"

text \<open>What is left of a string after a literal, given in lower case.\<close>

fun strip_lit :: "string \<Rightarrow> string \<Rightarrow> string option" where
  "strip_lit [] str = Some str"
| "strip_lit (p # ps) [] = None"
| "strip_lit (p # ps) (c # cs) =
     (if to_lower c = p then strip_lit ps cs
      else if p = CHR ''s'' \<and> take 2 (c # cs) = long_s then strip_lit ps (drop 2 (c # cs))
      else None)"

definition schemes :: "string list" where
  "schemes = [''https://'', ''http://'', ''wss://'', ''ws://'']"

text \<open>The alternatives exclude each other.\<close>

fun strip_first :: "string list \<Rightarrow> string \<Rightarrow> string option" where
  "strip_first [] str = None"
| "strip_first (p # ps) str = (case strip_lit p str of Some r \<Rightarrow> Some r | None \<Rightarrow> strip_first ps str)"

text \<open>A match of the whole expression at the start of a string: what follows it.\<close>

definition rpcURLRegexp :: "string \<Rightarrow> string option" where
  "rpcURLRegexp str =
     (case strip_first schemes str of
        Some (c # cs) \<Rightarrow> if is_stop c then None else Some (dropWhile (\<lambda>c. \<not> is_stop c) cs)
      | _ \<Rightarrow> None)"

definition redacted :: string where
  "redacted = ''[REDACTED URL]''"

lemma strip_lit_length: "strip_lit p str = Some r \<Longrightarrow> length r \<le> length str"
proof (induction p str rule: strip_lit.induct)
  case (3 p ps c cs)
  then show ?case by (fastforce split: if_splits)
qed auto

lemma strip_first_length: "strip_first ps str = Some r \<Longrightarrow> length r \<le> length str"
  by (induction ps) (auto split: option.splits dest: strip_lit_length)

lemma rpcURLRegexp_shorter:
  assumes "rpcURLRegexp str = Some r"
  shows "length r < length str"
proof -
  from assms obtain c cs where "strip_first schemes str = Some (c # cs)" "r = dropWhile (\<lambda>c. \<not> is_stop c) cs"
    by (auto simp: rpcURLRegexp_def split: option.splits list.splits if_splits)
  moreover have "length (c # cs) \<le> length str" by (rule strip_first_length) fact
  ultimately show ?thesis using length_dropWhile_le [of "\<lambda>c. \<not> is_stop c" cs] by simp
qed

function ReplaceAllString :: "string \<Rightarrow> string" where
  "ReplaceAllString [] = []"
| "ReplaceAllString (c # cs) =
     (case rpcURLRegexp (c # cs) of Some rest \<Rightarrow> redacted @ ReplaceAllString rest | None \<Rightarrow> c # ReplaceAllString cs)"
  by pat_completeness auto
termination
  by (relation "measure length") (auto dest: rpcURLRegexp_shorter)

text \<open>Whether a string has a match anywhere.\<close>

fun contains_url :: "string \<Rightarrow> bool" where
  "contains_url [] = False"
| "contains_url (c # cs) = (rpcURLRegexp (c # cs) \<noteq> None \<or> contains_url cs)"

section \<open>Errors\<close>

datatype go_error =
    PlainError string
  | WrappedError string go_error
  | sanitizedError go_error string

fun go_Error :: "go_error \<Rightarrow> string" where
  "go_Error (PlainError m) = m"
| "go_Error (WrappedError m e) = m @ '': '' @ go_Error e"
| "go_Error (sanitizedError e m) = m"

fun Unwrap :: "go_error \<Rightarrow> go_error option" where
  "Unwrap (PlainError m) = None"
| "Unwrap (WrappedError m e) = Some e"
| "Unwrap (sanitizedError e m) = Some e"

definition Cause :: "go_error \<Rightarrow> go_error option" where
  "Cause e = (case e of sanitizedError err m \<Rightarrow> Some err | _ \<Rightarrow> Unwrap e)"

text \<open>\<open>errors.Is\<close> along the chain.\<close>

fun go_Is :: "go_error \<Rightarrow> go_error \<Rightarrow> bool" where
  "go_Is (PlainError m) target = (PlainError m = target)"
| "go_Is (WrappedError m e) target = (WrappedError m e = target \<or> go_Is e target)"
| "go_Is (sanitizedError e m) target = (sanitizedError e m = target \<or> go_Is e target)"

definition SanitizeRPCError :: "go_error option \<Rightarrow> go_error option" where
  "SanitizeRPCError err =
     (case err of None \<Rightarrow> None | Some e \<Rightarrow> Some (sanitizedError e (ReplaceAllString (go_Error e))))"

section \<open>Lemmas\<close>

lemma regexp_nil [simp]: "rpcURLRegexp [] = None"
  by (simp add: rpcURLRegexp_def schemes_def)

text \<open>A match starts with \<open>h\<close> or \<open>w\<close>, so that none starts with a stop or inside the replacement.\<close>

lemma regexp_other:
  assumes "to_lower c \<notin> {CHR ''h'', CHR ''w''}"
  shows "rpcURLRegexp (c # cs) = None"
  using assms by (simp add: rpcURLRegexp_def schemes_def)

lemma stop_other: "is_stop c \<Longrightarrow> to_lower c \<notin> {CHR ''h'', CHR ''w''}"
  by (auto simp: is_stop_def to_lower_def)

lemma contains_url_append:
  "\<forall>c\<in>set t. to_lower c \<notin> {CHR ''h'', CHR ''w''} \<Longrightarrow> contains_url (t @ str) = contains_url str"
  by (induction t) (auto simp: regexp_other)

lemma contains_url_redacted: "contains_url (redacted @ str) = contains_url str"
proof (rule contains_url_append)
  show "\<forall>c\<in>set redacted. to_lower c \<notin> {CHR ''h'', CHR ''w''}" by code_simp
qed

text \<open>Redaction changes no byte in front of the first URL: a literal found in the result was there before.\<close>

lemma ReplaceAll_Cons:
  assumes "ReplaceAllString str = c # cs" and "c \<noteq> CHR ''[''"
  obtains ds where "str = c # ds" and "cs = ReplaceAllString ds"
proof (cases str)
  case Nil
  with assms show ?thesis by simp
next
  case (Cons d ds)
  with assms that show ?thesis by (auto simp: redacted_def split: option.splits)
qed

lemma strip_lit_ReplaceAll:
  assumes "strip_lit p (ReplaceAllString str) = Some r" and "CHR ''['' \<notin> set p"
  shows "\<exists>r'. strip_lit p str = Some r' \<and> r = ReplaceAllString r'"
  using assms
proof (induction p arbitrary: str)
  case (Cons x ps)
  from Cons.prems(1) obtain c cs where c: "ReplaceAllString str = c # cs" by (cases "ReplaceAllString str") auto
  have "to_lower (CHR ''['') = CHR ''[''" by (simp add: to_lower_def)
  with Cons.prems c have "c \<noteq> CHR ''[''" by (auto simp: long_s_def split: if_splits)
  with c obtain ds where ds: "str = c # ds" "cs = ReplaceAllString ds" by (rule ReplaceAll_Cons)
  show ?case
  proof (cases "to_lower c = x")
    case True
    then show ?thesis using Cons c ds by auto
  next
    case False
    with Cons.prems c have s: "x = CHR ''s''" "c = CHR 0xC5" "take 1 cs = [CHR 0xBF]" "strip_lit ps (drop 1 cs) = Some r"
      by (auto simp: long_s_def split: if_splits)
    then obtain es where "cs = CHR 0xBF # es" by (cases cs) auto
    moreover from this obtain fs where fs: "ds = CHR 0xBF # fs" "es = ReplaceAllString fs"
      using ds(2) by (auto elim!: ReplaceAll_Cons)
    ultimately show ?thesis using Cons.IH [of fs] Cons.prems(2) s ds fs False by (auto simp: long_s_def)
  qed
qed auto

lemma strip_first_ReplaceAll:
  assumes "strip_first ps (ReplaceAllString str) = Some r" and "\<forall>p\<in>set ps. CHR ''['' \<notin> set p"
  shows "\<exists>p\<in>set ps. \<exists>r'. strip_lit p str = Some r' \<and> r = ReplaceAllString r'"
  using assms by (induction ps) (auto split: option.splits dest: strip_lit_ReplaceAll)

text \<open>The schemes exclude each other, so that the match does not depend on their order.\<close>

lemma strip_lit_append:
  "strip_lit (p @ q) str = (case strip_lit p str of None \<Rightarrow> None | Some r \<Rightarrow> strip_lit q r)"
  by (induction p str rule: strip_lit.induct) auto

lemma literals_exclusive:
  assumes "strip_lit (w @ a # p) str = Some r" and "a \<noteq> b" and "a \<noteq> CHR 0xC5" and "b \<noteq> CHR 0xC5"
  shows "strip_lit (w @ b # q) str = None"
proof (cases "strip_lit w str")
  case None
  then show ?thesis by (simp add: strip_lit_append)
next
  case (Some cs)
  have "to_lower (CHR 0xC5) = CHR 0xC5" by code_simp
  with assms Some show ?thesis by (cases cs) (auto simp: strip_lit_append long_s_def split: if_splits)
qed

lemma strip_first_schemes:
  assumes "p \<in> set schemes" and "strip_lit p str = Some r"
  shows "strip_first schemes str = Some r"
proof -
  note ex = literals_exclusive [where str = str and r = r]
  consider "p = ''https://''" | "p = ''http://''" | "p = ''wss://''" | "p = ''ws://''"
    using assms(1) by (auto simp: schemes_def)
  then show ?thesis
  proof cases
    case 1
    then show ?thesis using assms(2) by (simp add: schemes_def)
  next
    case 2
    then have "strip_lit ''https://'' str = None"
      using ex [of "''http''" "CHR '':''" "''//''" "CHR ''s''" "''://''"] assms(2) by simp
    then show ?thesis using assms(2) 2 by (simp add: schemes_def del: strip_lit.simps)
  next
    case 3
    then have "strip_lit ''https://'' str = None" "strip_lit ''http://'' str = None"
      using ex [of "[]" "CHR ''w''" "''ss://''" "CHR ''h''"] assms(2) by simp_all
    then show ?thesis using assms(2) 3 by (simp add: schemes_def del: strip_lit.simps)
  next
    case 4
    then have "strip_lit ''https://'' str = None" "strip_lit ''http://'' str = None"
      using ex [of "[]" "CHR ''w''" "''s://''" "CHR ''h''"] assms(2) by simp_all
    moreover have "strip_lit ''wss://'' str = None"
      using ex [of "''ws''" "CHR '':''" "''//''" "CHR ''s''" "''://''"] assms(2) 4 by simp
    ultimately show ?thesis using assms(2) 4 by (simp add: schemes_def del: strip_lit.simps)
  qed
qed

lemma ReplaceAll_no_match: "rpcURLRegexp (ReplaceAllString str) = None"
proof (rule ccontr)
  assume "rpcURLRegexp (ReplaceAllString str) \<noteq> None"
  then obtain c cs where m: "strip_first schemes (ReplaceAllString str) = Some (c # cs)" "\<not> is_stop c"
    by (auto simp: rpcURLRegexp_def split: option.splits list.splits if_splits)
  have "\<forall>p\<in>set schemes. CHR ''['' \<notin> set p" by (simp add: schemes_def)
  from strip_first_ReplaceAll [OF m(1) this] obtain p r where r: "p \<in> set schemes" "strip_lit p str = Some r" "c # cs = ReplaceAllString r"
    by blast
  then have r1: "strip_first schemes str = Some r" using strip_first_schemes by blast
  from r(3) obtain d ds where d: "r = d # ds" by (cases r) auto
  show False
  proof (cases "is_stop d")
    case True
    then have "c = d" using r(3) d stop_other [of d] regexp_other [of d ds] by simp
    then show False using True m(2) by simp
  next
    case False
    then have "rpcURLRegexp str \<noteq> None" using r1 d by (simp add: rpcURLRegexp_def)
    then obtain xs where "ReplaceAllString str = redacted @ xs" by (cases str) auto
    then show False using m(1) by (simp add: redacted_def schemes_def to_lower_def)
  qed
qed

lemma redacted_everywhere: "\<not> contains_url (ReplaceAllString str)"
proof (induction str rule: ReplaceAllString.induct)
  case (2 c cs)
  then show ?case
    using ReplaceAll_no_match [of "c # cs"] by (auto simp: contains_url_redacted split: option.splits)
qed simp

lemma nothing_to_redact: "\<not> contains_url str \<Longrightarrow> ReplaceAllString str = str"
  by (induction str) (auto split: option.splits)

section \<open>What a URL is\<close>

text \<open>The specification, apart from the matcher: one of the four schemes with each letter in either case (or \<open>s\<close> as the long s),
  \<open>://\<close>, and at least one more byte up to a white space or a quote. Host, port, path, query and user information are all part
  of it.\<close>

definition separator :: "char \<Rightarrow> bool" where
  "separator c \<longleftrightarrow> (of_char c :: nat) \<in> {9, 10, 12, 13, 32, 34, 39}"

definition either_case :: "char \<Rightarrow> char \<Rightarrow> bool" where
  "either_case x c \<longleftrightarrow> c = x \<or> (of_char x :: nat) \<in> {97..122} \<and> (of_char c :: nat) + 32 = of_char x"

inductive spells :: "string \<Rightarrow> string \<Rightarrow> bool" where
  spells_Nil: "spells [] []"
| spells_letter: "either_case x c \<Longrightarrow> spells cs xs \<Longrightarrow> spells (c # cs) (x # xs)"
| spells_long_s: "spells cs xs \<Longrightarrow> spells (CHR 0xC5 # CHR 0xBF # cs) (CHR ''s'' # xs)"

definition url_text :: "string \<Rightarrow> bool" where
  "url_text u \<longleftrightarrow>
     (\<exists>sch name body. u = sch @ ''://'' @ body \<and> spells sch name \<and> name \<in> {''http'', ''https'', ''ws'', ''wss''} \<and>
        body \<noteq> [] \<and> (\<forall>c\<in>set body. \<not> separator c))"

text \<open>A message in pieces: a URL that goes on up to a separator or the end, or a byte.\<close>

datatype piece = Url string | Byte char

fun piece_text :: "piece \<Rightarrow> string" where
  "piece_text (Url u) = u"
| "piece_text (Byte c) = [c]"

fun piece_shown :: "piece \<Rightarrow> string" where
  "piece_shown (Url u) = ''[REDACTED URL]''"
| "piece_shown (Byte c) = [c]"

fun whole_urls :: "piece list \<Rightarrow> bool" where
  "whole_urls [] = True"
| "whole_urls (Byte c # ps) = whole_urls ps"
| "whole_urls (Url u # ps) = (url_text u \<and> (ps = [] \<or> (\<exists>c qs. ps = Byte c # qs \<and> separator c)) \<and> whole_urls ps)"

lemma separator_is_stop: "separator c = is_stop c"
proof -
  have "separator c \<longleftrightarrow> c \<in> char_of ` {9, 10, 12, 13, 32, 34, 39 :: nat}"
    unfolding separator_def by (auto simp: image_iff) (metis char_of_char)+
  also have "char_of ` {9, 10, 12, 13, 32, 34, 39 :: nat} = {CHR 0x09, CHR 0x0A, CHR 0x0C, CHR 0x0D, CHR '' '', CHR 0x22, CHR 0x27}"
    by code_simp
  finally show ?thesis by (simp add: is_stop_def)
qed

lemma to_lower_either_case:
  "to_lower c = x \<Longrightarrow> either_case x c"
  "either_case x c \<Longrightarrow> (of_char x :: nat) \<notin> {65..90} \<Longrightarrow> to_lower c = x"
proof -
  show "either_case x c" if "to_lower c = x"
    using that by (auto simp: to_lower_def either_case_def of_char_of split: if_splits)
  show "to_lower c = x" if "either_case x c" and "(of_char x :: nat) \<notin> {65..90}"
  proof (cases "c = x")
    case True
    then show ?thesis using that(2) unfolding to_lower_def by (simp only: if_False)
  next
    case False
    then have x: "(of_char x :: nat) \<in> {97..122}" "(of_char c :: nat) + 32 = of_char x" using that(1) by (auto simp: either_case_def)
    then have "(of_char c :: nat) \<in> {65..90}" by simp
    then show ?thesis using x(2) by (simp add: to_lower_def)
  qed
qed

definition lowercase :: "string \<Rightarrow> bool" where
  "lowercase p \<longleftrightarrow> (\<forall>x\<in>set p. (of_char x :: nat) \<notin> {65..90} \<and> x \<noteq> CHR 0xC5)"

lemma strip_lit_spells: "strip_lit p str = Some r \<Longrightarrow> \<exists>t. str = t @ r \<and> spells t p"
proof (induction p str rule: strip_lit.induct)
  case (1 str)
  then show ?case by (auto intro: spells_Nil)
next
  case (3 p ps c cs)
  show ?case
  proof (cases "to_lower c = p")
    case True
    then obtain t where "cs = t @ r" "spells t ps" using 3 by auto
    then show ?thesis using to_lower_either_case(1) [OF True] by (auto intro!: exI [of _ "c # t"] spells_letter)
  next
    case False
    then have s: "p = CHR ''s''" "take 2 (c # cs) = long_s" "strip_lit ps (drop 2 (c # cs)) = Some r"
      using 3(3) by (auto split: if_splits)
    then obtain t where t: "drop 2 (c # cs) = t @ r" "spells t ps" using 3(2) False by blast
    have "c # cs = long_s @ t @ r" using s(2) t(1) append_take_drop_id [of 2 "c # cs"] by metis
    then show ?thesis using s(1) t(2) spells_long_s by (auto simp: long_s_def intro!: exI [of _ "long_s @ t"])
  qed
qed auto

lemma spells_strip_lit: "spells t p \<Longrightarrow> lowercase p \<Longrightarrow> strip_lit p (t @ r) = Some r"
proof (induction rule: spells.induct)
  case (spells_letter x c cs xs)
  then have "to_lower c = x" by (intro to_lower_either_case(2)) (auto simp: lowercase_def)
  with spells_letter show ?case by (simp add: lowercase_def)
next
  case (spells_long_s cs xs)
  have "to_lower (CHR 0xC5) \<noteq> CHR ''s''" by code_simp
  with spells_long_s show ?case by (simp add: lowercase_def long_s_def)
qed simp

lemma spells_append: "spells t p \<Longrightarrow> spells u q \<Longrightarrow> spells (t @ u) (p @ q)"
  by (induction rule: spells.induct) (auto intro: spells.intros)

lemma spells_appendE: "spells t (p @ q) \<Longrightarrow> \<exists>t1 t2. t = t1 @ t2 \<and> spells t1 p \<and> spells t2 q"
proof (induction p arbitrary: t)
  case Nil
  then show ?case by (auto intro: spells_Nil)
next
  case (Cons x p)
  from Cons.prems have "spells t (x # (p @ q))" by simp
  then show ?case
  proof (cases rule: spells.cases)
    case (spells_letter c cs)
    from Cons.IH [OF spells_letter(3)] obtain t1 t2 where "cs = t1 @ t2" "spells t1 p" "spells t2 q" by blast
    then show ?thesis using spells_letter(1,2) by (intro exI [of _ "c # t1"] exI [of _ t2]) (auto intro!: spells.intros)
  next
    case (spells_long_s cs)
    from Cons.IH [OF spells_long_s(3)] obtain t1 t2 where "cs = t1 @ t2" "spells t1 p" "spells t2 q" by blast
    then show ?thesis using spells_long_s(1,2) by (intro exI [of _ "CHR 0xC5 # CHR 0xBF # t1"] exI [of _ t2]) (auto intro!: spells.intros)
  qed
qed

lemma spells_colon: "spells t ''://'' \<longleftrightarrow> t = ''://''"
proof
  have one: "either_case x c \<longleftrightarrow> c = x" if "x \<in> {CHR '':'', CHR ''/''}" for x c using that by (auto simp: either_case_def)
  show "t = ''://''" if "spells t ''://''" using that by (auto simp: one elim!: spells.cases)
  show "spells t ''://''" if "t = ''://''" using that by (auto simp: one intro!: spells.intros)
qed

lemma schemes_names: "set schemes = (\<lambda>name. name @ ''://'') ` {''http'', ''https'', ''ws'', ''wss''}"
  by (auto simp: schemes_def)

lemma schemes_lowercase: "p \<in> set schemes \<Longrightarrow> lowercase p"
proof -
  have "\<forall>p\<in>set schemes. lowercase p" unfolding lowercase_def by code_simp
  then show "p \<in> set schemes \<Longrightarrow> lowercase p" by blast
qed

lemma strip_first_member: "strip_first ps str = Some r \<Longrightarrow> \<exists>p\<in>set ps. strip_lit p str = Some r"
  by (induction ps) (auto split: option.splits)

text \<open>A match of the expression is a URL that is followed by a separator or the end; and every URL is matched.\<close>

lemma regexp_url:
  assumes "rpcURLRegexp str = Some rest"
  shows "\<exists>u. str = u @ rest \<and> url_text u \<and> (rest = [] \<or> separator (hd rest))"
proof -
  from assms obtain c cs where m: "strip_first schemes str = Some (c # cs)" "\<not> is_stop c" "rest = dropWhile (\<lambda>c. \<not> is_stop c) cs"
    by (auto simp: rpcURLRegexp_def split: option.splits list.splits if_splits)
  from strip_first_member [OF m(1)] obtain p where p: "p \<in> set schemes" "strip_lit p str = Some (c # cs)" by blast
  from strip_lit_spells [OF p(2)] obtain t where t: "str = t @ c # cs" "spells t p" by blast
  from p(1) obtain name where name: "p = name @ ''://''" "name \<in> {''http'', ''https'', ''ws'', ''wss''}" by (auto simp: schemes_names)
  from spells_appendE [OF t(2) [unfolded name(1)]] obtain sch where sch: "t = sch @ ''://''" "spells sch name"
    by (auto simp: spells_colon)
  let ?body = "c # takeWhile (\<lambda>c. \<not> is_stop c) cs"
  have "str = (sch @ ''://'' @ ?body) @ rest" using t(1) sch(1) m(3) by simp
  moreover have "url_text (sch @ ''://'' @ ?body)"
    unfolding url_text_def using sch(2) name(2) m(2)
    by (intro exI [of _ sch] exI [of _ name] exI [of _ ?body]) (auto simp: separator_is_stop dest: set_takeWhileD)
  moreover have "rest = [] \<or> separator (hd rest)"
    using m(3) hd_dropWhile [of "\<lambda>c. \<not> is_stop c" cs] by (auto simp: separator_is_stop)
  ultimately show ?thesis by blast
qed

lemma url_regexp:
  assumes "url_text u"
  shows "rpcURLRegexp (u @ r) \<noteq> None"
proof -
  from assms obtain sch name body where u: "u = sch @ ''://'' @ body" "spells sch name" "name \<in> {''http'', ''https'', ''ws'', ''wss''}"
    "body \<noteq> []" "\<forall>c\<in>set body. \<not> separator c" unfolding url_text_def by blast
  have p: "name @ ''://'' \<in> set schemes" using u(3) unfolding schemes_names by blast
  have "spells (sch @ ''://'') (name @ ''://'')" by (rule spells_append [OF u(2)]) (simp add: spells_colon)
  from spells_strip_lit [OF this schemes_lowercase [OF p], of "body @ r"]
  have "strip_lit (name @ ''://'') (u @ r) = Some (body @ r)" using u(1) by simp
  from strip_first_schemes [OF p this] show ?thesis
    using u(4,5) by (cases body) (auto simp: rpcURLRegexp_def separator_is_stop)
qed

lemma contains_url_text: "contains_url str \<longleftrightarrow> (\<exists>p u q. str = p @ u @ q \<and> url_text u)"
proof
  show "\<exists>p u q. str = p @ u @ q \<and> url_text u" if "contains_url str"
    using that
  proof (induction str)
    case (Cons c cs)
    show ?case
    proof (cases "rpcURLRegexp (c # cs)")
      case None
      with Cons obtain p u q where "cs = p @ u @ q" "url_text u" by auto
      then show ?thesis by (intro exI [of _ "c # p"] exI [of _ u] exI [of _ q]) simp
    next
      case (Some rest)
      from regexp_url [OF this] show ?thesis by (metis append_Nil)
    qed
  qed simp
  have "contains_url (p @ u @ q)" if "url_text u" for p u q
  proof (induction p)
    case Nil
    have "u \<noteq> []" using that by (auto simp: url_text_def)
    then show ?case using url_regexp [OF that, of q] by (cases u) auto
  qed simp
  then show "contains_url str" if "\<exists>p u q. str = p @ u @ q \<and> url_text u" using that by blast
qed

lemma redacted_pieces:
  "\<exists>ps. str = concat (map piece_text ps) \<and> ReplaceAllString str = concat (map piece_shown ps) \<and> whole_urls ps \<and>
     (\<forall>c cs. str = c # cs \<and> separator c \<longrightarrow> (\<exists>qs. ps = Byte c # qs)) \<and> (str = [] \<longrightarrow> ps = [])"
proof (induction str rule: ReplaceAllString.induct)
  case 1
  show ?case by (intro exI [of _ "[]"]) simp
next
  case (2 c cs)
  show ?case
  proof (cases "rpcURLRegexp (c # cs)")
    case None
    then obtain ps where "cs = concat (map piece_text ps)" "ReplaceAllString cs = concat (map piece_shown ps)" "whole_urls ps"
      using 2(1) [OF None] by blast
    then show ?thesis using None by (intro exI [of _ "Byte c # ps"]) simp
  next
    case (Some rest)
    from 2(2) [OF Some] obtain ps where ps: "rest = concat (map piece_text ps)" "ReplaceAllString rest = concat (map piece_shown ps)"
      "whole_urls ps" "\<forall>d ds. rest = d # ds \<and> separator d \<longrightarrow> (\<exists>qs. ps = Byte d # qs)" "rest = [] \<longrightarrow> ps = []" by blast
    from regexp_url [OF Some] obtain u where u: "c # cs = u @ rest" "url_text u" "rest = [] \<or> separator (hd rest)" by blast
    have "ps = [] \<or> (\<exists>d qs. ps = Byte d # qs \<and> separator d)" using ps(4,5) u(3) by (cases rest) auto
    moreover have "\<not> separator c" using Some stop_other [of c] regexp_other [of c cs] by (auto simp: separator_is_stop)
    ultimately have "whole_urls (Url u # ps) \<and> (\<forall>d ds. c # cs = d # ds \<and> separator d \<longrightarrow> (\<exists>qs. Url u # ps = Byte d # qs))"
      using ps(3) u(2) by simp
    moreover have "ReplaceAllString (c # cs) = concat (map piece_shown (Url u # ps))"
      using Some ps(2) by (simp add: redacted_def)
    moreover have "c # cs = concat (map piece_text (Url u # ps))" using u(1) ps(1) by simp
    ultimately show ?thesis by blast
  qed
qed

section \<open>Properties\<close>

text \<open>C22. A sanitized error shows no URL. Its message is that of the original error in which whole URLs, from the scheme
  to the next white space or quote, are replaced by \<open>[REDACTED URL]\<close> and every other byte stays; no URL is left anywhere in it,
  also not one that the replacement would join together. A URL is \<open>http\<close>, \<open>https\<close>, \<open>ws\<close> or \<open>wss\<close> in letters of either case, \<open>://\<close>,
  and the bytes up to a white space or a quote, at least one. The original error stays reachable, as the cause and for every
  target that \<open>errors.Is\<close> found before.\<close>

theorem sanitized_error_shows_no_url:
  assumes "SanitizeRPCError err = Some s"
  shows "\<exists>e ps. err = Some e \<and> go_Error e = concat (map piece_text ps) \<and> go_Error s = concat (map piece_shown ps) \<and> whole_urls ps \<and>
    (\<nexists>p u q. go_Error s = p @ u @ q \<and> url_text u) \<and>
    Cause s = Some e \<and> (\<forall>target. go_Is e target \<longrightarrow> go_Is s target)"
proof -
  from assms obtain e where e: "err = Some e" "s = sanitizedError e (ReplaceAllString (go_Error e))"
    by (auto simp: SanitizeRPCError_def split: option.splits)
  from redacted_pieces obtain ps where "go_Error e = concat (map piece_text ps)"
    "ReplaceAllString (go_Error e) = concat (map piece_shown ps)" "whole_urls ps" by blast
  moreover have "\<nexists>p u q. ReplaceAllString (go_Error e) = p @ u @ q \<and> url_text u"
    using redacted_everywhere contains_url_text by blast
  ultimately show ?thesis using e by (auto simp: Cause_def)
qed

theorem sanitized_error_shows_no_url_witness:
  "\<exists>s. SanitizeRPCError (Some (WrappedError ''Post HTTPS://k.io/key'' (PlainError ''timeout''))) = Some s \<and>
     go_Error s = ''Post [REDACTED URL] timeout'' \<and> (\<nexists>p u q. go_Error s = p @ u @ q \<and> url_text u) \<and> go_Is s (PlainError ''timeout'')"
proof -
  let ?e = "WrappedError ''Post HTTPS://k.io/key'' (PlainError ''timeout'')"
  have msg: "ReplaceAllString (go_Error ?e) = ''Post [REDACTED URL] timeout''" by code_simp
  have "SanitizeRPCError (Some ?e) = Some (sanitizedError ?e (ReplaceAllString (go_Error ?e)))"
    by (simp only: SanitizeRPCError_def option.case)
  from sanitized_error_shows_no_url [OF this] this msg show ?thesis by auto
qed

end
