(* ===== verification/Metrics_Base.thy ===== *)
theory Metrics_Base
  imports Complex_Main "HOL-Library.Log_Nat" Go_Prelude
begin

text \<open>
  What the packages under \<open>metrics/\<close> use of Prometheus and OpenTelemetry. A call records a sample in each; a sample is the
  series it belongs to and its value, a rational number: \<open>float64\<close> of an integer is rounded to 53 bits. \<open>WithLabelValues\<close> panics
  when the number of values is not that of the labels, and a counter when it would decrease; the meter answers a request for an
  instrument with an error or with the instrument.
\<close>

section \<open>Floating-point values of integers\<close>

text \<open>The quotient rounded to the nearest integer, halves to the even one.\<close>

definition round_even :: "int \<Rightarrow> int \<Rightarrow> int" where
  "round_even n d =
     (let q = n div d; r = n mod d in if 2 * r < d \<or> (2 * r = d \<and> even q) then q else q + 1)"

definition f64 :: "int \<Rightarrow> int" where
  "f64 n = (let d = 2 ^ nat (bitlen \<bar>n\<bar> - 53) in round_even n d * d)"

lemma f64_exact: "\<bar>n\<bar> < 2 ^ 53 \<Longrightarrow> f64 n = n"
proof -
  assume "\<bar>n\<bar> < 2 ^ 53"
  then have "bitlen \<bar>n\<bar> \<le> 53" by (simp add: bitlen_le_iff_power)
  then show ?thesis by (simp add: f64_def round_even_def Let_def)
qed

section \<open>Samples\<close>

datatype prom_kind = PromCounter | PromGauge | PromHistogram

record prom_vec =
  pv_kind :: prom_kind
  pv_name :: string
  pv_labels :: "string list"
  pv_buckets :: "rat list"

datatype otel_kind = Int64Counter | Int64Gauge | Float64Histogram | Float64Gauge

record otel_inst =
  oi_kind :: otel_kind
  oi_name :: string

type_synonym labels = "(string \<times> string) list"

datatype sample =
    PromSample prom_vec labels rat
  | OtelSample otel_inst labels rat

definition prom_record :: "prom_vec \<Rightarrow> string list \<Rightarrow> rat \<Rightarrow> sample list outcome" where
  "prom_record vec vals v =
     (if length vals \<noteq> length (pv_labels vec) then Panic ''inconsistent label cardinality''
      else if pv_kind vec = PromCounter \<and> v < 0 then Panic ''counter cannot decrease in value''
      else Ret [PromSample vec (zip (pv_labels vec) vals) v])"

definition record_both :: "sample list outcome \<Rightarrow> sample \<Rightarrow> sample list outcome" where
  "record_both p s = outcome_bind p (\<lambda>ss. Ret (ss @ [s]))"

text \<open>\<open>prometheus.ExponentialBuckets\<close>.\<close>

definition ExponentialBuckets :: "rat \<Rightarrow> rat \<Rightarrow> nat \<Rightarrow> rat list" where
  "ExponentialBuckets start factor count = map (\<lambda>i. start * factor ^ i) [0..<count]"

section \<open>Instruments\<close>

type_synonym meter = "otel_kind \<Rightarrow> string \<Rightarrow> string option"

type_synonym metric_error = "string \<times> string"

definition register :: "meter \<Rightarrow> otel_kind \<Rightarrow> string \<Rightarrow> string \<Rightarrow> (otel_inst \<Rightarrow> metric_error + 'm) \<Rightarrow> metric_error + 'm" where
  "register meter kind name msg k =
     (case meter kind name of Some err \<Rightarrow> Inl (msg, err) | None \<Rightarrow> k \<lparr>oi_kind = kind, oi_name = name\<rparr>)"

lemma register_Inr: "register meter kind name msg k = Inr m \<longleftrightarrow> meter kind name = None \<and> k \<lparr>oi_kind = kind, oi_name = name\<rparr> = Inr m"
  by (auto simp: register_def split: option.splits)

section \<open>Agreement\<close>

text \<open>What the two systems hold of a call, for the series named \<open>name\<close>: one sample each, of that series, of the same kind and with
  the same value. The labels are the same, but for two series: there the label of the chain is \<open>chainId\<close> in Prometheus and
  \<open>chainID\<close> in OpenTelemetry.\<close>

fun same_kind :: "prom_kind \<Rightarrow> otel_kind \<Rightarrow> bool" where
  "same_kind PromCounter k = (k = Int64Counter)"
| "same_kind PromGauge k = (k = Int64Gauge \<or> k = Float64Gauge)"
| "same_kind PromHistogram k = (k = Float64Histogram)"

definition chainId_series :: "string list" where
  "chainId_series = [''multi_node_states'', ''multi_node_invariant_violations'']"

definition labels_match :: "string \<Rightarrow> labels \<Rightarrow> labels \<Rightarrow> bool" where
  "labels_match name ls as \<longleftrightarrow>
     (if name \<in> set chainId_series
      then ''chainId'' \<in> fst ` set ls \<and> ''chainId'' \<notin> fst ` set as \<and>
           set as = (\<lambda>(k, x). (if k = ''chainId'' then ''chainID'' else k, x)) ` set ls
      else set ls = set as)"

fun samples_of :: "string \<Rightarrow> sample list \<Rightarrow> bool" where
  "samples_of name [PromSample vec ls v, OtelSample inst as w] \<longleftrightarrow>
     pv_name vec = name \<and> oi_name inst = name \<and> same_kind (pv_kind vec) (oi_kind inst) \<and> v = w \<and> labels_match name ls as"
| "samples_of name _ \<longleftrightarrow> False"

lemmas metric_simps = record_both_def prom_record_def labels_match_def chainId_series_def f64_exact

end
