(* ===== verification/Rpc_Metrics.thy ===== *)
theory Rpc_Metrics
  imports Metrics_Base
begin

text \<open>
  \<open>metrics/client.go\<close> and \<open>metrics/sanitize_rpc_url.go\<close>: the latency of RPC calls and the URL they are recorded under. Parsing
  and printing of URLs and SHA-1 are parameters (\<open>url_lib\<close>); of a parsed URL the fields the code looks at are kept, the others
  are in \<open>u_rest\<close>. An error is its message; a quotient of floating-point numbers is not rounded.
\<close>

section \<open>URLs\<close>

record 'r url =
  u_User :: "string option"
  u_Path :: string
  u_RawQuery :: string
  u_rest :: 'r

record 'r url_lib =
  ul_Parse :: "string \<Rightarrow> 'r url option"
  ul_String :: "'r url \<Rightarrow> string"
  ul_sha1 :: "string \<Rightarrow> string"

fun str_contains :: "string \<Rightarrow> string \<Rightarrow> bool" where
  "str_contains pat [] = (pat = [])"
| "str_contains pat (c # cs) = (take (length pat) (c # cs) = pat \<or> str_contains pat cs)"

definition TrimPrefix :: "string \<Rightarrow> string \<Rightarrow> string" where
  "TrimPrefix pre s = (if take (length pre) s = pre then drop (length pre) s else s)"

definition fakeScheme :: string where
  "fakeScheme = ''x://''"

definition sensitive_part :: "'r url \<Rightarrow> string" where
  "sensitive_part u =
     (let sensitive = TrimPrefix ''/'' (u_Path u) in
      if u_RawQuery u = '''' then sensitive
      else if sensitive \<noteq> '''' then sensitive @ ''?'' @ u_RawQuery u
      else u_RawQuery u)"

definition SanitizeRPCURL :: "'r url_lib \<Rightarrow> string \<Rightarrow> string" where
  "SanitizeRPCURL L raw =
     (let raw1 = (if str_contains ''://'' raw then raw else fakeScheme @ raw) in
      case ul_Parse L raw1 of
        None \<Rightarrow> ''invalid_rpc_url''
      | Some u \<Rightarrow>
          if u_User u \<noteq> None then TrimPrefix fakeScheme (ul_String L (u\<lparr>u_User := None\<rparr>))
          else if sensitive_part u = '''' then TrimPrefix fakeScheme (ul_String L u)
          else TrimPrefix fakeScheme (ul_String L (u\<lparr>u_Path := ''/'' @ ul_sha1 L (sensitive_part u), u_RawQuery := ''''\<rparr>)))"

section \<open>Latency of RPC calls\<close>

definition rpcCallLatencyMetricName :: string where
  "rpcCallLatencyMetricName = ''rpc_call_latency''"

definition RPCCallLatency :: prom_vec where
  "RPCCallLatency =
     \<lparr>pv_kind = PromHistogram, pv_name = rpcCallLatencyMetricName,
      pv_labels = [''chainFamily'', ''chainID'', ''rpcUrl'', ''isSendOnly'', ''success'', ''rpcCallName''],
      pv_buckets = [50000000, 100000000, 200000000, 500000000, 1000000000, 2000000000, 4000000000, 8000000000]\<rparr>"

record rpcClientMetrics =
  rm_chainFamily :: string
  rm_chainID :: string
  rm_latencyHis :: otel_inst

definition NewRPCClientMetrics :: "meter \<Rightarrow> string \<Rightarrow> string \<Rightarrow> metric_error + rpcClientMetrics" where
  "NewRPCClientMetrics meter ChainFamily ChainID =
     register meter Float64Histogram rpcCallLatencyMetricName ''failed to register RPC call latency metric'' (\<lambda>latency.
       Inr \<lparr>rm_chainFamily = ChainFamily, rm_chainID = ChainID, rm_latencyHis = latency\<rparr>)"

definition FormatBool :: "bool \<Rightarrow> string" where
  "FormatBool b = (if b then ''true'' else ''false'')"

record rpc_request =
  rr_rpcDomain :: string
  rr_isSendOnly :: bool
  rr_callName :: string
  rr_latency :: int
  rr_err :: "string option"

definition RecordRequest :: "'r url_lib \<Rightarrow> rpcClientMetrics \<Rightarrow> rpc_request \<Rightarrow> sample list outcome" where
  "RecordRequest L m r =
     (let successStr = FormatBool (rr_err r \<noteq> None);
          sendStr = FormatBool (rr_isSendOnly r);
          latencyNs = of_int (f64 (rr_latency r)) :: rat;
          safeRPCURL = SanitizeRPCURL L (rr_rpcDomain r)
      in record_both
           (prom_record RPCCallLatency [rm_chainFamily m, rm_chainID m, safeRPCURL, sendStr, successStr, rr_callName r] latencyNs)
           (OtelSample (rm_latencyHis m)
              [(''chainFamily'', rm_chainFamily m), (''chainID'', rm_chainID m), (''rpcDomain'', safeRPCURL),
               (''isSendOnly'', sendStr), (''success'', successStr), (''callName'', rr_callName r)]
              (latencyNs / 1000000)))"

definition Noop_RecordRequest :: "rpc_request \<Rightarrow> sample list outcome" where
  "Noop_RecordRequest r = Ret []"

section \<open>Lemmas\<close>

fun sample_labels :: "sample \<Rightarrow> labels" where
  "sample_labels (PromSample vec ls v) = ls"
| "sample_labels (OtelSample inst ls v) = ls"

fun from_prom :: "sample \<Rightarrow> bool" where
  "from_prom (PromSample vec ls v) = True"
| "from_prom (OtelSample inst ls v) = False"

fun record_all :: "'r url_lib \<Rightarrow> rpcClientMetrics \<Rightarrow> rpc_request list \<Rightarrow> sample list outcome" where
  "record_all L m [] = Ret []"
| "record_all L m (r # rs) =
     outcome_bind (RecordRequest L m r) (\<lambda>ss. outcome_bind (record_all L m rs) (\<lambda>ts. Ret (ss @ ts)))"

text \<open>The samples of one system that a query selects by the value of the label \<open>success\<close>.\<close>

definition selected :: "bool \<Rightarrow> string \<Rightarrow> sample list \<Rightarrow> sample list" where
  "selected prom v ss = filter (\<lambda>s. from_prom s = prom \<and> (''success'', v) \<in> set (sample_labels s)) ss"

lemma RecordRequest_samples:
  "\<exists>p q. RecordRequest L m r = Ret [p, q] \<and> from_prom p \<and> \<not> from_prom q \<and>
     (\<forall>v. ((''success'', v) \<in> set (sample_labels p)) = (v = FormatBool (rr_err r \<noteq> None))) \<and>
     (\<forall>v. ((''success'', v) \<in> set (sample_labels q)) = (v = FormatBool (rr_err r \<noteq> None)))"
  by (simp add: RecordRequest_def RPCCallLatency_def record_both_def prom_record_def Let_def)

lemma FormatBool_inject [simp]: "FormatBool a = FormatBool b \<longleftrightarrow> a = b"
  by (auto simp: FormatBool_def split: if_splits)

lemma record_all_selected:
  "\<exists>ss. record_all L m rs = Ret ss \<and>
     (\<forall>prom b. length (selected prom (FormatBool b) ss) = length (filter (\<lambda>r. (rr_err r \<noteq> None) = b) rs))"
proof (induction rs)
  case (Cons r rs)
  from RecordRequest_samples [of L m r] obtain p q where pq: "RecordRequest L m r = Ret [p, q]" "from_prom p" "\<not> from_prom q"
    "\<And>v. ((''success'', v) \<in> set (sample_labels p)) = (v = FormatBool (rr_err r \<noteq> None))"
    "\<And>v. ((''success'', v) \<in> set (sample_labels q)) = (v = FormatBool (rr_err r \<noteq> None))" by blast
  from Cons obtain ss where ss: "record_all L m rs = Ret ss"
    "\<And>prom b. length (selected prom (FormatBool b) ss) = length (filter (\<lambda>r. (rr_err r \<noteq> None) = b) rs)" by blast
  have "length (selected prom (FormatBool b) (p # q # ss)) = length (filter (\<lambda>r. (rr_err r \<noteq> None) = b) (r # rs))" for prom b
    using pq(2-) ss(2) [of prom b] by (cases prom; cases b) (auto simp: selected_def)
  then show ?case using pq(1) ss(1) by auto
qed (simp add: selected_def)

text \<open>Without credentials, what is exported depends on path and query only through the hash; credentials are never exported,
  but with them path and query are.\<close>

lemma SanitizeRPCURL_hashes:
  assumes "ul_Parse L raw = Some u" and "ul_Parse L raw' = Some (u\<lparr>u_Path := p, u_RawQuery := q\<rparr>)"
    and "str_contains ''://'' raw" and "str_contains ''://'' raw'" and "u_User u = None"
    and "sensitive_part u \<noteq> ''''" and "sensitive_part (u\<lparr>u_Path := p, u_RawQuery := q\<rparr>) \<noteq> ''''"
    and "ul_sha1 L (sensitive_part u) = ul_sha1 L (sensitive_part (u\<lparr>u_Path := p, u_RawQuery := q\<rparr>))"
  shows "SanitizeRPCURL L raw = SanitizeRPCURL L raw'"
  using assms by (simp add: SanitizeRPCURL_def)

lemma SanitizeRPCURL_keeps_path:
  assumes "ul_Parse L raw = Some u" and "str_contains ''://'' raw" and "u_User u = Some cred"
  shows "SanitizeRPCURL L raw = TrimPrefix fakeScheme (ul_String L (u\<lparr>u_User := None\<rparr>))"
  using assms by (simp add: SanitizeRPCURL_def)

section \<open>Properties\<close>

text \<open>C23. The label \<open>success\<close> of the latency of RPC calls is inverted. Whatever requests are recorded, in Prometheus and in
  OpenTelemetry the samples with \<open>success\<close> equal to \<open>false\<close>, from which the error rate is meant to be derived, are as many as the
  requests that succeeded, and those with \<open>true\<close> as many as the requests that failed.\<close>

theorem error_rate_counts_successes:
  "\<exists>ss. record_all L m rs = Ret ss \<and>
     (\<forall>prom. length (selected prom ''false'' ss) = length (filter (\<lambda>r. rr_err r = None) rs) \<and>
       length (selected prom ''true'' ss) = length (filter (\<lambda>r. rr_err r \<noteq> None) rs))"
proof -
  obtain ss where ss: "record_all L m rs = Ret ss"
    "\<And>prom b. length (selected prom (FormatBool b) ss) = length (filter (\<lambda>r. (rr_err r \<noteq> None) = b) rs)"
    using record_all_selected by blast
  show ?thesis
    using ss(1) ss(2) [where b = False] ss(2) [where b = True] by (auto simp: FormatBool_def)
qed

end
