(* ===== verification/Multinode_Metrics.thy ===== *)
theory Multinode_Metrics
  imports Metrics_Base
begin

text \<open>
  \<open>metrics/multinode.go\<close>: the series of the multi-node client, the construction of their instruments and one definition per
  recording method; \<open>multinode_call\<close> is the interface \<open>GenericMultiNodeMetrics\<close>.
\<close>

definition promMultiNodeRPCNodeStates :: prom_vec where
  "promMultiNodeRPCNodeStates = \<lparr>pv_kind = PromGauge, pv_name = ''multi_node_states'', pv_labels = [''network'', ''chainId'', ''state''],
     pv_buckets = []\<rparr>"

definition promNodeClientVersion :: prom_vec where
  "promNodeClientVersion = \<lparr>pv_kind = PromGauge, pv_name = ''pool_rpc_node_client_version'', pv_labels = [''network'', ''chainID'', ''nodeName'', ''rpcClientVersion''],
     pv_buckets = []\<rparr>"

definition promPoolRPCNodeVerifies :: prom_vec where
  "promPoolRPCNodeVerifies = \<lparr>pv_kind = PromCounter, pv_name = ''pool_rpc_node_verifies'', pv_labels = [''network'', ''chainID'', ''nodeName''],
     pv_buckets = []\<rparr>"

definition promPoolRPCNodeVerifiesFailed :: prom_vec where
  "promPoolRPCNodeVerifiesFailed = \<lparr>pv_kind = PromCounter, pv_name = ''pool_rpc_node_verifies_failed'', pv_labels = [''network'', ''chainID'', ''nodeName''],
     pv_buckets = []\<rparr>"

definition promPoolRPCNodeVerifiesSuccess :: prom_vec where
  "promPoolRPCNodeVerifiesSuccess = \<lparr>pv_kind = PromCounter, pv_name = ''pool_rpc_node_verifies_success'', pv_labels = [''network'', ''chainID'', ''nodeName''],
     pv_buckets = []\<rparr>"

definition promPoolRPCNodeTransitionsToAlive :: prom_vec where
  "promPoolRPCNodeTransitionsToAlive = \<lparr>pv_kind = PromCounter, pv_name = ''pool_rpc_node_num_transitions_to_alive'', pv_labels = [''network'', ''chainID'', ''nodeName''],
     pv_buckets = []\<rparr>"

definition promPoolRPCNodeTransitionsToInSync :: prom_vec where
  "promPoolRPCNodeTransitionsToInSync = \<lparr>pv_kind = PromCounter, pv_name = ''pool_rpc_node_num_transitions_to_in_sync'', pv_labels = [''network'', ''chainID'', ''nodeName''],
     pv_buckets = []\<rparr>"

definition promPoolRPCNodeTransitionsToOutOfSync :: prom_vec where
  "promPoolRPCNodeTransitionsToOutOfSync = \<lparr>pv_kind = PromCounter, pv_name = ''pool_rpc_node_num_transitions_to_out_of_sync'', pv_labels = [''network'', ''chainID'', ''nodeName''],
     pv_buckets = []\<rparr>"

definition promPoolRPCNodeTransitionsToUnreachable :: prom_vec where
  "promPoolRPCNodeTransitionsToUnreachable = \<lparr>pv_kind = PromCounter, pv_name = ''pool_rpc_node_num_transitions_to_unreachable'', pv_labels = [''network'', ''chainID'', ''nodeName''],
     pv_buckets = []\<rparr>"

definition promPoolRPCNodeTransitionsToInvalidChainID :: prom_vec where
  "promPoolRPCNodeTransitionsToInvalidChainID = \<lparr>pv_kind = PromCounter, pv_name = ''pool_rpc_node_num_transitions_to_invalid_chain_id'', pv_labels = [''network'', ''chainID'', ''nodeName''],
     pv_buckets = []\<rparr>"

definition promPoolRPCNodeTransitionsToUnusable :: prom_vec where
  "promPoolRPCNodeTransitionsToUnusable = \<lparr>pv_kind = PromCounter, pv_name = ''pool_rpc_node_num_transitions_to_unusable'', pv_labels = [''network'', ''chainID'', ''nodeName''],
     pv_buckets = []\<rparr>"

definition promPoolRPCNodeTransitionsToSyncing :: prom_vec where
  "promPoolRPCNodeTransitionsToSyncing = \<lparr>pv_kind = PromCounter, pv_name = ''pool_rpc_node_num_transitions_to_syncing'', pv_labels = [''network'', ''chainID'', ''nodeName''],
     pv_buckets = []\<rparr>"

definition promPoolRPCNodeHighestSeenBlock :: prom_vec where
  "promPoolRPCNodeHighestSeenBlock = \<lparr>pv_kind = PromGauge, pv_name = ''pool_rpc_node_highest_seen_block'', pv_labels = [''network'', ''chainID'', ''nodeName''],
     pv_buckets = []\<rparr>"

definition PromPoolRPCNodeHighestFinalizedBlock :: prom_vec where
  "PromPoolRPCNodeHighestFinalizedBlock = \<lparr>pv_kind = PromGauge, pv_name = ''pool_rpc_node_highest_finalized_block'', pv_labels = [''network'', ''chainID'', ''nodeName''],
     pv_buckets = []\<rparr>"

definition promPoolRPCNodeNumSeenBlocks :: prom_vec where
  "promPoolRPCNodeNumSeenBlocks = \<lparr>pv_kind = PromCounter, pv_name = ''pool_rpc_node_num_seen_blocks'', pv_labels = [''network'', ''chainID'', ''nodeName''],
     pv_buckets = []\<rparr>"

definition promPoolRPCNodePolls :: prom_vec where
  "promPoolRPCNodePolls = \<lparr>pv_kind = PromCounter, pv_name = ''pool_rpc_node_polls_total'', pv_labels = [''network'', ''chainID'', ''nodeName''],
     pv_buckets = []\<rparr>"

definition promPoolRPCNodePollsFailed :: prom_vec where
  "promPoolRPCNodePollsFailed = \<lparr>pv_kind = PromCounter, pv_name = ''pool_rpc_node_polls_failed'', pv_labels = [''network'', ''chainID'', ''nodeName''],
     pv_buckets = []\<rparr>"

definition promPoolRPCNodePollsSuccess :: prom_vec where
  "promPoolRPCNodePollsSuccess = \<lparr>pv_kind = PromCounter, pv_name = ''pool_rpc_node_polls_success'', pv_labels = [''network'', ''chainID'', ''nodeName''],
     pv_buckets = []\<rparr>"

definition promPoolRPCNodeFinalizedStateFailed :: prom_vec where
  "promPoolRPCNodeFinalizedStateFailed = \<lparr>pv_kind = PromCounter, pv_name = ''pool_rpc_node_finalized_state_failed'', pv_labels = [''network'', ''chainID'', ''nodeName''],
     pv_buckets = []\<rparr>"

definition promPoolRPCNodeTransitionsToFinalizedStateNotAvailable :: prom_vec where
  "promPoolRPCNodeTransitionsToFinalizedStateNotAvailable = \<lparr>pv_kind = PromCounter, pv_name = ''pool_rpc_node_num_transitions_to_finalized_state_not_available'', pv_labels = [''network'', ''chainID'', ''nodeName''],
     pv_buckets = []\<rparr>"

definition promMultiNodeInvariantViolations :: prom_vec where
  "promMultiNodeInvariantViolations = \<lparr>pv_kind = PromCounter, pv_name = ''multi_node_invariant_violations'', pv_labels = [''network'', ''chainId'', ''invariant''],
     pv_buckets = []\<rparr>"

lemmas mm_vecs = promMultiNodeRPCNodeStates_def promNodeClientVersion_def promPoolRPCNodeVerifies_def promPoolRPCNodeVerifiesFailed_def promPoolRPCNodeVerifiesSuccess_def promPoolRPCNodeTransitionsToAlive_def promPoolRPCNodeTransitionsToInSync_def promPoolRPCNodeTransitionsToOutOfSync_def promPoolRPCNodeTransitionsToUnreachable_def promPoolRPCNodeTransitionsToInvalidChainID_def promPoolRPCNodeTransitionsToUnusable_def promPoolRPCNodeTransitionsToSyncing_def promPoolRPCNodeHighestSeenBlock_def PromPoolRPCNodeHighestFinalizedBlock_def promPoolRPCNodeNumSeenBlocks_def promPoolRPCNodePolls_def promPoolRPCNodePollsFailed_def promPoolRPCNodePollsSuccess_def promPoolRPCNodeFinalizedStateFailed_def promPoolRPCNodeTransitionsToFinalizedStateNotAvailable_def promMultiNodeInvariantViolations_def

record multiNodeMetrics =
  mm_network :: string
  mm_chainID :: string
  mm_nodeStates :: otel_inst
  mm_nodeClientVersion :: otel_inst
  mm_nodeVerifies :: otel_inst
  mm_nodeVerifiesFailed :: otel_inst
  mm_nodeVerifiesSuccess :: otel_inst
  mm_nodeTransitionsToAlive :: otel_inst
  mm_nodeTransitionsToInSync :: otel_inst
  mm_nodeTransitionsToOutOfSync :: otel_inst
  mm_nodeTransitionsToUnreachable :: otel_inst
  mm_nodeTransitionsToInvalidChainID :: otel_inst
  mm_nodeTransitionsToUnusable :: otel_inst
  mm_nodeTransitionsToSyncing :: otel_inst
  mm_highestSeenBlock :: otel_inst
  mm_highestFinalizedBlock :: otel_inst
  mm_seenBlocks :: otel_inst
  mm_polls :: otel_inst
  mm_pollsFailed :: otel_inst
  mm_pollsSuccess :: otel_inst
  mm_finalizedStateFailed :: otel_inst
  mm_nodeTransitionsToFinalizedStateNotAvailable :: otel_inst
  mm_invariantViolations :: otel_inst

definition NewGenericMultiNodeMetrics :: "meter \<Rightarrow> string \<Rightarrow> string \<Rightarrow> metric_error + multiNodeMetrics" where
  "NewGenericMultiNodeMetrics meter network chainID =
     register meter Int64Gauge ''multi_node_states''
       ''failed to register multinode states metric'' (\<lambda>nodeStates.
     register meter Int64Gauge ''pool_rpc_node_client_version''
       ''failed to register client version metric'' (\<lambda>nodeClientVersion.
     register meter Int64Counter ''pool_rpc_node_verifies''
       ''failed to register node verifies metric'' (\<lambda>nodeVerifies.
     register meter Int64Counter ''pool_rpc_node_verifies_failed''
       ''failed to register node verifies failed metric'' (\<lambda>nodeVerifiesFailed.
     register meter Int64Counter ''pool_rpc_node_verifies_success''
       ''failed to register node verifies success metric'' (\<lambda>nodeVerifiesSuccess.
     register meter Int64Counter ''pool_rpc_node_num_transitions_to_alive''
       ''failed to register node transitions to alive metric'' (\<lambda>nodeTransitionsToAlive.
     register meter Int64Counter ''pool_rpc_node_num_transitions_to_in_sync''
       ''failed to register node transitions to in sync metric'' (\<lambda>nodeTransitionsToInSync.
     register meter Int64Counter ''pool_rpc_node_num_transitions_to_out_of_sync''
       ''failed to register node transitions to out of sync metric'' (\<lambda>nodeTransitionsToOutOfSync.
     register meter Int64Counter ''pool_rpc_node_num_transitions_to_unreachable''
       ''failed to register node transitions to unreachable metric'' (\<lambda>nodeTransitionsToUnreachable.
     register meter Int64Counter ''pool_rpc_node_num_transitions_to_invalid_chain_id''
       ''failed to register node transitions to invalid chain id metric'' (\<lambda>nodeTransitionsToInvalidChainID.
     register meter Int64Counter ''pool_rpc_node_num_transitions_to_unusable''
       ''failed to register node transitions to unusable metric'' (\<lambda>nodeTransitionsToUnusable.
     register meter Int64Counter ''pool_rpc_node_num_transitions_to_syncing''
       ''failed to register node transitions to syncing metric'' (\<lambda>nodeTransitionsToSyncing.
     register meter Int64Gauge ''pool_rpc_node_highest_seen_block''
       ''failed to register highest seen block metric'' (\<lambda>highestSeenBlock.
     register meter Int64Gauge ''pool_rpc_node_highest_finalized_block''
       ''failed to register highest finalized block metric'' (\<lambda>highestFinalizedBlock.
     register meter Int64Counter ''pool_rpc_node_num_seen_blocks''
       ''failed to register seen blocks counter'' (\<lambda>seenBlocks.
     register meter Int64Counter ''pool_rpc_node_polls_total''
       ''failed to register node polls metric'' (\<lambda>polls.
     register meter Int64Counter ''pool_rpc_node_polls_failed''
       ''failed to register node polls failed metric'' (\<lambda>pollsFailed.
     register meter Int64Counter ''pool_rpc_node_polls_success''
       ''failed to register node polls success metric'' (\<lambda>pollsSuccess.
     register meter Int64Counter ''pool_rpc_node_finalized_state_failed''
       ''failed to register finalized state failed metric'' (\<lambda>finalizedStateFailed.
     register meter Int64Counter ''pool_rpc_node_num_transitions_to_finalized_state_not_available''
       ''failed to register node transitions to finalized state not available metric'' (\<lambda>nodeTransitionsToFinalizedStateNotAvailable.
     register meter Int64Counter ''multi_node_invariant_violations''
       ''failed to register invariant violations metric'' (\<lambda>invariantViolations.
     Inr \<lparr>mm_network = network, mm_chainID = chainID, mm_nodeStates = nodeStates, mm_nodeClientVersion = nodeClientVersion, mm_nodeVerifies = nodeVerifies, mm_nodeVerifiesFailed = nodeVerifiesFailed, mm_nodeVerifiesSuccess = nodeVerifiesSuccess, mm_nodeTransitionsToAlive = nodeTransitionsToAlive, mm_nodeTransitionsToInSync = nodeTransitionsToInSync, mm_nodeTransitionsToOutOfSync = nodeTransitionsToOutOfSync, mm_nodeTransitionsToUnreachable = nodeTransitionsToUnreachable, mm_nodeTransitionsToInvalidChainID = nodeTransitionsToInvalidChainID, mm_nodeTransitionsToUnusable = nodeTransitionsToUnusable, mm_nodeTransitionsToSyncing = nodeTransitionsToSyncing, mm_highestSeenBlock = highestSeenBlock, mm_highestFinalizedBlock = highestFinalizedBlock, mm_seenBlocks = seenBlocks, mm_polls = polls, mm_pollsFailed = pollsFailed, mm_pollsSuccess = pollsSuccess, mm_finalizedStateFailed = finalizedStateFailed, mm_nodeTransitionsToFinalizedStateNotAvailable = nodeTransitionsToFinalizedStateNotAvailable, mm_invariantViolations = invariantViolations\<rparr>)))))))))))))))))))))"

definition RecordNodeStates :: "multiNodeMetrics \<Rightarrow> string \<Rightarrow> int \<Rightarrow> sample list outcome" where
  "RecordNodeStates m state count =
     record_both (prom_record promMultiNodeRPCNodeStates [mm_network m, mm_chainID m, state] (of_int (f64 count)))
       (OtelSample (mm_nodeStates m) [(''network'', mm_network m), (''chainID'', mm_chainID m), (''state'', state)] (of_int count))"

definition RecordNodeClientVersion :: "multiNodeMetrics \<Rightarrow> string \<Rightarrow> string \<Rightarrow> sample list outcome" where
  "RecordNodeClientVersion m nodeName version =
     record_both (prom_record promNodeClientVersion [mm_network m, mm_chainID m, nodeName, version] (1))
       (OtelSample (mm_nodeClientVersion m) [(''network'', mm_network m), (''chainID'', mm_chainID m), (''nodeName'', nodeName), (''rpcClientVersion'', version)] (1))"

definition IncrementNodeVerifies :: "multiNodeMetrics \<Rightarrow> string \<Rightarrow> sample list outcome" where
  "IncrementNodeVerifies m nodeName =
     record_both (prom_record promPoolRPCNodeVerifies [mm_network m, mm_chainID m, nodeName] (1))
       (OtelSample (mm_nodeVerifies m) [(''network'', mm_network m), (''chainID'', mm_chainID m), (''nodeName'', nodeName)] (1))"

definition IncrementNodeVerifiesFailed :: "multiNodeMetrics \<Rightarrow> string \<Rightarrow> sample list outcome" where
  "IncrementNodeVerifiesFailed m nodeName =
     record_both (prom_record promPoolRPCNodeVerifiesFailed [mm_network m, mm_chainID m, nodeName] (1))
       (OtelSample (mm_nodeVerifiesFailed m) [(''network'', mm_network m), (''chainID'', mm_chainID m), (''nodeName'', nodeName)] (1))"

definition IncrementNodeVerifiesSuccess :: "multiNodeMetrics \<Rightarrow> string \<Rightarrow> sample list outcome" where
  "IncrementNodeVerifiesSuccess m nodeName =
     record_both (prom_record promPoolRPCNodeVerifiesSuccess [mm_network m, mm_chainID m, nodeName] (1))
       (OtelSample (mm_nodeVerifiesSuccess m) [(''network'', mm_network m), (''chainID'', mm_chainID m), (''nodeName'', nodeName)] (1))"

definition IncrementNodeTransitionsToAlive :: "multiNodeMetrics \<Rightarrow> string \<Rightarrow> sample list outcome" where
  "IncrementNodeTransitionsToAlive m nodeName =
     record_both (prom_record promPoolRPCNodeTransitionsToAlive [mm_network m, mm_chainID m, nodeName] (1))
       (OtelSample (mm_nodeTransitionsToAlive m) [(''network'', mm_network m), (''chainID'', mm_chainID m), (''nodeName'', nodeName)] (1))"

definition IncrementNodeTransitionsToInSync :: "multiNodeMetrics \<Rightarrow> string \<Rightarrow> sample list outcome" where
  "IncrementNodeTransitionsToInSync m nodeName =
     record_both (prom_record promPoolRPCNodeTransitionsToInSync [mm_network m, mm_chainID m, nodeName] (1))
       (OtelSample (mm_nodeTransitionsToInSync m) [(''network'', mm_network m), (''chainID'', mm_chainID m), (''nodeName'', nodeName)] (1))"

definition IncrementNodeTransitionsToOutOfSync :: "multiNodeMetrics \<Rightarrow> string \<Rightarrow> sample list outcome" where
  "IncrementNodeTransitionsToOutOfSync m nodeName =
     record_both (prom_record promPoolRPCNodeTransitionsToOutOfSync [mm_network m, mm_chainID m, nodeName] (1))
       (OtelSample (mm_nodeTransitionsToOutOfSync m) [(''network'', mm_network m), (''chainID'', mm_chainID m), (''nodeName'', nodeName)] (1))"

definition IncrementNodeTransitionsToUnreachable :: "multiNodeMetrics \<Rightarrow> string \<Rightarrow> sample list outcome" where
  "IncrementNodeTransitionsToUnreachable m nodeName =
     record_both (prom_record promPoolRPCNodeTransitionsToUnreachable [mm_network m, mm_chainID m, nodeName] (1))
       (OtelSample (mm_nodeTransitionsToUnreachable m) [(''network'', mm_network m), (''chainID'', mm_chainID m), (''nodeName'', nodeName)] (1))"

definition IncrementNodeTransitionsToInvalidChainID :: "multiNodeMetrics \<Rightarrow> string \<Rightarrow> sample list outcome" where
  "IncrementNodeTransitionsToInvalidChainID m nodeName =
     record_both (prom_record promPoolRPCNodeTransitionsToInvalidChainID [mm_network m, mm_chainID m, nodeName] (1))
       (OtelSample (mm_nodeTransitionsToInvalidChainID m) [(''network'', mm_network m), (''chainID'', mm_chainID m), (''nodeName'', nodeName)] (1))"

definition IncrementNodeTransitionsToUnusable :: "multiNodeMetrics \<Rightarrow> string \<Rightarrow> sample list outcome" where
  "IncrementNodeTransitionsToUnusable m nodeName =
     record_both (prom_record promPoolRPCNodeTransitionsToUnusable [mm_network m, mm_chainID m, nodeName] (1))
       (OtelSample (mm_nodeTransitionsToUnusable m) [(''network'', mm_network m), (''chainID'', mm_chainID m), (''nodeName'', nodeName)] (1))"

definition IncrementNodeTransitionsToSyncing :: "multiNodeMetrics \<Rightarrow> string \<Rightarrow> sample list outcome" where
  "IncrementNodeTransitionsToSyncing m nodeName =
     record_both (prom_record promPoolRPCNodeTransitionsToSyncing [mm_network m, mm_chainID m, nodeName] (1))
       (OtelSample (mm_nodeTransitionsToSyncing m) [(''network'', mm_network m), (''chainID'', mm_chainID m), (''nodeName'', nodeName)] (1))"

definition SetHighestSeenBlock :: "multiNodeMetrics \<Rightarrow> string \<Rightarrow> int \<Rightarrow> sample list outcome" where
  "SetHighestSeenBlock m nodeName blockNumber =
     record_both (prom_record promPoolRPCNodeHighestSeenBlock [mm_network m, mm_chainID m, nodeName] (of_int (f64 blockNumber)))
       (OtelSample (mm_highestSeenBlock m) [(''network'', mm_network m), (''chainID'', mm_chainID m), (''nodeName'', nodeName)] (of_int blockNumber))"

definition SetHighestFinalizedBlock :: "multiNodeMetrics \<Rightarrow> string \<Rightarrow> int \<Rightarrow> sample list outcome" where
  "SetHighestFinalizedBlock m nodeName blockNumber =
     record_both (prom_record PromPoolRPCNodeHighestFinalizedBlock [mm_network m, mm_chainID m, nodeName] (of_int (f64 blockNumber)))
       (OtelSample (mm_highestFinalizedBlock m) [(''network'', mm_network m), (''chainID'', mm_chainID m), (''nodeName'', nodeName)] (of_int blockNumber))"

definition IncrementSeenBlocks :: "multiNodeMetrics \<Rightarrow> string \<Rightarrow> sample list outcome" where
  "IncrementSeenBlocks m nodeName =
     record_both (prom_record promPoolRPCNodeNumSeenBlocks [mm_network m, mm_chainID m, nodeName] (1))
       (OtelSample (mm_seenBlocks m) [(''network'', mm_network m), (''chainID'', mm_chainID m), (''nodeName'', nodeName)] (1))"

definition IncrementPolls :: "multiNodeMetrics \<Rightarrow> string \<Rightarrow> sample list outcome" where
  "IncrementPolls m nodeName =
     record_both (prom_record promPoolRPCNodePolls [mm_network m, mm_chainID m, nodeName] (1))
       (OtelSample (mm_polls m) [(''network'', mm_network m), (''chainID'', mm_chainID m), (''nodeName'', nodeName)] (1))"

definition IncrementPollsFailed :: "multiNodeMetrics \<Rightarrow> string \<Rightarrow> sample list outcome" where
  "IncrementPollsFailed m nodeName =
     record_both (prom_record promPoolRPCNodePollsFailed [mm_network m, mm_chainID m, nodeName] (1))
       (OtelSample (mm_pollsFailed m) [(''network'', mm_network m), (''chainID'', mm_chainID m), (''nodeName'', nodeName)] (1))"

definition IncrementPollsSuccess :: "multiNodeMetrics \<Rightarrow> string \<Rightarrow> sample list outcome" where
  "IncrementPollsSuccess m nodeName =
     record_both (prom_record promPoolRPCNodePollsSuccess [mm_network m, mm_chainID m, nodeName] (1))
       (OtelSample (mm_pollsSuccess m) [(''network'', mm_network m), (''chainID'', mm_chainID m), (''nodeName'', nodeName)] (1))"

definition IncrementFinalizedStateFailed :: "multiNodeMetrics \<Rightarrow> string \<Rightarrow> sample list outcome" where
  "IncrementFinalizedStateFailed m nodeName =
     record_both (prom_record promPoolRPCNodeFinalizedStateFailed [mm_network m, mm_chainID m, nodeName] (1))
       (OtelSample (mm_finalizedStateFailed m) [(''network'', mm_network m), (''chainID'', mm_chainID m), (''nodeName'', nodeName)] (1))"

definition IncrementNodeTransitionsToFinalizedStateNotAvailable :: "multiNodeMetrics \<Rightarrow> string \<Rightarrow> sample list outcome" where
  "IncrementNodeTransitionsToFinalizedStateNotAvailable m nodeName =
     record_both (prom_record promPoolRPCNodeTransitionsToFinalizedStateNotAvailable [mm_network m, mm_chainID m, nodeName] (1))
       (OtelSample (mm_nodeTransitionsToFinalizedStateNotAvailable m) [(''network'', mm_network m), (''chainID'', mm_chainID m), (''nodeName'', nodeName)] (1))"

definition IncrementInvariantViolations :: "multiNodeMetrics \<Rightarrow> string \<Rightarrow> sample list outcome" where
  "IncrementInvariantViolations m invariant =
     record_both (prom_record promMultiNodeInvariantViolations [mm_network m, mm_chainID m, invariant] (1))
       (OtelSample (mm_invariantViolations m) [(''network'', mm_network m), (''chainID'', mm_chainID m), (''invariant'', invariant)] (1))"

datatype multinode_call =
    MnRecordNodeStates string int
  | MnRecordNodeClientVersion string string
  | MnIncrementNodeVerifies string
  | MnIncrementNodeVerifiesFailed string
  | MnIncrementNodeVerifiesSuccess string
  | MnIncrementNodeTransitionsToAlive string
  | MnIncrementNodeTransitionsToInSync string
  | MnIncrementNodeTransitionsToOutOfSync string
  | MnIncrementNodeTransitionsToUnreachable string
  | MnIncrementNodeTransitionsToInvalidChainID string
  | MnIncrementNodeTransitionsToUnusable string
  | MnIncrementNodeTransitionsToSyncing string
  | MnSetHighestSeenBlock string int
  | MnSetHighestFinalizedBlock string int
  | MnIncrementSeenBlocks string
  | MnIncrementPolls string
  | MnIncrementPollsFailed string
  | MnIncrementPollsSuccess string
  | MnIncrementFinalizedStateFailed string
  | MnIncrementNodeTransitionsToFinalizedStateNotAvailable string
  | MnIncrementInvariantViolations string

fun run_multinode :: "multiNodeMetrics \<Rightarrow> multinode_call \<Rightarrow> sample list outcome" where
  "run_multinode m (MnRecordNodeStates state count) = RecordNodeStates m state count"
| "run_multinode m (MnRecordNodeClientVersion nodeName version) = RecordNodeClientVersion m nodeName version"
| "run_multinode m (MnIncrementNodeVerifies nodeName) = IncrementNodeVerifies m nodeName"
| "run_multinode m (MnIncrementNodeVerifiesFailed nodeName) = IncrementNodeVerifiesFailed m nodeName"
| "run_multinode m (MnIncrementNodeVerifiesSuccess nodeName) = IncrementNodeVerifiesSuccess m nodeName"
| "run_multinode m (MnIncrementNodeTransitionsToAlive nodeName) = IncrementNodeTransitionsToAlive m nodeName"
| "run_multinode m (MnIncrementNodeTransitionsToInSync nodeName) = IncrementNodeTransitionsToInSync m nodeName"
| "run_multinode m (MnIncrementNodeTransitionsToOutOfSync nodeName) = IncrementNodeTransitionsToOutOfSync m nodeName"
| "run_multinode m (MnIncrementNodeTransitionsToUnreachable nodeName) = IncrementNodeTransitionsToUnreachable m nodeName"
| "run_multinode m (MnIncrementNodeTransitionsToInvalidChainID nodeName) = IncrementNodeTransitionsToInvalidChainID m nodeName"
| "run_multinode m (MnIncrementNodeTransitionsToUnusable nodeName) = IncrementNodeTransitionsToUnusable m nodeName"
| "run_multinode m (MnIncrementNodeTransitionsToSyncing nodeName) = IncrementNodeTransitionsToSyncing m nodeName"
| "run_multinode m (MnSetHighestSeenBlock nodeName blockNumber) = SetHighestSeenBlock m nodeName blockNumber"
| "run_multinode m (MnSetHighestFinalizedBlock nodeName blockNumber) = SetHighestFinalizedBlock m nodeName blockNumber"
| "run_multinode m (MnIncrementSeenBlocks nodeName) = IncrementSeenBlocks m nodeName"
| "run_multinode m (MnIncrementPolls nodeName) = IncrementPolls m nodeName"
| "run_multinode m (MnIncrementPollsFailed nodeName) = IncrementPollsFailed m nodeName"
| "run_multinode m (MnIncrementPollsSuccess nodeName) = IncrementPollsSuccess m nodeName"
| "run_multinode m (MnIncrementFinalizedStateFailed nodeName) = IncrementFinalizedStateFailed m nodeName"
| "run_multinode m (MnIncrementNodeTransitionsToFinalizedStateNotAvailable nodeName) = IncrementNodeTransitionsToFinalizedStateNotAvailable m nodeName"
| "run_multinode m (MnIncrementInvariantViolations invariant) = IncrementInvariantViolations m invariant"

lemmas mm_methods = RecordNodeStates_def RecordNodeClientVersion_def IncrementNodeVerifies_def IncrementNodeVerifiesFailed_def IncrementNodeVerifiesSuccess_def IncrementNodeTransitionsToAlive_def IncrementNodeTransitionsToInSync_def IncrementNodeTransitionsToOutOfSync_def IncrementNodeTransitionsToUnreachable_def IncrementNodeTransitionsToInvalidChainID_def IncrementNodeTransitionsToUnusable_def IncrementNodeTransitionsToSyncing_def SetHighestSeenBlock_def SetHighestFinalizedBlock_def IncrementSeenBlocks_def IncrementPolls_def IncrementPollsFailed_def IncrementPollsSuccess_def IncrementFinalizedStateFailed_def IncrementNodeTransitionsToFinalizedStateNotAvailable_def IncrementInvariantViolations_def

section \<open>Lemmas\<close>

text \<open>The integers of a call.\<close>

fun multinode_ints :: "multinode_call \<Rightarrow> int list" where
  "multinode_ints (MnRecordNodeStates state count) = [count]"
| "multinode_ints (MnSetHighestSeenBlock nodeName blockNumber) = [blockNumber]"
| "multinode_ints (MnSetHighestFinalizedBlock nodeName blockNumber) = [blockNumber]"
| "multinode_ints _ = []"

lemma mm_built:
  "NewGenericMultiNodeMetrics meter network chainID = Inr m \<Longrightarrow>
   m = \<lparr>mm_network = network,
     mm_chainID = chainID,
     mm_nodeStates = \<lparr>oi_kind = Int64Gauge, oi_name = ''multi_node_states''\<rparr>,
     mm_nodeClientVersion = \<lparr>oi_kind = Int64Gauge, oi_name = ''pool_rpc_node_client_version''\<rparr>,
     mm_nodeVerifies = \<lparr>oi_kind = Int64Counter, oi_name = ''pool_rpc_node_verifies''\<rparr>,
     mm_nodeVerifiesFailed = \<lparr>oi_kind = Int64Counter, oi_name = ''pool_rpc_node_verifies_failed''\<rparr>,
     mm_nodeVerifiesSuccess = \<lparr>oi_kind = Int64Counter, oi_name = ''pool_rpc_node_verifies_success''\<rparr>,
     mm_nodeTransitionsToAlive = \<lparr>oi_kind = Int64Counter, oi_name = ''pool_rpc_node_num_transitions_to_alive''\<rparr>,
     mm_nodeTransitionsToInSync = \<lparr>oi_kind = Int64Counter, oi_name = ''pool_rpc_node_num_transitions_to_in_sync''\<rparr>,
     mm_nodeTransitionsToOutOfSync = \<lparr>oi_kind = Int64Counter, oi_name = ''pool_rpc_node_num_transitions_to_out_of_sync''\<rparr>,
     mm_nodeTransitionsToUnreachable = \<lparr>oi_kind = Int64Counter, oi_name = ''pool_rpc_node_num_transitions_to_unreachable''\<rparr>,
     mm_nodeTransitionsToInvalidChainID = \<lparr>oi_kind = Int64Counter, oi_name = ''pool_rpc_node_num_transitions_to_invalid_chain_id''\<rparr>,
     mm_nodeTransitionsToUnusable = \<lparr>oi_kind = Int64Counter, oi_name = ''pool_rpc_node_num_transitions_to_unusable''\<rparr>,
     mm_nodeTransitionsToSyncing = \<lparr>oi_kind = Int64Counter, oi_name = ''pool_rpc_node_num_transitions_to_syncing''\<rparr>,
     mm_highestSeenBlock = \<lparr>oi_kind = Int64Gauge, oi_name = ''pool_rpc_node_highest_seen_block''\<rparr>,
     mm_highestFinalizedBlock = \<lparr>oi_kind = Int64Gauge, oi_name = ''pool_rpc_node_highest_finalized_block''\<rparr>,
     mm_seenBlocks = \<lparr>oi_kind = Int64Counter, oi_name = ''pool_rpc_node_num_seen_blocks''\<rparr>,
     mm_polls = \<lparr>oi_kind = Int64Counter, oi_name = ''pool_rpc_node_polls_total''\<rparr>,
     mm_pollsFailed = \<lparr>oi_kind = Int64Counter, oi_name = ''pool_rpc_node_polls_failed''\<rparr>,
     mm_pollsSuccess = \<lparr>oi_kind = Int64Counter, oi_name = ''pool_rpc_node_polls_success''\<rparr>,
     mm_finalizedStateFailed = \<lparr>oi_kind = Int64Counter, oi_name = ''pool_rpc_node_finalized_state_failed''\<rparr>,
     mm_nodeTransitionsToFinalizedStateNotAvailable = \<lparr>oi_kind = Int64Counter, oi_name = ''pool_rpc_node_num_transitions_to_finalized_state_not_available''\<rparr>,
     mm_invariantViolations = \<lparr>oi_kind = Int64Counter, oi_name = ''multi_node_invariant_violations''\<rparr>\<rparr>"
  by (simp add: NewGenericMultiNodeMetrics_def register_Inr)

text \<open>The series of a call, by its meaning.\<close>

fun multinode_series :: "multinode_call \<Rightarrow> string" where
  "multinode_series (MnRecordNodeStates s n) = ''multi_node_states''"
| "multinode_series (MnRecordNodeClientVersion n v) = ''pool_rpc_node_client_version''"
| "multinode_series (MnIncrementNodeVerifies n) = ''pool_rpc_node_verifies''"
| "multinode_series (MnIncrementNodeVerifiesFailed n) = ''pool_rpc_node_verifies_failed''"
| "multinode_series (MnIncrementNodeVerifiesSuccess n) = ''pool_rpc_node_verifies_success''"
| "multinode_series (MnIncrementNodeTransitionsToAlive n) = ''pool_rpc_node_num_transitions_to_alive''"
| "multinode_series (MnIncrementNodeTransitionsToInSync n) = ''pool_rpc_node_num_transitions_to_in_sync''"
| "multinode_series (MnIncrementNodeTransitionsToOutOfSync n) = ''pool_rpc_node_num_transitions_to_out_of_sync''"
| "multinode_series (MnIncrementNodeTransitionsToUnreachable n) = ''pool_rpc_node_num_transitions_to_unreachable''"
| "multinode_series (MnIncrementNodeTransitionsToInvalidChainID n) = ''pool_rpc_node_num_transitions_to_invalid_chain_id''"
| "multinode_series (MnIncrementNodeTransitionsToUnusable n) = ''pool_rpc_node_num_transitions_to_unusable''"
| "multinode_series (MnIncrementNodeTransitionsToSyncing n) = ''pool_rpc_node_num_transitions_to_syncing''"
| "multinode_series (MnSetHighestSeenBlock n b) = ''pool_rpc_node_highest_seen_block''"
| "multinode_series (MnSetHighestFinalizedBlock n b) = ''pool_rpc_node_highest_finalized_block''"
| "multinode_series (MnIncrementSeenBlocks n) = ''pool_rpc_node_num_seen_blocks''"
| "multinode_series (MnIncrementPolls n) = ''pool_rpc_node_polls_total''"
| "multinode_series (MnIncrementPollsFailed n) = ''pool_rpc_node_polls_failed''"
| "multinode_series (MnIncrementPollsSuccess n) = ''pool_rpc_node_polls_success''"
| "multinode_series (MnIncrementFinalizedStateFailed n) = ''pool_rpc_node_finalized_state_failed''"
| "multinode_series (MnIncrementNodeTransitionsToFinalizedStateNotAvailable n) = ''pool_rpc_node_num_transitions_to_finalized_state_not_available''"
| "multinode_series (MnIncrementInvariantViolations i) = ''multi_node_invariant_violations''"

lemma multinode_agree:
  assumes "NewGenericMultiNodeMetrics meter network chainID = Inr m" and "\<forall>n\<in>set (multinode_ints call). \<bar>n\<bar> < 2 ^ 53"
  shows "\<exists>ss. run_multinode m call = Ret ss \<and> samples_of (multinode_series call) ss"
proof -
  note m = mm_built [OF assms(1)]
  show ?thesis using assms(2) m by (cases call) (simp_all add: mm_methods mm_vecs metric_simps)
qed

end
