(* ===== verification/Service_Metrics.thy ===== *)
theory Service_Metrics
  imports Multinode_Metrics
begin

text \<open>
  \<open>metrics/txm.go\<close>, \<open>metrics/logpoller.go\<close> and \<open>metrics/balance.go\<close>: the series of the transaction manager, of log pollers and of
  balances, like those of the multi-node client in \<open>Multinode_Metrics\<close>, and what holds for all of them.
\<close>

section \<open>Transaction manager\<close>























section \<open>Log poller\<close>

text \<open>A query type is any string; three are named.\<close>

type_synonym QueryType = string

definition Create :: QueryType where
  "Create = ''create''"

definition Read :: QueryType where
  "Read = ''read''"

definition Del :: QueryType where
  "Del = ''delete''"


















section \<open>Balances\<close>









section \<open>All of them\<close>
















section \<open>Properties\<close>




end
