(* ===== verification/Wt_Instruments.thy ===== *)
theory Wt_Instruments
  imports Wt_Monitor Metrics_Base
begin

text \<open>
  The instruments behind the metrics of the write target: \<open>beholder/common.go\<close>, and \<open>NewMetrics\<close> of \<open>pb/platform/metrics.go\<close>,
  \<open>pb/platform/on-chain/forwarder/metrics.go\<close> and \<open>pb/data-feeds/on-chain/registry/metrics.go\<close>, with the metrics of the last one's
  message \<open>FeedUpdated\<close>. Of a schema name only that it is a string is used.
\<close>

section \<open>Instruments of a message\<close>

record MetricInfo =
  mi_Name :: string
  mi_Unit :: string
  mi_Description :: string

record MetricsInfoCapBasic =
  ib_count :: MetricInfo
  ib_capTimestampStart :: MetricInfo
  ib_capTimestampEmit :: MetricInfo
  ib_capDuration :: MetricInfo

definition quoted :: "string \<Rightarrow> string" where
  "quoted s = [CHR 0x27] @ s @ [CHR 0x27]"

definition NewMetricsInfoCapBasic :: "string \<Rightarrow> string \<Rightarrow> MetricsInfoCapBasic" where
  "NewMetricsInfoCapBasic metricPrefix eventRef =
     \<lparr>ib_count = \<lparr>mi_Name = metricPrefix @ ''_count'', mi_Unit = [],
        mi_Description = ''The count of message: '' @ quoted eventRef @ '' emitted''\<rparr>,
      ib_capTimestampStart = \<lparr>mi_Name = metricPrefix @ ''_cap_timestamp_start'', mi_Unit = ''ms'',
        mi_Description = ''The timestamp (local) at capability exec start that resulted in message: '' @ quoted eventRef @ '' emit''\<rparr>,
      ib_capTimestampEmit = \<lparr>mi_Name = metricPrefix @ ''_cap_timestamp_emit'', mi_Unit = ''ms'',
        mi_Description = ''The timestamp (local) at message: '' @ quoted eventRef @ '' emit''\<rparr>,
      ib_capDuration = \<lparr>mi_Name = metricPrefix @ ''_cap_duration'', mi_Unit = ''ms'',
        mi_Description = ''The duration (local) since capability exec start to message: '' @ quoted eventRef @ '' emit''\<rparr>\<rparr>"

record MetricsCapBasic =
  cb_count :: otel_inst
  cb_capTimestampStart :: otel_inst
  cb_capTimestampEmit :: otel_inst
  cb_capDuration :: otel_inst

definition new_inst :: "meter \<Rightarrow> otel_kind \<Rightarrow> MetricInfo \<Rightarrow> string \<Rightarrow> (otel_inst \<Rightarrow> wt_error + 'm) \<Rightarrow> wt_error + 'm" where
  "new_inst meter kind info msg k =
     (case meter kind (mi_Name info) of
        Some err \<Rightarrow> Inl (WtWrapped msg (WtErr err))
      | None \<Rightarrow> k \<lparr>oi_kind = kind, oi_name = mi_Name info\<rparr>)"

abbreviation new_gauge :: "meter \<Rightarrow> MetricInfo \<Rightarrow> (otel_inst \<Rightarrow> wt_error + 'm) \<Rightarrow> wt_error + 'm" where
  "new_gauge meter info \<equiv> new_inst meter Int64Gauge info ''failed to create new gauge''"

definition NewMetricsCapBasic :: "meter \<Rightarrow> MetricsInfoCapBasic \<Rightarrow> wt_error + MetricsCapBasic" where
  "NewMetricsCapBasic meter info =
     new_inst meter Int64Counter (ib_count info) ''failed to create new counter'' (\<lambda>count.
     new_gauge meter (ib_capTimestampStart info) (\<lambda>tsStart.
     new_gauge meter (ib_capTimestampEmit info) (\<lambda>tsEmit.
     new_gauge meter (ib_capDuration info) (\<lambda>duration.
       Inr \<lparr>cb_count = count, cb_capTimestampStart = tsStart, cb_capTimestampEmit = tsEmit, cb_capDuration = duration\<rparr>))))"

definition new_basic :: "meter \<Rightarrow> MetricsInfoCapBasic \<Rightarrow> (MetricsCapBasic \<Rightarrow> wt_error + 'm) \<Rightarrow> wt_error + 'm" where
  "new_basic meter info k =
     (case NewMetricsCapBasic meter info of
        Inl err \<Rightarrow> Inl (WtWrapped ''failed to create new basic metrics'' err)
      | Inr b \<Rightarrow> k b)"

section \<open>Write target\<close>

record platform_metrics =
  pm_writeInitiated :: MetricsCapBasic
  pm_writeError :: MetricsCapBasic
  pm_writeSent :: MetricsCapBasic
  pm_writeSent_blockTimestamp :: otel_inst
  pm_writeSent_blockNumber :: otel_inst
  pm_writeConfirmed :: MetricsCapBasic
  pm_writeConfirmed_blockTimestamp :: otel_inst
  pm_writeConfirmed_blockNumber :: otel_inst
  pm_writeConfirmed_signersNumber :: otel_inst

definition platform_NewMetrics :: "meter \<Rightarrow> (string \<Rightarrow> string) \<Rightarrow> wt_error + platform_metrics" where
  "platform_NewMetrics meter schema =
     new_basic meter (NewMetricsInfoCapBasic (platform_ns ''write_initiated'') (schema ''WriteInitiated'')) (\<lambda>initiated.
     new_basic meter (NewMetricsInfoCapBasic (platform_ns ''write_error'') (schema ''WriteError'')) (\<lambda>error.
     new_basic meter (NewMetricsInfoCapBasic (platform_ns ''write_sent'') (schema ''WriteSent'')) (\<lambda>sent.
     new_gauge meter \<lparr>mi_Name = platform_ns ''write_sent_block_timestamp'', mi_Unit = ''ms'',
        mi_Description = ''The block timestamp at the latest sent write (as observed)''\<rparr> (\<lambda>sentTimestamp.
     new_gauge meter \<lparr>mi_Name = platform_ns ''write_sent_block_number'', mi_Unit = [],
        mi_Description = ''The block number at the latest sent write (as observed)''\<rparr> (\<lambda>sentNumber.
     new_basic meter (NewMetricsInfoCapBasic (platform_ns ''write_confirmed'') (schema ''WriteConfirmed'')) (\<lambda>confirmed.
     new_gauge meter \<lparr>mi_Name = platform_ns ''write_confirmed_block_timestamp'', mi_Unit = ''ms'',
        mi_Description = ''The block timestamp for latest confirmed write (as observed)''\<rparr> (\<lambda>confirmedTimestamp.
     new_gauge meter \<lparr>mi_Name = platform_ns ''write_confirmed_block_number'', mi_Unit = [],
        mi_Description = ''The block number for latest confirmed write (as observed)''\<rparr> (\<lambda>confirmedNumber.
     new_gauge meter \<lparr>mi_Name = platform_ns ''write_confirmed_signers_number'', mi_Unit = [],
        mi_Description = ''The number of signers attached to the processed and confirmed write request''\<rparr> (\<lambda>signers.
       Inr \<lparr>pm_writeInitiated = initiated, pm_writeError = error, pm_writeSent = sent,
            pm_writeSent_blockTimestamp = sentTimestamp, pm_writeSent_blockNumber = sentNumber,
            pm_writeConfirmed = confirmed, pm_writeConfirmed_blockTimestamp = confirmedTimestamp,
            pm_writeConfirmed_blockNumber = confirmedNumber, pm_writeConfirmed_signersNumber = signers\<rparr>)))))))))"

section \<open>Forwarder\<close>

record forwarder_metrics =
  fm_reportProcessed :: MetricsCapBasic
  fm_blockTimestamp :: otel_inst
  fm_blockNumber :: otel_inst

definition forwarder_NewMetrics :: "meter \<Rightarrow> (string \<Rightarrow> string) \<Rightarrow> wt_error + forwarder_metrics" where
  "forwarder_NewMetrics meter schema =
     new_basic meter (NewMetricsInfoCapBasic (forwarder_ns ''report_processed'') (schema ''ReportProcessed'')) (\<lambda>basic.
     new_gauge meter \<lparr>mi_Name = forwarder_ns ''report_processed_block_timestamp'', mi_Unit = ''ms'',
        mi_Description = ''The block timestamp at the latest confirmed write (as observed)''\<rparr> (\<lambda>blockTimestamp.
     new_gauge meter \<lparr>mi_Name = forwarder_ns ''report_processed_block_number'', mi_Unit = [],
        mi_Description = ''The block number at the latest confirmed write (as observed)''\<rparr> (\<lambda>blockNumber.
       Inr \<lparr>fm_reportProcessed = basic, fm_blockTimestamp = blockTimestamp, fm_blockNumber = blockNumber\<rparr>)))"

section \<open>Data-feed registry\<close>

definition registry_ns :: "string \<Rightarrow> string" where
  "registry_ns name = ''data_feeds_on_chain_registry_'' @ name"

record registry_metrics =
  gm_feedUpdated :: MetricsCapBasic
  gm_observationsTimestamp :: otel_inst
  gm_duration :: otel_inst
  gm_benchmark :: otel_inst
  gm_blockTimestamp :: otel_inst
  gm_blockNumber :: otel_inst

definition observations_info :: MetricInfo where
  "observations_info =
     \<lparr>mi_Name = registry_ns ''feed_updated_observations_timestamp'', mi_Unit = ''ms'',
      mi_Description = ''The observations timestamp for the latest confirmed update (as reported)''\<rparr>"

definition registry_NewMetrics :: "meter \<Rightarrow> (string \<Rightarrow> string) \<Rightarrow> wt_error + registry_metrics" where
  "registry_NewMetrics meter schema =
     new_basic meter (NewMetricsInfoCapBasic (registry_ns ''feed_updated'') (schema ''FeedUpdated'')) (\<lambda>basic.
     new_gauge meter observations_info (\<lambda>observationsTimestamp.
     new_gauge meter \<lparr>mi_Name = registry_ns ''feed_updated_duration'', mi_Unit = ''ms'',
        mi_Description = ''The duration (local) since observation to message: '' @ quoted ''datafeeds.on-chain.registry.FeedUpdated'' @ '' emit''\<rparr>
        (\<lambda>duration.
     new_inst meter Float64Gauge \<lparr>mi_Name = registry_ns ''feed_updated_benchmark'', mi_Unit = [],
        mi_Description = ''The benchmark value for the latest confirmed update (as reported)''\<rparr> ''failed to create new gauge'' (\<lambda>benchmark.
     new_gauge meter \<lparr>mi_Name = registry_ns ''feed_updated_block_timestamp'', mi_Unit = ''ms'',
        mi_Description = ''The block timestamp at the latest confirmed update (as observed)''\<rparr> (\<lambda>blockTimestamp.
     new_gauge meter \<lparr>mi_Name = registry_ns ''feed_updated_block_number'', mi_Unit = [],
        mi_Description = ''The block number at the latest confirmed update (as observed)''\<rparr> (\<lambda>blockNumber.
       Inr \<lparr>gm_feedUpdated = basic, gm_observationsTimestamp = observationsTimestamp, gm_duration = duration,
            gm_benchmark = benchmark, gm_blockTimestamp = blockTimestamp, gm_blockNumber = blockNumber\<rparr>))))))"

record feed_updated =
  fu_FeedId :: string
  fu_ObservationsTimestamp :: "32 word"
  fu_BenchmarkVal :: rat
  fu_BlockData :: block_data
  fu_TxSender :: string
  fu_TxReceiver :: string
  fu_ExecutionContext :: exec_context

definition FeedUpdated_Attributes :: "feed_updated \<Rightarrow> attribute list" where
  "FeedUpdated_Attributes m =
     [AttrString ''tx_sender'' (fu_TxSender m), AttrString ''tx_receiver'' (fu_TxReceiver m),
      AttrString ''feed_id'' (fu_FeedId m),
      AttrBool ''observed_by_transmitter'' (fu_TxSender m = MetaSourceId (fu_ExecutionContext m))] @
     context_Attributes (fu_ExecutionContext m)"

text \<open>A value recorded by an instrument.\<close>

type_synonym otel_record = "otel_inst \<times> rat \<times> attribute list"

definition basic_RecordEmit :: "MetricsCapBasic \<Rightarrow> 64 word \<Rightarrow> 64 word \<Rightarrow> attribute list \<Rightarrow> otel_record list" where
  "basic_RecordEmit b tsStart tsEmit attrs =
     [(cb_count b, 1, attrs), (cb_capTimestampStart b, of_int (sint tsStart), attrs),
      (cb_capTimestampEmit b, of_int (sint tsEmit), attrs), (cb_capDuration b, of_int (sint (tsEmit - tsStart)), attrs)]"

definition OnFeedUpdated :: "registry_metrics \<Rightarrow> feed_updated \<Rightarrow> wt_error option \<times> otel_record list" where
  "OnFeedUpdated m msg =
     (let attrs = FeedUpdated_Attributes msg;
          tsStart = MetaCapabilityTimestampStart (fu_ExecutionContext msg);
          tsEmit = MetaCapabilityTimestampEmit (fu_ExecutionContext msg);
          observation = (ucast (fu_ObservationsTimestamp msg) :: 64 word) * 1000;
          recorded = basic_RecordEmit (gm_feedUpdated m) tsStart tsEmit attrs @
            [(gm_observationsTimestamp m, of_int (uint (fu_ObservationsTimestamp msg)), attrs),
             (gm_duration m, of_int (sint (tsEmit - observation)), attrs),
             (gm_benchmark m, fu_BenchmarkVal msg, attrs),
             (gm_blockTimestamp m, of_int (sint (BlockTimestamp (fu_BlockData msg))), attrs)]
      in case ParseInt64 (BlockHeight (fu_BlockData msg)) of
           Inl err \<Rightarrow> (Some (WtWrapped ''failed to parse block height'' (WtErr err)), recorded)
         | Inr blockHeightVal \<Rightarrow> (None, recorded @ [(gm_blockNumber m, of_int blockHeightVal, attrs)]))"

section \<open>Lemmas\<close>

lemma new_inst_Inr:
  "new_inst meter kind info msg k = Inr m \<longleftrightarrow> meter kind (mi_Name info) = None \<and> k \<lparr>oi_kind = kind, oi_name = mi_Name info\<rparr> = Inr m"
  by (auto simp: new_inst_def split: option.splits)

definition basic_named :: "string \<Rightarrow> MetricsCapBasic" where
  "basic_named prefix =
     \<lparr>cb_count = \<lparr>oi_kind = Int64Counter, oi_name = prefix @ ''_count''\<rparr>,
      cb_capTimestampStart = \<lparr>oi_kind = Int64Gauge, oi_name = prefix @ ''_cap_timestamp_start''\<rparr>,
      cb_capTimestampEmit = \<lparr>oi_kind = Int64Gauge, oi_name = prefix @ ''_cap_timestamp_emit''\<rparr>,
      cb_capDuration = \<lparr>oi_kind = Int64Gauge, oi_name = prefix @ ''_cap_duration''\<rparr>\<rparr>"

lemma new_basic_Inr:
  "new_basic meter (NewMetricsInfoCapBasic prefix ref) k = Inr m \<Longrightarrow> k (basic_named prefix) = Inr m"
  by (auto simp: new_basic_def NewMetricsCapBasic_def NewMetricsInfoCapBasic_def new_inst_Inr basic_named_def split: sum.splits)

definition basic_insts :: "MetricsCapBasic \<Rightarrow> otel_inst list" where
  "basic_insts b = [cb_count b, cb_capTimestampStart b, cb_capTimestampEmit b, cb_capDuration b]"

definition platform_insts :: "platform_metrics \<Rightarrow> otel_inst list" where
  "platform_insts m =
     basic_insts (pm_writeInitiated m) @ basic_insts (pm_writeError m) @ basic_insts (pm_writeSent m) @
     [pm_writeSent_blockTimestamp m, pm_writeSent_blockNumber m] @ basic_insts (pm_writeConfirmed m) @
     [pm_writeConfirmed_blockTimestamp m, pm_writeConfirmed_blockNumber m, pm_writeConfirmed_signersNumber m]"

definition forwarder_insts :: "forwarder_metrics \<Rightarrow> otel_inst list" where
  "forwarder_insts m = basic_insts (fm_reportProcessed m) @ [fm_blockTimestamp m, fm_blockNumber m]"

text \<open>A metric is recorded by an instrument of the right kind.\<close>

fun recorded_by :: "otel_inst list \<Rightarrow> wt_effect \<Rightarrow> bool" where
  "recorded_by is (Counted n as) = (\<lparr>oi_kind = Int64Counter, oi_name = n\<rparr> \<in> set is)"
| "recorded_by is (Gauged n x as) = (\<lparr>oi_kind = Int64Gauge, oi_name = n\<rparr> \<in> set is)"
| "recorded_by is _ = True"

definition all_recorded :: "otel_inst list \<Rightarrow> 'w wt \<Rightarrow> bool" where
  "all_recorded is s \<longleftrightarrow> (\<forall>e\<in>set (wt_effects s). recorded_by is e)"

lemma kept_wt_emits [keeps]: "\<forall>e\<in>set es. recorded_by is e \<Longrightarrow> kept (all_recorded is) (wt_emits es)"
  unfolding wt_emits_def by (rule kept_updates) (auto simp: all_recorded_def)

lemma kept_wt_call [keeps]: "kept (all_recorded is) (wt_call f)"
  by (rule keptI) (auto simp: wt_call_def all_recorded_def split: prod.splits)

lemma kept_RecordEmit [keeps]:
  "set (basic_insts (basic_named p)) \<subseteq> set is \<Longrightarrow> kept (all_recorded is) (RecordEmit p a b as)"
  unfolding RecordEmit_def by (rule kept_wt_emits) (auto simp: basic_insts_def basic_named_def)

lemma kept_record_block [keeps]:
  assumes "\<lparr>oi_kind = Int64Gauge, oi_name = p @ ''_block_timestamp''\<rparr> \<in> set is"
    and "\<lparr>oi_kind = Int64Gauge, oi_name = p @ ''_block_number''\<rparr> \<in> set is"
  shows "kept (all_recorded is) (record_block p bd as)"
  unfolding record_block_def using assms by (auto intro!: keeps split: sum.split)

lemma platform_built:
  "platform_NewMetrics meter schema = Inr m \<Longrightarrow>
   m = \<lparr>pm_writeInitiated = basic_named (platform_ns ''write_initiated''), pm_writeError = basic_named (platform_ns ''write_error''),
        pm_writeSent = basic_named (platform_ns ''write_sent''),
        pm_writeSent_blockTimestamp = \<lparr>oi_kind = Int64Gauge, oi_name = platform_ns ''write_sent_block_timestamp''\<rparr>,
        pm_writeSent_blockNumber = \<lparr>oi_kind = Int64Gauge, oi_name = platform_ns ''write_sent_block_number''\<rparr>,
        pm_writeConfirmed = basic_named (platform_ns ''write_confirmed''),
        pm_writeConfirmed_blockTimestamp = \<lparr>oi_kind = Int64Gauge, oi_name = platform_ns ''write_confirmed_block_timestamp''\<rparr>,
        pm_writeConfirmed_blockNumber = \<lparr>oi_kind = Int64Gauge, oi_name = platform_ns ''write_confirmed_block_number''\<rparr>,
        pm_writeConfirmed_signersNumber = \<lparr>oi_kind = Int64Gauge, oi_name = platform_ns ''write_confirmed_signers_number''\<rparr>\<rparr>"
  unfolding platform_NewMetrics_def by (auto simp: new_inst_Inr dest!: new_basic_Inr)

lemma forwarder_built:
  "forwarder_NewMetrics meter schema = Inr m \<Longrightarrow>
   m = \<lparr>fm_reportProcessed = basic_named (forwarder_ns ''report_processed''),
        fm_blockTimestamp = \<lparr>oi_kind = Int64Gauge, oi_name = forwarder_ns ''report_processed_block_timestamp''\<rparr>,
        fm_blockNumber = \<lparr>oi_kind = Int64Gauge, oi_name = forwarder_ns ''report_processed_block_number''\<rparr>\<rparr>"
  unfolding forwarder_NewMetrics_def by (auto simp: new_inst_Inr dest!: new_basic_Inr)

text \<open>The processors of the platform record only with instruments that have been created.\<close>

lemma write_target_metrics_recorded:
  assumes "platform_NewMetrics meter schema = Inr m"
  shows "kept (all_recorded (platform_insts m)) (wt_Process msg)"
  using platform_built [OF assms]
  by (cases msg)
    (auto intro!: keeps simp: OnWriteInitiated_def OnWriteError_def OnWriteSent_def OnWriteConfirmed_def platform_insts_def platform_ns_def)

lemma forwarder_metrics_recorded:
  assumes "forwarder_NewMetrics meter schema = Inr m"
  shows "kept (all_recorded (forwarder_insts m)) (keystone_Process dec emitter msg)"
  using forwarder_built [OF assms]
  by (cases msg)
    (auto intro!: keeps simp: OnReportProcessed_def base_emit_def forwarder_insts_def forwarder_ns_def split: sum.split)

text \<open>The conversion of the observation's seconds does not overflow; the gauge of the observation, which is declared in
  milliseconds, records the seconds.\<close>

lemma observation_milliseconds:
  fixes w :: "32 word"
  shows "uint ((ucast w :: 64 word) * 1000) = uint w * 1000"
proof -
  have "uint w < 2 ^ 32" using uint_lt2p [of w] by simp
  then have "(uint w * 1000) mod 2 ^ 64 = uint w * 1000" by (intro mod_pos_pos_trivial) simp_all
  then show ?thesis by (simp add: uint_word_ariths uint_up_ucast is_up)
qed

lemma observation_recorded_in_seconds:
  "mi_Unit observations_info = ''ms'' \<and>
   (gm_observationsTimestamp m, of_int (uint (fu_ObservationsTimestamp msg)), FeedUpdated_Attributes msg) \<in> set (snd (OnFeedUpdated m msg))"
  by (simp add: observations_info_def OnFeedUpdated_def Let_def split: sum.split)

end
