(* ===== verification/Spec2Isabelle.thy ===== *)
theory Spec2Isabelle
  imports Pool_Service Sender_System Fees Head_Listener Head_Service Tx_Api Write_Target
    Poller Multinode_Config Rpc_Sanitize Rpc_Metrics Service_Metrics Wt_Instruments
begin

text \<open>
  A verification development of the chain framework: the multi-node RPC client (\<open>multinode/\<close>), the head
  tracking (\<open>chains/heads/\<close>), the fee arithmetic (\<open>chains/fees/\<close>), the transaction manager
  (\<open>chains/txmgr/\<close>), the write target capability (\<open>capabilities/writetarget/\<close>) and the metrics (\<open>metrics/\<close>).

  \<^bold>\<open>The program.\<close> A \<open>MultiNode\<close> keeps a pool of RPC nodes for one chain. Each node runs one lifecycle goroutine
  that dials, verifies and monitors its endpoint and moves it through the states of \<open>node_fsm.go\<close>; the
  endpoint's client (\<open>RPCClientBase\<close>) records the chain information it sees, per life cycle and for all time.
  The pool offers the chain information of its live nodes back to the nodes (\<open>PoolChainInfoProvider\<close>), selects
  the node callers use with one of five strategies, and broadcasts transactions to all nodes. On top of a client,
  the head listener, tracker and broadcaster follow the longest chain and relay it to subscribers. The transaction
  manager (\<open>Txm\<close>) takes transactions into a store; its broadcaster gives each the next sequence of its sender and
  sends it, its confirmer follows the chain and marks, bumps, purges and resends, its tracker follows the transactions of
  removed senders, and the resender and reaper repeat and forget; a reset stops the first three, runs a function and starts
  them again. The write target puts the signed report of a workflow on chain: it checks the request and the state on chain,
  transmits, and waits for the transaction and then for the report to be visible, emitting a monitoring message at each stage.

  \<^bold>\<open>Theories.\<close>
  \<^item> \<open>Go_Prelude\<close>: outcomes that may panic, fixed-width integers, list lemmas, transition systems.
  \<^item> \<open>Chain_Info\<close> (\<open>types.go\<close>, \<open>models.go\<close>): chain information and its order, reply codes, node tiers, sync-status
    flags and how they are printed.
  \<^item> \<open>Rpc_Client_Base\<close> (\<open>rpc_client_base.go\<close>): one operation per method, and \<open>rpc_step\<close>, the interleaving of
    requests in flight, subscriptions and the two halves of \<open>Close\<close>. Shown: freshness of the latest chain
    information, monotonicity of the user observations, the effect of the queries, of \<open>Close\<close> and of
    subscribing while the life cycle is cancelled.
  \<^item> \<open>Poller\<close> (\<open>poller.go\<close>): the poller behind a subscription to heads, interleaved with its receiver and its \<open>Close\<close>. Shown: what it
    delivers, and that it never sends on a closed channel because the service engine waits for its goroutine.
  \<^item> \<open>Multinode_Config\<close> (\<open>config/config.go\<close>, \<open>utils.go\<close>, \<open>ctx.go\<close>): the settings of a pool laid over each other by \<open>SetFrom\<close>. Shown:
    the last file that has a setting decides, and over complete defaults no getter dereferences nil.
  \<^item> \<open>Rpc_Sanitize\<close> (\<open>sanitize_error.go\<close>): the redaction of URLs, its regular expression written out as a matcher. Shown: no
    match is left in a sanitized error.
  \<^item> \<open>Node_Fsm\<close> (\<open>node_fsm.go\<close>, \<open>node.go\<close>): the node as a record, guarded transitions, verification, start.
  \<^item> \<open>Node_Lifecycle\<close> (\<open>node_lifecycle.go\<close>): each loop as its sanity check, its set-up and the handler of one
    event of its \<open>select\<close>.
  \<^item> \<open>Node_System\<close>: an abstract state machine, the graph of the node's states, and \<open>node_step\<close>, which
    interleaves the sections of the lifecycle goroutine with \<open>Close\<close>, with
    deferred clean-ups and with the rest of the program. Shown: which panics are possible, that the state names
    the running loop, that the system is simulated by the graph (locale \<open>simulation\<close>), and that \<open>Closed\<close> can be
    overwritten.
  \<^item> \<open>Node_Health\<close>: what the loops decide: the last live node stays, the poll counter, the ways back into sync,
    the recovery probe.
  \<^item> \<open>Node_Selectors\<close> (\<open>node_selector*.go\<close>): the strategies behind the locale \<open>node_selector\<close>, interpreted for
    each of them and for their union.
  \<^item> \<open>Send_Only_Node\<close> (\<open>send_only_node*.go\<close>): start, verification loop, \<open>Close\<close> and their interleaving.
  \<^item> \<open>Multi_Node\<close> (\<open>multi_node.go\<close>): the pool; the locale \<open>pool_info_provider\<close> is what nodes rely on and is
    interpreted by the pool's own functions. Shown: repeatable read, node selection, the lease check, \<open>DoAll\<close>,
    the pool's chain information and its health report.
  \<^item> \<open>Pool_Service\<close> (\<open>multi_node.go\<close>, \<open>rpc_client_base.go\<close>): \<open>SelectRPC\<close>, the lease and reporting loops over all their ticks and the
    contexts of queries. Shown: over a run of the reporting loop, when the pool is declared dead, and that the context of a
    query lives as long as the life cycle in which it was acquired.
  \<^item> \<open>Transaction_Sender\<close> (\<open>transaction_sender.go\<close>): collection of replies with quorum and soft timeout,
    aggregation and anomaly report.
  \<^item> \<open>Sender_System\<close> (\<open>transaction_sender.go\<close>): the goroutines of one \<open>SendTransaction\<close>, one step per communication, interleaved
    with the cancellation of the context and with \<open>Close\<close>. Shown: no panic on a channel or wait group, no goroutine left when
    \<open>Close\<close> returns, no deadlock and no infinite run, and which contradictions between replies are reported.
  \<^item> \<open>Fees\<close> (\<open>fees.go\<close>): bumped prices and fee limits.
  \<^item> \<open>Head_Broadcaster\<close>, \<open>Head_Listener\<close>, \<open>Head_Tracker\<close> (\<open>chains/heads\<close>): subscriptions to heads, the listen
    loop, new heads, finality checks and backfill, over an arbitrary head type, saver and client.
  \<^item> \<open>Head_Service\<close> (\<open>chains/heads\<close>): listener, tracker, mailboxes, broadcaster and subscribers as one system. Shown: every
    subscriber sees heads of strictly increasing block number, the one it got when it subscribed included.
  \<^item> \<open>Go_Monad\<close>: programs over a state that return a value or an error, panic, or do not end; the invariant
    calculus \<open>keeps\<close> and the termination calculus \<open>ends\<close> the transaction manager's proofs use.
  \<^item> \<open>Tx_Types\<close> (\<open>types/tx.go\<close>, \<open>models.go\<close>, \<open>strategies.go\<close>): transactions, attempts, their states, errors
    and the queueing strategies.
  \<^item> \<open>Tx_Meta\<close> (\<open>types/tx.go\<close>): metadata, transmit checkers and the fields of loggers, over a JSON codec.
  \<^item> \<open>Tx_Broadcaster\<close> (\<open>broadcaster.go\<close>): the handling of a sender's queue. Shown: the sequences handed over
    have no gap, the fate of each transaction, and that bumping ends.
  \<^item> \<open>Tx_Confirmer\<close> (\<open>confirmer.go\<close>): all steps of processing a head. Shown: the fate of an attempt, when its handling
    ends and when it does not, what a confirmation check marks, and which transactions are sent again.
  \<^item> \<open>Tx_Tracker\<close> (\<open>tracker.go\<close>), \<open>Tx_Maintenance\<close> (\<open>resender.go\<close>, \<open>reaper.go\<close>): passes over abandoned
    transactions, the time to live, the alerts and the reaper's channel.
  \<^item> \<open>Tx_Service\<close>: starting and stopping the broadcaster, and the locale \<open>resetable_service\<close>, the contract of a reset,
    interpreted for broadcaster, confirmer and tracker.
  \<^item> \<open>Tx_Manager\<close> (\<open>txmgr.go\<close>): the run loop with its resets, creating transactions, the queries. Shown:
    what creating a transaction does and that it is idempotent, and two errors of resets.
  \<^item> \<open>Tx_Lifecycle\<close> (\<open>txmgr.go\<close>): construction, \<open>Start\<close>, \<open>Close\<close> and the calls from outside. Shown: a manager that has
    started never panics in its run loop, a start that fails at the forwarder manager leaves a loop behind that does, and
    \<open>Close\<close> loses the errors of its services.
  \<^item> \<open>Tx_Api\<close> (\<open>txmgr.go\<close>): the interface \<open>TxManager\<close> as a record, the null manager, the queries that go to the store, the health
    report, the constructors of the services and the error of a disabled key. Shown: by which errors that error is found, and
    what the health report names.
  \<^item> \<open>Wt_Messages\<close> (\<open>messages.go\<close>, \<open>report/platform/types.go\<close>, \<open>beholder/metadata.go\<close>): the data of a write, its messages
    and their attributes. \<open>Wt_Monitor\<close> (\<open>write_target_monitor.go\<close>, \<open>processor.go\<close>): the emitter that processes what it emits,
    the processors and their metrics; the locale \<open>proto_emitter\<close> is what the target relies on, interpreted by that emitter.
  \<^item> \<open>Write_Target\<close> (\<open>write_target.go\<close>, \<open>retry.go\<close>): \<open>Execute\<close> in its stages and the loops it waits in, over a calculus of what a
    program may add, and an inductive protocol of a write. Shown: every run is one of the protocol, so that at most one report
    is transmitted, and only one that belongs to the request; each outcome is reported once; when \<open>Execute\<close> panics; that it ends.
  \<^item> \<open>Wt_Instruments\<close> (\<open>beholder/common.go\<close> and the three \<open>NewMetrics\<close>): the instruments behind those metrics and the metrics of
    data-feed updates. Shown: the processors record only with instruments that exist and have the right kind.
  \<^item> \<open>Metrics_Base\<close>, \<open>Multinode_Metrics\<close>, \<open>Service_Metrics\<close>, \<open>Rpc_Metrics\<close> (\<open>metrics/\<close>): Prometheus and OpenTelemetry series, the
    construction of the instruments and one definition per recording method. Shown: both systems get the same samples and no
    call panics but one that decreases a counter; the label \<open>success\<close> of RPC calls is inverted.

  \<^bold>\<open>Conventions.\<close> State is a record passed explicitly. A method that can panic returns an \<open>outcome\<close>; an error is
  the left side of a sum or an option. Answers of remote endpoints, of other goroutines and of the clock are
  arguments: an event carries what its channel delivered, and a function argument such as \<open>during\<close> is what
  the rest of the program does while a lock is free. A loop consumes a list of events and says whether the
  list sufficed to end it, so no fuel is chosen anywhere: every theorem holds for all lists. The retries of the
  transaction manager, which end only if the client's answers do, are \<open>partial_function\<close>s whose value is \<^term>\<open>None\<close> when
  they do not end. Logging is left out;
  metrics are effects where the code's control flow counts them. Libraries outside the repository
  (\<open>bigmath\<close>, decimals, jitter, mailboxes, the chain-specific head, saver and client) are parameters, with what
  is relied on as named hypotheses.

  \<^bold>\<open>Not modelled.\<close> Generated protobuf code and interface declarations, which have no behaviour of their own; test
  helpers; constants of back-offs; names of services and loggers; tracing spans and the Beholder client.
\<close>

end
